(* ===== verification/Prelude.thy ===== *)
theory Prelude
  imports Main "HOL-Library.AList" "HOL-Library.List_Lexorder" "HOL-Library.Char_ord"
begin

text \<open>
  What every component of the development shares: results of code that may raise
  (\<open>error + 'a\<close>), Python dictionaries as association lists in insertion order,
  the handful of string operations the code uses (\<open>str(int)\<close>, \<open>int(str)\<close>,
  \<open>str.split(sep, n)\<close>, \<open>str.strip()\<close>), and the run of a guarded machine over a list
  of commands, with the invariant rule every state machine of the development uses.
\<close>

section \<open>Collections of facts\<close>

named_theorems dict_simps "laws of Python dictionaries"
named_theorems state_simps "frame laws of the operations of a component"

section \<open>Results of code that may raise\<close>

text \<open>The exception classes the modelled code raises; the message text is not modelled.\<close>

datatype error =
    ValueError
  | TypeError
  | KeyError
  | RuntimeError
  | AttributeError
  | DbError
  | ZeroDivisionError
  | StructError

type_synonym 'a result = "error + 'a"

fun bind_result :: "'a result \<Rightarrow> ('a \<Rightarrow> 'b result) \<Rightarrow> 'b result" where
  "bind_result (Inl e) f = Inl e"
| "bind_result (Inr a) f = f a"

definition guard :: "bool \<Rightarrow> error \<Rightarrow> 'a result \<Rightarrow> 'a result" where
  "guard ok e r = (if ok then r else Inl e)"

lemma guard_Inr [simp]: "guard ok e r = Inr a \<longleftrightarrow> ok \<and> r = Inr a"
  by (simp add: guard_def)

lemma guard_True [simp]: "guard True e r = r"
  by (simp add: guard_def)

lemma guard_False [simp]: "guard False e r = Inl e"
  by (simp add: guard_def)

lemma bind_result_Inr [simp]:
  "bind_result r f = Inr b \<longleftrightarrow> (\<exists>a. r = Inr a \<and> f a = Inr b)"
  by (cases r) auto

lemma map_sum_Inr [simp]: "map_sum id f r = Inr b \<longleftrightarrow> (\<exists>a. r = Inr a \<and> f a = b)"
  by (cases r) auto

section \<open>Python dictionaries\<close>

text \<open>
  A \<open>dict\<close> keeps insertion order and its keys are distinct: an association list.
  Assigning to an existing key keeps its position, assigning to a new one appends it
  (\<open>AList.update\<close>), \<open>pop\<close> removes it (\<open>AList.delete\<close>), \<open>get\<close> is \<open>map_of\<close>.
\<close>

type_synonym ('k, 'v) dict = "('k \<times> 'v) list"

definition dict_ok :: "('k, 'v) dict \<Rightarrow> bool" where
  "dict_ok d = distinct (map fst d)"

abbreviation dict_get :: "('k, 'v) dict \<Rightarrow> 'k \<Rightarrow> 'v option" where
  "dict_get d k \<equiv> map_of d k"

abbreviation dict_set :: "'k \<Rightarrow> 'v \<Rightarrow> ('k, 'v) dict \<Rightarrow> ('k, 'v) dict" where
  "dict_set \<equiv> AList.update"

abbreviation dict_pop :: "'k \<Rightarrow> ('k, 'v) dict \<Rightarrow> ('k, 'v) dict" where
  "dict_pop \<equiv> AList.delete"

abbreviation dict_values :: "('k, 'v) dict \<Rightarrow> 'v list" where
  "dict_values d \<equiv> map snd d"

lemma dict_get_set [simp, dict_simps]:
  "dict_get (dict_set k v d) k' = (if k' = k then Some v else dict_get d k')"
  by (simp add: update_conv')

lemma dict_get_pop [simp, dict_simps]:
  "dict_get (dict_pop k d) k' = (if k' = k then None else dict_get d k')"
  by (simp add: delete_conv')

lemma dict_ok_Nil [simp, dict_simps]: "dict_ok []"
  by (simp add: dict_ok_def)

lemma dict_ok_set [simp, dict_simps]: "dict_ok d \<Longrightarrow> dict_ok (dict_set k v d)"
  by (simp add: dict_ok_def distinct_update)

lemma dict_ok_pop [simp, dict_simps]: "dict_ok d \<Longrightarrow> dict_ok (dict_pop k d)"
  by (simp add: dict_ok_def distinct_delete)

lemma dict_set_new: "dict_get d k = None \<Longrightarrow> dict_set k v d = d @ [(k, v)]"
  by (induction d) (auto split: if_splits)

lemma in_set_dict_set:
  "x \<in> set (dict_set k v d) \<Longrightarrow> x = (k, v) \<or> x \<in> set d"
  by (induction d) (auto split: if_splits)

lemma sum_list_dict_set:
  fixes f :: "'v \<Rightarrow> int"
  assumes "dict_ok d"
  shows "sum_list (map (f \<circ> snd) (dict_set k v d)) =
         sum_list (map (f \<circ> snd) d) + f v - (case dict_get d k of None \<Rightarrow> 0 | Some w \<Rightarrow> f w)"
  using assms by (induction d) (auto simp: dict_ok_def split: option.splits)

section \<open>Strings\<close>

text \<open>
  Characters are \<open>char\<close> (code points up to 255); comparison of strings is Python's, by
  code point from the left (\<open>List_Lexorder\<close> over \<open>Char_ord\<close>).
\<close>

definition is_digit :: "char \<Rightarrow> bool" where
  "is_digit c = (48 \<le> (of_char c :: nat) \<and> (of_char c :: nat) \<le> 57)"

definition digit_val :: "char \<Rightarrow> nat" where
  "digit_val c = of_char c - 48"

definition digit_char :: "nat \<Rightarrow> char" where
  "digit_char d = char_of (48 + d)"

text \<open>What \<open>str.strip()\<close> drops: the whitespace of \<open>str.isspace\<close> among these code points.\<close>

definition is_space :: "char \<Rightarrow> bool" where
  "is_space c = (let n = (of_char c :: nat) in
     (9 \<le> n \<and> n \<le> 13) \<or> (28 \<le> n \<and> n \<le> 32) \<or> n = 133 \<or> n = 160)"

definition py_strip :: "string \<Rightarrow> string" where
  "py_strip s = rev (dropWhile is_space (rev (dropWhile is_space s)))"

fun show_nat :: "nat \<Rightarrow> string" where
  "show_nat n = (if n < 10 then [digit_char n] else show_nat (n div 10) @ [digit_char (n mod 10)])"

declare show_nat.simps [simp del]

definition show_int :: "int \<Rightarrow> string" where
  "show_int i = (if i < 0 then CHR ''-'' # show_nat (nat (- i)) else show_nat (nat i))"

text \<open>\<open>str.zfill(n)\<close> of a text without a sign, and \<open>str.lower()\<close> on these code points.\<close>

definition pad_zeros :: "nat \<Rightarrow> string \<Rightarrow> string" where
  "pad_zeros n s = replicate (n - length s) CHR ''0'' @ s"


definition py_lower :: "string \<Rightarrow> string" where
  "py_lower s = map (\<lambda>c. let n = (of_char c :: nat) in
     if (65 \<le> n \<and> n \<le> 90) \<or> (192 \<le> n \<and> n \<le> 222 \<and> n \<noteq> 215) then char_of (n + 32) else c) s"

text \<open>\<open>str.casefold()\<close>: the sharp s becomes two letters.\<close>

definition casefold :: "string \<Rightarrow> string" where
  "casefold s = concat (map (\<lambda>c. if (of_char c :: nat) = 223 then ''ss'' else [c]) (py_lower s))"

definition is_ascii :: "string \<Rightarrow> bool" where
  "is_ascii s = list_all (\<lambda>c. (of_char c :: nat) < 128) s"

text \<open>
  Python's \<open>int(str)\<close> in base ten: surrounding whitespace, an optional sign, digits with
  single underscores between them. \<open>None\<close> is the ValueError it raises otherwise.
\<close>

fun int_body :: "nat \<Rightarrow> string \<Rightarrow> nat option" where
  "int_body acc [] = Some acc"
| "int_body acc (c # cs) =
     (if is_digit c then int_body (10 * acc + digit_val c) cs
      else if c = CHR ''_'' then
        (case cs of [] \<Rightarrow> None
         | d # ds \<Rightarrow> if is_digit d then int_body (10 * acc + digit_val d) ds else None)
      else None)"

definition int_digits :: "string \<Rightarrow> nat option" where
  "int_digits s =
     (case s of [] \<Rightarrow> None
      | c # cs \<Rightarrow> if is_digit c then int_body (digit_val c) cs else None)"

definition py_int :: "string \<Rightarrow> int option" where
  "py_int s =
     (case py_strip s of
        [] \<Rightarrow> None
      | c # cs \<Rightarrow>
          if c = CHR ''-'' then map_option (\<lambda>n. - int n) (int_digits cs)
          else if c = CHR ''+'' then map_option int (int_digits cs)
          else map_option int (int_digits (c # cs)))"

text \<open>\<open>s.split(sep, maxsplit)\<close> for a one-character separator.\<close>

fun py_split :: "char \<Rightarrow> nat \<Rightarrow> string \<Rightarrow> string list" where
  "py_split sep n [] = [[]]"
| "py_split sep 0 s = [s]"
| "py_split sep (Suc n) (c # cs) =
     (if c = sep then [] # py_split sep n cs
      else (case py_split sep (Suc n) cs of
              [] \<Rightarrow> [[c]]
            | p # ps \<Rightarrow> (c # p) # ps))"

lemma dropWhile_Cons_length: "dropWhile P xs = y # r \<Longrightarrow> length r < length xs"
  using length_dropWhile_le [of P xs] by simp

lemma digit_char_props [simp]:
  "d < 10 \<Longrightarrow> is_digit (digit_char d)"
  "d < 10 \<Longrightarrow> digit_val (digit_char d) = d"
  by (auto simp: is_digit_def digit_char_def digit_val_def of_char_of take_bit_nat_def)

lemma is_digit_not_space: "is_digit c \<Longrightarrow> \<not> is_space c"
  by (auto simp: is_digit_def is_space_def Let_def)

lemma is_digit_neq [simp]:
  "is_digit c \<Longrightarrow> c \<noteq> CHR ''-''" "is_digit c \<Longrightarrow> c \<noteq> CHR ''+''"
  "is_digit c \<Longrightarrow> c \<noteq> CHR '':''"
  by (auto simp: is_digit_def)

lemma show_nat_digits: "c \<in> set (show_nat n) \<Longrightarrow> is_digit c"
proof (induction n rule: show_nat.induct)
  case (1 n)
  then show ?case by (subst (asm) show_nat.simps) (auto split: if_splits)
qed

lemma show_nat_not_Nil [simp]: "show_nat n \<noteq> []"
  by (subst show_nat.simps) simp

lemma int_body_snoc:
  assumes "\<forall>c \<in> set xs. is_digit c" and "is_digit d"
  shows "int_body acc (xs @ [d]) = map_option (\<lambda>n. 10 * n + digit_val d) (int_body acc xs)"
  using assms by (induction acc xs rule: int_body.induct) auto

lemma int_digits_snoc:
  assumes "xs \<noteq> []" "\<forall>c \<in> set xs. is_digit c" and "is_digit d"
  shows "int_digits (xs @ [d]) = map_option (\<lambda>n. 10 * n + digit_val d) (int_digits xs)"
  using assms by (cases xs) (auto simp: int_digits_def int_body_snoc)

lemma int_digits_show_nat [simp]: "int_digits (show_nat n) = Some n"
proof (induction n rule: show_nat.induct)
  case (1 n)
  show ?case
  proof (cases "n < 10")
    case True
    then show ?thesis by (subst show_nat.simps) (simp add: int_digits_def)
  next
    case False
    then have "int_digits (show_nat (n div 10) @ [digit_char (n mod 10)]) =
        Some (10 * (n div 10) + n mod 10)"
      using 1 by (subst int_digits_snoc) (auto dest: show_nat_digits)
    then show ?thesis using False by (subst show_nat.simps) simp
  qed
qed

lemma strip_no_space:
  assumes "\<forall>c \<in> set s. \<not> is_space c"
  shows "py_strip s = s"
proof -
  have *: "dropWhile is_space t = t" if "\<forall>c \<in> set t. \<not> is_space c" for t
    using that by (cases t) auto
  show ?thesis using assms by (simp add: py_strip_def *)
qed

lemma show_int_no_space: "\<forall>c \<in> set (show_int i). \<not> is_space c"
  by (auto simp: show_int_def is_space_def dest!: show_nat_digits is_digit_not_space)

lemma show_int_no_colon: "CHR '':'' \<notin> set (show_int i)"
  by (auto simp: show_int_def dest!: show_nat_digits is_digit_neq(3))

text \<open>Parsing what \<open>str\<close> printed gives the integer back.\<close>

lemma py_int_show_int [simp]: "py_int (show_int i) = Some i"
proof -
  have strip: "py_strip (show_int i) = show_int i"
    by (rule strip_no_space [OF show_int_no_space])
  show ?thesis
  proof (cases "i < 0")
    case True
    then show ?thesis using strip by (simp add: py_int_def show_int_def)
  next
    case False
    obtain c cs where c: "show_nat (nat i) = c # cs" by (cases "show_nat (nat i)") auto
    then have "is_digit c" using show_nat_digits [of c "nat i"] by simp
    moreover have "int_digits (c # cs) = Some (nat i)" using c int_digits_show_nat [of "nat i"] by simp
    ultimately show ?thesis using False strip c by (simp add: py_int_def show_int_def)
  qed
qed

lemma py_split_Suc_append:
  "sep \<notin> set p \<Longrightarrow> py_split sep (Suc n) (p @ sep # rest) = p # py_split sep n rest"
  by (induction p) auto

lemma py_split_0: "py_split sep 0 s = [s]"
  by (cases s) auto

section \<open>JSON values\<close>

text \<open>
  What \<open>dict[str, Any]\<close> payloads hold: the values \<open>json.loads\<close> can return. A float is
  kept as mantissa and binary exponent; no modelled code computes with one.
\<close>

datatype json =
    JNull
  | JBool bool
  | JInt int
  | JFloat int int
  | JStr string
  | JArr "json list"
  | JObj "(string \<times> json) list"

type_synonym json_obj = "(string \<times> json) list"

text \<open>\<open>d.get(key, default)\<close>, and the values a Python dict or set lookup accepts as keys.\<close>

definition obj_get :: "json_obj \<Rightarrow> string \<Rightarrow> json \<Rightarrow> json" where
  "obj_get d k dflt = (case map_of d k of None \<Rightarrow> dflt | Some v \<Rightarrow> v)"

fun hashable :: "json \<Rightarrow> bool" where
  "hashable (JArr _) = False"
| "hashable (JObj _) = False"
| "hashable _ = True"

text \<open>\<open>bool(v)\<close>, and \<open>v == n\<close> for an integer \<open>n\<close> (Python's bools and floats compare as numbers).\<close>

fun truthy :: "json \<Rightarrow> bool" where
  "truthy JNull = False"
| "truthy (JBool b) = b"
| "truthy (JInt i) = (i \<noteq> 0)"
| "truthy (JFloat m e) = (m \<noteq> 0)"
| "truthy (JStr s) = (s \<noteq> [])"
| "truthy (JArr xs) = (xs \<noteq> [])"
| "truthy (JObj kvs) = (kvs \<noteq> [])"

fun json_eq_int :: "json \<Rightarrow> int \<Rightarrow> bool" where
  "json_eq_int (JInt i) n = (i = n)"
| "json_eq_int (JBool b) n = ((if b then 1 else 0) = n)"
| "json_eq_int (JFloat m e) n = (if 0 \<le> e then m * 2 ^ nat e = n else m = n * 2 ^ nat (- e))"
| "json_eq_int _ n = False"

text \<open>\<open>int(v)\<close>: a float is truncated toward zero, a string is parsed.\<close>

fun json_int :: "json \<Rightarrow> int result" where
  "json_int (JInt i) = Inr i"
| "json_int (JBool b) = Inr (if b then 1 else 0)"
| "json_int (JFloat m e) =
     Inr (if 0 \<le> e then m * 2 ^ nat e else sgn m * (\<bar>m\<bar> div 2 ^ nat (- e)))"
| "json_int (JStr s) = (case py_int s of None \<Rightarrow> Inl ValueError | Some i \<Rightarrow> Inr i)"
| "json_int _ = Inl TypeError"

text \<open>
  The library functions the code calls and the development does not define: the JSON codec
  (\<open>json.loads\<close>, \<open>json.dumps\<close> with sorted keys, so objects are written here with theirs in
  order), SHA-256 in hexadecimal, and \<open>uuid5\<close> in the URL namespace.
\<close>

record codec =
  json_loads :: "string \<Rightarrow> json option"
  json_dumps :: "json \<Rightarrow> string"
  sha256_hex :: "string \<Rightarrow> string"
  uuid5_url :: "string \<Rightarrow> string"

definition hash_json :: "('a codec_scheme) \<Rightarrow> json \<Rightarrow> string" where
  "hash_json env j = sha256_hex env (json_dumps env j)"

section \<open>Runs of a guarded machine\<close>

text \<open>
  A component's operation takes the state and a command and raises or returns the next
  state. A caller that catches the exception keeps the old state (every operation of the
  development checks before it writes), so a run over a list of commands is a fold.
\<close>

fun exec_all :: "('s \<Rightarrow> 'c \<Rightarrow> 'e + 's) \<Rightarrow> 's \<Rightarrow> 'c list \<Rightarrow> 's" where
  "exec_all step s [] = s"
| "exec_all step s (c # cs) =
     exec_all step (case step s c of Inl _ \<Rightarrow> s | Inr s' \<Rightarrow> s') cs"

lemma exec_all_append: "exec_all step s (cs @ ds) = exec_all step (exec_all step s cs) ds"
  by (induction cs arbitrary: s) auto

locale guarded_machine =
  fixes step :: "'s \<Rightarrow> 'c \<Rightarrow> 'e + 's"
    and inv :: "'s \<Rightarrow> bool"
    and rel :: "'s \<Rightarrow> 's \<Rightarrow> bool"
    and allow :: "'c \<Rightarrow> bool"
  assumes step_inv: "inv s \<Longrightarrow> allow c \<Longrightarrow> step s c = Inr t \<Longrightarrow> inv t"
    and step_rel: "inv s \<Longrightarrow> allow c \<Longrightarrow> step s c = Inr t \<Longrightarrow> rel s t"
    and rel_refl: "inv s \<Longrightarrow> rel s s"
    and rel_trans: "inv s \<Longrightarrow> rel s t \<Longrightarrow> rel t u \<Longrightarrow> rel s u"
begin

lemma run_inv: "inv s \<Longrightarrow> \<forall>c \<in> set cs. allow c \<Longrightarrow> inv (exec_all step s cs)"
  by (induction cs arbitrary: s) (auto split: sum.splits intro: step_inv)

lemma run_rel: "inv s \<Longrightarrow> \<forall>c \<in> set cs. allow c \<Longrightarrow> rel s (exec_all step s cs)"
proof (induction cs arbitrary: s)
  case Nil
  then show ?case by (simp add: rel_refl)
next
  case (Cons c cs)
  show ?case
  proof (cases "step s c")
    case (Inl e)
    then show ?thesis using Cons by simp
  next
    case (Inr t)
    then have "inv t" "rel s t" using Cons.prems by (auto intro: step_inv step_rel)
    then show ?thesis using Inr Cons.IH [of t] Cons.prems by (auto intro: rel_trans)
  qed
qed

end

end
