(* ===== verification/Federation_Models.thy ===== *)
theory Federation_Models
  imports Prelude
begin

text \<open>
  The data of the federation subsystem (\<open>robothor/federation/models.py\<close>): the hybrid
  logical clock with its order and its string form, the connection and sync-event records,
  the capabilities a peer holds by default and the role it acts as.
\<close>

section \<open>Enumerations and records\<close>

datatype connection_state = PENDING | ACTIVE | LIMITED | SUSPENDED

datatype relationship = PARENT | CHILD | PEER

datatype sync_channel = CRITICAL | BULK | MEDIA

datatype conflict_strategy =
  NO_CONFLICT | MONOTONIC_LATTICE | ADDITIVE_MERGE | AUTHORITY | APPEND_ONLY

record connection =
  conn_id :: string
  peer_id :: string
  peer_name :: string
  peer_endpoint :: string
  peer_public_key :: string
  relationship :: relationship
  conn_state :: connection_state
  conn_exports :: "string list"
  conn_imports :: "string list"
  nats_account :: string
  metadata :: json_obj
  conn_created_at :: string
  conn_updated_at :: string
  conn_tenant_id :: string
  local_principal_id :: string
  local_principal_role :: string
  direction :: string
  transport :: json_obj
  activated_at :: string
  last_seen_at :: string
  last_error :: string

record sync_event =
  ev_id :: nat
  ev_connection_id :: string
  ev_channel :: sync_channel
  event_type :: string
  payload :: json_obj
  hlc_timestamp :: string
  synced_at :: "string option"
  ev_created_at :: string

section \<open>The hybrid logical clock\<close>

datatype hlc = HLC (wall_ms: int) (hlc_counter: int) (hlc_instance: string)

text \<open>\<open>_now_ms()\<close> reads the machine's clock: its value is the argument \<open>now_ms\<close>.\<close>

definition hlc_tick :: "int \<Rightarrow> hlc \<Rightarrow> hlc" where
  "hlc_tick now_ms c =
     (if now_ms > wall_ms c then HLC now_ms 0 (hlc_instance c)
      else HLC (wall_ms c) (hlc_counter c + 1) (hlc_instance c))"

definition hlc_merge :: "int \<Rightarrow> hlc \<Rightarrow> hlc \<Rightarrow> hlc" where
  "hlc_merge now_ms c remote =
     (let max_wall = max now_ms (max (wall_ms c) (wall_ms remote));
          counter =
            (if max_wall = now_ms \<and> max_wall \<noteq> wall_ms c \<and> max_wall \<noteq> wall_ms remote then 0
             else if max_wall = wall_ms c \<and> max_wall = wall_ms remote
               then max (hlc_counter c) (hlc_counter remote) + 1
             else if max_wall = wall_ms c then hlc_counter c + 1
             else hlc_counter remote + 1)
      in HLC max_wall counter (hlc_instance c))"

definition hlc_lt :: "hlc \<Rightarrow> hlc \<Rightarrow> bool" where
  "hlc_lt a b =
     (if wall_ms a \<noteq> wall_ms b then wall_ms a < wall_ms b
      else if hlc_counter a \<noteq> hlc_counter b then hlc_counter a < hlc_counter b
      else hlc_instance a < hlc_instance b)"

definition hlc_to_string :: "hlc \<Rightarrow> string" where
  "hlc_to_string c =
     show_int (wall_ms c) @ '':'' @ show_int (hlc_counter c) @ '':'' @ hlc_instance c"

definition hlc_from_string :: "string \<Rightarrow> hlc result" where
  "hlc_from_string s =
     (case py_split (CHR '':'') 2 s of
        [w, k, i] \<Rightarrow>
          (case py_int w of None \<Rightarrow> Inl ValueError
           | Some w' \<Rightarrow> (case py_int k of None \<Rightarrow> Inl ValueError
             | Some k' \<Rightarrow> Inr (HLC w' k' i)))
      | _ \<Rightarrow> Inl ValueError)"

text \<open>\<open>HLC.__lt__\<close> is a strict total order, so a clock is an element of class \<open>linorder\<close>.\<close>

instantiation hlc :: linorder
begin

definition less_hlc :: "hlc \<Rightarrow> hlc \<Rightarrow> bool" where
  "less_hlc a b = hlc_lt a b"

definition less_eq_hlc :: "hlc \<Rightarrow> hlc \<Rightarrow> bool" where
  "less_eq_hlc a b = (a = b \<or> hlc_lt a b)"

instance
proof
  fix x y z :: hlc
  show "(x < y) = (x \<le> y \<and> \<not> y \<le> x)"
    by (cases x; cases y) (auto simp: less_hlc_def less_eq_hlc_def hlc_lt_def split: if_splits)
  show "x \<le> x" by (simp add: less_eq_hlc_def)
  show "x \<le> z" if "x \<le> y" "y \<le> z"
    using that by (cases x; cases y; cases z)
      (auto simp: less_eq_hlc_def hlc_lt_def split: if_splits)
  show "x = y" if "x \<le> y" "y \<le> x"
    using that by (cases x; cases y) (auto simp: less_eq_hlc_def hlc_lt_def split: if_splits)
  show "x \<le> y \<or> y \<le> x"
    by (cases x; cases y) (auto simp: less_eq_hlc_def hlc_lt_def)
qed

end

lemma hlc_tick_instance [simp, state_simps]: "hlc_instance (hlc_tick n c) = hlc_instance c"
  by (simp add: hlc_tick_def)

lemma hlc_merge_instance [simp, state_simps]: "hlc_instance (hlc_merge n c r) = hlc_instance c"
  by (simp add: hlc_merge_def Let_def)

lemma hlc_tick_gt: "c < hlc_tick now_ms c"
  by (simp add: less_hlc_def hlc_lt_def hlc_tick_def)

lemma hlc_merge_gt_local: "c < hlc_merge now_ms c r"
  by (auto simp: less_hlc_def hlc_lt_def hlc_merge_def Let_def max_def)

lemma hlc_merge_gt_remote:
  "wall_ms r < wall_ms (hlc_merge now_ms c r) \<or>
   wall_ms r = wall_ms (hlc_merge now_ms c r) \<and> hlc_counter r < hlc_counter (hlc_merge now_ms c r)"
  by (auto simp: hlc_merge_def Let_def max_def)

lemma hlc_merge_gt_remote': "r < hlc_merge now_ms c r"
  using hlc_merge_gt_remote [of r now_ms c] unfolding less_hlc_def hlc_lt_def
  by (elim disjE) simp_all

text \<open>
  A receive moves the clock strictly past both the local clock and the remote one,
  whatever the wall clock says, and never before the wall clock.
\<close>

theorem hlc_merge_causal:
  "c < hlc_merge now_ms c r \<and> r < hlc_merge now_ms c r \<and> now_ms \<le> wall_ms (hlc_merge now_ms c r)"
proof (intro conjI)
  show "c < hlc_merge now_ms c r" by (rule hlc_merge_gt_local)
  show "r < hlc_merge now_ms c r"
    by (rule hlc_merge_gt_remote')
  show "now_ms \<le> wall_ms (hlc_merge now_ms c r)" by (simp add: hlc_merge_def Let_def)
qed

lemma hlc_from_to_string: "hlc_from_string (hlc_to_string c) = Inr c"
proof -
  have "py_split (CHR '':'') 2 (hlc_to_string c) =
      [show_int (wall_ms c), show_int (hlc_counter c), hlc_instance c]"
    using py_split_Suc_append [OF show_int_no_colon]
    by (simp add: hlc_to_string_def numeral_2_eq_2 py_split_0)
  then show ?thesis by (simp add: hlc_from_string_def)
qed

text \<open>
  parsing the printed form of a clock gives the clock back, whatever its instance id
  contains (colons included), so two clocks with the same printed form are equal.
\<close>

theorem hlc_string_roundtrip:
  "hlc_from_string (hlc_to_string c) = Inr c \<and> (hlc_to_string c = hlc_to_string d \<longleftrightarrow> c = d)"
  by (metis hlc_from_to_string sum.inject(2))

section \<open>Capabilities and the role of a peer\<close>

definition CAP_REPORT_UP :: string where "CAP_REPORT_UP = ''report_up''"
definition CAP_READ_HEALTH :: string where "CAP_READ_HEALTH = ''read_health''"
definition CAP_READ_RUNS :: string where "CAP_READ_RUNS = ''read_runs''"
definition CAP_TRIGGER_AGENT :: string where "CAP_TRIGGER_AGENT = ''trigger_agent''"
definition CAP_SEARCH_MEMORY :: string where "CAP_SEARCH_MEMORY = ''search_memory''"
definition CAP_PUSH_CONFIG :: string where "CAP_PUSH_CONFIG = ''push_config''"

lemmas cap_defs = CAP_REPORT_UP_def CAP_READ_HEALTH_def CAP_READ_RUNS_def
  CAP_TRIGGER_AGENT_def CAP_SEARCH_MEMORY_def CAP_PUSH_CONFIG_def

definition WRITE_CAPABILITIES :: "string set" where
  "WRITE_CAPABILITIES = {CAP_TRIGGER_AGENT, CAP_PUSH_CONFIG}"

definition default_exports_for :: "relationship \<Rightarrow> string list" where
  "default_exports_for r =
     (if r = PARENT then [CAP_READ_HEALTH, CAP_READ_RUNS]
      else if r = CHILD then [CAP_REPORT_UP]
      else [])"

definition ROLE_FEDERATION_PARENT :: string where
  "ROLE_FEDERATION_PARENT = ''federation_parent''"

definition ROLE_FEDERATION_CHILD :: string where
  "ROLE_FEDERATION_CHILD = ''federation_child''"

definition principal_role_for_peer :: "relationship \<Rightarrow> string" where
  "principal_role_for_peer our_relationship =
     (if our_relationship = CHILD then ROLE_FEDERATION_PARENT else ROLE_FEDERATION_CHILD)"

section \<open>Conflict strategies\<close>

definition ENTITY_CONFLICT_MAP :: "(string, conflict_strategy) dict" where
  "ENTITY_CONFLICT_MAP =
     [(''agent_run'', NO_CONFLICT), (''task'', MONOTONIC_LATTICE),
      (''memory_fact'', ADDITIVE_MERGE), (''config'', AUTHORITY),
      (''log'', APPEND_ONLY), (''telemetry'', APPEND_ONLY)]"

definition TASK_STATUS_ORDER :: "(string, int) dict" where
  "TASK_STATUS_ORDER =
     [(''open'', 0), (''in_progress'', 1), (''done'', 2), (''archived'', 3)]"

end
