(* ===== verification/Federation_Sync.thy ===== *)
theory Federation_Sync
  imports Federation_Models
begin

text \<open>
  The federation event journal (\<open>robothor/federation/sync.py\<close>): appending local events
  under the hybrid logical clock, receiving remote ones through conflict resolution, and
  the four queries on the \<open>federation_events\<close> table. The table is its list of rows with the
  serial the next insert takes; a query that raises is caught by the code, so whether the
  database answers is a field of the environment of each call.
\<close>

record sync_env =
  env_now_ms :: int
  env_now_iso :: string
  env_db_now :: string
  env_db_ok :: bool

record fed_table =
  fed_rows :: "sync_event list"
  fed_next :: nat

record journal =
  journal_instance :: string
  journal_clock :: hlc

section \<open>Database persistence\<close>

definition persist_event :: "sync_env \<Rightarrow> sync_event \<Rightarrow> fed_table \<Rightarrow> sync_event \<times> fed_table" where
  "persist_event env e db =
     (if env_db_ok env then
        (e\<lparr>ev_id := fed_next db\<rparr>,
         db\<lparr>fed_rows := fed_rows db @ [e\<lparr>ev_id := fed_next db, ev_created_at := env_db_now env\<rparr>],
            fed_next := Suc (fed_next db)\<rparr>)
      else (e, db))"

definition load_unsynced_events ::
  "sync_env \<Rightarrow> string \<Rightarrow> sync_channel option \<Rightarrow> int \<Rightarrow> fed_table \<Rightarrow> sync_event list" where
  "load_unsynced_events env cid channel limit db =
     (if \<not> env_db_ok env \<or> limit < 0 then []
      else take (nat limit) (sort_key ev_id (filter (\<lambda>r. ev_connection_id r = cid \<and>
             (case channel of None \<Rightarrow> True | Some ch \<Rightarrow> ev_channel r = ch) \<and>
             synced_at r = None) (fed_rows db))))"

definition mark_events_synced :: "sync_env \<Rightarrow> nat list \<Rightarrow> fed_table \<Rightarrow> nat \<times> fed_table" where
  "mark_events_synced env ids db =
     (if env_db_ok env then
        (length (filter (\<lambda>r. ev_id r \<in> set ids \<and> synced_at r = None) (fed_rows db)),
         db\<lparr>fed_rows := map (\<lambda>r. if ev_id r \<in> set ids \<and> synced_at r = None
              then r\<lparr>synced_at := Some (env_now_iso env)\<rparr> else r) (fed_rows db)\<rparr>)
      else (0, db))"

definition get_watermark :: "sync_env \<Rightarrow> string \<Rightarrow> sync_channel \<Rightarrow> fed_table \<Rightarrow> string" where
  "get_watermark env cid channel db =
     (if \<not> env_db_ok env then []
      else (case rev (sort_key ev_id (filter (\<lambda>r. ev_connection_id r = cid \<and>
               ev_channel r = channel \<and> synced_at r \<noteq> None) (fed_rows db))) of
              [] \<Rightarrow> []
            | r # _ \<Rightarrow> hlc_timestamp r))"

section \<open>Conflict resolution\<close>

definition extract_entity_type :: "string \<Rightarrow> string" where
  "extract_entity_type ty =
     (if CHR ''.'' \<in> set ty then takeWhile (\<lambda>c. c \<noteq> CHR ''.'') ty else ty)"

text \<open>\<open>TASK_STATUS_ORDER.get(v, -1)\<close>: looking an unhashable value up raises.\<close>

definition status_order :: "json \<Rightarrow> int result" where
  "status_order v =
     (if \<not> hashable v then Inl TypeError
      else Inr (case v of
        JStr s \<Rightarrow> (case dict_get TASK_STATUS_ORDER s of None \<Rightarrow> -1 | Some n \<Rightarrow> n)
      | _ \<Rightarrow> -1))"

definition resolve_conflict :: "conflict_strategy \<Rightarrow> sync_event \<Rightarrow> bool result" where
  "resolve_conflict strategy e =
     (case strategy of
        NO_CONFLICT \<Rightarrow> Inr True
      | APPEND_ONLY \<Rightarrow> Inr True
      | ADDITIVE_MERGE \<Rightarrow>
          Inr (obj_get (payload e) ''action'' (JStr [])
                 \<in> {JStr ''create'', JStr ''deactivate'', JStr ''add''})
      | MONOTONIC_LATTICE \<Rightarrow>
          bind_result (status_order (obj_get (payload e) ''status'' (JStr []))) (\<lambda>new_order.
          bind_result (status_order (obj_get (payload e) ''current_status'' (JStr []))) (\<lambda>current_order.
          Inr (new_order \<ge> current_order)))
      | AUTHORITY \<Rightarrow> Inr True)"

definition strategy_for :: "string \<Rightarrow> conflict_strategy" where
  "strategy_for ty =
     (case dict_get ENTITY_CONFLICT_MAP (extract_entity_type ty) of
        None \<Rightarrow> APPEND_ONLY | Some s \<Rightarrow> s)"

section \<open>The journal\<close>

definition new_journal :: "string \<Rightarrow> journal" where
  "new_journal i = \<lparr>journal_instance = i, journal_clock = HLC 0 0 i\<rparr>"

definition journal_append ::
  "sync_env \<Rightarrow> string \<Rightarrow> sync_channel \<Rightarrow> string \<Rightarrow> json_obj \<Rightarrow> journal \<Rightarrow> fed_table
     \<Rightarrow> sync_event \<times> journal \<times> fed_table" where
  "journal_append env cid channel ty pl j db =
     (let clock = hlc_tick (env_now_ms env) (journal_clock j);
          e = \<lparr>ev_id = 0, ev_connection_id = cid, ev_channel = channel, event_type = ty,
               payload = pl, hlc_timestamp = hlc_to_string clock, synced_at = None,
               ev_created_at = env_now_iso env\<rparr>;
          (e', db') = persist_event env e db
      in (e', j\<lparr>journal_clock := clock\<rparr>, db'))"

definition journal_get_unsynced ::
  "sync_env \<Rightarrow> string \<Rightarrow> sync_channel option \<Rightarrow> int \<Rightarrow> fed_table \<Rightarrow> sync_event list" where
  "journal_get_unsynced env cid channel limit db = load_unsynced_events env cid channel limit db"

definition journal_mark_synced :: "sync_env \<Rightarrow> nat list \<Rightarrow> fed_table \<Rightarrow> nat \<times> fed_table" where
  "journal_mark_synced env ids db = (if ids = [] then (0, db) else mark_events_synced env ids db)"

definition journal_receive ::
  "sync_env \<Rightarrow> sync_event \<Rightarrow> hlc \<Rightarrow> journal \<Rightarrow> fed_table
     \<Rightarrow> sync_event option result \<times> journal \<times> fed_table" where
  "journal_receive env remote_event remote_hlc j db =
     (let j' = j\<lparr>journal_clock := hlc_merge (env_now_ms env) (journal_clock j) remote_hlc\<rparr>
      in (case resolve_conflict (strategy_for (event_type remote_event)) remote_event of
            Inl err \<Rightarrow> (Inl err, j', db)
          | Inr False \<Rightarrow> (Inr None, j', db)
          | Inr True \<Rightarrow>
              (let (e', db') = persist_event env
                     (remote_event\<lparr>synced_at := Some (env_now_iso env)\<rparr>) db
               in (Inr (Some e'), j', db'))))"

definition journal_get_sync_watermark ::
  "sync_env \<Rightarrow> string \<Rightarrow> sync_channel \<Rightarrow> fed_table \<Rightarrow> string" where
  "journal_get_sync_watermark env cid channel db = get_watermark env cid channel db"

section \<open>The table's invariant\<close>

text \<open>Row ids are the serial's values: distinct, in insertion order, below the next one.\<close>

definition table_ok :: "fed_table \<Rightarrow> bool" where
  "table_ok db \<longleftrightarrow> sorted_wrt (<) (map ev_id (fed_rows db)) \<and> (\<forall>r \<in> set (fed_rows db). ev_id r < fed_next db)"

lemma table_ok_persist: "table_ok db \<Longrightarrow> table_ok (snd (persist_event env e db))"
  by (auto simp: table_ok_def persist_event_def sorted_wrt_append less_Suc_eq)

lemma map_ev_id_mark:
  "map ev_id (fed_rows (snd (mark_events_synced env ids db))) = map ev_id (fed_rows db)"
  by (simp add: mark_events_synced_def comp_def if_distrib cong: if_cong)

lemma table_ok_mark: "table_ok db \<Longrightarrow> table_ok (snd (mark_events_synced env ids db))"
proof -
  assume ok: "table_ok db"
  have "ev_id ` set (fed_rows (snd (mark_events_synced env ids db))) = ev_id ` set (fed_rows db)"
    using arg_cong [OF map_ev_id_mark [of env ids db], of set] by simp
  moreover have "fed_next (snd (mark_events_synced env ids db)) = fed_next db"
    by (simp add: mark_events_synced_def)
  ultimately show ?thesis using ok
    unfolding table_ok_def map_ev_id_mark by (metis (no_types, lifting) image_iff)
qed

lemma sort_key_rows:
  "table_ok db \<Longrightarrow> sort_key ev_id (filter P (fed_rows db)) = filter P (fed_rows db)"
proof (rule sort_key_id_if_sorted)
  assume "table_ok db"
  then have "sorted_wrt (<) (map ev_id (fed_rows db))" by (simp add: table_ok_def)
  then have "sorted_wrt (\<lambda>a b. ev_id a < ev_id b) (filter P (fed_rows db))"
    by (simp add: sorted_wrt_map sorted_wrt_filter)
  then show "sorted (map ev_id (filter P (fed_rows db)))"
    by (auto simp: sorted_wrt_map intro: sorted_wrt_mono_rel [rotated])
qed

text \<open>
  Acknowledging a batch of events takes exactly those events out of what is left to
  send, in every later read of the same connection and channel, and nothing else.
\<close>

theorem mark_synced_unsynced:
  assumes ok: "table_ok db" and up: "env_db_ok env" "env_db_ok env'"
    and big: "length (fed_rows db) \<le> nat limit" "0 \<le> limit"
  shows "journal_get_unsynced env' cid channel limit (snd (journal_mark_synced env ids db)) =
         filter (\<lambda>r. ev_id r \<notin> set ids) (journal_get_unsynced env' cid channel limit db)"
proof (cases "ids = []")
  case True
  then show ?thesis by (simp add: journal_mark_synced_def)
next
  case False
  let ?P = "\<lambda>r. ev_connection_id r = cid \<and>
    (case channel of None \<Rightarrow> True | Some ch \<Rightarrow> ev_channel r = ch) \<and> synced_at r = None"
  let ?db = "snd (mark_events_synced env ids db)"
  have rows: "fed_rows ?db = map (\<lambda>r. if ev_id r \<in> set ids \<and> synced_at r = None
      then r\<lparr>synced_at := Some (env_now_iso env)\<rparr> else r) (fed_rows db)"
    using up by (simp add: mark_events_synced_def)
  have "filter ?P (map (\<lambda>r. if ev_id r \<in> set ids \<and> synced_at r = None
      then r\<lparr>synced_at := Some (env_now_iso env)\<rparr> else r) rs) =
      filter (\<lambda>r. ev_id r \<notin> set ids) (filter ?P rs)" for rs
    by (induction rs) auto
  then have key: "filter ?P (fed_rows ?db) = filter (\<lambda>r. ev_id r \<notin> set ids) (filter ?P (fed_rows db))"
    unfolding rows .
  have same: "length (fed_rows ?db) = length (fed_rows db)"
    using arg_cong [OF map_ev_id_mark [of env ids db], of length] by simp
  have len: "length (filter ?P (fed_rows db)) \<le> nat limit" "length (filter ?P (fed_rows ?db)) \<le> nat limit"
    by (rule le_trans [OF length_filter_le], simp add: same big)+
  have "load_unsynced_events env' cid channel limit d = filter ?P (fed_rows d)"
    if "table_ok d" "length (filter ?P (fed_rows d)) \<le> nat limit" for d
    using that up big by (simp add: load_unsynced_events_def sort_key_rows)
  then show ?thesis
    using False key len ok table_ok_mark [OF ok, of env ids]
    by (simp add: journal_get_unsynced_def journal_mark_synced_def)
qed

text \<open>Acknowledging the same batch a second time marks nothing and changes nothing.\<close>

theorem mark_synced_idempotent:
  "env_db_ok env' \<Longrightarrow>
   journal_mark_synced env' ids (snd (journal_mark_synced env ids db)) =
   (if env_db_ok env \<or> ids = [] then (0, snd (journal_mark_synced env ids db))
    else journal_mark_synced env' ids db)"
proof -
  assume up: "env_db_ok env'"
  have *: "filter (\<lambda>r. ev_id r \<in> A \<and> synced_at r = None)
      (map (\<lambda>r. if ev_id r \<in> A \<and> synced_at r = None then r\<lparr>synced_at := Some t\<rparr> else r) rs) = []"
    for A t rs by (induction rs) auto
  have **: "map (\<lambda>r. if ev_id r \<in> A \<and> synced_at r = None then r\<lparr>synced_at := Some t'\<rparr> else r)
      (map (\<lambda>r. if ev_id r \<in> A \<and> synced_at r = None then r\<lparr>synced_at := Some t\<rparr> else r) rs) =
      map (\<lambda>r. if ev_id r \<in> A \<and> synced_at r = None then r\<lparr>synced_at := Some t\<rparr> else r) rs"
    for A t t' rs by (induction rs) auto
  show ?thesis using up by (simp add: journal_mark_synced_def mark_events_synced_def * **)
qed

theorem mark_synced_idempotent_witness:
  "\<exists>env db. env_db_ok env \<and> fst (journal_mark_synced env [1] db) = 1 \<and>
     fst (journal_mark_synced env [1] (snd (journal_mark_synced env [1] db))) = 0"
proof -
  define env where "env = \<lparr>env_now_ms = 5, env_now_iso = ''t'', env_db_now = ''d'', env_db_ok = True\<rparr>"
  define db where "db = snd (persist_event env \<lparr>ev_id = 0, ev_connection_id = ''c'',
     ev_channel = CRITICAL, event_type = ''task.created'', payload = [], hlc_timestamp = ''5:0:a'',
     synced_at = None, ev_created_at = ''t''\<rparr> \<lparr>fed_rows = [], fed_next = 1\<rparr>)"
  have up: "env_db_ok env" by (simp add: env_def)
  have one: "fst (journal_mark_synced env [1] db) = 1"
    by (simp add: journal_mark_synced_def mark_events_synced_def persist_event_def db_def env_def)
  have "fst (journal_mark_synced env [1] (snd (journal_mark_synced env [1] db))) = 0"
    using mark_synced_idempotent [OF up, of "[1]" env db] up by simp
  with up one show ?thesis by blast
qed

theorem mark_synced_unsynced_witness:
  "\<exists>env db. length (journal_get_unsynced env ''c'' None 10 db) = 1 \<and>
     journal_get_unsynced env ''c'' None 10 (snd (journal_mark_synced env [1] db)) = []"
proof -
  define env where "env = \<lparr>env_now_ms = 5, env_now_iso = ''t'', env_db_now = ''d'', env_db_ok = True\<rparr>"
  define db where "db = snd (persist_event env \<lparr>ev_id = 0, ev_connection_id = ''c'',
     ev_channel = CRITICAL, event_type = ''task.created'', payload = [], hlc_timestamp = ''5:0:a'',
     synced_at = None, ev_created_at = ''t''\<rparr> \<lparr>fed_rows = [], fed_next = 1\<rparr>)"
  have up: "env_db_ok env" by (simp add: env_def)
  have ok: "table_ok db" "length (fed_rows db) \<le> nat 10"
    by (simp_all add: table_ok_def db_def persist_event_def env_def)
  have one: "journal_get_unsynced env ''c'' None 10 db = fed_rows db" "map ev_id (fed_rows db) = [1]"
    by (simp_all add: journal_get_unsynced_def load_unsynced_events_def db_def persist_event_def env_def)
  have "journal_get_unsynced env ''c'' None 10 (snd (journal_mark_synced env [1] db)) =
      filter (\<lambda>r. ev_id r \<notin> set [1]) (journal_get_unsynced env ''c'' None 10 db)"
    by (rule mark_synced_unsynced [OF ok(1) up up ok(2)]) simp
  moreover have "\<dots> = []" using one by (auto simp: map_eq_Cons_conv)
  moreover have "length (journal_get_unsynced env ''c'' None 10 db) = 1"
    unfolding one(1) using arg_cong [OF one(2), of length] by (simp only: length_map) simp
  ultimately show ?thesis by metis
qed

section \<open>Causal order of a journal's stamps\<close>

text \<open>A journal's life: the calls its owner makes, in order, with the events it appended.\<close>

datatype journal_cmd =
    AppendCmd sync_env string sync_channel string json_obj
  | ReceiveCmd sync_env sync_event hlc
  | MarkCmd sync_env "nat list"

fun journal_run :: "journal \<Rightarrow> fed_table \<Rightarrow> journal_cmd list \<Rightarrow> sync_event list" where
  "journal_run j db [] = []"
| "journal_run j db (AppendCmd env cid ch ty pl # cs) =
     (case journal_append env cid ch ty pl j db of (e, j', db') \<Rightarrow> e # journal_run j' db' cs)"
| "journal_run j db (ReceiveCmd env e r # cs) =
     (case journal_receive env e r j db of (_, j', db') \<Rightarrow> journal_run j' db' cs)"
| "journal_run j db (MarkCmd env ids # cs) = journal_run j (snd (journal_mark_synced env ids db)) cs"

definition stamp_after :: "hlc \<Rightarrow> sync_event \<Rightarrow> bool" where
  "stamp_after c e = (case hlc_from_string (hlc_timestamp e) of Inl _ \<Rightarrow> False | Inr h \<Rightarrow> c < h)"

lemma append_clock:
  assumes "journal_append env cid ch ty pl j db = (e, j', db')"
  shows "hlc_from_string (hlc_timestamp e) = Inr (journal_clock j')" "journal_clock j < journal_clock j'"
  using assms hlc_tick_gt [of "journal_clock j" "env_now_ms env"]
  by (auto simp: journal_append_def Let_def persist_event_def hlc_from_to_string
      split: prod.splits if_splits)

lemma receive_clock:
  assumes "journal_receive env e r j db = (res, j', db')"
  shows "journal_clock j' = hlc_merge (env_now_ms env) (journal_clock j) r"
  using assms by (auto simp: journal_receive_def Let_def split: prod.splits sum.splits bool.splits)

lemma run_after: "e \<in> set (journal_run j db cs) \<Longrightarrow> stamp_after (journal_clock j) e"
proof (induction j db cs rule: journal_run.induct)
  case (1 j db)
  then show ?case by simp
next
  case (2 j db env cid ch ty pl cs)
  obtain f j' db' where a: "journal_append env cid ch ty pl j db = (f, j', db')"
    by (cases "journal_append env cid ch ty pl j db") auto
  note app = append_clock [OF a]
  from 2 a have "e = f \<or> stamp_after (journal_clock j') e" by auto
  then show ?case using app by (auto simp: stamp_after_def split: sum.splits)
next
  case (3 j db env ev r cs)
  obtain res j' db' where a: "journal_receive env ev r j db = (res, j', db')"
    by (cases "journal_receive env ev r j db") auto
  have "stamp_after (journal_clock j') e" using 3 a by auto
  then show ?case using receive_clock [OF a] hlc_merge_gt_local [of "journal_clock j" "env_now_ms env" r]
    by (auto simp: stamp_after_def split: sum.splits)
next
  case (4 j db env ids cs)
  then show ?case by simp
qed

lemma run_increasing:
  "sorted_wrt (\<lambda>e f. \<exists>h. hlc_from_string (hlc_timestamp e) = Inr h \<and> stamp_after h f) (journal_run j db cs)"
proof (induction j db cs rule: journal_run.induct)
  case (2 j db env cid ch ty pl cs)
  obtain f j' db' where a: "journal_append env cid ch ty pl j db = (f, j', db')"
    by (cases "journal_append env cid ch ty pl j db") auto
  show ?case using 2 a append_clock [OF a] run_after by fastforce
qed (auto split: prod.splits)

text \<open>
  whatever a journal receives and acknowledges in between, and whatever the wall clock
  does, the stamps of the events it appends strictly increase, and every event appended
  after a receive is stamped past the remote clock it received.
\<close>

theorem journal_stamps_causal:
  "sorted_wrt (\<lambda>e f. \<exists>h. hlc_from_string (hlc_timestamp e) = Inr h \<and> stamp_after h f)
     (journal_run j db cs) \<and>
   list_all (stamp_after r) (journal_run (fst (snd (journal_receive env ev r j db)))
     (snd (snd (journal_receive env ev r j db))) cs)"
proof
  show "sorted_wrt (\<lambda>e f. \<exists>h. hlc_from_string (hlc_timestamp e) = Inr h \<and> stamp_after h f)
     (journal_run j db cs)" by (rule run_increasing)
  obtain res j' db' where a: "journal_receive env ev r j db = (res, j', db')"
    by (cases "journal_receive env ev r j db") auto
  have "r < journal_clock j'" unfolding receive_clock [OF a] by (rule hlc_merge_gt_remote')
  then show "list_all (stamp_after r) (journal_run (fst (snd (journal_receive env ev r j db)))
     (snd (snd (journal_receive env ev r j db))) cs)"
    using run_after [of _ j' db' cs] a
    by (fastforce simp: list_all_iff stamp_after_def split: sum.splits)
qed

text \<open>
  A task event a peer sends whose status ranks below the status it says the task has is
  refused and leaves the table as it was; any other is stored exactly once more, already marked
  as synced, so that no later read of what is left to send, for any peer, returns it.
\<close>

theorem receive_task_effect:
  assumes "env_db_ok env" "extract_entity_type (event_type ev) = ''task''"
    and "obj_get (payload ev) ''status'' (JStr []) = JStr new" "dict_get TASK_STATUS_ORDER new = Some m"
    and "obj_get (payload ev) ''current_status'' (JStr []) = JStr cur" "dict_get TASK_STATUS_ORDER cur = Some n"
    and "journal_receive env ev r j db = (res, j', db')"
  shows "if m < n then res = Inr None \<and> db' = db
         else (\<exists>e. res = Inr (Some e) \<and> synced_at e \<noteq> None \<and> payload e = payload ev \<and>
            map ev_id (fed_rows db') = map ev_id (fed_rows db) @ [ev_id e] \<and>
            (\<forall>env' cid ch limit. journal_get_unsynced env' cid ch limit db' =
                                 journal_get_unsynced env' cid ch limit db))"
proof -
  have st: "strategy_for (event_type ev) = MONOTONIC_LATTICE"
    using assms(2) by (simp add: strategy_for_def ENTITY_CONFLICT_MAP_def)
  have "resolve_conflict (strategy_for (event_type ev)) ev = Inr (n \<le> m)"
    using assms(3-6) by (simp add: st resolve_conflict_def status_order_def)
  then show ?thesis using assms(1,7)
    by (auto simp: journal_receive_def Let_def persist_event_def journal_get_unsynced_def
        load_unsynced_events_def)
qed

definition sample_env :: sync_env where
  "sample_env = \<lparr>env_now_ms = 5, env_now_iso = ''t'', env_db_now = ''d'', env_db_ok = True\<rparr>"

definition sample_task_event :: sync_event where
  "sample_task_event = \<lparr>ev_id = 0, ev_connection_id = ''c'', ev_channel = CRITICAL,
     event_type = ''task.updated'',
     payload = [(''status'', JStr ''open''), (''current_status'', JStr ''done'')],
     hlc_timestamp = ''5:0:a'', synced_at = None, ev_created_at = ''t''\<rparr>"

theorem receive_task_effect_witness:
  "fst (journal_receive sample_env sample_task_event (HLC 5 0 ''a'') (new_journal ''b'')
      \<lparr>fed_rows = [], fed_next = 1\<rparr>) = Inr None"
proof -
  let ?r = "journal_receive sample_env sample_task_event (HLC 5 0 ''a'') (new_journal ''b'')
      \<lparr>fed_rows = [], fed_next = 1\<rparr>"
  have "if (0::int) < 2 then fst ?r = Inr None \<and> snd (snd ?r) = \<lparr>fed_rows = [], fed_next = 1\<rparr> else False"
    using receive_task_effect [of sample_env sample_task_event "''open''" 0 "''done''" 2 "HLC 5 0 ''a''"
        "new_journal ''b''" "\<lparr>fed_rows = [], fed_next = 1\<rparr>" "fst ?r" "fst (snd ?r)" "snd (snd ?r)"]
    by (simp add: sample_env_def sample_task_event_def extract_entity_type_def TASK_STATUS_ORDER_def obj_get_def)
  then show ?thesis by simp
qed

end
