(* ===== verification/Permissions.thy ===== *)
theory Permissions
  imports Prelude "HOL-Library.Sublist" "HOL-Library.Multiset"
begin

text \<open>
  Role-based access (\<open>robothor/engine/permissions.py\<close>): \<open>fnmatch\<close> patterns, the choice of the
  most specific matching rule, the two-level decision of \<open>check_tool_permission\<close>, its
  generation-checked rule cache, the system-run ladder and the tenants a role may reach.
  A denial's reason string is a constructor of \<open>denial\<close>; \<open>None\<close> is allowed.
\<close>

section \<open>fnmatch\<close>

text \<open>
  \<open>fnmatch.fnmatch\<close> of the standard library on a POSIX host (\<open>normcase\<close> is the identity):
  \<open>*\<close>, \<open>?\<close>, and bracket sets with ranges and \<open>!\<close>; an unclosed bracket is a literal.
\<close>

datatype gtok = GStar | GAny | GChar char | GSet bool "(char \<times> char) list"

definition split_set :: "string \<Rightarrow> (bool \<times> string \<times> string) option" where
  "split_set s =
     (let (bang, s1) = (case s of c # r \<Rightarrow> if c = CHR ''!'' then (True, r) else (False, s)
                        | [] \<Rightarrow> (False, s));
          (pre, s2) = (case s1 of c # r \<Rightarrow> if c = CHR '']'' then ([c], r) else ([], s1)
                       | [] \<Rightarrow> ([], s1))
      in (case dropWhile (\<lambda>c. c \<noteq> CHR '']'') s2 of
            [] \<Rightarrow> None
          | _ # r \<Rightarrow> Some (bang, pre @ takeWhile (\<lambda>c. c \<noteq> CHR '']'') s2, r)))"

fun parse_set :: "string \<Rightarrow> (char \<times> char) list" where
  "parse_set (a # m # b # r) =
     (if m = CHR ''-'' then (a, b) # parse_set r else (a, a) # parse_set (m # b # r))"
| "parse_set (a # r) = (a, a) # parse_set r"
| "parse_set [] = []"

lemma split_set_shorter: "split_set s = Some (n, body, r) \<Longrightarrow> length r < Suc (length s)"
  by (auto simp: split_set_def Let_def split: list.splits if_splits dest!: dropWhile_Cons_length)

function parse_glob :: "string \<Rightarrow> gtok list" where
  "parse_glob [] = []"
| "parse_glob (c # cs) =
     (if c = CHR ''*'' then GStar # parse_glob cs
      else if c = CHR ''?'' then GAny # parse_glob cs
      else if c = CHR ''['' then
        (case split_set cs of
           None \<Rightarrow> GChar c # parse_glob cs
         | Some (neg, body, rest) \<Rightarrow> GSet neg (parse_set body) # parse_glob rest)
      else GChar c # parse_glob cs)"
  by pat_completeness auto
termination
  by (relation "measure length") (auto dest: split_set_shorter)

fun tok_match :: "gtok \<Rightarrow> char \<Rightarrow> bool" where
  "tok_match GStar c = True"
| "tok_match GAny c = True"
| "tok_match (GChar d) c = (c = d)"
| "tok_match (GSet neg rs) c = (list_ex (\<lambda>(a, b). a \<le> c \<and> c \<le> b) rs \<noteq> neg)"

fun glob_match :: "gtok list \<Rightarrow> string \<Rightarrow> bool" where
  "glob_match [] s = (s = [])"
| "glob_match (GStar # ts) [] = glob_match ts []"
| "glob_match (GStar # ts) (c # cs) = (glob_match ts (c # cs) \<or> glob_match (GStar # ts) cs)"
| "glob_match (t # ts) [] = False"
| "glob_match (t # ts) (c # cs) = (tok_match t c \<and> glob_match ts cs)"

definition fnmatch :: "string \<Rightarrow> string \<Rightarrow> bool" where
  "fnmatch name pat = glob_match (parse_glob pat) name"

lemma glob_star_all: "glob_match [GStar] s"
  by (induction s) auto

lemma fnmatch_star [simp]: "fnmatch name ''*''"
  by (simp add: fnmatch_def glob_star_all)

section \<open>The most specific rule\<close>

type_synonym rule = "string \<times> string"

text \<open>The key \<open>(exact, literal characters, deny)\<close> of the code's \<open>max\<close>, compared as a tuple.\<close>

definition specificity :: "string \<Rightarrow> nat" where
  "specificity pat = length (filter (\<lambda>c. c \<notin> set ''*?[]'') pat)"

definition rule_key :: "string \<Rightarrow> rule \<Rightarrow> bool \<times> nat \<times> bool" where
  "rule_key tool r = (fst r = tool, specificity (fst r), snd r = ''deny'')"

fun key_lt :: "bool \<times> nat \<times> bool \<Rightarrow> bool \<times> nat \<times> bool \<Rightarrow> bool" where
  "key_lt (e, n, d) (e', n', d') =
     ((\<not> e \<and> e') \<or> (e = e' \<and> (n < n' \<or> (n = n' \<and> \<not> d \<and> d'))))"

text \<open>Python's \<open>max(xs, key=...)\<close>: the first element no other exceeds.\<close>

fun max_rule :: "string \<Rightarrow> rule \<Rightarrow> rule list \<Rightarrow> rule" where
  "max_rule tool best [] = best"
| "max_rule tool best (r # rs) =
     max_rule tool (if key_lt (rule_key tool best) (rule_key tool r) then r else best) rs"

definition pick_rule :: "string \<Rightarrow> rule list \<Rightarrow> rule option" where
  "pick_rule tool rs = (case rs of [] \<Rightarrow> None | r # rs' \<Rightarrow> Some (max_rule tool r rs'))"

lemma key_lt_trans: "key_lt a b \<Longrightarrow> key_lt b c \<Longrightarrow> key_lt a c"
  by (cases a; cases b; cases c) auto

lemma key_lt_total: "key_lt a b \<or> a = b \<or> key_lt b a"
  by (cases a; cases b) auto

lemma key_lt_irrefl [simp]: "\<not> key_lt a a"
  by (cases a) auto

declare key_lt.simps [simp del]

lemma max_rule_in: "max_rule tool b rs \<in> insert b (set rs)"
  by (induction rs arbitrary: b) auto

lemma max_rule_ge:
  "r \<in> insert b (set rs) \<Longrightarrow> \<not> key_lt (rule_key tool (max_rule tool b rs)) (rule_key tool r)"
proof (induction rs arbitrary: b r)
  case Nil
  then show ?case by simp
next
  case (Cons x xs)
  let ?b = "if key_lt (rule_key tool b) (rule_key tool x) then x else b"
  have top: "\<not> key_lt (rule_key tool (max_rule tool ?b xs)) (rule_key tool ?b)"
    using Cons.IH [of ?b ?b] by simp
  show ?case
  proof (cases "r \<in> insert ?b (set xs)")
    case True
    then show ?thesis using Cons.IH [of r ?b] by simp
  next
    case False
    then have "r = (if key_lt (rule_key tool b) (rule_key tool x) then b else x)"
      using Cons.prems by (auto split: if_splits)
    then have "\<not> key_lt (rule_key tool ?b) (rule_key tool r)"
      using key_lt_trans [of "rule_key tool b" "rule_key tool x" "rule_key tool b"]
      by (auto split: if_splits)
    moreover have "\<not> key_lt a c" if "\<not> key_lt a b" "\<not> key_lt b c" for a b c
      using that key_lt_total [of a b] key_lt_total [of b c] key_lt_trans by metis
    ultimately show ?thesis using top by (simp only: max_rule.simps) blast
  qed
qed

lemma pick_rule_Some:
  "pick_rule tool rs = Some r \<Longrightarrow> r \<in> set rs \<and> (\<forall>r' \<in> set rs. \<not> key_lt (rule_key tool r) (rule_key tool r'))"
  using max_rule_in [of tool "hd rs" "tl rs"] max_rule_ge [of _ "hd rs" "tl rs" tool]
  by (cases rs) (auto simp: pick_rule_def)

lemma pick_rule_None: "pick_rule tool rs = None \<longleftrightarrow> rs = []"
  by (cases rs) (auto simp: pick_rule_def)

text \<open>The verdict of the chosen rule does not depend on the order the rows came back in.\<close>

lemma pick_rule_deny_order:
  assumes "set rs = set rs'"
  shows "map_option (\<lambda>r. snd r = ''deny'') (pick_rule tool rs) =
         map_option (\<lambda>r. snd r = ''deny'') (pick_rule tool rs')"
proof (cases "rs = []")
  case True
  then show ?thesis using assms by (simp add: pick_rule_def)
next
  case False
  then obtain a b where ab: "pick_rule tool rs = Some a" "pick_rule tool rs' = Some b"
    using assms pick_rule_None by (metis not_Some_eq set_empty)
  then have "rule_key tool a = rule_key tool b"
    using pick_rule_Some [OF ab(1)] pick_rule_Some [OF ab(2)] key_lt_total assms by metis
  then show ?thesis using ab by (simp add: rule_key_def)
qed

section \<open>The permission check\<close>

datatype denial =
    MissingRole
  | UserDenied string
  | NoRules
  | RoleDenied string
  | NoMatch
  | Unavailable

record perm_db =
  user_permissions :: "(string \<times> string \<times> string \<times> string) list"
  role_permissions :: "(string \<times> string \<times> string \<times> string) list"

definition default_tenant_rules :: string where "default_tenant_rules = ''__default__''"

text \<open>The two queries: rows of \<open>(tenant, user or role, pattern, access)\<close>.\<close>

definition user_rules :: "perm_db \<Rightarrow> string \<Rightarrow> string \<Rightarrow> rule list" where
  "user_rules db tenant user =
     [(p, a). (t, u, p, a) \<leftarrow> user_permissions db, t = tenant \<and> u = user]"

definition role_rules :: "perm_db \<Rightarrow> string \<Rightarrow> string \<Rightarrow> (string \<times> string \<times> string) list" where
  "role_rules db tenant role =
     [(p, a, t). (t, r, p, a) \<leftarrow> role_permissions db, r = role \<and> (t = tenant \<or> t = default_tenant_rules)]"

definition matching_rules :: "string \<Rightarrow> rule list \<Rightarrow> rule list" where
  "matching_rules tool rs = filter (\<lambda>r. fnmatch tool (fst r)) rs"

fun level_rules :: "string \<Rightarrow> (string \<times> string \<times> string) list \<Rightarrow> rule list" where
  "level_rules t rs = [(p, a). (p, a, t') \<leftarrow> rs, t' = t]"

fun decide_levels :: "string \<Rightarrow> (string \<times> string \<times> string) list \<Rightarrow> string list \<Rightarrow> denial option" where
  "decide_levels tool rules [] = Some NoMatch"
| "decide_levels tool rules (t # ts) =
     (case pick_rule tool (matching_rules tool (level_rules t rules)) of
        None \<Rightarrow> decide_levels tool rules ts
      | Some r \<Rightarrow> if snd r = ''deny'' then Some (RoleDenied (fst r)) else None)"

definition user_pick :: "perm_db \<Rightarrow> string \<Rightarrow> string \<Rightarrow> string option \<Rightarrow> rule option" where
  "user_pick db tenant tool user =
     (case user of None \<Rightarrow> None
      | Some u \<Rightarrow> if u = [] then None
                 else pick_rule tool (matching_rules tool (user_rules db tenant u)))"

text \<open>
  \<open>db\<close> is \<open>None\<close> when reading the rules raises, which the code catches and denies on;
  an empty \<open>user\<close> skips the per-user rules.
\<close>

definition check_tool_permission ::
  "perm_db option \<Rightarrow> string \<Rightarrow> string \<Rightarrow> string \<Rightarrow> string option \<Rightarrow> denial option" where
  "check_tool_permission dbo role tenant tool user =
     (if role = [] then Some MissingRole
      else (case dbo of
        None \<Rightarrow> Some Unavailable
      | Some db \<Rightarrow>
          (case user_pick db tenant tool user of
             Some r \<Rightarrow> if snd r = ''deny'' then Some (UserDenied (fst r)) else None
           | None \<Rightarrow>
               (let rules = role_rules db tenant role in
                if rules = [] then Some NoRules
                else decide_levels tool rules [tenant, default_tenant_rules]))))"

declare level_rules.simps [simp del] decide_levels.simps [simp del]

datatype sys_action = SysAllow | SysBlock denial | SysObserve denial

definition classify_system_tool_access ::
  "perm_db option \<Rightarrow> string \<Rightarrow> string \<Rightarrow> string \<Rightarrow> string \<Rightarrow> sys_action" where
  "classify_system_tool_access dbo service_role tenant tool mode =
     (if mode = ''off'' then SysAllow
      else (case check_tool_permission dbo service_role tenant tool None of
              None \<Rightarrow> SysAllow
            | Some reason \<Rightarrow> if mode = ''enforce'' then SysBlock reason else SysObserve reason))"

text \<open>The platform defaults \<open>seed_default_permissions\<close> inserts (kept when already present).\<close>

definition default_permissions :: "(string \<times> string \<times> string) list" where
  "default_permissions =
     [(''viewer'', ''search_*'', ''allow''), (''viewer'', ''get_*'', ''allow''),
      (''viewer'', ''list_*'', ''allow''), (''viewer'', ''memory_block_read'', ''allow''),
      (''viewer'', ''memory_block_list'', ''allow''), (''viewer'', ''*'', ''deny''),
      (''service'', ''*'', ''allow''), (''user'', ''*'', ''allow''),
      (''member'', ''*'', ''allow''), (''admin'', ''*'', ''allow''), (''owner'', ''*'', ''allow'')]"

definition seed_row :: "perm_db \<Rightarrow> string \<times> string \<times> string \<Rightarrow> perm_db" where
  "seed_row db = (\<lambda>(role, pat, acc).
     if list_ex (\<lambda>(t, r, p, a). t = default_tenant_rules \<and> r = role \<and> p = pat) (role_permissions db)
     then db
     else db\<lparr>role_permissions := role_permissions db @ [(default_tenant_rules, role, pat, acc)]\<rparr>)"

definition seed_default_permissions :: "perm_db \<Rightarrow> perm_db" where
  "seed_default_permissions db = foldl seed_row db default_permissions"

definition decided_by :: "rule list \<Rightarrow> string \<Rightarrow> rule \<Rightarrow> bool" where
  "decided_by rs tool r \<longleftrightarrow> r \<in> set rs \<and> fnmatch tool (fst r) \<and>
     (\<forall>r' \<in> set rs. fnmatch tool (fst r') \<longrightarrow> \<not> key_lt (rule_key tool r) (rule_key tool r'))"

lemma pick_matching:
  "pick_rule tool (matching_rules tool rs) = Some r \<Longrightarrow> decided_by rs tool r"
  using pick_rule_Some [of tool "matching_rules tool rs" r]
  by (auto simp: decided_by_def matching_rules_def)

lemma pick_matching_None:
  "pick_rule tool (matching_rules tool rs) = None \<longleftrightarrow> (\<forall>r \<in> set rs. \<not> fnmatch tool (fst r))"
  by (auto simp: pick_rule_None matching_rules_def filter_empty_conv)

text \<open>
  C2: the check denies by default and by specificity. It allows a call only when the role is
  named, the rules could be read, and the rule that decides is an allow that matches the tool
  and that no matching rule of the same level exceeds, so a deny at least as specific is never
  overridden; the level is the user's own rules, then the tenant's, then the defaults.
\<close>

theorem permission_sound:
  assumes "check_tool_permission dbo role tenant tool user = None"
  shows "role \<noteq> [] \<and> (\<exists>db r level. dbo = Some db \<and> snd r \<noteq> ''deny'' \<and> decided_by level tool r \<and>
    ((\<exists>u. user = Some u \<and> u \<noteq> [] \<and> level = user_rules db tenant u) \<or>
     (\<forall>u. user = Some u \<longrightarrow> u \<noteq> [] \<longrightarrow> (\<forall>r \<in> set (user_rules db tenant u). \<not> fnmatch tool (fst r))) \<and>
     (level = level_rules tenant (role_rules db tenant role) \<or>
      (\<forall>r \<in> set (level_rules tenant (role_rules db tenant role)). \<not> fnmatch tool (fst r)) \<and>
      level = level_rules default_tenant_rules (role_rules db tenant role))))"
proof -
  obtain db where db: "dbo = Some db" and role: "role \<noteq> []"
    using assms by (auto simp: check_tool_permission_def split: if_splits option.splits)
  show ?thesis
  proof (cases "user_pick db tenant tool user")
    case (Some r)
    then have "snd r \<noteq> ''deny''" using assms db role by (auto simp: check_tool_permission_def split: if_splits)
    moreover obtain u where "user = Some u" "u \<noteq> []"
      "pick_rule tool (matching_rules tool (user_rules db tenant u)) = Some r"
      using Some by (auto simp: user_pick_def split: option.splits if_splits)
    ultimately show ?thesis using role db pick_matching by metis
  next
    case None
    then have nouser: "\<forall>u. user = Some u \<longrightarrow> u \<noteq> [] \<longrightarrow> (\<forall>r \<in> set (user_rules db tenant u). \<not> fnmatch tool (fst r))"
      by (auto simp: user_pick_def pick_matching_None split: option.splits if_splits)
    from None assms db role
    have "decide_levels tool (role_rules db tenant role) [tenant, default_tenant_rules] = None"
      by (auto simp: check_tool_permission_def Let_def split: if_splits)
    then obtain r where "snd r \<noteq> ''deny''" and
      "pick_rule tool (matching_rules tool (level_rules tenant (role_rules db tenant role))) = Some r \<or>
       pick_rule tool (matching_rules tool (level_rules tenant (role_rules db tenant role))) = None \<and>
       pick_rule tool (matching_rules tool (level_rules default_tenant_rules (role_rules db tenant role))) = Some r"
      by (auto simp: decide_levels.simps split: option.splits if_splits)
    then show ?thesis using role db nouser pick_matching pick_matching_None by metis
  qed
qed

definition no_rules_db :: perm_db where
  "no_rules_db = \<lparr>user_permissions = [], role_permissions = []\<rparr>"

lemma seeded_get_stats:
  "check_tool_permission (Some (seed_default_permissions no_rules_db)) ''viewer'' ''acme'' ''get_stats'' None = None"
  by code_simp

theorem permission_sound_witness:
  "\<exists>r level. snd r \<noteq> ''deny'' \<and> decided_by level ''get_stats'' r"
  using permission_sound [OF seeded_get_stats] by blast

lemma check_order:
  assumes "set (user_permissions db) = set (user_permissions db')"
    and "set (role_permissions db) = set (role_permissions db')"
  shows "(check_tool_permission (Some db) role tenant tool user = None) =
         (check_tool_permission (Some db') role tenant tool user = None)"
proof -
  let ?deny = "map_option (\<lambda>r. snd r = ''deny'')"
  have u: "?deny (pick_rule tool (matching_rules tool (user_rules db tenant u))) =
      ?deny (pick_rule tool (matching_rules tool (user_rules db' tenant u)))" for u
    by (rule pick_rule_deny_order) (auto simp: matching_rules_def user_rules_def assms)
  have rr: "set (role_rules db tenant role) = set (role_rules db' tenant role)"
    by (auto simp: role_rules_def assms)
  have l: "?deny (pick_rule tool (matching_rules tool (level_rules t (role_rules db tenant role)))) =
      ?deny (pick_rule tool (matching_rules tool (level_rules t (role_rules db' tenant role))))" for t
    by (rule pick_rule_deny_order) (auto simp: matching_rules_def level_rules.simps rr)
  have d: "(decide_levels tool (role_rules db tenant role) ts = None) =
      (decide_levels tool (role_rules db' tenant role) ts = None)" for ts
  proof (induction ts)
    case (Cons t ts)
    then show ?case using l [of t] by (auto simp: decide_levels.simps split: option.splits)
  qed (simp add: decide_levels.simps)
  have e: "role_rules db tenant role = [] \<longleftrightarrow> role_rules db' tenant role = []"
    using rr by (metis set_empty)
  have ur: "?deny (user_pick db tenant tool user) = ?deny (user_pick db' tenant tool user)"
    using u by (cases user) (auto simp: user_pick_def)
  show ?thesis
  proof (cases "user_pick db tenant tool user")
    case None
    then have "user_pick db' tenant tool user = None" using ur by (metis option.map_disc_iff)
    then show ?thesis using None d [of "[tenant, default_tenant_rules]"] e
      by (simp add: check_tool_permission_def Let_def)
  next
    case (Some r)
    then obtain r' where "user_pick db' tenant tool user = Some r'" "(snd r' = ''deny'') = (snd r = ''deny'')"
      using ur by (cases "user_pick db' tenant tool user") auto
    then show ?thesis using Some by (simp add: check_tool_permission_def)
  qed
qed

lemma check_one_level:
  assumes "role \<noteq> []" "role_rules db tenant role \<noteq> []"
    and lev: "\<And>t. level_rules t (role_rules db tenant role) = (if t = default_tenant_rules then L else [])"
    and r: "pick_rule tool (matching_rules tool L) = Some r"
  shows "check_tool_permission (Some db) role tenant tool None = None \<longleftrightarrow> snd r \<noteq> ''deny''"
proof -
  have none: "pick_rule tool (matching_rules tool []) = None" by (simp add: pick_rule_def matching_rules_def)
  define R where "R = role_rules db tenant role"
  have lev': "level_rules t R = (if t = default_tenant_rules then L else [])" for t
    using lev by (simp add: R_def)
  have "decide_levels tool R [tenant, default_tenant_rules] =
      (if snd r = ''deny'' then Some (RoleDenied (fst r)) else None)"
    using r none by (cases "tenant = default_tenant_rules") (simp_all add: decide_levels.simps lev')
  then have "decide_levels tool (role_rules db tenant role) [tenant, default_tenant_rules] =
      (if snd r = ''deny'' then Some (RoleDenied (fst r)) else None)" by (simp add: R_def)
  then show ?thesis using assms(1,2) by (simp add: check_tool_permission_def Let_def user_pick_def)
qed

text \<open>The rules the seeding installs for a viewer.\<close>

abbreviation viewer_allow :: "(string \<times> string) list" where
  "viewer_allow \<equiv> [(''search_*'', ''allow''), (''get_*'', ''allow''),
      (''list_*'', ''allow''), (''memory_block_read'', ''allow''), (''memory_block_list'', ''allow'')]"

lemma seeded_rows:
  "role_permissions (seed_default_permissions no_rules_db) =
   map (\<lambda>(r, p, a). (default_tenant_rules, r, p, a)) default_permissions"
  by code_simp

lemma seeded_viewer_rules:
  "role_rules (seed_default_permissions no_rules_db) tenant ''viewer'' =
   map (\<lambda>(p, a). (p, a, default_tenant_rules)) (viewer_allow @ [(''*'', ''deny'')])"
  unfolding role_rules_def seeded_rows default_permissions_def by simp

lemma level_rules_tagged:
  "level_rules t (map (\<lambda>(p, a). (p, a, d)) L) = (if t = d then L else [])"
  by (induction L) (auto simp: level_rules.simps)

lemma allow_over_star:
  assumes L: "L = A @ [(''*'', ''deny'')]" and A: "\<forall>x \<in> set A. snd x = ''allow'' \<and>
      0 < specificity (fst x) \<and> \<not> fnmatch ''*'' (fst x)"
    and r: "pick_rule tool (matching_rules tool L) = Some r"
  shows "snd r \<noteq> ''deny'' \<longleftrightarrow> (\<exists>x \<in> set A. fnmatch tool (fst x))"
proof
  note dec = pick_matching [OF r]
  assume "snd r \<noteq> ''deny''"
  then show "\<exists>x \<in> set A. fnmatch tool (fst x)" using dec by (auto simp: decided_by_def L)
next
  note dec = pick_matching [OF r]
  assume "\<exists>x \<in> set A. fnmatch tool (fst x)"
  then obtain x where x: "x \<in> set A" "fnmatch tool (fst x)" by blast
  have sx: "snd x = ''allow''" "0 < specificity (fst x)" "tool \<noteq> ''*''" using A x by auto
  have s0: "specificity ''*'' = 0" by code_simp
  have lt: "key_lt (rule_key tool (''*'', ''deny'')) (rule_key tool x)"
    using sx s0 by (auto simp: rule_key_def key_lt.simps)
  have "\<not> key_lt (rule_key tool r) (rule_key tool x)"
    using dec x by (auto simp: decided_by_def L)
  then have "r \<noteq> (''*'', ''deny'')" using lt by metis
  then show "snd r \<noteq> ''deny''" using dec A by (auto simp: decided_by_def L)
qed

text \<open>
  with the platform defaults and nothing else, a viewer may call exactly the tools named
  search, get and list (by prefix) and the two memory-block readers, whatever the tenant.
\<close>

theorem viewer_defaults_read_only:
  "check_tool_permission (Some (seed_default_permissions no_rules_db)) ''viewer'' tenant tool None = None
   \<longleftrightarrow> (\<exists>p \<in> {''search_*'', ''get_*'', ''list_*'', ''memory_block_read'', ''memory_block_list''}.
        fnmatch tool p)"
proof -
  define L where "L = viewer_allow @ [(''*'', ''deny'')]"
  have "\<exists>x \<in> set L. fnmatch tool (fst x)" by (simp add: L_def)
  then obtain r where r: "pick_rule tool (matching_rules tool L) = Some r"
    using pick_matching_None [of tool L] by fastforce
  have "check_tool_permission (Some (seed_default_permissions no_rules_db)) ''viewer'' tenant tool None = None
      \<longleftrightarrow> snd r \<noteq> ''deny''"
  proof (rule check_one_level [OF _ _ _ r])
    show "role_rules (seed_default_permissions no_rules_db) tenant ''viewer'' \<noteq> []"
      unfolding seeded_viewer_rules by simp
    show "level_rules t (role_rules (seed_default_permissions no_rules_db) tenant ''viewer'') =
        (if t = default_tenant_rules then L else [])" for t
      unfolding seeded_viewer_rules level_rules_tagged L_def by (rule refl)
  qed simp
  also have "\<dots> \<longleftrightarrow> (\<exists>x \<in> set viewer_allow. fnmatch tool (fst x))"
    by (rule allow_over_star [OF L_def _ r]) code_simp
  finally show ?thesis by simp
qed

text \<open>The decision does not depend on the order in which the rule rows are returned.\<close>

theorem permission_row_order:
  assumes "mset (user_permissions db) = mset (user_permissions db')"
    and "mset (role_permissions db) = mset (role_permissions db')"
  shows "(check_tool_permission (Some db) role tenant tool user = None) =
         (check_tool_permission (Some db') role tenant tool user = None)"
  using assms by (intro check_order) (metis set_mset_mset)+

theorem permission_row_order_witness:
  "check_tool_permission (Some \<lparr>user_permissions = [], role_permissions =
       [(''t'', ''r'', ''x'', ''deny''), (''t'', ''r'', ''*'', ''allow'')]\<rparr>) ''r'' ''t'' ''x'' None \<noteq> None"
proof -
  have "(check_tool_permission (Some \<lparr>user_permissions = [], role_permissions =
       [(''t'', ''r'', ''x'', ''deny''), (''t'', ''r'', ''*'', ''allow'')]\<rparr>) ''r'' ''t'' ''x'' None = None) =
     (check_tool_permission (Some \<lparr>user_permissions = [], role_permissions =
       [(''t'', ''r'', ''*'', ''allow''), (''t'', ''r'', ''x'', ''deny'')]\<rparr>) ''r'' ''t'' ''x'' None = None)"
    by (rule permission_row_order) (simp_all add: add_mset_commute)
  moreover have "check_tool_permission (Some \<lparr>user_permissions = [], role_permissions =
       [(''t'', ''r'', ''*'', ''allow''), (''t'', ''r'', ''x'', ''deny'')]\<rparr>) ''r'' ''t'' ''x'' None \<noteq> None"
    by code_simp
  ultimately show ?thesis by blast
qed

section \<open>The rule cache\<close>

text \<open>
  \<open>_cached_rows\<close> under interleaving. A read takes its generation first, reads the table,
  and stores what it read only if the generation is unchanged; a writer commits to the table
  and then invalidates. Times are milliseconds of the monotonic clock. What a table read
  returns is a function \<open>content\<close> of the table's version, which every commit increases.
\<close>

definition PERMISSION_CACHE_TTL :: int where "PERMISSION_CACHE_TTL = 5000"

type_synonym cache_key = "string \<times> string \<times> string"

record 'r rule_cache =
  c_generation :: nat
  c_entries :: "(cache_key, 'r \<times> nat \<times> int) dict"

definition invalidate_permission_cache :: "'r rule_cache \<Rightarrow> 'r rule_cache" where
  "invalidate_permission_cache c = c\<lparr>c_generation := Suc (c_generation c), c_entries := []\<rparr>"

definition cache_probe :: "cache_key \<Rightarrow> int \<Rightarrow> 'r rule_cache \<Rightarrow> 'r option" where
  "cache_probe key now c =
     (case dict_get (c_entries c) key of
        None \<Rightarrow> None
      | Some (rows, gen, at) \<Rightarrow>
          if gen = c_generation c \<and> now - at < PERMISSION_CACHE_TTL then Some rows else None)"

definition cache_store :: "cache_key \<Rightarrow> nat \<Rightarrow> 'r \<Rightarrow> int \<Rightarrow> 'r rule_cache \<Rightarrow> 'r rule_cache" where
  "cache_store key generation rows now c =
     (if generation = c_generation c
      then c\<lparr>c_entries := dict_set key (rows, generation, now) (c_entries c)\<rparr> else c)"

text \<open>The whole call when nothing interleaves; \<open>fetch\<close> raises with \<open>Inl\<close>.\<close>

definition cached_rows ::
  "cache_key \<Rightarrow> 'r result \<Rightarrow> int \<Rightarrow> int \<Rightarrow> 'r rule_cache \<Rightarrow> 'r result \<times> 'r rule_cache" where
  "cached_rows key fetch now now' c =
     (case cache_probe key now c of
        Some rows \<Rightarrow> (Inr rows, c)
      | None \<Rightarrow>
          (case fetch of
             Inl err \<Rightarrow> (Inl err, c)
           | Inr rows \<Rightarrow> (Inr rows, cache_store key (c_generation c) rows now' c)))"

text \<open>
  The interleaved system: readers numbered by \<open>nat\<close>, each between taking the generation and
  storing, holding the version it read once it has read; \<open>settled\<close> is the table's version at
  the last invalidation.
\<close>

record cache_sys =
  cs_cache :: "nat rule_cache"
  cs_version :: nat
  cs_settled :: nat
  cs_pending :: "nat \<rightharpoonup> cache_key \<times> nat \<times> nat option"

inductive cache_step :: "cache_sys \<Rightarrow> cache_sys \<Rightarrow> bool" where
  start_read: "cs_pending s i = None \<Longrightarrow> cache_probe key now (cs_cache s) = None \<Longrightarrow>
     cache_step s (s\<lparr>cs_pending := (cs_pending s)(i \<mapsto> (key, c_generation (cs_cache s), None))\<rparr>)"
| table_read: "cs_pending s i = Some (key, g, None) \<Longrightarrow>
     cache_step s (s\<lparr>cs_pending := (cs_pending s)(i \<mapsto> (key, g, Some (cs_version s)))\<rparr>)"
| store: "cs_pending s i = Some (key, g, Some v) \<Longrightarrow>
     cache_step s (s\<lparr>cs_cache := cache_store key g v now (cs_cache s),
                     cs_pending := (cs_pending s)(i := None)\<rparr>)"
| commit: "cache_step s (s\<lparr>cs_version := Suc (cs_version s)\<rparr>)"
| invalidate: "cache_step s (s\<lparr>cs_cache := invalidate_permission_cache (cs_cache s),
     cs_settled := cs_version s\<rparr>)"

inductive_cases cache_stepE: "cache_step s t"

definition cache_inv :: "cache_sys \<Rightarrow> bool" where
  "cache_inv s \<longleftrightarrow> cs_settled s \<le> cs_version s \<and>
     (\<forall>key v g at. dict_get (c_entries (cs_cache s)) key = Some (v, g, at) \<longrightarrow>
        g = c_generation (cs_cache s) \<longrightarrow> cs_settled s \<le> v) \<and>
     (\<forall>i key g v. cs_pending s i = Some (key, g, Some v) \<longrightarrow>
        g = c_generation (cs_cache s) \<longrightarrow> cs_settled s \<le> v) \<and>
     (\<forall>i key g v. cs_pending s i = Some (key, g, v) \<longrightarrow> g \<le> c_generation (cs_cache s))"

lemma cache_inv_step: "cache_step s t \<Longrightarrow> cache_inv s \<Longrightarrow> cache_inv t"
proof (induction rule: cache_step.induct)
  case (store s i key g v now)
  then show ?case
    by (auto simp: cache_inv_def cache_store_def split: if_splits)
qed (fastforce simp: cache_inv_def invalidate_permission_cache_def split: if_splits)+

text \<open>
  C21: in every interleaving of readers and writers, what the cache serves was read from the
  table at or after the last invalidation, so a revoked permission whose writer has
  invalidated is never served again.
\<close>

theorem cache_never_stale:
  assumes "cache_step\<^sup>*\<^sup>* s t" "cache_inv s" "cache_probe key now (cs_cache t) = Some v"
  shows "cs_settled t \<le> v"
proof -
  from assms(1,2) have "cache_inv t"
    by (induction rule: rtranclp_induct) (auto intro: cache_inv_step)
  then show ?thesis using assms(3)
    by (cases key) (fastforce simp: cache_inv_def cache_probe_def split: option.splits if_splits prod.splits)
qed

definition cache_start :: cache_sys where
  "cache_start = \<lparr>cs_cache = \<lparr>c_generation = 0, c_entries = []\<rparr>, cs_version = 0,
                  cs_settled = 0, cs_pending = Map.empty\<rparr>"

lemma cache_run:
  "cache_step\<^sup>*\<^sup>* cache_start (cache_start\<lparr>cs_pending := Map.empty(0 \<mapsto> ((''t'', ''r'', ''x''), 0, None))\<rparr>)"
  "cache_step\<^sup>*\<^sup>* (cache_start\<lparr>cs_pending := Map.empty(0 \<mapsto> ((''t'', ''r'', ''x''), 0, None))\<rparr>)
     (cache_start\<lparr>cs_pending := Map.empty(0 \<mapsto> ((''t'', ''r'', ''x''), 0, Some 0))\<rparr>)"
  "cache_step\<^sup>*\<^sup>* (cache_start\<lparr>cs_pending := Map.empty(0 \<mapsto> ((''t'', ''r'', ''x''), 0, Some 0))\<rparr>)
     (cache_start\<lparr>cs_cache := \<lparr>c_generation = 0, c_entries = [((''t'', ''r'', ''x''), (0, 0, 7))]\<rparr>\<rparr>)"
proof -
  show "cache_step\<^sup>*\<^sup>* cache_start (cache_start\<lparr>cs_pending := Map.empty(0 \<mapsto> ((''t'', ''r'', ''x''), 0, None))\<rparr>)"
    using start_read [of cache_start 0 "(''t'', ''r'', ''x'')" 0]
    by (intro r_into_rtranclp) (simp add: cache_start_def cache_probe_def)
  show "cache_step\<^sup>*\<^sup>* (cache_start\<lparr>cs_pending := Map.empty(0 \<mapsto> ((''t'', ''r'', ''x''), 0, None))\<rparr>)
     (cache_start\<lparr>cs_pending := Map.empty(0 \<mapsto> ((''t'', ''r'', ''x''), 0, Some 0))\<rparr>)"
    using table_read [of "cache_start\<lparr>cs_pending := Map.empty(0 \<mapsto> ((''t'', ''r'', ''x''), 0, None))\<rparr>" 0]
    by (intro r_into_rtranclp) (simp add: cache_start_def)
  show "cache_step\<^sup>*\<^sup>* (cache_start\<lparr>cs_pending := Map.empty(0 \<mapsto> ((''t'', ''r'', ''x''), 0, Some 0))\<rparr>)
     (cache_start\<lparr>cs_cache := \<lparr>c_generation = 0, c_entries = [((''t'', ''r'', ''x''), (0, 0, 7))]\<rparr>\<rparr>)"
    using store [of "cache_start\<lparr>cs_pending := Map.empty(0 \<mapsto> ((''t'', ''r'', ''x''), 0, Some 0))\<rparr>" 0
        "(''t'', ''r'', ''x'')" 0 0 7]
    by (intro r_into_rtranclp) (simp add: cache_start_def cache_store_def)
qed

theorem cache_never_stale_witness:
  "\<exists>t. cache_step\<^sup>*\<^sup>* cache_start t \<and> cache_probe (''t'', ''r'', ''x'') 8 (cs_cache t) = Some 0 \<and> cs_settled t \<le> 0"
proof -
  let ?t = "cache_start\<lparr>cs_cache := \<lparr>c_generation = 0, c_entries = [((''t'', ''r'', ''x''), (0, 0, 7))]\<rparr>\<rparr>"
  have run: "cache_step\<^sup>*\<^sup>* cache_start ?t"
    by (rule rtranclp_trans [OF cache_run(1) rtranclp_trans [OF cache_run(2) cache_run(3)]])
  have p: "cache_probe (''t'', ''r'', ''x'') 8 (cs_cache ?t) = Some 0"
    by (simp add: cache_probe_def PERMISSION_CACHE_TTL_def)
  have "cs_settled ?t \<le> 0"
    by (rule cache_never_stale [OF run _ p]) (simp add: cache_inv_def cache_start_def)
  then show ?thesis using run p by blast
qed

section \<open>Tenants a role may reach\<close>

definition DEFAULT_TENANT :: string where "DEFAULT_TENANT = ''default''"

fun visit_children :: "string list \<Rightarrow> string list \<Rightarrow> string list \<Rightarrow> string list \<times> string list" where
  "visit_children [] acc next = (acc, next)"
| "visit_children (c # cs) acc next =
     (if c \<in> set acc then visit_children cs acc next
      else visit_children cs (acc @ [c]) (next @ [c]))"

fun visit_level ::
  "(string \<Rightarrow> string list) \<Rightarrow> string list \<Rightarrow> string list \<Rightarrow> string list \<Rightarrow> string list \<times> string list" where
  "visit_level children [] acc next = (acc, next)"
| "visit_level children (p # ps) acc next =
     (case visit_children (children p) acc next of (acc', next') \<Rightarrow> visit_level children ps acc' next')"

text \<open>The loop \<open>while queue and depth < max_depth\<close>; the argument counts the depth left.\<close>

fun visit_depth :: "(string \<Rightarrow> string list) \<Rightarrow> nat \<Rightarrow> string list \<Rightarrow> string list \<Rightarrow> string list" where
  "visit_depth children 0 queue acc = acc"
| "visit_depth children (Suc d) queue acc =
     (if queue = [] then acc
      else (case visit_level children queue acc [] of (acc', next) \<Rightarrow> visit_depth children d next acc'))"

definition resolve_accessible_tenants ::
  "(string \<Rightarrow> string list) \<Rightarrow> string \<Rightarrow> string option \<Rightarrow> nat \<Rightarrow> string list" where
  "resolve_accessible_tenants children tenant role max_depth =
     (if tenant = [] then [DEFAULT_TENANT]
      else if role \<noteq> Some ''owner'' \<and> role \<noteq> Some ''admin'' then [tenant]
      else visit_depth children max_depth [tenant] [tenant])"

lemma visit_children_spec:
  assumes "visit_children cs acc next = (acc', next')" "distinct acc"
  shows "set acc' = set acc \<union> set cs \<and> set next' = set next \<union> (set cs - set acc) \<and>
    distinct acc' \<and> prefix acc acc'"
  using assms
proof (induction cs acc "next" rule: visit_children.induct)
  case (1 acc nx)
  then show ?case by simp
next
  case (2 c cs acc nx)
  show ?case
  proof (cases "c \<in> set acc")
    case True
    then show ?thesis using 2 by auto
  next
    case False
    then show ?thesis using 2(2) [OF False] 2(3,4) by (auto dest: append_prefixD)
  qed
qed

lemma visit_level_spec:
  assumes "visit_level children ps acc next = (acc', next')" "distinct acc"
  shows "set acc' = set acc \<union> (\<Union>p \<in> set ps. set (children p)) \<and>
    set next \<subseteq> set next' \<and> set next' \<subseteq> set next \<union> set acc' \<and>
    set acc' - set acc \<subseteq> set next' \<and> distinct acc' \<and> prefix acc acc'"
  using assms
proof (induction children ps acc "next" rule: visit_level.induct)
  case (1 ch acc nx)
  then show ?case by auto
next
  case (2 ch p ps acc nx)
  obtain a1 n1 where v: "visit_children (ch p) acc nx = (a1, n1)" by fastforce
  note v' = visit_children_spec [OF v \<open>distinct acc\<close>]
  have "visit_level ch ps a1 n1 = (acc', next')" using 2(2) v by simp
  note ih = "2.IH" [OF v [symmetric] this]
  then show ?case using v' ih by (auto intro: prefix_order.trans)
qed

abbreviation child_rel :: "(string \<Rightarrow> string list) \<Rightarrow> (string \<times> string) set" where
  "child_rel children \<equiv> {(p, c). c \<in> set (children p)}"

lemma visit_depth_spec:
  assumes "set queue \<subseteq> set acc" "\<forall>p \<in> set acc - set queue. set (children p) \<subseteq> set acc" "distinct acc"
  shows "set (visit_depth children d queue acc) = {x. \<exists>a \<in> set acc. \<exists>n \<le> d. (a, x) \<in> child_rel children ^^ n}
    \<and> distinct (visit_depth children d queue acc) \<and> prefix acc (visit_depth children d queue acc)"
  using assms
proof (induction d arbitrary: queue acc)
  case 0
  then show ?case by auto
next
  case (Suc d)
  let ?R = "child_rel children"
  show ?case
  proof (cases "queue = []")
    case True
    have "x \<in> set acc" if "a \<in> set acc" "(a, x) \<in> ?R ^^ n" for a x n
      using that(2) by (induction n arbitrary: x) (use that(1) Suc.prems(2) True in auto)
    moreover have "\<exists>a \<in> set acc. \<exists>n \<le> Suc d. (a, x) \<in> ?R ^^ n" if "x \<in> set acc" for x
      by (rule bexI [OF _ that], rule exI [of _ 0]) simp
    ultimately show ?thesis using True Suc.prems by auto
  next
    case False
    obtain acc' nx where v: "visit_level children queue acc [] = (acc', nx)" by fastforce
    note lv = visit_level_spec [OF v Suc.prems(3)]
    have closed: "z \<in> set acc'" if "a \<in> set acc" "z \<in> set (children a)" for a z
      using that lv Suc.prems(2) by blast
    have ih: "set (visit_depth children d nx acc') = {x. \<exists>a \<in> set acc'. \<exists>n \<le> d. (a, x) \<in> ?R ^^ n}
        \<and> distinct (visit_depth children d nx acc') \<and> prefix acc' (visit_depth children d nx acc')"
    proof (rule Suc.IH)
      show "set nx \<subseteq> set acc'" "distinct acc'" using lv by auto
      show "\<forall>p \<in> set acc' - set nx. set (children p) \<subseteq> set acc'"
      proof
        fix p assume "p \<in> set acc' - set nx"
        then have "p \<in> set acc" using lv by blast
        then show "set (children p) \<subseteq> set acc'" using closed by blast
      qed
    qed
    have "(\<exists>a \<in> set acc'. \<exists>n \<le> d. (a, x) \<in> ?R ^^ n) \<longleftrightarrow> (\<exists>a \<in> set acc. \<exists>n \<le> Suc d. (a, x) \<in> ?R ^^ n)" for x
    proof
      assume "\<exists>a \<in> set acc'. \<exists>n \<le> d. (a, x) \<in> ?R ^^ n"
      then obtain a n where a: "a \<in> set acc'" "n \<le> d" "(a, x) \<in> ?R ^^ n" by blast
      show "\<exists>a \<in> set acc. \<exists>n \<le> Suc d. (a, x) \<in> ?R ^^ n"
      proof (cases "a \<in> set acc")
        case True
        then show ?thesis using a by (meson le_SucI)
      next
        case False
        then obtain p where "p \<in> set acc" "(p, a) \<in> ?R" using lv a(1) Suc.prems(1) by auto
        then have "(p, x) \<in> ?R ^^ Suc n" using a(3) relpow_Suc_I2 by metis
        then show ?thesis using \<open>p \<in> set acc\<close> a(2) by (meson Suc_le_mono)
      qed
    next
      assume "\<exists>a \<in> set acc. \<exists>n \<le> Suc d. (a, x) \<in> ?R ^^ n"
      then obtain a n where a: "a \<in> set acc" "n \<le> Suc d" "(a, x) \<in> ?R ^^ n" by blast
      show "\<exists>a \<in> set acc'. \<exists>n \<le> d. (a, x) \<in> ?R ^^ n"
      proof (cases n)
        case 0
        then have "x \<in> set acc'" using a lv by auto
        then show ?thesis by (rule bexI [rotated]) (rule exI [of _ 0], simp)
      next
        case (Suc m)
        then obtain z where "(a, z) \<in> ?R" "(z, x) \<in> ?R ^^ m" using a(3) relpow_Suc_D2 by metis
        then show ?thesis using closed [OF a(1)] a(2) Suc by auto
      qed
    qed
    then show ?thesis using ih False v lv by (auto intro: prefix_order.trans)
  qed
qed

text \<open>
  C22: an owner or admin reaches exactly the tenants at most \<open>max_depth\<close> parent links below
  its own, each listed once with its own first, on every hierarchy, cyclic ones included;
  every other role reaches its own tenant only.
\<close>

theorem accessible_tenants_exact:
  assumes "tenant \<noteq> []"
  shows "distinct (resolve_accessible_tenants children tenant role depth) \<and>
    hd (resolve_accessible_tenants children tenant role depth) = tenant \<and>
    set (resolve_accessible_tenants children tenant role depth) =
      (if role = Some ''owner'' \<or> role = Some ''admin''
       then {x. \<exists>n \<le> depth. (tenant, x) \<in> child_rel children ^^ n} else {tenant})"
proof -
  have "prefix [tenant] xs \<Longrightarrow> hd xs = tenant" for xs by (auto simp: prefix_def)
  then show ?thesis
    using assms visit_depth_spec [of "[tenant]" "[tenant]" children depth]
    by (auto simp: resolve_accessible_tenants_def)
qed

theorem accessible_tenants_exact_witness:
  "set (resolve_accessible_tenants (\<lambda>t. if t = ''a'' then [''b''] else [''a'']) ''a'' (Some ''admin'') 3)
     = {x. \<exists>n \<le> 3. (''a'', x) \<in> child_rel (\<lambda>t. if t = ''a'' then [''b''] else [''a'']) ^^ n}
   \<and> resolve_accessible_tenants (\<lambda>t. if t = ''a'' then [''b''] else [''a'']) ''a'' (Some ''admin'') 3
     = [''a'', ''b'']"
proof (rule conjI)
  let ?ch = "\<lambda>t. if t = ''a'' then [''b''] else [''a'']"
  show "set (resolve_accessible_tenants ?ch ''a'' (Some ''admin'') 3) =
      {x. \<exists>n \<le> 3. (''a'', x) \<in> child_rel ?ch ^^ n}"
    using accessible_tenants_exact [of "''a''" ?ch "Some ''admin''" 3] by (simp del: numeral_3_eq_3)
  show "resolve_accessible_tenants ?ch ''a'' (Some ''admin'') 3 = [''a'', ''b'']"
    by (simp add: resolve_accessible_tenants_def numeral_3_eq_3)
qed

end
