(* ===== verification/Federation_Connections.thy ===== *)
theory Federation_Connections
  imports Federation_Models
begin

text \<open>
  Connection management (\<open>robothor/federation/connections.py\<close>): the in-memory manager with
  its state transitions and its export and import lists, and the persistence of a connection
  as a row of \<open>federation_connections\<close>. The manager stores each connection under the id it had
  when it was added; the objects are shared with the caller, and every mutation of the
  manager's is the update of that entry.
\<close>

section \<open>The manager\<close>

type_synonym manager = "(string, connection) dict"

definition STATE_TRANSITIONS :: "(connection_state, connection_state set) dict" where
  "STATE_TRANSITIONS =
     [(PENDING, {ACTIVE, SUSPENDED}), (ACTIVE, {LIMITED, SUSPENDED}),
      (LIMITED, {ACTIVE, SUSPENDED}), (SUSPENDED, {ACTIVE, PENDING})]"

definition conn_add :: "connection \<Rightarrow> manager \<Rightarrow> manager" where
  "conn_add c m = dict_set (conn_id c) c m"

definition conn_get :: "string \<Rightarrow> manager \<Rightarrow> connection option" where
  "conn_get cid m = dict_get m cid"

definition get_by_peer :: "string \<Rightarrow> manager \<Rightarrow> connection option" where
  "get_by_peer pid m = find (\<lambda>c. peer_id c = pid) (dict_values m)"

definition list_all_conns :: "manager \<Rightarrow> connection list" where
  "list_all_conns m = dict_values m"

definition list_active :: "manager \<Rightarrow> connection list" where
  "list_active m = filter (\<lambda>c. conn_state c = ACTIVE) (dict_values m)"

definition transition_state ::
  "string \<Rightarrow> string \<Rightarrow> connection_state \<Rightarrow> manager \<Rightarrow> (connection \<times> manager) result" where
  "transition_state now cid new_state m =
     (case dict_get m cid of
        None \<Rightarrow> Inl ValueError
      | Some c \<Rightarrow>
          (let allowed = (case dict_get STATE_TRANSITIONS (conn_state c) of None \<Rightarrow> {} | Some a \<Rightarrow> a);
               c' = c\<lparr>conn_state := new_state, conn_updated_at := now\<rparr>
           in guard (new_state \<in> allowed) ValueError (Inr (c', dict_set cid c' m))))"

definition conn_activate :: "string \<Rightarrow> string \<Rightarrow> manager \<Rightarrow> (connection \<times> manager) result" where
  "conn_activate now cid m = transition_state now cid ACTIVE m"

definition conn_suspend :: "string \<Rightarrow> string \<Rightarrow> manager \<Rightarrow> (connection \<times> manager) result" where
  "conn_suspend now cid m = transition_state now cid SUSPENDED m"

definition conn_limit :: "string \<Rightarrow> string \<Rightarrow> manager \<Rightarrow> (connection \<times> manager) result" where
  "conn_limit now cid m = transition_state now cid LIMITED m"

definition conn_remove :: "string \<Rightarrow> manager \<Rightarrow> bool \<times> manager" where
  "conn_remove cid m = (dict_get m cid \<noteq> None, dict_pop cid m)"

text \<open>The shape the four export and import setters share: look up, change, store.\<close>

definition with_conn ::
  "string \<Rightarrow> (connection \<Rightarrow> connection) \<Rightarrow> manager \<Rightarrow> (connection \<times> manager) result" where
  "with_conn cid f m =
     (case dict_get m cid of
        None \<Rightarrow> Inl ValueError
      | Some c \<Rightarrow> Inr (f c, dict_set cid (f c) m))"

definition set_exports ::
  "string \<Rightarrow> string \<Rightarrow> string list \<Rightarrow> manager \<Rightarrow> (connection \<times> manager) result" where
  "set_exports now cid exports m =
     with_conn cid (\<lambda>c. c\<lparr>conn_exports := exports, conn_updated_at := now\<rparr>) m"

definition add_export ::
  "string \<Rightarrow> string \<Rightarrow> string \<Rightarrow> manager \<Rightarrow> (connection \<times> manager) result" where
  "add_export now cid capability m =
     with_conn cid (\<lambda>c. if capability \<notin> set (conn_exports c)
        then c\<lparr>conn_exports := conn_exports c @ [capability], conn_updated_at := now\<rparr> else c) m"

definition remove_export ::
  "string \<Rightarrow> string \<Rightarrow> string \<Rightarrow> manager \<Rightarrow> (connection \<times> manager) result" where
  "remove_export now cid capability m =
     with_conn cid (\<lambda>c. if capability \<in> set (conn_exports c)
        then c\<lparr>conn_exports := remove1 capability (conn_exports c), conn_updated_at := now\<rparr> else c) m"

definition set_imports ::
  "string \<Rightarrow> string \<Rightarrow> string list \<Rightarrow> manager \<Rightarrow> (connection \<times> manager) result" where
  "set_imports now cid imps m =
     with_conn cid (\<lambda>c. c\<lparr>conn_imports := imps, conn_updated_at := now\<rparr>) m"

definition is_exported :: "string \<Rightarrow> string \<Rightarrow> manager \<Rightarrow> bool" where
  "is_exported cid capability m =
     (case dict_get m cid of
        None \<Rightarrow> False
      | Some c \<Rightarrow> if conn_state c \<noteq> ACTIVE then False else capability \<in> set (conn_exports c))"

definition is_imported :: "string \<Rightarrow> string \<Rightarrow> manager \<Rightarrow> bool" where
  "is_imported cid capability m =
     (case dict_get m cid of
        None \<Rightarrow> False
      | Some c \<Rightarrow> if conn_state c \<noteq> ACTIVE then False else capability \<in> set (conn_imports c))"

section \<open>Runs of the manager\<close>

datatype conn_cmd =
    AddConn connection
  | Transition string string connection_state
  | RemoveConn string
  | SetExports string string "string list"
  | AddExport string string string
  | RemoveExport string string string
  | SetImports string string "string list"

fun conn_step :: "manager \<Rightarrow> conn_cmd \<Rightarrow> manager result" where
  "conn_step m (AddConn c) = Inr (conn_add c m)"
| "conn_step m (Transition now cid st) = map_sum id snd (transition_state now cid st m)"
| "conn_step m (RemoveConn cid) = Inr (snd (conn_remove cid m))"
| "conn_step m (SetExports now cid xs) = map_sum id snd (set_exports now cid xs m)"
| "conn_step m (AddExport now cid x) = map_sum id snd (add_export now cid x m)"
| "conn_step m (RemoveExport now cid x) = map_sum id snd (remove_export now cid x m)"
| "conn_step m (SetImports now cid xs) = map_sum id snd (set_imports now cid xs m)"

text \<open>What makes a connection active: the transition to it, or adding one that already is.\<close>

fun may_activate :: "string \<Rightarrow> conn_cmd \<Rightarrow> bool" where
  "may_activate cid (AddConn c) = (conn_id c = cid \<and> conn_state c = ACTIVE)"
| "may_activate cid (Transition now cid' st) = (cid' = cid \<and> st = ACTIVE)"
| "may_activate cid _ = False"

text \<open>What can put a capability on the export list of a connection.\<close>

fun may_export :: "string \<Rightarrow> string \<Rightarrow> conn_cmd \<Rightarrow> bool" where
  "may_export cid cap (AddConn c) = (conn_id c = cid)"
| "may_export cid cap (SetExports now cid' xs) = (cid' = cid \<and> cap \<in> set xs)"
| "may_export cid cap (AddExport now cid' x) = (cid' = cid \<and> cap = x)"
| "may_export cid cap _ = False"

definition dark :: "string \<Rightarrow> manager \<Rightarrow> bool" where
  "dark cid m = (\<forall>c. dict_get m cid = Some c \<longrightarrow> conn_state c \<noteq> ACTIVE)"

definition not_granted :: "string \<Rightarrow> string \<Rightarrow> manager \<Rightarrow> bool" where
  "not_granted cid cap m = (\<forall>c. dict_get m cid = Some c \<longrightarrow> cap \<notin> set (conn_exports c))"

lemma with_conn_Inr [simp]:
  "with_conn cid f m = Inr r \<longleftrightarrow> (\<exists>c. dict_get m cid = Some c \<and> r = (f c, dict_set cid (f c) m))"
  by (auto simp: with_conn_def split: option.splits)

lemma transition_Inr:
  "transition_state now cid st m = Inr r \<longleftrightarrow>
   (\<exists>c. dict_get m cid = Some c \<and> (\<exists>a. dict_get STATE_TRANSITIONS (conn_state c) = Some a \<and> st \<in> a) \<and>
      r = (c\<lparr>conn_state := st, conn_updated_at := now\<rparr>,
           dict_set cid (c\<lparr>conn_state := st, conn_updated_at := now\<rparr>) m))"
  by (auto simp: transition_state_def Let_def split: option.splits)

lemmas setter_defs = set_exports_def add_export_def remove_export_def set_imports_def

lemma dark_step: "dark cid m \<Longrightarrow> \<not> may_activate cid c \<Longrightarrow> conn_step m c = Inr m' \<Longrightarrow> dark cid m'"
  by (cases c) (auto simp: dark_def conn_add_def conn_remove_def setter_defs transition_Inr split: if_splits)

lemma not_granted_step:
  "not_granted cid cap m \<Longrightarrow> \<not> may_export cid cap c \<Longrightarrow> conn_step m c = Inr m' \<Longrightarrow> not_granted cid cap m'"
  by (cases c)
    (auto simp: not_granted_def conn_add_def conn_remove_def setter_defs transition_Inr
      split: if_splits dest: notin_set_remove1)

interpretation dark_run: guarded_machine conn_step "dark cid" "\<lambda>_ _. True" "\<lambda>c. \<not> may_activate cid c"
  for cid
  by unfold_locales (auto intro: dark_step)

interpretation grant_run: guarded_machine conn_step "not_granted cid cap" "\<lambda>_ _. True"
    "\<lambda>c. \<not> may_export cid cap c"
  for cid cap
  by unfold_locales (auto intro: not_granted_step)

text \<open>
  A transition succeeds exactly on the pairs of the transition table, changes the state and
  the update time of the one connection it names, and raises ValueError otherwise.
\<close>

theorem transition_exact:
  "transition_state now cid st m =
   (case dict_get m cid of
      Some c \<Rightarrow>
        if st \<noteq> conn_state c \<and> (st = LIMITED \<longrightarrow> conn_state c = ACTIVE) \<and>
           (st = PENDING \<longrightarrow> conn_state c = SUSPENDED)
        then Inr (c\<lparr>conn_state := st, conn_updated_at := now\<rparr>,
                  dict_set cid (c\<lparr>conn_state := st, conn_updated_at := now\<rparr>) m)
        else Inl ValueError
    | None \<Rightarrow> Inl ValueError)"
proof (cases "dict_get m cid")
  case (Some c)
  then show ?thesis
    by (cases "conn_state c"; cases st)
      (simp_all add: transition_state_def STATE_TRANSITIONS_def guard_def Let_def)
qed (simp add: transition_state_def)

text \<open>
  C23: once a connection is suspended, nothing is exported to or imported from its peer again,
  whatever the manager is asked to do, until a command activates that connection itself.
\<close>

theorem suspended_stays_dark:
  assumes "conn_suspend now cid m = Inr (c, m')" "\<forall>k \<in> set cs. \<not> may_activate cid k"
  shows "\<not> is_exported cid cap (exec_all conn_step m' cs) \<and> \<not> is_imported cid cap (exec_all conn_step m' cs)"
proof -
  have "dark cid m'" using assms(1) by (auto simp: conn_suspend_def transition_Inr dark_def)
  then have "dark cid (exec_all conn_step m' cs)" using assms(2) by (rule dark_run.run_inv)
  then show ?thesis by (auto simp: dark_def is_exported_def is_imported_def split: option.splits)
qed

text \<open>
  A capability taken off a connection's export list, which holds no capability twice, is
  not exported again until a command names that capability or replaces the connection.
\<close>

theorem removed_export_stays_removed:
  assumes "remove_export now cid cap m = Inr (c, m')" "dict_get m cid = Some c0" "distinct (conn_exports c0)"
    and "\<forall>k \<in> set cs. \<not> may_export cid cap k"
  shows "\<not> is_exported cid cap (exec_all conn_step m' cs)"
proof -
  have "not_granted cid cap m'"
    using assms(1-3) by (auto simp: remove_export_def not_granted_def split: if_splits)
  then have "not_granted cid cap (exec_all conn_step m' cs)" using assms(4) by (rule grant_run.run_inv)
  then show ?thesis by (auto simp: not_granted_def is_exported_def split: option.splits)
qed

definition sample_connection :: connection where
  "sample_connection = \<lparr>conn_id = ''c'', peer_id = ''p'', peer_name = ''peer'', peer_endpoint = ''e'',
     peer_public_key = ''k'', relationship = CHILD, conn_state = ACTIVE,
     conn_exports = [CAP_READ_HEALTH], conn_imports = [CAP_READ_RUNS], nats_account = [],
     metadata = [], conn_created_at = ''t0'', conn_updated_at = ''t0'', conn_tenant_id = [],
     local_principal_id = [], local_principal_role = [], direction = [], transport = [],
     activated_at = [], last_seen_at = [], last_error = []\<rparr>"

theorem suspended_stays_dark_witness:
  "\<exists>c m'. conn_suspend ''t'' ''c'' [(''c'', sample_connection)] = Inr (c, m') \<and>
     \<not> is_exported ''c'' CAP_READ_HEALTH (exec_all conn_step m' [AddExport ''t'' ''c'' ''x'', Transition ''t'' ''c'' PENDING])"
proof -
  let ?c = "sample_connection\<lparr>conn_state := SUSPENDED, conn_updated_at := ''t''\<rparr>"
  have s: "conn_suspend ''t'' ''c'' [(''c'', sample_connection)] = Inr (?c, [(''c'', ?c)])"
    by (simp add: conn_suspend_def transition_state_def STATE_TRANSITIONS_def sample_connection_def Let_def)
  have "\<not> is_exported ''c'' CAP_READ_HEALTH (exec_all conn_step [(''c'', ?c)]
      [AddExport ''t'' ''c'' ''x'', Transition ''t'' ''c'' PENDING])"
    by (rule conjunct1 [OF suspended_stays_dark [OF s]]) simp
  then show ?thesis using s by blast
qed

theorem removed_export_stays_removed_witness:
  "\<exists>c m'. remove_export ''t'' ''c'' CAP_READ_HEALTH [(''c'', sample_connection)] = Inr (c, m') \<and>
     \<not> is_exported ''c'' CAP_READ_HEALTH (exec_all conn_step m' [AddExport ''t'' ''c'' ''x'', Transition ''t'' ''c'' LIMITED])"
proof -
  let ?c = "sample_connection\<lparr>conn_exports := [], conn_updated_at := ''t''\<rparr>"
  have s: "remove_export ''t'' ''c'' CAP_READ_HEALTH [(''c'', sample_connection)] = Inr (?c, [(''c'', ?c)])"
    by (simp add: remove_export_def sample_connection_def)
  have "CAP_READ_HEALTH \<noteq> ''x''" by (simp add: CAP_READ_HEALTH_def)
  moreover have "distinct (conn_exports sample_connection)" by (simp add: sample_connection_def)
  ultimately have "\<not> is_exported ''c'' CAP_READ_HEALTH (exec_all conn_step [(''c'', ?c)]
      [AddExport ''t'' ''c'' ''x'', Transition ''t'' ''c'' LIMITED])"
    by (intro removed_export_stays_removed [OF s, of sample_connection]) simp_all
  then show ?thesis using s by blast
qed

section \<open>Persistence\<close>

text \<open>
  A row of \<open>federation_connections\<close> as the driver returns it: a JSONB column comes back
  decoded, or as text when the driver leaves it undecoded. The database's reading of a
  timestamp literal and Python's \<open>str\<close> of the value it returns are parameters, as are
  \<open>json.loads\<close> and \<open>json.dumps\<close>; a clock value \<open>'ts\<close> is ordered.
\<close>

datatype 'a jsonb = RawText string | Decoded 'a

record 'ts conn_row =
  row_id :: string
  row_peer_id :: string
  row_peer_name :: string
  row_peer_endpoint :: string
  row_peer_public_key :: string
  row_relationship :: relationship
  row_state :: connection_state
  row_exports :: "string list jsonb"
  row_imports :: "string list jsonb"
  row_nats_account :: "string option"
  row_metadata :: "json_obj jsonb option"
  row_created_at :: 'ts
  row_updated_at :: 'ts
  row_tenant_id :: string
  row_local_principal_id :: "string option"
  row_local_principal_role :: "string option"
  row_direction :: string
  row_transport :: "json_obj jsonb"
  row_activated_at :: "'ts option"
  row_last_seen_at :: "'ts option"
  row_last_error :: "string option"

text \<open>\<open>x or None\<close> and \<open>x or default\<close> on strings.\<close>

definition or_none :: "string \<Rightarrow> string option" where
  "or_none s = (if s = [] then None else Some s)"

definition or_default :: "string option \<Rightarrow> string \<Rightarrow> string" where
  "or_default v d = (case v of None \<Rightarrow> d | Some s \<Rightarrow> if s = [] then d else s)"

text \<open>A timestamp literal the database rejects raises; an empty one is sent as NULL.\<close>

definition ts_column :: "(string \<Rightarrow> 'ts option) \<Rightarrow> string \<Rightarrow> 'ts option result" where
  "ts_column ts_in s =
     (case or_none s of None \<Rightarrow> Inr None
      | Some v \<Rightarrow> (case ts_in v of None \<Rightarrow> Inl DbError | Some t \<Rightarrow> Inr (Some t)))"

definition ts_required :: "(string \<Rightarrow> 'ts option) \<Rightarrow> string \<Rightarrow> 'ts result" where
  "ts_required ts_in s = (case ts_in s of None \<Rightarrow> Inl DbError | Some t \<Rightarrow> Inr t)"

definition row_of_connection :: "(string \<Rightarrow> 'ts option) \<Rightarrow> connection \<Rightarrow> 'ts conn_row result" where
  "row_of_connection ts_in c =
     bind_result (ts_required ts_in (conn_created_at c)) (\<lambda>created.
     bind_result (ts_required ts_in (conn_updated_at c)) (\<lambda>updated.
     bind_result (ts_column ts_in (activated_at c)) (\<lambda>activated.
     bind_result (ts_column ts_in (last_seen_at c)) (\<lambda>seen.
       (let dir = or_default (Some (direction c)) ''outbound''
        in guard (dir \<in> {''inbound'', ''outbound''}) DbError (Inr
         \<lparr>row_id = conn_id c, row_peer_id = peer_id c, row_peer_name = peer_name c,
          row_peer_endpoint = peer_endpoint c, row_peer_public_key = peer_public_key c,
          row_relationship = relationship c, row_state = conn_state c,
          row_exports = Decoded (conn_exports c), row_imports = Decoded (conn_imports c),
          row_nats_account = Some (nats_account c), row_metadata = Some (Decoded (metadata c)),
          row_created_at = created, row_updated_at = updated,
          row_tenant_id = or_default (Some (conn_tenant_id c)) ''default'',
          row_local_principal_id = or_none (local_principal_id c),
          row_local_principal_role = or_none (local_principal_role c),
          row_direction = dir, row_transport = Decoded (transport c),
          row_activated_at = activated, row_last_seen_at = seen,
          row_last_error = or_none (last_error c)\<rparr>))))))"

text \<open>The upsert: on a conflict every column but the relationship and the creation time.\<close>

definition save_connection ::
  "(string \<Rightarrow> 'ts option) \<Rightarrow> connection \<Rightarrow> 'ts conn_row list \<Rightarrow> 'ts conn_row list result" where
  "save_connection ts_in c rows =
     bind_result (row_of_connection ts_in c) (\<lambda>new.
       (if \<exists>r \<in> set rows. row_id r = conn_id c
        then Inr (map (\<lambda>r. if row_id r = conn_id c
                  then new\<lparr>row_relationship := row_relationship r, row_created_at := row_created_at r\<rparr>
                  else r) rows)
        else Inr (rows @ [new])))"

fun jsonb_value :: "(string \<Rightarrow> 'a option) \<Rightarrow> 'a jsonb \<Rightarrow> 'a result" where
  "jsonb_value loads (RawText s) = (case loads s of None \<Rightarrow> Inl ValueError | Some v \<Rightarrow> Inr v)"
| "jsonb_value loads (Decoded v) = Inr v"

definition connection_of_row ::
  "(string \<Rightarrow> string list option) \<Rightarrow> (string \<Rightarrow> json_obj option) \<Rightarrow> ('ts \<Rightarrow> string)
     \<Rightarrow> 'ts conn_row \<Rightarrow> connection result" where
  "connection_of_row loads_list loads_obj ts_str r =
     bind_result (jsonb_value loads_list (row_exports r)) (\<lambda>exports.
     bind_result (jsonb_value loads_list (row_imports r)) (\<lambda>imps.
     bind_result (case row_metadata r of None \<Rightarrow> Inr [] | Some j \<Rightarrow> jsonb_value loads_obj j) (\<lambda>meta.
     bind_result (jsonb_value loads_obj (row_transport r)) (\<lambda>tr.
       Inr \<lparr>conn_id = row_id r, peer_id = row_peer_id r, peer_name = row_peer_name r,
            peer_endpoint = row_peer_endpoint r, peer_public_key = row_peer_public_key r,
            relationship = row_relationship r, conn_state = row_state r,
            conn_exports = exports, conn_imports = imps,
            nats_account = or_default (row_nats_account r) [], metadata = meta,
            conn_created_at = ts_str (row_created_at r), conn_updated_at = ts_str (row_updated_at r),
            conn_tenant_id = or_default (Some (row_tenant_id r)) ''default'',
            local_principal_id = or_default (row_local_principal_id r) [],
            local_principal_role = or_default (row_local_principal_role r) [],
            direction = or_default (Some (row_direction r)) ''outbound'', transport = tr,
            activated_at = (case row_activated_at r of None \<Rightarrow> [] | Some t \<Rightarrow> ts_str t),
            last_seen_at = (case row_last_seen_at r of None \<Rightarrow> [] | Some t \<Rightarrow> ts_str t),
            last_error = or_default (row_last_error r) []\<rparr>))))"

fun results :: "'a result list \<Rightarrow> 'a list result" where
  "results [] = Inr []"
| "results (r # rs) = bind_result r (\<lambda>x. bind_result (results rs) (\<lambda>xs. Inr (x # xs)))"

text \<open>Any failure, of the query or of one row, makes the whole list empty.\<close>

definition load_connections ::
  "(string \<Rightarrow> string list option) \<Rightarrow> (string \<Rightarrow> json_obj option) \<Rightarrow> ('ts::linorder \<Rightarrow> string)
     \<Rightarrow> bool \<Rightarrow> 'ts conn_row list \<Rightarrow> connection list" where
  "load_connections loads_list loads_obj ts_str up rows =
     (if \<not> up then []
      else (case results (map (connection_of_row loads_list loads_obj ts_str)
               (sort_key row_created_at rows)) of
              Inl _ \<Rightarrow> [] | Inr cs \<Rightarrow> cs))"

definition delete_connection :: "bool \<Rightarrow> string \<Rightarrow> 'ts conn_row list \<Rightarrow> bool \<times> 'ts conn_row list" where
  "delete_connection up cid rows =
     (if \<not> up then (False, rows)
      else (\<exists>r \<in> set rows. row_id r = cid, filter (\<lambda>r. row_id r \<noteq> cid) rows))"

definition touch_last_seen ::
  "bool \<Rightarrow> 'ts \<Rightarrow> string \<Rightarrow> string \<Rightarrow> 'ts conn_row list \<Rightarrow> bool \<times> 'ts conn_row list" where
  "touch_last_seen up db_now cid err rows =
     (if \<not> up then (False, rows)
      else (\<exists>r \<in> set rows. row_id r = cid,
            map (\<lambda>r. if row_id r = cid
               then r\<lparr>row_last_seen_at := Some db_now, row_last_error := or_none err,
                      row_updated_at := db_now\<rparr> else r) rows))"

lemma or_default_or_none [simp]: "or_default (or_none s) [] = s"
  by (auto simp: or_default_def or_none_def)

lemma or_default_Some [simp]: "or_default (Some s) [] = s"
  by (auto simp: or_default_def)

lemma or_default_twice [simp]: "d \<noteq> [] \<Longrightarrow> or_default (Some (or_default (Some s) d)) d = or_default (Some s) d"
  by (auto simp: or_default_def)

lemma results_map: "\<forall>x \<in> set xs. f x = Inr (g x) \<Longrightarrow> results (map f xs) = Inr (map g xs)"
  by (induction xs) auto

lemma connection_of_row_id:
  "connection_of_row ll lo ts_str r = Inr c \<Longrightarrow> conn_id c = row_id r"
  by (auto simp: connection_of_row_def)

definition decodable ::
  "(string \<Rightarrow> string list option) \<Rightarrow> (string \<Rightarrow> json_obj option) \<Rightarrow> ('ts \<Rightarrow> string) \<Rightarrow> 'ts conn_row list \<Rightarrow> bool" where
  "decodable ll lo ts_str rows = list_all (\<lambda>r. \<not> isl (connection_of_row ll lo ts_str r)) rows"

lemma load_filter:
  assumes "decodable ll lo ts_str rows"
  shows "filter (\<lambda>c. P (conn_id c)) (load_connections ll lo ts_str True rows) =
    map (\<lambda>r. projr (connection_of_row ll lo ts_str r)) (sort_key row_created_at (filter (\<lambda>r. P (row_id r)) rows))"
proof -
  let ?f = "connection_of_row ll lo ts_str"
  let ?g = "\<lambda>r. projr (?f r)"
  have ok: "?f r = Inr (?g r)" if "r \<in> set rows" for r
    using assms that by (cases "?f r") (auto simp: decodable_def list_all_iff)
  then have cid: "conn_id (?g r) = row_id r" if "r \<in> set rows" for r
    using that connection_of_row_id by metis
  from ok have "load_connections ll lo ts_str True rows = map ?g (sort_key row_created_at rows)"
    using results_map [of "sort_key row_created_at rows" ?f ?g] by (simp add: load_connections_def)
  moreover have "filter (\<lambda>c. P (conn_id c)) (map ?g rs) = map ?g (filter (\<lambda>r. P (row_id r)) rs)"
    if "set rs \<subseteq> set rows" for rs
    using that by (induction rs) (auto simp: cid)
  ultimately show ?thesis by (simp add: filter_sort)
qed

text \<open>What a load gives back of a saved connection: all but how timestamps print.\<close>

definition restored :: "connection \<Rightarrow> connection \<Rightarrow> bool" where
  "restored c c' \<longleftrightarrow>
     conn_id c' = conn_id c \<and> peer_id c' = peer_id c \<and> peer_name c' = peer_name c \<and>
     peer_endpoint c' = peer_endpoint c \<and> peer_public_key c' = peer_public_key c \<and>
     conn_state c' = conn_state c \<and> conn_exports c' = conn_exports c \<and>
     conn_imports c' = conn_imports c \<and> nats_account c' = nats_account c \<and>
     metadata c' = metadata c \<and> transport c' = transport c \<and>
     local_principal_id c' = local_principal_id c \<and>
     local_principal_role c' = local_principal_role c \<and> last_error c' = last_error c \<and>
     conn_tenant_id c' = or_default (Some (conn_tenant_id c)) ''default'' \<and>
     direction c' = or_default (Some (direction c)) ''outbound''"

lemma row_of_connection_back:
  assumes "row_of_connection ts_in c = Inr r"
  shows "\<exists>c'. connection_of_row ll lo ts_str (r\<lparr>row_relationship := rel, row_created_at := t\<rparr>) = Inr c' \<and>
      restored c c'"
    and "row_id r = conn_id c"
proof -
  obtain created updated activated seen where r: "r =
         \<lparr>row_id = conn_id c, row_peer_id = peer_id c, row_peer_name = peer_name c,
          row_peer_endpoint = peer_endpoint c, row_peer_public_key = peer_public_key c,
          row_relationship = relationship c, row_state = conn_state c,
          row_exports = Decoded (conn_exports c), row_imports = Decoded (conn_imports c),
          row_nats_account = Some (nats_account c), row_metadata = Some (Decoded (metadata c)),
          row_created_at = created, row_updated_at = updated,
          row_tenant_id = or_default (Some (conn_tenant_id c)) ''default'',
          row_local_principal_id = or_none (local_principal_id c),
          row_local_principal_role = or_none (local_principal_role c),
          row_direction = or_default (Some (direction c)) ''outbound'',
          row_transport = Decoded (transport c),
          row_activated_at = activated, row_last_seen_at = seen,
          row_last_error = or_none (last_error c)\<rparr>"
    using assms unfolding row_of_connection_def Let_def bind_result_Inr guard_Inr by blast
  show "row_id r = conn_id c" by (simp add: r)
  show "\<exists>c'. connection_of_row ll lo ts_str (r\<lparr>row_relationship := rel, row_created_at := t\<rparr>) = Inr c' \<and>
      restored c c'"
    by (simp add: r connection_of_row_def restored_def)
qed

lemma save_rows:
  assumes "save_connection ts_in c rows = Inr rows'" "distinct (map row_id rows)"
  shows "\<exists>new rel t. row_of_connection ts_in c = Inr new \<and>
     filter (\<lambda>r. row_id r = conn_id c) rows' = [new\<lparr>row_relationship := rel, row_created_at := t\<rparr>]"
    "filter (\<lambda>r. row_id r \<noteq> conn_id c) rows' = filter (\<lambda>r. row_id r \<noteq> conn_id c) rows"
    "set rows' \<subseteq> set rows \<union> {r. row_id r = conn_id c}"
proof -
  from assms(1) obtain new where new: "row_of_connection ts_in c = Inr new"
    by (auto simp: save_connection_def)
  note id = row_of_connection_back(2) [OF new]
  let ?u = "\<lambda>r. if row_id r = conn_id c
      then new\<lparr>row_relationship := row_relationship r, row_created_at := row_created_at r\<rparr> else r"
  have other: "filter (\<lambda>r. row_id r \<noteq> conn_id c) (map ?u rs) = filter (\<lambda>r. row_id r \<noteq> conn_id c) rs" for rs
    using id by (induction rs) auto
  have none: "filter (\<lambda>r. row_id r = conn_id c) rs = []" if "conn_id c \<notin> row_id ` set rs" for rs
    using that by (induction rs) auto
  have upd: "map ?u rs = rs" if "conn_id c \<notin> row_id ` set rs" for rs
    using that by (induction rs) auto
  have one: "\<exists>rel t. filter (\<lambda>r. row_id r = conn_id c) (map ?u rs) = [new\<lparr>row_relationship := rel, row_created_at := t\<rparr>]"
    if "distinct (map row_id rs)" "\<exists>r \<in> set rs. row_id r = conn_id c" for rs
    using that
  proof (induction rs)
    case (Cons r rs)
    show ?case
    proof (cases "row_id r = conn_id c")
      case True
      then have out: "conn_id c \<notin> row_id ` set rs" using Cons.prems(1) by auto
      then show ?thesis using True id none [OF out] upd [OF out] by auto
    next
      case False
      then show ?thesis using Cons by auto
    qed
  qed simp
  have same: "new = new\<lparr>row_relationship := row_relationship new, row_created_at := row_created_at new\<rparr>" by simp
  show "\<exists>new rel t. row_of_connection ts_in c = Inr new \<and>
     filter (\<lambda>r. row_id r = conn_id c) rows' = [new\<lparr>row_relationship := rel, row_created_at := t\<rparr>]"
  proof (cases "\<exists>r \<in> set rows. row_id r = conn_id c")
    case True
    then have "rows' = map ?u rows" using assms(1) new by (auto simp: save_connection_def)
    then show ?thesis using one [OF assms(2) True] new by auto
  next
    case False
    then have "rows' = rows @ [new]" using assms(1) new by (auto simp: save_connection_def)
    moreover have "filter (\<lambda>r. row_id r = conn_id c) rows = []" using False by (intro none) auto
    ultimately have "filter (\<lambda>r. row_id r = conn_id c) rows' = [new]" using id by simp
    then show ?thesis using new same by metis
  qed
  show "filter (\<lambda>r. row_id r \<noteq> conn_id c) rows' = filter (\<lambda>r. row_id r \<noteq> conn_id c) rows"
    using assms(1) new id other [of rows] by (auto simp: save_connection_def split: if_splits)
  show "set rows' \<subseteq> set rows \<union> {r. row_id r = conn_id c}"
    using assms(1) new id by (auto simp: save_connection_def split: if_splits)
qed

text \<open>
  Loading after a save gives back the saved connection, once: its state, its exports, its
  imports and its principal are the saved ones (the tenant and direction with their defaults,
  and the timestamps as the database renders them), and every other connection is unchanged.
\<close>

theorem save_load_roundtrip:
  assumes save: "save_connection ts_in c rows = Inr rows'"
    and ok: "distinct (map row_id rows)" "decodable ll lo ts_str rows"
  shows "\<exists>c'. filter (\<lambda>x. conn_id x = conn_id c) (load_connections ll lo ts_str True rows') = [c'] \<and>
      restored c c' \<and>
      filter (\<lambda>x. conn_id x \<noteq> conn_id c) (load_connections ll lo ts_str True rows') =
      filter (\<lambda>x. conn_id x \<noteq> conn_id c) (load_connections ll lo ts_str True rows)"
proof -
  obtain new rel t where new: "row_of_connection ts_in c = Inr new"
    and row: "filter (\<lambda>r. row_id r = conn_id c) rows' = [new\<lparr>row_relationship := rel, row_created_at := t\<rparr>]"
    using save_rows(1) [OF save ok(1)] by blast
  obtain c' where c': "connection_of_row ll lo ts_str (new\<lparr>row_relationship := rel, row_created_at := t\<rparr>) = Inr c'"
    "restored c c'"
    using row_of_connection_back(1) [OF new] by blast
  have "\<not> isl (connection_of_row ll lo ts_str r)" if "r \<in> set rows'" for r
  proof (cases "row_id r = conn_id c")
    case True
    then have "r \<in> set (filter (\<lambda>r. row_id r = conn_id c) rows')" using that by simp
    then have "r = new\<lparr>row_relationship := rel, row_created_at := t\<rparr>" unfolding row by simp
    then show ?thesis using c'(1) by simp
  next
    case False
    then show ?thesis using that save_rows(3) [OF save ok(1)] ok(2) by (auto simp: decodable_def list_all_iff)
  qed
  then have ok': "decodable ll lo ts_str rows'" by (simp add: decodable_def list_all_iff)
  have "filter (\<lambda>x. conn_id x = conn_id c) (load_connections ll lo ts_str True rows') = [c']"
    using load_filter [OF ok', of "\<lambda>i. i = conn_id c"] row c'(1) by simp
  moreover have "filter (\<lambda>x. conn_id x \<noteq> conn_id c) (load_connections ll lo ts_str True rows') =
      filter (\<lambda>x. conn_id x \<noteq> conn_id c) (load_connections ll lo ts_str True rows)"
    using load_filter [OF ok', of "\<lambda>i. i \<noteq> conn_id c"] load_filter [OF ok(2), of "\<lambda>i. i \<noteq> conn_id c"]
      save_rows(2) [OF save ok(1)] by simp
  ultimately show ?thesis using c'(2) by blast
qed

theorem save_load_roundtrip_witness:
  "\<exists>r c'. save_connection Some sample_connection [] = Inr [r] \<and>
     filter (\<lambda>x. conn_id x = ''c'') (load_connections (\<lambda>_. None) (\<lambda>_. None) id True [r]) = [c'] \<and>
     conn_exports c' = [CAP_READ_HEALTH] \<and> conn_tenant_id c' = ''default''"
proof -
  obtain r where save: "save_connection Some sample_connection [] = Inr [r]"
    by (simp add: save_connection_def row_of_connection_def sample_connection_def ts_required_def
        ts_column_def or_none_def or_default_def)
  have ok: "distinct (map row_id [])" "decodable (\<lambda>_. None) (\<lambda>_. None) id ([] :: string conn_row list)"
    by (simp_all add: decodable_def)
  have id: "conn_id sample_connection = ''c''" by (simp add: sample_connection_def)
  obtain c' where
    c': "filter (\<lambda>x. conn_id x = ''c'') (load_connections (\<lambda>_. None) (\<lambda>_. None) id True [r]) = [c']"
    "restored sample_connection c'"
    using save_load_roundtrip [OF save ok] unfolding id by blast
  have "conn_exports c' = [CAP_READ_HEALTH]" "conn_tenant_id c' = ''default''"
    using c'(2) by (simp_all add: restored_def sample_connection_def or_default_def)
  then show ?thesis using save c'(1) by blast
qed

end
