(* ===== verification/Federation_Handshake.thy ===== *)
theory Federation_Handshake
  imports Federation_Models "HOL-Library.Countable"
begin

text \<open>
  Pairing (\<open>robothor/federation/handshake.py\<close>) and the row-level-security gate in front of it
  (\<open>robothor/federation/rls_gate.py\<close>). Cryptography, the JSON codec, the clock's ISO format and
  the database probe are the fields of an environment; bytes are strings. A JSON value that is
  not a string, where the code stores it in a text field, is stored as its text.
\<close>

section \<open>The environment\<close>

record crypto_env = codec +
  sig_valid :: "string \<Rightarrow> string \<Rightarrow> string \<Rightarrow> bool"
  hmac_hex :: "string \<Rightarrow> string \<Rightarrow> string"
  iso_micros :: "string \<Rightarrow> int option"
  text_of :: "json \<Rightarrow> string"

record instance_identity =
  identity_id :: string
  display_name :: string
  identity_public_key :: string
  sign_b64 :: "string \<Rightarrow> string"

text \<open>Why a handshake is refused, in the order of the checks; \<open>HsCrash\<close> is any other exception.\<close>

datatype hs_error =
    NoIdentity
  | BadSignature
  | MalformedEnvelope
  | MalformedPayload
  | BadVersion
  | WrongConnection
  | NoPublicKey
  | KeySubstitution
  | InviteExpired
  | UnreadableExpiry
  | NoSecretOnFile
  | WrongSecret
  | HsCrash error

definition HANDSHAKE_OP :: string where "HANDSHAKE_OP = ''handshake''"
definition HANDSHAKE_VERSION :: int where "HANDSHAKE_VERSION = 1"

definition str_field :: "crypto_env \<Rightarrow> json \<Rightarrow> string" where
  "str_field env v = (case v of JStr s \<Rightarrow> s | _ \<Rightarrow> text_of env v)"

definition verify_signature :: "crypto_env \<Rightarrow> json \<Rightarrow> string \<Rightarrow> json \<Rightarrow> bool" where
  "verify_signature env public_pem payload_json signature =
     (case public_pem of
        JStr pem \<Rightarrow> (case signature of JStr b64 \<Rightarrow> sig_valid env pem payload_json b64 | _ \<Rightarrow> False)
      | _ \<Rightarrow> False)"

definition hs_unwrap :: "crypto_env \<Rightarrow> string \<Rightarrow> hs_error + (json_obj \<times> string \<times> json)" where
  "hs_unwrap env raw =
     (case json_loads env raw of
        Some (JObj envelope) \<Rightarrow>
          (case (map_of envelope ''payload_json'', map_of envelope ''signature'') of
             (Some (JStr payload_json), Some signature) \<Rightarrow>
               (case json_loads env payload_json of
                  None \<Rightarrow> Inl MalformedEnvelope
                | Some (JObj msg) \<Rightarrow> Inr (msg, payload_json, signature)
                | Some _ \<Rightarrow> Inl MalformedPayload)
           | _ \<Rightarrow> Inl MalformedEnvelope)
      | _ \<Rightarrow> Inl MalformedEnvelope)"

section \<open>The secret\<close>

definition secret_proof :: "crypto_env \<Rightarrow> string \<Rightarrow> string \<Rightarrow> string" where
  "secret_proof env secret connection_id = hmac_hex env secret connection_id"

definition secret_proof_hash :: "crypto_env \<Rightarrow> string \<Rightarrow> string \<Rightarrow> string" where
  "secret_proof_hash env secret connection_id = sha256_hex env (secret_proof env secret connection_id)"

text \<open>\<open>hmac.compare_digest\<close> raises TypeError on a value that is not a str or not ASCII.\<close>

definition proof_matches :: "crypto_env \<Rightarrow> json \<Rightarrow> json \<Rightarrow> bool result" where
  "proof_matches env given expected_hash =
     (if \<not> truthy given then Inr False
      else (case given of
          JStr p \<Rightarrow>
            (case expected_hash of
               JStr h \<Rightarrow> (if is_ascii h \<and> is_ascii (sha256_hex env p) then Inr (sha256_hex env p = h)
                        else Inl TypeError)
             | _ \<Rightarrow> Inl TypeError)
        | _ \<Rightarrow> Inl AttributeError))"

section \<open>Hello\<close>

definition build_handshake ::
  "crypto_env \<Rightarrow> instance_identity option \<Rightarrow> string \<Rightarrow> connection \<Rightarrow> string \<Rightarrow> hs_error + string" where
  "build_handshake env identity now_iso c secret =
     (case identity of
        None \<Rightarrow> Inl NoIdentity
      | Some i \<Rightarrow>
          (let payload_json = json_dumps env (JObj
                 [(''v'', JInt HANDSHAKE_VERSION), (''op'', JStr HANDSHAKE_OP),
                  (''connection_id'', JStr (conn_id c)), (''instance_id'', JStr (identity_id i)),
                  (''instance_name'', JStr (display_name i)),
                  (''public_key'', JStr (identity_public_key i)),
                  (''secret_proof'', JStr (secret_proof env secret (conn_id c))),
                  (''sent_at'', JStr now_iso)])
           in Inr (json_dumps env (JObj
                [(''op'', JStr HANDSHAKE_OP), (''payload_json'', JStr payload_json),
                 (''signature'', JStr (sign_b64 i payload_json))]))))"

text \<open>\<open>(connection.metadata or {}).get(key)\<close>.\<close>

definition meta_get :: "connection \<Rightarrow> string \<Rightarrow> json" where
  "meta_get c k = obj_get (metadata c) k JNull"

definition check_expiry :: "crypto_env \<Rightarrow> int \<Rightarrow> connection \<Rightarrow> hs_error option" where
  "check_expiry env now c =
     (let expires_at = meta_get c ''invite_expires_at'' in
      if \<not> truthy expires_at then None
      else (case expires_at of
          JStr s \<Rightarrow> (case iso_micros env s of
              None \<Rightarrow> Some UnreadableExpiry
            | Some t \<Rightarrow> if now > t then Some InviteExpired else None)
        | _ \<Rightarrow> Some UnreadableExpiry))"

definition check_secret :: "crypto_env \<Rightarrow> connection \<Rightarrow> json_obj \<Rightarrow> hs_error option" where
  "check_secret env c msg =
     (let expected = meta_get c ''secret_proof_hash'' in
      if \<not> truthy expected then Some NoSecretOnFile
      else (case proof_matches env (obj_get msg ''secret_proof'' JNull) expected of
          Inl e \<Rightarrow> Some (HsCrash e)
        | Inr ok \<Rightarrow> if ok then None else Some WrongSecret))"

definition activated :: "string \<Rightarrow> connection \<Rightarrow> connection" where
  "activated now_iso c = c\<lparr>conn_state := ACTIVE,
     activated_at := (if activated_at c = [] then now_iso else activated_at c),
     last_seen_at := now_iso, last_error := [], conn_updated_at := now_iso\<rparr>"

definition verify_handshake ::
  "crypto_env \<Rightarrow> int \<Rightarrow> string \<Rightarrow> connection \<Rightarrow> string \<Rightarrow> hs_error + connection" where
  "verify_handshake env now now_iso c raw =
     (case hs_unwrap env raw of
        Inl e \<Rightarrow> Inl e
      | Inr (msg, payload_json, signature) \<Rightarrow>
          (let public_key = obj_get msg ''public_key'' JNull in
           if \<not> json_eq_int (obj_get msg ''v'' JNull) HANDSHAKE_VERSION then Inl BadVersion
           else if obj_get msg ''connection_id'' JNull \<noteq> JStr (conn_id c) then Inl WrongConnection
           else if \<not> truthy public_key then Inl NoPublicKey
           else if \<not> verify_signature env public_key payload_json signature then Inl BadSignature
           else if peer_public_key c \<noteq> [] \<and> JStr (peer_public_key c) \<noteq> public_key
             then Inl KeySubstitution
           else (case check_expiry env now c of
               Some e \<Rightarrow> Inl e
             | None \<Rightarrow> (case check_secret env c msg of
                   Some e \<Rightarrow> Inl e
                 | None \<Rightarrow>
                     Inr ((activated now_iso c)\<lparr>
                       peer_id := str_field env (obj_get msg ''instance_id'' (JStr [])),
                       peer_name := str_field env (obj_get msg ''instance_name'' (JStr [])),
                       peer_public_key := str_field env public_key\<rparr>)))))"

section \<open>Ack\<close>

definition build_ack ::
  "crypto_env \<Rightarrow> instance_identity option \<Rightarrow> string \<Rightarrow> connection \<Rightarrow> hs_error + string" where
  "build_ack env identity now_iso c =
     (case identity of
        None \<Rightarrow> Inl NoIdentity
      | Some i \<Rightarrow>
          (let payload_json = json_dumps env (JObj
                 [(''v'', JInt HANDSHAKE_VERSION), (''op'', JStr (HANDSHAKE_OP @ ''_ack'')),
                  (''connection_id'', JStr (conn_id c)), (''instance_id'', JStr (identity_id i)),
                  (''instance_name'', JStr (display_name i)),
                  (''granted'', JArr (map JStr (conn_exports c))), (''sent_at'', JStr now_iso)])
           in Inr (json_dumps env (JObj
                [(''op'', JStr (HANDSHAKE_OP @ ''_ack'')), (''payload_json'', JStr payload_json),
                 (''signature'', JStr (sign_b64 i payload_json))]))))"

definition verify_ack :: "crypto_env \<Rightarrow> string \<Rightarrow> connection \<Rightarrow> string \<Rightarrow> bool \<times> connection" where
  "verify_ack env now_iso c raw =
     (case hs_unwrap env raw of
        Inl _ \<Rightarrow> (False, c)
      | Inr (msg, payload_json, signature) \<Rightarrow>
          if obj_get msg ''connection_id'' JNull \<noteq> JStr (conn_id c) then (False, c)
          else if peer_public_key c = [] then (False, c)
          else if \<not> verify_signature env (JStr (peer_public_key c)) payload_json signature then (False, c)
          else (True, activated now_iso c))"

text \<open>What pairing may never touch: the grant, the principal and the tenant.\<close>

definition same_authority :: "connection \<Rightarrow> connection \<Rightarrow> bool" where
  "same_authority c c' \<longleftrightarrow>
     conn_id c' = conn_id c \<and> conn_exports c' = conn_exports c \<and> conn_imports c' = conn_imports c \<and>
     conn_tenant_id c' = conn_tenant_id c \<and> local_principal_id c' = local_principal_id c \<and>
     local_principal_role c' = local_principal_role c \<and> relationship c' = relationship c \<and>
     metadata c' = metadata c"

lemma same_authority_activated [simp]: "same_authority c (activated t c)"
  by (simp add: same_authority_def activated_def)

lemma verify_signature_True:
  "verify_signature env pk m s \<longleftrightarrow> (\<exists>p b. pk = JStr p \<and> s = JStr b \<and> sig_valid env p m b)"
  by (auto simp: verify_signature_def split: json.splits)

lemma check_secret_None:
  "check_secret env c msg = None \<longleftrightarrow>
   (\<exists>p h. obj_get msg ''secret_proof'' JNull = JStr p \<and> p \<noteq> [] \<and> h \<noteq> [] \<and> is_ascii h \<and>
      meta_get c ''secret_proof_hash'' = JStr h \<and> sha256_hex env p = h)"
  by (auto simp: check_secret_def proof_matches_def Let_def split: json.splits if_splits)

lemma check_expiry_None:
  "check_expiry env now c = None \<longleftrightarrow>
   \<not> truthy (meta_get c ''invite_expires_at'') \<or>
   (\<exists>s t. meta_get c ''invite_expires_at'' = JStr s \<and> iso_micros env s = Some t \<and> now \<le> t)"
  by (auto simp: check_expiry_def Let_def split: json.splits option.splits)

lemma verify_handshake_Inr:
  "verify_handshake env now now_iso c raw = Inr c' \<longleftrightarrow>
   (\<exists>msg pj sg pk. hs_unwrap env raw = Inr (msg, pj, JStr sg) \<and>
      json_eq_int (obj_get msg ''v'' JNull) HANDSHAKE_VERSION \<and>
      obj_get msg ''connection_id'' JNull = JStr (conn_id c) \<and>
      obj_get msg ''public_key'' JNull = JStr pk \<and> pk \<noteq> [] \<and> sig_valid env pk pj sg \<and>
      (peer_public_key c = [] \<or> peer_public_key c = pk) \<and>
      check_expiry env now c = None \<and> check_secret env c msg = None \<and>
      c' = (activated now_iso c)\<lparr>
             peer_id := str_field env (obj_get msg ''instance_id'' (JStr [])),
             peer_name := str_field env (obj_get msg ''instance_name'' (JStr [])),
             peer_public_key := pk\<rparr>)"
  by (auto simp: verify_handshake_def Let_def verify_signature_True str_field_def
      split: sum.splits if_splits option.splits prod.splits)

text \<open>
  C3: a hello activates a connection only when it is signed by the key it presents, that key is
  the one the connection is bound to (when it is bound), it names this connection, the invite
  has not expired and the proof it carries hashes to the stored one; and pairing never touches
  the peer's exports, its principal, its tenant or the invite on file.
\<close>

theorem handshake_sound:
  assumes "verify_handshake env now now_iso c raw = Inr c'"
  shows "same_authority c c' \<and> conn_state c' = ACTIVE \<and>
    (peer_public_key c = [] \<or> peer_public_key c' = peer_public_key c) \<and>
    (\<exists>msg signed sg p.
       hs_unwrap env raw = Inr (msg, signed, JStr sg) \<and> sig_valid env (peer_public_key c') signed sg \<and>
       obj_get msg ''connection_id'' JNull = JStr (conn_id c) \<and>
       obj_get msg ''secret_proof'' JNull = JStr p \<and> p \<noteq> [] \<and>
       meta_get c ''secret_proof_hash'' = JStr (sha256_hex env p)) \<and>
    (truthy (meta_get c ''invite_expires_at'') \<longrightarrow>
       (\<exists>s t. meta_get c ''invite_expires_at'' = JStr s \<and> iso_micros env s = Some t \<and> now \<le> t))"
  using assms unfolding verify_handshake_Inr check_secret_None check_expiry_None
  by (auto simp: same_authority_def activated_def)

text \<open>
  Pairing completes. A hello built with the secret of the invite activates the issuer's
  connection while the invite is valid and unbound, and the ack the issuer then signs
  activates the consumer's, given a codec that reads back what it writes and signatures that
  verify under the signer's public key.
\<close>

theorem pairing_completes:
  assumes codec: "\<forall>v. json_loads env (json_dumps env v) = Some v"
    and sig: "\<forall>m. sig_valid env (identity_public_key i) m (sign_b64 i m)"
      "\<forall>m. sig_valid env (identity_public_key j) m (sign_b64 j m)"
    and digests: "\<forall>x. is_ascii (sha256_hex env x) \<and> sha256_hex env x \<noteq> []" "\<forall>k x. hmac_hex env k x \<noteq> []"
    and pair: "conn_id child = conn_id parent" "identity_public_key i \<noteq> []" "identity_public_key j \<noteq> []"
      "peer_public_key parent \<in> {[], identity_public_key i}" "peer_public_key child = identity_public_key j"
    and invite: "meta_get parent ''secret_proof_hash'' = JStr (secret_proof_hash env secret (conn_id parent))"
      "check_expiry env now parent = None"
  shows "\<exists>hello parent' ack child'.
    build_handshake env (Some i) t1 child secret = Inr hello \<and>
    verify_handshake env now t2 parent hello = Inr parent' \<and>
    build_ack env (Some j) t3 parent' = Inr ack \<and> verify_ack env t4 child ack = (True, child') \<and>
    conn_state parent' = ACTIVE \<and> conn_state child' = ACTIVE"
proof -
  obtain hello where hello: "build_handshake env (Some i) t1 child secret = Inr hello"
    by (simp add: build_handshake_def Let_def)
  then have un: "\<exists>pj. hs_unwrap env hello = Inr ([(''v'', JInt HANDSHAKE_VERSION), (''op'', JStr HANDSHAKE_OP),
      (''connection_id'', JStr (conn_id parent)), (''instance_id'', JStr (identity_id i)),
      (''instance_name'', JStr (display_name i)), (''public_key'', JStr (identity_public_key i)),
      (''secret_proof'', JStr (secret_proof env secret (conn_id parent))), (''sent_at'', JStr t1)],
      pj, JStr (sign_b64 i pj))"
    using codec pair(1) by (auto simp: build_handshake_def Let_def hs_unwrap_def)
  have sec: "check_secret env parent [(''v'', JInt HANDSHAKE_VERSION), (''op'', JStr HANDSHAKE_OP),
      (''connection_id'', JStr (conn_id parent)), (''instance_id'', JStr (identity_id i)),
      (''instance_name'', JStr (display_name i)), (''public_key'', JStr (identity_public_key i)),
      (''secret_proof'', JStr (secret_proof env secret (conn_id parent))), (''sent_at'', JStr t1)] = None"
    using digests invite(1) by (simp add: check_secret_None obj_get_def secret_proof_def secret_proof_hash_def)
  obtain parent' where parent': "verify_handshake env now t2 parent hello = Inr parent'"
    "conn_id parent' = conn_id parent" "conn_state parent' = ACTIVE"
    using un sec sig(1) pair(2,4) invite(2) unfolding verify_handshake_Inr
    by (fastforce simp: obj_get_def activated_def)
  obtain ack where ack: "build_ack env (Some j) t3 parent' = Inr ack"
    by (simp add: build_ack_def Let_def)
  then have "verify_ack env t4 child ack = (True, activated t4 child)"
    using codec sig(2) pair parent'(2)
    by (auto simp: build_ack_def Let_def verify_ack_def hs_unwrap_def obj_get_def verify_signature_True)
  moreover have "conn_state (activated t4 child) = ACTIVE" by (simp add: activated_def)
  ultimately show ?thesis using hello parent' ack by blast
qed

text \<open>A codec that reads back what it writes: numbering the JSON values.\<close>

instance json :: countable
  by countable_datatype

definition numbering_env :: crypto_env where
  "numbering_env = \<lparr>json_loads = (\<lambda>s. map_option (\<lambda>i. from_nat (nat i)) (py_int s)),
     json_dumps = (\<lambda>v. show_int (int (to_nat v))), sha256_hex = (\<lambda>_. ''d''), uuid5_url = id,
     sig_valid = (\<lambda>pem m s. s = pem @ m), hmac_hex = (\<lambda>_ _. ''p''), iso_micros = (\<lambda>_. None), text_of = (\<lambda>_. [])\<rparr>"

definition sample_identity :: "string \<Rightarrow> instance_identity" where
  "sample_identity k = \<lparr>identity_id = k, display_name = k, identity_public_key = k, sign_b64 = (\<lambda>m. k @ m)\<rparr>"

definition sample_link :: "string \<Rightarrow> connection" where
  "sample_link k = \<lparr>conn_id = ''c'', peer_id = [], peer_name = [], peer_endpoint = [],
     peer_public_key = k, relationship = CHILD, conn_state = PENDING, conn_exports = [],
     conn_imports = [], nats_account = [], metadata = [(''secret_proof_hash'', JStr ''d'')],
     conn_created_at = ''t'', conn_updated_at = ''t'', conn_tenant_id = ''default'',
     local_principal_id = [], local_principal_role = [], direction = ''inbound'', transport = [],
     activated_at = [], last_seen_at = [], last_error = []\<rparr>"

theorem pairing_completes_witness:
  "\<exists>hello parent'. build_handshake numbering_env (Some (sample_identity ''child'')) ''t''
       (sample_link ''parent'') ''s'' = Inr hello \<and>
     verify_handshake numbering_env 0 ''t'' (sample_link []) hello = Inr parent' \<and> conn_state parent' = ACTIVE"
proof -
  have "\<exists>hello parent' ack child'.
    build_handshake numbering_env (Some (sample_identity ''child'')) ''t'' (sample_link ''parent'') ''s'' = Inr hello \<and>
    verify_handshake numbering_env 0 ''t'' (sample_link []) hello = Inr parent' \<and>
    build_ack numbering_env (Some (sample_identity ''parent'')) ''t'' parent' = Inr ack \<and>
    verify_ack numbering_env ''t'' (sample_link ''parent'') ack = (True, child') \<and>
    conn_state parent' = ACTIVE \<and> conn_state child' = ACTIVE"
    by (rule pairing_completes)
      (simp_all add: numbering_env_def sample_identity_def sample_link_def is_ascii_def meta_get_def
        obj_get_def secret_proof_hash_def check_expiry_def)
  then show ?thesis by blast
qed

theorem handshake_sound_witness:
  "\<exists>hello parent'. verify_handshake numbering_env 0 ''t'' (sample_link []) hello = Inr parent' \<and>
     conn_exports parent' = [] \<and> conn_state parent' = ACTIVE"
proof -
  define pj where "pj = json_dumps numbering_env (JObj [(''v'', JInt 1), (''connection_id'', JStr ''c''),
     (''public_key'', JStr ''k''), (''secret_proof'', JStr ''p'')])"
  define hello where "hello = json_dumps numbering_env (JObj [(''payload_json'', JStr pj),
     (''signature'', JStr (''k'' @ pj))])"
  have "\<exists>parent'. verify_handshake numbering_env 0 ''t'' (sample_link []) hello = Inr parent'"
    by (simp add: verify_handshake_def hs_unwrap_def hello_def pj_def numbering_env_def obj_get_def
        HANDSHAKE_VERSION_def sample_link_def verify_signature_def check_expiry_def meta_get_def
        check_secret_def proof_matches_def is_ascii_def)
  then obtain parent' where p: "verify_handshake numbering_env 0 ''t'' (sample_link []) hello = Inr parent'" by blast
  have "same_authority (sample_link []) parent' \<and> conn_state parent' = ACTIVE"
    using handshake_sound [OF p] by simp
  then show ?thesis using p by (auto simp: same_authority_def sample_link_def)
qed

section \<open>The row-level-security gate\<close>

text \<open>
  \<open>require_enforcing_rls\<close>: \<open>environ\<close> is \<open>os.environ.get\<close>, \<open>probe\<close> the answer of the superuser
  query (\<open>Inl\<close> when it raises) and \<open>verdict\<close> the process's cached answer.
\<close>

definition OVERRIDE_ENV :: string where "OVERRIDE_ENV = ''ROBOTHOR_FEDERATION_ALLOW_INERT_RLS''"

definition env_truthy :: "string option \<Rightarrow> bool" where
  "env_truthy v = (py_lower (py_strip (case v of None \<Rightarrow> [] | Some s \<Rightarrow> s))
     \<in> {''1'', ''true'', ''yes'', ''on''})"

definition rls_flag_on :: "(string \<Rightarrow> string option) \<Rightarrow> bool" where
  "rls_flag_on environ =
     (py_lower (py_strip (case environ ''ROBOTHOR_RLS_ENABLED'' of None \<Rightarrow> [] | Some s \<Rightarrow> s))
       \<in> {''1'', ''true'', ''yes'', ''on''})"

definition connection_is_superuser :: "bool result \<Rightarrow> bool option \<Rightarrow> bool result \<times> bool option" where
  "connection_is_superuser probe verdict =
     (case verdict of
        Some b \<Rightarrow> (Inr b, verdict)
      | None \<Rightarrow> (case probe of Inl e \<Rightarrow> (Inl e, None) | Inr b \<Rightarrow> (Inr b, Some b)))"

datatype rls_refusal = RlsFlagOff | RlsUnknown | RlsSuperuser

definition require_enforcing_rls ::
  "(string \<Rightarrow> string option) \<Rightarrow> string \<Rightarrow> bool option \<Rightarrow> bool result \<Rightarrow> bool option
     \<Rightarrow> rls_refusal option \<times> bool option" where
  "require_enforcing_rls environ override_env override probe verdict =
     (let overridden = (case override of None \<Rightarrow> env_truthy (environ override_env) | Some b \<Rightarrow> b)
      in if overridden then (None, verdict)
         else if \<not> rls_flag_on environ then (Some RlsFlagOff, verdict)
         else (case connection_is_superuser probe verdict of
             (Inl _, v) \<Rightarrow> (Some RlsUnknown, v)
           | (Inr is_superuser, v) \<Rightarrow> (if is_superuser then Some RlsSuperuser else None, v)))"

text \<open>The cached verdict after a sequence of calls with the given probe answers.\<close>

fun rls_calls :: "(string \<Rightarrow> string option) \<Rightarrow> bool result list \<Rightarrow> bool option \<Rightarrow> bool option" where
  "rls_calls environ [] v = v"
| "rls_calls environ (p # ps) v =
     rls_calls environ ps (snd (require_enforcing_rls environ OVERRIDE_ENV (Some False) p v))"

lemma rls_calls_answer:
  "rls_calls environ ps v = Some b \<Longrightarrow> v = Some b \<or> Inr b \<in> set ps"
proof (induction environ ps v rule: rls_calls.induct)
  case (2 environ p ps v)
  then have "snd (require_enforcing_rls environ OVERRIDE_ENV (Some False) p v) = Some b \<or> Inr b \<in> set ps" by simp
  then show ?case
    by (auto simp: require_enforcing_rls_def connection_is_superuser_def Let_def
        split: if_splits option.splits sum.splits)
qed simp

text \<open>
  over any sequence of calls of the gate by one process that starts with no verdict, a call
  without an override passes only if some probe of this process answered that it is not a
  superuser and the flag is on: a failed probe is never remembered as an answer.
\<close>

theorem rls_gate_fails_closed:
  assumes "fst (require_enforcing_rls environ OVERRIDE_ENV (Some False) p (rls_calls environ ps None)) = None"
  shows "rls_flag_on environ \<and> Inr False \<in> set (p # ps)"
proof -
  have "rls_calls environ ps None = Some False \<Longrightarrow> Inr False \<in> set ps"
    using rls_calls_answer [of environ ps None False] by simp
  then show ?thesis using assms
    by (auto simp: require_enforcing_rls_def connection_is_superuser_def Let_def
        split: if_splits option.splits sum.splits prod.splits)
qed

theorem rls_gate_fails_closed_witness:
  "fst (require_enforcing_rls (\<lambda>_. Some ''on'') OVERRIDE_ENV (Some False) (Inl DbError)
      (rls_calls (\<lambda>_. Some ''on'') [Inr False] None)) = None \<and> rls_flag_on (\<lambda>_. Some ''on'')"
proof -
  have *: "fst (require_enforcing_rls (\<lambda>_. Some ''on'') OVERRIDE_ENV (Some False) (Inl DbError)
      (rls_calls (\<lambda>_. Some ''on'') [Inr False] None)) = None"
    by (simp add: require_enforcing_rls_def connection_is_superuser_def rls_flag_on_def py_lower_def
        py_strip_def is_space_def OVERRIDE_ENV_def Let_def)
  from rls_gate_fails_closed [OF *] * show ?thesis by simp
qed

end
