(* ===== verification/Federation_Responder.thy ===== *)
theory Federation_Responder
  imports Federation_Handshake Federation_Connections Permissions
begin

text \<open>
  The inbound federation responder (\<open>robothor/engine/federation_responder.py\<close>): who a
  connection acts as, the handler that serves one connection behind its three gates, the
  handshake it serves before activation, and the ops. What a call does outside the connection
  is the list of its effects, in order; a reply is the document it is serialised from.
\<close>

section \<open>Ops and principals\<close>

definition OP_REQUIRED_CAPABILITY :: "(string, string) dict" where
  "OP_REQUIRED_CAPABILITY =
     [(''list_runs'', CAP_READ_RUNS), (''trigger'', CAP_TRIGGER_AGENT), (''health'', CAP_READ_HEALTH)]"

definition OP_LOCAL_TOOL :: "(string, string) dict" where
  "OP_LOCAL_TOOL = [(''list_runs'', ''list_agent_runs''), (''trigger'', ''exec''), (''health'', ''get_stats'')]"

text \<open>The calling side's check of an outbound op against the imports.\<close>

definition authorize_op :: "connection \<Rightarrow> string \<Rightarrow> bool" where
  "authorize_op c op =
     (case dict_get OP_REQUIRED_CAPABILITY op of
        None \<Rightarrow> True
      | Some cap \<Rightarrow> cap = [] \<or> cap \<in> set (conn_imports c))"

definition principal_of :: "connection \<Rightarrow> string \<times> string \<times> string" where
  "principal_of c =
     (let cid = (if conn_id c = [] then ''unknown'' else conn_id c)
      in (if local_principal_id c = [] then ''federation:'' @ cid else local_principal_id c,
          if local_principal_role c = [] then ''federation_child'' else local_principal_role c,
          if conn_tenant_id c = [] then ''default'' else conn_tenant_id c))"

section \<open>Effects and replies\<close>

datatype effect =
    Audit json string
  | QueryRuns string "string option" int
  | RunAgent json json string string string
  | PersistActivation connection

datatype reply =
    MalformedRequest
  | AlreadyActive
  | NotActive connection_state
  | UnknownOp json
  | NotExported string string
  | OpDenied string denial
  | ExecutionFailed
  | UnhandledOp string
  | HandshakeUnavailable
  | RlsInert rls_refusal
  | HandshakeRefused hs_error
  | HandshakeFailed
  | AckUnsigned
  | Ack string
  | Runs "(string \<times> string \<times> string \<times> string) list"
  | HealthOk
  | AgentIdRequired
  | Triggered json

record agent_run_row =
  run_tenant :: string
  run_id :: string
  run_agent :: string
  run_status :: string
  run_started :: int

record responder_env =
  re_crypto :: crypto_env
  re_identity :: "instance_identity option"
  re_environ :: "string \<Rightarrow> string option"
  re_probe :: "bool result"
  re_verdict :: "bool option"
  re_now :: int
  re_now_iso :: string
  re_perm_db :: "perm_db option"
  re_runs :: "agent_run_row list result"
  re_time_text :: "int \<Rightarrow> string"
  re_execute :: "json \<Rightarrow> json result"

text \<open>What \<open>make_command_handler\<close> captures; the connection itself is shared.\<close>

record handler =
  h_exports :: "string set"
  h_pid :: string
  h_role :: string
  h_tenant :: string
  h_has_config :: bool
  h_has_on_activate :: bool

definition make_command_handler :: "bool \<Rightarrow> bool \<Rightarrow> connection \<Rightarrow> handler" where
  "make_command_handler has_config has_on_activate c =
     (case principal_of c of (pid, role, tenant) \<Rightarrow>
        \<lparr>h_exports = set (conn_exports c), h_pid = pid, h_role = role, h_tenant = tenant,
         h_has_config = has_config, h_has_on_activate = has_on_activate\<rparr>)"

section \<open>The ops\<close>

text \<open>
  \<open>_list_runs\<close>: the agent id compared with a text column must be text, a negative LIMIT is
  rejected, and the rows of the tenant come newest first.
\<close>

definition select_runs :: "agent_run_row list \<Rightarrow> string \<Rightarrow> string option \<Rightarrow> int \<Rightarrow> agent_run_row list" where
  "select_runs rows tenant agent limit =
     take (nat limit) (rev (sort_key run_started (rev (filter (\<lambda>r. run_tenant r = tenant \<and>
       (case agent of None \<Rightarrow> True | Some a \<Rightarrow> run_agent r = a)) rows))))"

definition list_runs_op ::
  "responder_env \<Rightarrow> json_obj \<Rightarrow> string \<Rightarrow> (reply \<times> effect list) result" where
  "list_runs_op env msg tenant =
     (let agent_id = obj_get msg ''agent_id'' JNull in
      bind_result (json_int (obj_get msg ''limit'' (JInt 20))) (\<lambda>n.
      let limit = min n 100 in
      bind_result (if \<not> truthy agent_id then Inr None
          else (case agent_id of JStr a \<Rightarrow> Inr (Some a) | _ \<Rightarrow> Inl DbError)) (\<lambda>agent.
      bind_result (re_runs env) (\<lambda>rows.
      guard (0 \<le> limit) DbError
        (Inr (Runs (map (\<lambda>r. (run_id r, run_agent r, run_status r, re_time_text env (run_started r)))
                (select_runs rows tenant agent limit)),
              [QueryRuns tenant agent limit]))))))"

definition health_op :: reply where
  "health_op = HealthOk"

definition trigger_op ::
  "responder_env \<Rightarrow> json_obj \<Rightarrow> string \<Rightarrow> string \<Rightarrow> string \<Rightarrow> effect list \<times> reply result" where
  "trigger_op env msg pid role tenant =
     (let agent_id = obj_get msg ''agent_id'' JNull in
      if \<not> truthy agent_id then ([], Inr AgentIdRequired)
      else ([RunAgent agent_id (obj_get msg ''message'' (JStr [])) pid role tenant],
            bind_result (re_execute env agent_id) (\<lambda>run. Inr (Triggered run))))"

section \<open>The handshake op\<close>

definition handshake_op ::
  "responder_env \<Rightarrow> handler \<Rightarrow> string \<Rightarrow> connection \<Rightarrow> reply \<times> connection \<times> effect list" where
  "handshake_op env h data c =
     (let audit = (\<lambda>outcome. Audit (JStr HANDSHAKE_OP) outcome) in
      if \<not> h_has_config h then (HandshakeUnavailable, c, [audit ''error''])
      else (case fst (require_enforcing_rls (re_environ env) OVERRIDE_ENV None (re_probe env) (re_verdict env)) of
          Some why \<Rightarrow> (RlsInert why, c, [audit ''denied''])
        | None \<Rightarrow>
            (case verify_handshake (re_crypto env) (re_now env) (re_now_iso env) c data of
               Inl (HsCrash _) \<Rightarrow> (HandshakeFailed, c, [audit ''error''])
             | Inl e \<Rightarrow> (HandshakeRefused e, c, [audit ''denied''])
             | Inr c' \<Rightarrow>
                 (let persisted = (if h_has_on_activate h then [PersistActivation c'] else []) in
                  (case build_ack (re_crypto env) (re_identity env) (re_now_iso env) c' of
                     Inl _ \<Rightarrow> (AckUnsigned, c', persisted @ [audit ''error''])
                   | Inr ack \<Rightarrow> (Ack ack, c', persisted @ [audit ''ok'']))))))"

section \<open>The handler\<close>

text \<open>Gate 3 and the dispatch, once the first two gates are passed.\<close>

definition run_op :: "responder_env \<Rightarrow> handler \<Rightarrow> string \<Rightarrow> json_obj \<Rightarrow> effect list \<times> reply result" where
  "run_op env h op msg =
     (if op = ''list_runs'' then
        (case list_runs_op env msg (h_tenant h) of
           Inl e \<Rightarrow> ([], Inl e) | Inr (r, effs) \<Rightarrow> (effs, Inr r))
      else if op = ''health'' then ([], Inr health_op)
      else if op = ''trigger'' then trigger_op env msg (h_pid h) (h_role h) (h_tenant h)
      else ([], Inr (UnhandledOp op)))"

definition handle_op ::
  "responder_env \<Rightarrow> handler \<Rightarrow> json \<Rightarrow> json_obj \<Rightarrow> reply result \<times> effect list" where
  "handle_op env h op msg =
     (if \<not> hashable op then (Inl TypeError, [])
      else (case op of
          JStr name \<Rightarrow>
            (case dict_get OP_REQUIRED_CAPABILITY name of
               None \<Rightarrow> (Inr (UnknownOp op), [])
             | Some required \<Rightarrow>
                 if required \<notin> h_exports h then (Inr (NotExported name required), [Audit op ''denied''])
                 else (let local_tool = (case dict_get OP_LOCAL_TOOL name of None \<Rightarrow> name | Some t \<Rightarrow> t) in
                   (case check_tool_permission (re_perm_db env) (h_role h) (h_tenant h) local_tool (Some (h_pid h)) of
                      Some denial \<Rightarrow> (Inr (OpDenied name denial), [Audit op ''denied''])
                    | None \<Rightarrow>
                        (case run_op env h name msg of
                           (effs, Inl _) \<Rightarrow> (Inr ExecutionFailed, effs @ [Audit op ''error''])
                         | (effs, Inr (UnhandledOp u)) \<Rightarrow> (Inr (UnhandledOp u), effs)
                         | (effs, Inr r) \<Rightarrow> (Inr r, effs @ [Audit op ''ok''])))))
        | _ \<Rightarrow> (Inr (UnknownOp op), [])))"

definition handle ::
  "responder_env \<Rightarrow> handler \<Rightarrow> string \<Rightarrow> connection \<Rightarrow> reply result \<times> connection \<times> effect list" where
  "handle env h data c =
     (case json_loads (re_crypto env) data of
        None \<Rightarrow> (Inr MalformedRequest, c, [])
      | Some (JObj msg) \<Rightarrow>
          (let op = obj_get msg ''op'' JNull in
           if op = JStr HANDSHAKE_OP then
             (if conn_state c = ACTIVE then (Inr AlreadyActive, c, [Audit op ''denied''])
              else if conn_state c \<noteq> PENDING then (Inr (NotActive (conn_state c)), c, [Audit op ''denied''])
              else (case handshake_op env h data c of (r, c', effs) \<Rightarrow> (Inr r, c', effs)))
           else if conn_state c \<noteq> ACTIVE then (Inr (NotActive (conn_state c)), c, [Audit op ''denied''])
           else (case handle_op env h op msg of (r, effs) \<Rightarrow> (r, c, effs)))
      | Some _ \<Rightarrow> (Inl AttributeError, c, []))"

section \<open>Properties\<close>

fun is_op_effect :: "effect \<Rightarrow> bool" where
  "is_op_effect (QueryRuns _ _ _) = True"
| "is_op_effect (RunAgent _ _ _ _ _) = True"
| "is_op_effect _ = False"

fun effect_op :: "effect \<Rightarrow> string" where
  "effect_op (QueryRuns _ _ _) = ''list_runs''"
| "effect_op (RunAgent _ _ _ _ _) = ''trigger''"
| "effect_op _ = []"

fun effect_tenant :: "effect \<Rightarrow> string" where
  "effect_tenant (QueryRuns t _ _) = t"
| "effect_tenant (RunAgent _ _ _ _ t) = t"
| "effect_tenant _ = []"

definition op_allowed :: "responder_env \<Rightarrow> handler \<Rightarrow> string \<Rightarrow> bool" where
  "op_allowed env h op \<longleftrightarrow>
     (\<exists>cap tool. dict_get OP_REQUIRED_CAPABILITY op = Some cap \<and> cap \<in> h_exports h \<and>
        dict_get OP_LOCAL_TOOL op = Some tool \<and>
        check_tool_permission (re_perm_db env) (h_role h) (h_tenant h) tool (Some (h_pid h)) = None)"

lemma list_runs_effects:
  assumes "list_runs_op env msg t = Inr (r, effs)" "x \<in> set effs"
  shows "effect_op x = ''list_runs'' \<and> effect_tenant x = t"
  using assms by (auto simp: list_runs_op_def Let_def)

lemma trigger_effects:
  assumes "trigger_op env msg pid role t = (effs, r)" "x \<in> set effs"
  shows "effect_op x = ''trigger'' \<and> effect_tenant x = t"
  using assms by (auto simp: trigger_op_def Let_def split: if_splits)

lemma run_op_effects:
  assumes "run_op env h op msg = (effs, r)" "x \<in> set effs"
  shows "effect_op x = op \<and> effect_tenant x = h_tenant h"
  using assms
  by (auto simp: run_op_def dest: list_runs_effects trigger_effects split: if_splits sum.splits)

lemma handle_op_effects:
  assumes "handle_op env h op msg = (r, effs)" "x \<in> set effs" "is_op_effect x"
  shows "op = JStr (effect_op x) \<and> effect_tenant x = h_tenant h \<and> op_allowed env h (effect_op x)"
proof (cases op)
  case (JStr name)
  show ?thesis
  proof (cases "dict_get OP_REQUIRED_CAPABILITY name")
    case None
    then show ?thesis using assms JStr by (auto simp: handle_op_def)
  next
    case (Some cap)
    then have "\<exists>tool. dict_get OP_LOCAL_TOOL name = Some tool"
      by (auto simp: OP_REQUIRED_CAPABILITY_def OP_LOCAL_TOOL_def split: if_splits)
    then obtain tool where tool: "dict_get OP_LOCAL_TOOL name = Some tool" by blast
    show ?thesis
    proof (cases "cap \<in> h_exports h \<and>
        check_tool_permission (re_perm_db env) (h_role h) (h_tenant h) tool (Some (h_pid h)) = None")
      case False
      then show ?thesis using assms JStr Some tool by (auto simp: handle_op_def split: if_splits option.splits)
    next
      case True
      obtain effs' r' where run: "run_op env h name msg = (effs', r')" by fastforce
      have "x \<in> set effs'"
        using assms True JStr Some tool run
        by (auto simp: handle_op_def split: sum.splits reply.splits)
      then have "effect_op x = name \<and> effect_tenant x = h_tenant h" by (rule run_op_effects [OF run])
      then show ?thesis using JStr Some tool True by (auto simp: op_allowed_def)
    qed
  qed
qed (use assms in \<open>auto simp: handle_op_def split: if_splits\<close>)

lemma handshake_op_effects:
  assumes "handshake_op env h data c = (r, c', effs)"
  shows "x \<in> set effs \<Longrightarrow> \<not> is_op_effect x" "same_authority c c'"
proof -
  have same: "same_authority c c'" if "verify_handshake (re_crypto env) (re_now env) (re_now_iso env) c data = Inr c'" for c'
    using that unfolding verify_handshake_Inr by (auto simp: same_authority_def activated_def)
  show "same_authority c c'"
    using assms same
    by (auto simp: handshake_op_def Let_def same_authority_def split: if_splits option.splits sum.splits hs_error.splits)
  show "x \<in> set effs \<Longrightarrow> \<not> is_op_effect x"
    using assms
    by (auto simp: handshake_op_def Let_def split: if_splits option.splits sum.splits hs_error.splits)
qed

lemma handle_effects:
  assumes "handle env h data c = (r, c', effs)" "x \<in> set effs" "is_op_effect x"
  shows "conn_state c = ACTIVE \<and> effect_tenant x = h_tenant h \<and> op_allowed env h (effect_op x) \<and>
    (\<exists>msg. json_loads (re_crypto env) data = Some (JObj msg) \<and> obj_get msg ''op'' JNull = JStr (effect_op x))"
proof -
  obtain msg where msg: "json_loads (re_crypto env) data = Some (JObj msg)"
    using assms by (cases "json_loads (re_crypto env) data"; (cases "the (json_loads (re_crypto env) data)")?)
      (auto simp: handle_def split: json.splits)
  let ?op = "obj_get msg ''op'' JNull"
  show ?thesis
  proof (cases "?op = JStr HANDSHAKE_OP")
    case True
    then have False using assms msg
      by (auto simp: handle_def Let_def dest: handshake_op_effects(1) split: if_splits prod.splits)
    then show ?thesis ..
  next
    case False
    then have act: "conn_state c = ACTIVE" and op: "handle_op env h ?op msg = (r, effs)"
      using assms msg by (auto simp: handle_def Let_def split: if_splits prod.splits)
    then show ?thesis using handle_op_effects [OF op assms(2,3)] msg by auto
  qed
qed

text \<open>
  What a message has passed when the op of a name serves it, and when a hello is accepted, the
  only other thing a message can bring about.
\<close>

definition served :: "responder_env \<Rightarrow> handler \<Rightarrow> string \<Rightarrow> connection \<Rightarrow> string \<Rightarrow> bool" where
  "served env h data c op \<longleftrightarrow>
     conn_state c = ACTIVE \<and> op_allowed env h op \<and>
     (\<exists>msg. json_loads (re_crypto env) data = Some (JObj msg) \<and> obj_get msg ''op'' JNull = JStr op)"

definition hello_accepted :: "responder_env \<Rightarrow> handler \<Rightarrow> string \<Rightarrow> connection \<Rightarrow> connection \<Rightarrow> bool" where
  "hello_accepted env h data c c' \<longleftrightarrow>
     conn_state c = PENDING \<and> h_has_config h \<and>
     (\<exists>msg. json_loads (re_crypto env) data = Some (JObj msg) \<and> obj_get msg ''op'' JNull = JStr HANDSHAKE_OP) \<and>
     fst (require_enforcing_rls (re_environ env) OVERRIDE_ENV None (re_probe env) (re_verdict env)) = None \<and>
     verify_handshake (re_crypto env) (re_now env) (re_now_iso env) c data = Inr c'"

text \<open>The replies an op gives once it runs, and the op; every other reply refuses the message.\<close>

fun answers_op :: "reply \<Rightarrow> string \<Rightarrow> bool" where
  "answers_op (Runs _) op = (op = ''list_runs'')"
| "answers_op HealthOk op = (op = ''health'')"
| "answers_op AgentIdRequired op = (op = ''trigger'')"
| "answers_op (Triggered _) op = (op = ''trigger'')"
| "answers_op (UnhandledOp u) op = (op = u)"
| "answers_op ExecutionFailed op = True"
| "answers_op _ op = False"

fun op_reply :: "reply \<Rightarrow> bool" where
  "op_reply (Runs _) = True" | "op_reply HealthOk = True" | "op_reply AgentIdRequired = True"
| "op_reply (Triggered _) = True" | "op_reply (UnhandledOp _) = True" | "op_reply ExecutionFailed = True"
| "op_reply _ = False"

text \<open>Refused, a message leaves nothing but the record of the refusal.\<close>

definition refusal_only :: "effect list \<Rightarrow> bool" where
  "refusal_only effs \<longleftrightarrow> (\<forall>x \<in> set effs. \<exists>op outcome. x = Audit op outcome \<and> outcome \<noteq> ''ok'')"

lemma run_op_answers:
  assumes "run_op env h op msg = (effs, Inr r)"
  shows "op_reply r \<and> answers_op r op"
  using assms
  by (auto simp: run_op_def health_op_def trigger_op_def list_runs_op_def Let_def split: if_splits sum.splits)

lemma run_op_no_audit:
  assumes "run_op env h op msg = (effs, r)" "x \<in> set effs"
  shows "is_op_effect x"
  using assms
  by (auto simp: run_op_def trigger_op_def list_runs_op_def Let_def split: if_splits sum.splits)

lemma handle_op_answers:
  assumes "handle_op env h op msg = (r, effs)"
  shows "(\<exists>name q. op = JStr name \<and> op_allowed env h name \<and> r = Inr q \<and> op_reply q \<and> answers_op q name \<and>
      (\<forall>x \<in> set effs. is_op_effect x \<or> (\<exists>outcome. x = Audit op outcome))) \<or>
    refusal_only effs \<and> (\<forall>q. r = Inr q \<longrightarrow> \<not> op_reply q)"
proof (cases op)
  case (JStr name)
  show ?thesis
  proof (cases "dict_get OP_REQUIRED_CAPABILITY name")
    case None
    then show ?thesis using assms JStr by (auto simp: handle_op_def refusal_only_def)
  next
    case (Some cap)
    then obtain tool where tool: "dict_get OP_LOCAL_TOOL name = Some tool"
      by (auto simp: OP_REQUIRED_CAPABILITY_def OP_LOCAL_TOOL_def split: if_splits)
    show ?thesis
    proof (cases "cap \<in> h_exports h \<and>
        check_tool_permission (re_perm_db env) (h_role h) (h_tenant h) tool (Some (h_pid h)) = None")
      case False
      then show ?thesis using assms JStr Some tool
        by (auto simp: handle_op_def refusal_only_def split: if_splits option.splits)
    next
      case True
      then have al: "op_allowed env h name" using Some tool by (auto simp: op_allowed_def)
      obtain effs' r' where run: "run_op env h name msg = (effs', r')" by fastforce
      note na = run_op_no_audit [OF run]
      show ?thesis
      proof (cases r')
        case (Inl e)
        then show ?thesis using assms True JStr Some tool run na al by (auto simp: handle_op_def)
      next
        case (Inr q)
        then have q: "op_reply q" "answers_op q name" using run_op_answers run by blast+
        then show ?thesis using assms True JStr Some tool run na al Inr
          by (cases q) (auto simp: handle_op_def)
      qed
    qed
  qed
qed (use assms in \<open>auto simp: handle_op_def refusal_only_def split: if_splits\<close>)

lemma handshake_op_outcome:
  assumes "handshake_op env h data c = (r, c', effs)"
  shows "\<not> op_reply r \<and>
    (h_has_config h \<and> fst (require_enforcing_rls (re_environ env) OVERRIDE_ENV None (re_probe env) (re_verdict env)) = None \<and>
       verify_handshake (re_crypto env) (re_now env) (re_now_iso env) c data = Inr c' \<and>
       (\<forall>x \<in> set effs. (x = PersistActivation c' \<and> h_has_on_activate h) \<or> (\<exists>outcome. x = Audit (JStr HANDSHAKE_OP) outcome)) \<or>
     c' = c \<and> refusal_only effs)"
  using assms
  by (auto simp: handshake_op_def Let_def refusal_only_def split: if_splits option.splits sum.splits hs_error.splits)

text \<open>
  C1: an inbound message has an effect only through the gates. Whatever arrives, either one op
  of a name serves it, which needs an active connection at that moment, the op's capability
  among the exports the handler was built with, and local rules that allow the op's tool to the
  connection's principal: then its reply is that op's, it reads and runs nothing but that op in
  the handler's tenant, and the connection stays as it is. Or a verified hello activates a
  pending connection behind the row-level security gate, and the only write is that activation.
  Or the message is refused: the connection stays as it is, the reply is no op's, and
  nothing is written but the record of the refusal.
\<close>

theorem responder_gates:
  assumes "handle env h data c = (r, c', effs)"
  shows "(\<exists>op q. served env h data c op \<and> c' = c \<and> r = Inr q \<and> answers_op q op \<and>
        (\<forall>x \<in> set effs. is_op_effect x \<and> effect_op x = op \<and> effect_tenant x = h_tenant h \<or>
           (\<exists>outcome. x = Audit (JStr op) outcome))) \<or>
    hello_accepted env h data c c' \<and>
        (\<forall>x \<in> set effs. x = PersistActivation c' \<and> h_has_on_activate h \<or>
           (\<exists>outcome. x = Audit (JStr HANDSHAKE_OP) outcome)) \<or>
    c' = c \<and> (\<forall>q. r = Inr q \<longrightarrow> \<not> op_reply q) \<and> refusal_only effs"
proof (cases "\<exists>msg. json_loads (re_crypto env) data = Some (JObj msg)")
  case False
  then have "c' = c \<and> (\<forall>q. r = Inr q \<longrightarrow> \<not> op_reply q) \<and> refusal_only effs"
    using assms by (auto simp: handle_def refusal_only_def split: option.splits json.splits)
  then show ?thesis by blast
next
  case True
  then obtain msg where msg: "json_loads (re_crypto env) data = Some (JObj msg)" by blast
  let ?op = "obj_get msg ''op'' JNull"
  show ?thesis
  proof (cases "?op = JStr HANDSHAKE_OP")
    case hs: True
    show ?thesis
    proof (cases "conn_state c = PENDING")
      case False
      then have "c' = c \<and> (\<forall>q. r = Inr q \<longrightarrow> \<not> op_reply q) \<and> refusal_only effs"
        using assms msg hs by (auto simp: handle_def Let_def refusal_only_def split: if_splits)
      then show ?thesis by blast
    next
      case pend: True
      then obtain q where q: "handshake_op env h data c = (q, c', effs)" "r = Inr q"
        using assms msg hs by (auto simp: handle_def Let_def split: prod.splits)
      show ?thesis using handshake_op_outcome [OF q(1)] q(2) pend msg hs
        unfolding hello_accepted_def by blast
    qed
  next
    case no: False
    show ?thesis
    proof (cases "conn_state c = ACTIVE")
      case False
      then have "c' = c \<and> (\<forall>q. r = Inr q \<longrightarrow> \<not> op_reply q) \<and> refusal_only effs"
        using assms msg no by (auto simp: handle_def Let_def refusal_only_def split: if_splits)
      then show ?thesis by blast
    next
      case act: True
      then have op: "handle_op env h ?op msg = (r, effs)" and c: "c' = c"
        using assms msg no by (auto simp: handle_def Let_def split: if_splits prod.splits)
      from handle_op_answers [OF op] show ?thesis
      proof (elim disjE exE conjE)
        fix name q
        assume n: "?op = JStr name" "op_allowed env h name" "r = Inr q" "op_reply q" "answers_op q name"
          and e: "\<forall>x \<in> set effs. is_op_effect x \<or> (\<exists>outcome. x = Audit ?op outcome)"
        have "is_op_effect x \<and> effect_op x = name \<and> effect_tenant x = h_tenant h \<or>
            (\<exists>outcome. x = Audit (JStr name) outcome)" if "x \<in> set effs" for x
          using handle_op_effects [OF op that] e that n(1) by auto
        moreover have "served env h data c name" using msg act n by (auto simp: served_def)
        ultimately show ?thesis using c n(3,5) by blast
      next
        assume "refusal_only effs" "\<forall>q. r = Inr q \<longrightarrow> \<not> op_reply q"
        then show ?thesis using c by blast
      qed
    qed
  qed
qed

text \<open>
  A connection whose principal role has no rule of its own, in its tenant or in the
  defaults, and whose principal has none either, can do nothing here, whatever it exports.
\<close>

theorem unseeded_principal_runs_nothing:
  assumes "re_perm_db env = Some db"
    and "\<forall>(t, u, p, a) \<in> set (user_permissions db). u \<noteq> h_pid h"
    and "\<forall>(t, r, p, a) \<in> set (role_permissions db). r \<noteq> h_role h"
  shows "filter is_op_effect (snd (snd (handle env h data c))) = []"
proof (rule ccontr)
  assume "filter is_op_effect (snd (snd (handle env h data c))) \<noteq> []"
  then obtain x where x: "x \<in> set (snd (snd (handle env h data c)))" "is_op_effect x"
    by (auto simp: filter_empty_conv)
  obtain r c' effs where hd: "handle env h data c = (r, c', effs)" by (cases "handle env h data c") auto
  then have "op_allowed env h (effect_op x)" using handle_effects [OF hd] x by simp
  then obtain tool where tool: "check_tool_permission (Some db) (h_role h) (h_tenant h) tool (Some (h_pid h)) = None"
    using assms(1) by (auto simp: op_allowed_def)
  have "user_rules db (h_tenant h) (h_pid h) = []" "role_rules db (h_tenant h) (h_role h) = []"
    using assms(2,3) by (auto simp: user_rules_def role_rules_def)
  then show False using tool
    by (auto simp: check_tool_permission_def user_pick_def matching_rules_def pick_rule_def split: if_splits)
qed

text \<open>
  The run listing a peer gets holds at most a hundred rows, whatever limit it asks for, and
  only runs of the tenant it is scoped to.
\<close>

theorem list_runs_scoped:
  assumes "list_runs_op env msg t = Inr (Runs out, effs)" "re_runs env = Inr rows"
  shows "length out \<le> 100 \<and> fst ` set out \<subseteq> run_id ` {r \<in> set rows. run_tenant r = t}"
proof -
  from assms obtain agent n where out: "out = map (\<lambda>r. (run_id r, run_agent r, run_status r, re_time_text env (run_started r)))
      (select_runs rows t agent (min n 100))" and "0 \<le> min n 100"
    by (auto simp: list_runs_op_def Let_def)
  have "set (select_runs rows t agent (min n 100)) \<subseteq> {r \<in> set rows. run_tenant r = t}"
    by (auto simp: select_runs_def dest!: in_set_takeD)
  moreover have "length (select_runs rows t agent (min n 100)) \<le> 100"
    by (simp add: select_runs_def)
  ultimately show ?thesis by (auto simp: out image_iff)
qed

text \<open>
  no message changes what a peer may do: a connection keeps its exports, imports, principal
  and tenant through every message, one that is active or suspended is not changed at all, and
  the only state a message can move a connection to is active.
\<close>

theorem responder_keeps_authority:
  assumes "handle env h data c = (r, c', effs)"
  shows "same_authority c c' \<and> (conn_state c \<noteq> PENDING \<longrightarrow> c' = c) \<and>
         (conn_state c' \<noteq> conn_state c \<longrightarrow> conn_state c' = ACTIVE)"
proof -
  have same: "same_authority c c" by (simp add: same_authority_def)
  have hs: "conn_state d = ACTIVE \<or> d = c" if "handshake_op env h data c = (q, d, es)" for q d es
    using that unfolding handshake_op_def Let_def verify_handshake_Inr
    by (auto split: if_splits option.splits sum.splits hs_error.splits simp: verify_handshake_Inr activated_def)
  show ?thesis using assms same
    by (auto simp: handle_def Let_def dest: handshake_op_effects(2) hs
        split: option.splits json.splits if_splits prod.splits)
qed

text \<open>
  The exports a live handler enforces are those of the moment it was built: whatever the
  connection's export list is changed to afterwards, the handler answers and acts the same.
\<close>

theorem handler_ignores_later_exports:
  "filter is_op_effect (snd (snd (handle env h data (c\<lparr>conn_exports := xs\<rparr>)))) =
   filter is_op_effect (snd (snd (handle env h data c)))"
proof (cases "conn_state c = PENDING")
  case False
  then show ?thesis
    by (auto simp: handle_def Let_def split: option.splits json.splits prod.splits)
next
  case True
  have "filter is_op_effect (snd (snd (handle env h data d))) = []" if "conn_state d = PENDING" for d
  proof (rule ccontr)
    assume "filter is_op_effect (snd (snd (handle env h data d))) \<noteq> []"
    then obtain x where x: "x \<in> set (snd (snd (handle env h data d)))" "is_op_effect x"
      by (auto simp: filter_empty_conv)
    obtain r d' effs where hd: "handle env h data d = (r, d', effs)" by (cases "handle env h data d") auto
    then show False using handle_effects [OF hd] x that by simp
  qed
  then show ?thesis using True by simp
qed

text \<open>
  once a hello has activated a connection, every later handshake message on it is refused
  as already active: a consumer whose ack was lost cannot complete the pairing by retrying.
\<close>

theorem handshake_not_repeatable:
  assumes "handle env h data c = (Inr (Ack ack), c', effs)"
    and "json_loads (re_crypto env') data' = Some (JObj msg)" "obj_get msg ''op'' JNull = JStr HANDSHAKE_OP"
  shows "handle env' h' data' c' = (Inr AlreadyActive, c', [Audit (JStr HANDSHAKE_OP) ''denied''])"
proof -
  have "conn_state c' = ACTIVE"
    using assms(1) unfolding handle_def handle_op_def handshake_op_def Let_def
    by (auto simp: verify_handshake_Inr activated_def
        split: option.splits json.splits if_splits prod.splits sum.splits hs_error.splits reply.splits)
  then show ?thesis using assms(2,3) by (simp add: handle_def)
qed

section \<open>A concrete responder\<close>

definition sample_responder :: responder_env where
  "sample_responder = \<lparr>re_crypto = numbering_env, re_identity = Some (sample_identity ''parent''),
     re_environ = (\<lambda>_. Some ''1''), re_probe = Inl DbError, re_verdict = None, re_now = 0, re_now_iso = ''t'',
     re_perm_db = Some \<lparr>user_permissions = [], role_permissions = [(''default'', ''reader'', ''list_*'', ''allow'')]\<rparr>,
     re_runs = Inr [\<lparr>run_tenant = ''default'', run_id = ''r1'', run_agent = ''a'', run_status = ''ok'', run_started = 1\<rparr>,
                    \<lparr>run_tenant = ''other'', run_id = ''r2'', run_agent = ''a'', run_status = ''ok'', run_started = 2\<rparr>],
     re_time_text = (\<lambda>_. ''t''), re_execute = (\<lambda>_. Inr JNull)\<rparr>"

definition sample_active :: connection where
  "sample_active = (sample_link ''k'')\<lparr>conn_state := ACTIVE, conn_exports := [CAP_READ_RUNS],
     local_principal_role := ''reader''\<rparr>"

definition list_request :: string where
  "list_request = json_dumps numbering_env (JObj [(''op'', JStr ''list_runs'')])"

lemma numbering_codec [simp]: "json_loads numbering_env (json_dumps numbering_env v) = Some v"
  by (simp add: numbering_env_def)

lemma sample_list_allowed:
  "check_tool_permission (re_perm_db sample_responder) ''reader'' ''default'' ''list_agent_runs''
     (Some ''federation:c'') = None"
  unfolding sample_responder_def by code_simp

lemma sample_handler:
  "make_command_handler True True sample_active =
   \<lparr>h_exports = {CAP_READ_RUNS}, h_pid = ''federation:c'', h_role = ''reader'', h_tenant = ''default'',
    h_has_config = True, h_has_on_activate = True\<rparr>"
  by (simp add: make_command_handler_def principal_of_def sample_active_def sample_link_def)

lemma sample_list_op:
  "list_runs_op sample_responder [(''op'', JStr ''list_runs'')] ''default'' =
   Inr (Runs [(''r1'', ''a'', ''ok'', ''t'')], [QueryRuns ''default'' None 20])"
  by (simp add: list_runs_op_def sample_responder_def obj_get_def select_runs_def Let_def guard_def)

lemma sample_handle:
  "handle sample_responder (make_command_handler True True sample_active) list_request sample_active =
   (Inr (Runs [(''r1'', ''a'', ''ok'', ''t'')]), sample_active,
    [QueryRuns ''default'' None 20, Audit (JStr ''list_runs'') ''ok''])"
proof -
  have "re_crypto sample_responder = numbering_env" by (simp add: sample_responder_def)
  moreover have "conn_state sample_active = ACTIVE" by (simp add: sample_active_def)
  ultimately show ?thesis
    using sample_list_allowed sample_list_op
    by (simp add: handle_def list_request_def obj_get_def HANDSHAKE_OP_def handle_op_def
        OP_REQUIRED_CAPABILITY_def OP_LOCAL_TOOL_def sample_handler run_op_def)
qed

theorem responder_gates_witness:
  "served sample_responder (make_command_handler True True sample_active) list_request sample_active ''list_runs''"
  using responder_gates [OF sample_handle] by (auto simp: refusal_only_def)

theorem responder_keeps_authority_witness:
  "same_authority sample_active (fst (snd (handle sample_responder
     (make_command_handler True True sample_active) list_request sample_active)))"
  using responder_keeps_authority [OF sample_handle] by (simp add: sample_handle)

theorem list_runs_scoped_witness:
  "\<exists>out. list_runs_op sample_responder [(''op'', JStr ''list_runs'')] ''default'' =
      Inr (Runs out, [QueryRuns ''default'' None 20]) \<and> out \<noteq> [] \<and> fst ` set out \<subseteq> {''r1''}"
proof -
  obtain rows where rows: "re_runs sample_responder = Inr rows"
    "\<forall>r \<in> set rows. run_tenant r = ''default'' \<longrightarrow> run_id r = ''r1''"
    by (simp add: sample_responder_def)
  then have "run_id ` {r \<in> set rows. run_tenant r = ''default''} \<subseteq> {''r1''}" by auto
  note rows = rows(1) this
  have "fst ` set [(''r1'', ''a'', ''ok'', ''t'')] \<subseteq> {''r1''}"
    by (rule subset_trans [OF conjunct2 [OF list_runs_scoped [OF sample_list_op rows(1)]] rows(2)])
  then show ?thesis using sample_list_op by (intro exI [of _ "[(''r1'', ''a'', ''ok'', ''t'')]"]) simp
qed

theorem unseeded_principal_runs_nothing_witness:
  "filter is_op_effect (snd (snd (handle sample_responder
     (make_command_handler True True (sample_active\<lparr>local_principal_role := []\<rparr>)) list_request sample_active))) = []"
  by (rule unseeded_principal_runs_nothing [where db = "the (re_perm_db sample_responder)"])
    (simp_all add: sample_responder_def make_command_handler_def principal_of_def sample_active_def sample_link_def)

definition sample_hello :: string where
  "sample_hello =
     (let pj = json_dumps numbering_env (JObj [(''v'', JInt 1), (''connection_id'', JStr ''c''),
            (''public_key'', JStr ''k''), (''secret_proof'', JStr ''p'')])
      in json_dumps numbering_env (JObj [(''op'', JStr HANDSHAKE_OP), (''payload_json'', JStr pj),
            (''signature'', JStr (''k'' @ pj))]))"

lemma sample_hello_op:
  "\<exists>msg. json_loads numbering_env sample_hello = Some (JObj msg) \<and> obj_get msg ''op'' JNull = JStr HANDSHAKE_OP"
  by (simp add: sample_hello_def Let_def obj_get_def)

lemma sample_activation:
  "\<exists>c'. verify_handshake numbering_env 0 ''t'' (sample_link []) sample_hello = Inr c'"
  by (simp add: verify_handshake_def hs_unwrap_def sample_hello_def Let_def numbering_env_def obj_get_def
      HANDSHAKE_VERSION_def sample_link_def verify_signature_def check_expiry_def meta_get_def
      check_secret_def proof_matches_def is_ascii_def)

theorem handshake_not_repeatable_witness:
  "\<exists>ack c' effs. handle sample_responder (make_command_handler True True (sample_link [])) sample_hello
       (sample_link []) = (Inr (Ack ack), c', effs) \<and>
     fst (handle sample_responder (make_command_handler True True c') sample_hello c') = Inr AlreadyActive"
proof -
  obtain msg where msg: "json_loads numbering_env sample_hello = Some (JObj msg)"
    "obj_get msg ''op'' JNull = JStr HANDSHAKE_OP" using sample_hello_op by blast
  obtain c' where c': "verify_handshake numbering_env 0 ''t'' (sample_link []) sample_hello = Inr c'"
    using sample_activation by blast
  obtain ack where ack: "build_ack numbering_env (Some (sample_identity ''parent'')) ''t'' c' = Inr ack"
    by (simp add: build_ack_def Let_def)
  have env: "re_crypto sample_responder = numbering_env" "re_now sample_responder = 0"
    "re_now_iso sample_responder = ''t''" "re_identity sample_responder = Some (sample_identity ''parent'')"
    "re_environ sample_responder = (\<lambda>_. Some ''1'')"
    by (simp_all add: sample_responder_def)
  have rls: "fst (require_enforcing_rls (\<lambda>_. Some ''1'') OVERRIDE_ENV None p v) = None" for p v
    by (simp add: require_enforcing_rls_def env_truthy_def py_lower_def py_strip_def is_space_def Let_def)
  have "conn_state (sample_link []) = PENDING" by (simp add: sample_link_def)
  then have hd: "handle sample_responder (make_command_handler True True (sample_link [])) sample_hello
      (sample_link []) = (Inr (Ack ack), c', [PersistActivation c', Audit (JStr HANDSHAKE_OP) ''ok''])"
    using msg c' ack by (simp add: handle_def env handshake_op_def Let_def rls make_command_handler_def
        split: prod.splits)
  have "handle sample_responder (make_command_handler True True c') sample_hello c' =
      (Inr AlreadyActive, c', [Audit (JStr HANDSHAKE_OP) ''denied''])"
    by (rule handshake_not_repeatable [OF hd]) (use msg in \<open>simp_all add: env\<close>)
  then show ?thesis using hd by (metis fst_conv)
qed

end
