(* ===== verification/Goals.thy ===== *)
theory Goals
  imports Prelude Complex_Main "HOL-Library.Sublist"
begin

text \<open>
  Goal contracts and their lifecycle (\<open>robothor/goals/model.py\<close>): the four ceilings with
  their defaults, the validation of a new goal and of an update, and \<open>transition\<close>, the one
  function that applies a versioned command. A time is an integer of microseconds (the code
  stores its ISO form and reads it back); the clock is read once per call. A dollar amount is
  the rational value of its float, or the float infinity, and is only compared here.
\<close>

section \<open>Goals\<close>

datatype goal_status = Queued | Running | Waiting | Paused | Blocked | Review | Complete | Canceled

datatype goal_kind = Short | Long
datatype goal_mode = Finite | Ongoing
datatype assessment_status = Meeting | Missing | Insufficient

datatype usd = Usd rat | UsdInfinite

fun usd_le :: "usd \<Rightarrow> usd \<Rightarrow> bool" where
  "usd_le (Usd a) (Usd b) = (a \<le> b)"
| "usd_le (Usd a) UsdInfinite = True"
| "usd_le UsdInfinite (Usd b) = False"
| "usd_le UsdInfinite UsdInfinite = True"

record verification =
  independent :: bool
  criterion_verified :: bool

record evidence =
  ev_criterion :: int
  ev_summary :: string
  ev_reference :: string
  ev_satisfied :: bool
  ev_recorded_at :: int
  ev_verification :: "verification option"

record assessment_note =
  as_status :: assessment_status
  as_note :: string
  as_at :: int
  approved_by_operator :: bool

datatype wait_info =
    WaitFor int string "string option" "(string \<times> string) list" "string option" int
  | NextAssessment

text \<open>
  The goal document; an \<open>option\<close> is a key that may be missing or None. The last four keys are
  written by the store only.
\<close>

record goal =
  objective :: string
  success_criteria :: "string list"
  kind :: goal_kind
  mode :: goal_mode
  parent_goal_id :: "string option"
  request_key :: "string option"
  token_budget :: "int option"
  cost_budget_usd :: "usd option"
  max_attempts :: "int option"
  review_seconds :: int
  human_review :: bool
  priority :: int
  deadline_at :: "int option"
  goal_id :: string
  created_by :: string
  status :: goal_status
  version :: int
  created_at :: int
  updated_at :: int
  ready_at :: int
  checkpoint :: string
  next_action :: string
  evidence_log :: "evidence list"
  independent_evidence_required :: "bool option"
  goal_wait :: "wait_info option"
  blocker :: string
  blocker_count :: int
  failures :: int
  tokens_used :: int
  cost_usd :: usd
  attempts :: int
  assessment :: "assessment_note option"
  recovery_required :: bool
  progress_revision :: "int option"
  completion_note :: "string option"
  no_progress_runs :: "int option"
  criteria_revised_at :: "int option"
  steer_version :: "int option"
  paused_by_parent :: "string option"
  before_parent_pause :: "goal_status option"
  attempt_progress :: "int option"
  last_output :: "string option"
  last_block_attempt :: "string option"
  legacy_task_id :: "string option"

definition TERMINAL :: "goal_status set" where "TERMINAL = {Complete, Canceled}"
definition INACTIVE :: "goal_status set" where "INACTIVE = TERMINAL \<union> {Paused, Blocked, Review}"

section \<open>Ceilings\<close>

definition DEFAULT_TOKEN_BUDGET :: int where "DEFAULT_TOKEN_BUDGET = 1000000"
definition DEFAULT_COST_BUDGET_USD :: usd where "DEFAULT_COST_BUDGET_USD = Usd 5"
definition DEFAULT_MAX_ATTEMPTS :: int where "DEFAULT_MAX_ATTEMPTS = 50"
definition DEFAULT_DEADLINE_SECONDS :: int where "DEFAULT_DEADLINE_SECONDS = 30 * 86400"

definition future :: "int \<Rightarrow> int \<Rightarrow> int" where
  "future now seconds = now + seconds * 1000000"

text \<open>\<open>v or default\<close>: zero is unset as well.\<close>

definition int_or :: "int option \<Rightarrow> int \<Rightarrow> int" where
  "int_or v d = (case v of None \<Rightarrow> d | Some n \<Rightarrow> if n = 0 then d else n)"

definition usd_or :: "usd option \<Rightarrow> usd \<Rightarrow> usd" where
  "usd_or v d = (case v of None \<Rightarrow> d | Some n \<Rightarrow> if n = Usd 0 then d else n)"

definition deadline_of :: "goal \<Rightarrow> int" where
  "deadline_of g = (case deadline_at g of
      Some t \<Rightarrow> t | None \<Rightarrow> future (created_at g) DEFAULT_DEADLINE_SECONDS)"

definition token_budget_of :: "goal \<Rightarrow> int" where
  "token_budget_of g = int_or (token_budget g) DEFAULT_TOKEN_BUDGET"

definition cost_budget_of :: "goal \<Rightarrow> usd" where
  "cost_budget_of g = usd_or (cost_budget_usd g) DEFAULT_COST_BUDGET_USD"

datatype ceiling = TokenBudget | CostCeiling | AttemptCeiling | Deadline

definition exceeded :: "int \<Rightarrow> goal \<Rightarrow> ceiling option" where
  "exceeded now g =
     (if tokens_used g \<ge> token_budget_of g then Some TokenBudget
      else if usd_le (cost_budget_of g) (cost_usd g) then Some CostCeiling
      else if attempts g \<ge> int_or (max_attempts g) DEFAULT_MAX_ATTEMPTS then Some AttemptCeiling
      else if now \<ge> deadline_of g then Some Deadline
      else None)"

section \<open>Creating a goal\<close>

record create_goal =
  cg_objective :: string
  cg_success_criteria :: "string list"
  cg_kind :: goal_kind
  cg_mode :: goal_mode
  cg_parent_goal_id :: "string option"
  cg_request_key :: "string option"
  cg_token_budget :: "int option"
  cg_cost_budget_usd :: "usd option"
  cg_max_attempts :: "int option"
  cg_deadline_seconds :: "int option"
  cg_review_seconds :: int
  cg_human_review :: bool
  cg_priority :: int

definition len_between :: "int \<Rightarrow> 'a list \<Rightarrow> int \<Rightarrow> bool" where
  "len_between a xs b = (a \<le> int (length xs) \<and> int (length xs) \<le> b)"

definition opt_all :: "('a \<Rightarrow> bool) \<Rightarrow> 'a option \<Rightarrow> bool" where
  "opt_all P v = (case v of None \<Rightarrow> True | Some x \<Rightarrow> P x)"

text \<open>
  What pydantic checks: the field constraints, the parent's UUID (\<open>uuid\<close> is \<open>str(UUID(_))\<close>,
  \<open>None\<close> where it raises), then the contract. \<open>gt=0\<close> admits the infinite float.
\<close>

definition CreateGoal :: "(string \<Rightarrow> string option) \<Rightarrow> create_goal \<Rightarrow> create_goal result" where
  "CreateGoal uuid s =
     guard (len_between 1 (cg_objective s) 12000 \<and> len_between 1 (cg_success_criteria s) 50 \<and>
         opt_all (\<lambda>k. len_between 0 k 200) (cg_request_key s) \<and> opt_all (\<lambda>n. 0 < n) (cg_token_budget s) \<and>
         opt_all (\<lambda>n. \<not> usd_le n (Usd 0)) (cg_cost_budget_usd s) \<and> opt_all (\<lambda>n. 0 < n) (cg_max_attempts s) \<and>
         opt_all (\<lambda>n. 60 \<le> n) (cg_deadline_seconds s) \<and> 60 \<le> cg_review_seconds s \<and>
         0 \<le> cg_priority s \<and> cg_priority s \<le> 10 \<and>
         opt_all (\<lambda>p. uuid p \<noteq> None) (cg_parent_goal_id s)) ValueError
       (let s' = s\<lparr>cg_parent_goal_id := Option.bind (cg_parent_goal_id s) uuid,
                   cg_objective := py_strip (cg_objective s),
                   cg_success_criteria := map py_strip (cg_success_criteria s)\<rparr>
        in if cg_objective s' = [] \<or> [] \<in> set (cg_success_criteria s') then Inl ValueError
           else if cg_mode s' = Ongoing \<and> cg_kind s' \<noteq> Long then Inl ValueError
           else Inr s')"

definition new_goal :: "string \<Rightarrow> int \<Rightarrow> create_goal \<Rightarrow> string \<Rightarrow> goal" where
  "new_goal uuid4 now spec actor =
     \<lparr>objective = cg_objective spec, success_criteria = cg_success_criteria spec,
      kind = cg_kind spec, mode = cg_mode spec, parent_goal_id = cg_parent_goal_id spec,
      request_key = cg_request_key spec,
      token_budget = Some (int_or (cg_token_budget spec) DEFAULT_TOKEN_BUDGET),
      cost_budget_usd = Some (usd_or (cg_cost_budget_usd spec) DEFAULT_COST_BUDGET_USD),
      max_attempts = Some (int_or (cg_max_attempts spec) DEFAULT_MAX_ATTEMPTS),
      review_seconds = cg_review_seconds spec, human_review = cg_human_review spec,
      priority = cg_priority spec,
      deadline_at = Some (future now (int_or (cg_deadline_seconds spec) DEFAULT_DEADLINE_SECONDS)),
      goal_id = uuid4, created_by = actor, status = Queued, version = 1,
      created_at = now, updated_at = now, ready_at = now, checkpoint = [],
      next_action = ''Start pursuing the objective'', evidence_log = [],
      independent_evidence_required = Some True, goal_wait = None, blocker = [], blocker_count = 0,
      failures = 0, tokens_used = 0, cost_usd = Usd 0, attempts = 0, assessment = None,
      recovery_required = False, progress_revision = None, completion_note = None,
      no_progress_runs = None, criteria_revised_at = None, steer_version = None,
      paused_by_parent = None, before_parent_pause = None, attempt_progress = None,
      last_output = None, last_block_attempt = None, legacy_task_id = None\<rparr>"

section \<open>Completion\<close>

text \<open>The last evidence recorded for a criterion.\<close>

definition last_evidence :: "goal \<Rightarrow> nat \<Rightarrow> evidence option" where
  "last_evidence g i =
     (case rev (filter (\<lambda>e. ev_criterion e = int i) (evidence_log g)) of [] \<Rightarrow> None | e # _ \<Rightarrow> Some e)"

definition completion_missing :: "goal \<Rightarrow> string list" where
  "completion_missing g =
     map snd (filter (\<lambda>(i, _). case last_evidence g i of None \<Rightarrow> True | Some e \<Rightarrow> \<not> ev_satisfied e)
       (enumerate 0 (success_criteria g)))"

definition requires_review :: "goal \<Rightarrow> bool" where
  "requires_review g =
     (if human_review g then True
      else if independent_evidence_required g \<noteq> Some True then False
      else list_ex (\<lambda>i. case last_evidence g i of
             None \<Rightarrow> True
           | Some e \<Rightarrow> (case ev_verification e of
                None \<Rightarrow> True | Some v \<Rightarrow> \<not> (independent v \<and> criterion_verified v)))
         [0 ..< length (success_criteria g)])"

section \<open>Updates\<close>

datatype goal_action =
    Progress | EvidenceAction | Wait | Block | CompleteAction | Assess | Pause | Resume | Cancel
  | Approve | Steer | LinkTask | UnlinkTask | Reconciled | Revise

record goal_update =
  gu_action :: goal_action
  gu_version :: int
  gu_note :: string
  gu_next_action :: string
  gu_objective :: "string option"
  gu_success_criteria :: "string list option"
  gu_criterion :: "int option"
  gu_reference :: string
  gu_satisfied :: "bool option"
  gu_wake_at :: "int option"
  gu_wake_aware :: bool
  gu_event_type :: "string option"
  gu_event_match :: "(string \<times> string) list"
  gu_task_id :: "string option"
  gu_assessment :: "assessment_status option"
  gu_token_budget :: "int option"
  gu_cost_budget_usd :: "usd option"
  gu_max_attempts :: "int option"
  gu_deadline_seconds :: "int option"

definition GoalUpdate :: "(string \<Rightarrow> string option) \<Rightarrow> goal_update \<Rightarrow> goal_update result" where
  "GoalUpdate uuid u =
     guard (1 \<le> gu_version u \<and> len_between 0 (gu_note u) 20000 \<and> len_between 0 (gu_next_action u) 12000 \<and>
         opt_all (\<lambda>x. len_between 1 x 12000) (gu_objective u) \<and>
         opt_all (\<lambda>x. len_between 1 x 50) (gu_success_criteria u) \<and> opt_all (\<lambda>n. 0 \<le> n) (gu_criterion u) \<and>
         len_between 0 (gu_reference u) 4000 \<and> opt_all (\<lambda>x. len_between 0 x 200) (gu_event_type u) \<and>
         opt_all (\<lambda>n. 0 < n) (gu_token_budget u) \<and>
         opt_all (\<lambda>n. \<not> usd_le n (Usd 0)) (gu_cost_budget_usd u) \<and> opt_all (\<lambda>n. 0 < n) (gu_max_attempts u) \<and>
         opt_all (\<lambda>n. 60 \<le> n) (gu_deadline_seconds u) \<and>
         opt_all (\<lambda>p. uuid p \<noteq> None) (gu_task_id u) \<and>
         (gu_wake_at u \<noteq> None \<longrightarrow> gu_wake_aware u)) ValueError
       (Inr (u\<lparr>gu_task_id := Option.bind (gu_task_id u) uuid\<rparr>))"

section \<open>The transition\<close>

definition blank :: "string \<Rightarrow> bool" where
  "blank s = (py_strip s = [])"

text \<open>The checks in front of every action, in the code's order.\<close>

definition transition_guard :: "goal \<Rightarrow> goal_update \<Rightarrow> bool \<Rightarrow> bool" where
  "transition_guard g u operator =
     (if gu_version u \<noteq> version g then False
      else if status g \<in> TERMINAL then False
      else if status g \<in> {Paused, Review, Blocked} \<and>
              gu_action u \<notin> {Resume, Cancel, Approve, Steer, Pause, Revise, UnlinkTask} then False
      else if gu_action u \<in> {Resume, Approve, Steer, Revise} \<and> \<not> operator then False
      else \<not> (gu_action u \<in> {Progress, Block, CompleteAction, Assess, Steer, Reconciled} \<and> blank (gu_note u)))"

definition bump_revision :: "goal \<Rightarrow> goal" where
  "bump_revision g = g\<lparr>progress_revision :=
     Some ((case progress_revision g of None \<Rightarrow> 0 | Some n \<Rightarrow> n) + 1)\<rparr>"

definition do_progress :: "goal_update \<Rightarrow> goal \<Rightarrow> goal result" where
  "do_progress u g =
     (let g' = (if gu_note u \<noteq> checkpoint g then bump_revision (g\<lparr>blocker_count := 0\<rparr>) else g)
      in Inr (g'\<lparr>checkpoint := gu_note u, next_action := gu_next_action u\<rparr>))"

definition do_evidence :: "int \<Rightarrow> goal_update \<Rightarrow> goal \<Rightarrow> goal result" where
  "do_evidence now u g =
     (case gu_criterion u of
        None \<Rightarrow> Inl ValueError
      | Some i \<Rightarrow>
          if i \<ge> int (length (success_criteria g)) then Inl ValueError
          else if blank (gu_note u) \<or> blank (gu_reference u) then Inl ValueError
          else (case gu_satisfied u of
              None \<Rightarrow> Inl ValueError
            | Some sat \<Rightarrow>
                if sat \<and> sublist ''pytest:failed:'' (gu_reference u) then Inl ValueError
                else (let g' = bump_revision g in
                  Inr (g'\<lparr>evidence_log := evidence_log g' @
                    [\<lparr>ev_criterion = i, ev_summary = gu_note u, ev_reference = gu_reference u,
                      ev_satisfied = sat, ev_recorded_at = now, ev_verification = None\<rparr>]\<rparr>))))"

definition do_wait :: "int \<Rightarrow> goal_update \<Rightarrow> goal \<Rightarrow> goal result" where
  "do_wait now u g =
     (if blank (gu_note u) then Inl ValueError
      else if (case gu_wake_at u of None \<Rightarrow> False | Some w \<Rightarrow> w \<le> now) then Inl ValueError
      else (let wake_at = (case gu_wake_at u of None \<Rightarrow> future now (review_seconds g) | Some w \<Rightarrow> w);
                g' = (if kind g = Short \<and> (case parent_goal_id g of None \<Rightarrow> True | Some p \<Rightarrow> p = [])
                      then g\<lparr>kind := Long\<rparr> else g)
            in Inr (g'\<lparr>status := Waiting, ready_at := wake_at,
                 goal_wait := Some (WaitFor now (gu_note u) (gu_event_type u) (gu_event_match u)
                   (gu_task_id u) wake_at)\<rparr>)))"

definition do_block :: "goal_update \<Rightarrow> goal \<Rightarrow> goal result" where
  "do_block u g =
     (let n = (if blocker g = gu_note u then blocker_count g + 1 else 1);
          g' = g\<lparr>blocker_count := n, blocker := gu_note u\<rparr>
      in Inr (if n \<ge> 3 then g'\<lparr>status := Blocked\<rparr> else g'))"

definition do_complete :: "goal_update \<Rightarrow> goal \<Rightarrow> goal result" where
  "do_complete u g =
     (if mode g = Ongoing then Inl ValueError
      else if recovery_required g then Inl ValueError
      else if completion_missing g \<noteq> [] then Inl ValueError
      else Inr (g\<lparr>status := (if requires_review g then Review else Complete),
                  completion_note := Some (gu_note u)\<rparr>))"

definition do_approve :: "int \<Rightarrow> goal \<Rightarrow> goal result" where
  "do_approve now g =
     (if status g \<noteq> Review \<or> completion_missing g \<noteq> [] then Inl ValueError
      else if mode g = Ongoing then
        (let g' = g\<lparr>status := Waiting, ready_at := future now (review_seconds g), evidence_log := []\<rparr>
         in (case assessment g' of
               None \<Rightarrow> Inl TypeError
             | Some a \<Rightarrow> Inr (g'\<lparr>assessment := Some (a\<lparr>approved_by_operator := True\<rparr>)\<rparr>)))
      else Inr (g\<lparr>status := Complete\<rparr>))"

definition do_assess :: "int \<Rightarrow> goal_update \<Rightarrow> goal \<Rightarrow> goal result" where
  "do_assess now u g =
     (case gu_assessment u of
        None \<Rightarrow> Inl ValueError
      | Some a \<Rightarrow>
          if mode g \<noteq> Ongoing then Inl ValueError
          else if a = Meeting \<and> completion_missing g \<noteq> [] then Inl ValueError
          else (let g' = g\<lparr>assessment := Some \<lparr>as_status = a, as_note = gu_note u, as_at = now,
                              approved_by_operator = False\<rparr>,
                           status := Waiting, ready_at := future now (review_seconds g),
                           goal_wait := Some NextAssessment\<rparr>
                in Inr (if a = Meeting \<and> requires_review g' then g'\<lparr>status := Review\<rparr>
                        else g'\<lparr>evidence_log := []\<rparr>)))"

definition raise_ceilings :: "int \<Rightarrow> goal_update \<Rightarrow> goal \<Rightarrow> goal" where
  "raise_ceilings now u g =
     g\<lparr>token_budget := (case gu_token_budget u of None \<Rightarrow> token_budget g | Some n \<Rightarrow> Some n),
       cost_budget_usd := (case gu_cost_budget_usd u of None \<Rightarrow> cost_budget_usd g | Some n \<Rightarrow> Some n),
       max_attempts := (case gu_max_attempts u of None \<Rightarrow> max_attempts g | Some n \<Rightarrow> Some n),
       deadline_at := (case gu_deadline_seconds u of None \<Rightarrow> deadline_at g | Some n \<Rightarrow> Some (future now n))\<rparr>"

definition do_resume :: "int \<Rightarrow> goal_update \<Rightarrow> goal \<Rightarrow> goal result" where
  "do_resume now u g =
     (let g' = raise_ceilings now u g in
      if exceeded now g' \<noteq> None then Inl ValueError
      else Inr (g'\<lparr>status := Queued, ready_at := now, blocker := [], blocker_count := 0,
                   failures := 0, no_progress_runs := Some 0\<rparr>))"

definition do_steer :: "goal_update \<Rightarrow> goal \<Rightarrow> goal result" where
  "do_steer u g = Inr (g\<lparr>checkpoint := gu_note u,
     next_action := (if gu_next_action u = [] then gu_note u else gu_next_action u)\<rparr>)"

text \<open>The contract a revision makes: everything not given takes the class's default.\<close>

definition revised_contract :: "goal_update \<Rightarrow> goal \<Rightarrow> create_goal" where
  "revised_contract u g =
     \<lparr>cg_objective = (case gu_objective u of None \<Rightarrow> objective g | Some x \<Rightarrow> if x = [] then objective g else x),
      cg_success_criteria = (case gu_success_criteria u of
         None \<Rightarrow> success_criteria g | Some x \<Rightarrow> if x = [] then success_criteria g else x),
      cg_kind = Short, cg_mode = Finite, cg_parent_goal_id = None, cg_request_key = None,
      cg_token_budget = None, cg_cost_budget_usd = None, cg_max_attempts = None,
      cg_deadline_seconds = None, cg_review_seconds = 86400, cg_human_review = False, cg_priority = 0\<rparr>"

definition do_revise :: "int \<Rightarrow> goal_update \<Rightarrow> goal \<Rightarrow> goal result" where
  "do_revise now u g =
     (if blank (gu_note u) then Inl ValueError
      else bind_result (CreateGoal Some (revised_contract u g)) (\<lambda>spec.
        (let g' = g\<lparr>objective := cg_objective spec, success_criteria := cg_success_criteria spec,
                    evidence_log := [], criteria_revised_at := Some now\<rparr>
         in Inr (if status g' = Review then g'\<lparr>status := Paused\<rparr> else g'))))"

definition do_reconciled :: "goal_update \<Rightarrow> goal \<Rightarrow> goal result" where
  "do_reconciled u g = Inr (g\<lparr>recovery_required := False, checkpoint := gu_note u\<rparr>)"

fun apply_action :: "goal_action \<Rightarrow> int \<Rightarrow> goal_update \<Rightarrow> goal \<Rightarrow> goal result" where
  "apply_action Progress now u g = do_progress u g"
| "apply_action EvidenceAction now u g = do_evidence now u g"
| "apply_action Wait now u g = do_wait now u g"
| "apply_action Block now u g = do_block u g"
| "apply_action CompleteAction now u g = do_complete u g"
| "apply_action Approve now u g = do_approve now g"
| "apply_action Assess now u g = do_assess now u g"
| "apply_action Pause now u g = Inr (g\<lparr>status := Paused\<rparr>)"
| "apply_action Cancel now u g = Inr (g\<lparr>status := Canceled\<rparr>)"
| "apply_action Resume now u g = do_resume now u g"
| "apply_action Steer now u g = do_steer u g"
| "apply_action Revise now u g = do_revise now u g"
| "apply_action Reconciled now u g = do_reconciled u g"
| "apply_action LinkTask now u g = Inr g"
| "apply_action UnlinkTask now u g = Inr g"

definition finish_transition :: "goal_action \<Rightarrow> int \<Rightarrow> goal \<Rightarrow> goal" where
  "finish_transition a now g =
     (let g1 = (if a \<in> {Steer, Revise} then g\<lparr>steer_version := Some (version g + 1)\<rparr> else g);
          g2 = (if a \<in> {Pause, Cancel, Resume}
                then g1\<lparr>paused_by_parent := None, before_parent_pause := None\<rparr> else g1)
      in g2\<lparr>version := version g2 + 1, updated_at := now\<rparr>)"

definition transition :: "int \<Rightarrow> bool \<Rightarrow> goal_update \<Rightarrow> goal \<Rightarrow> goal result" where
  "transition now operator u g =
     guard (transition_guard g u operator) ValueError
       (bind_result (apply_action (gu_action u) now u g) (\<lambda>g'.
         Inr (finish_transition (gu_action u) now g')))"

section \<open>Frame facts\<close>

lemmas action_defs = do_progress_def do_evidence_def do_wait_def do_block_def do_complete_def
  do_approve_def do_assess_def do_resume_def do_steer_def do_revise_def do_reconciled_def
  bump_revision_def raise_ceilings_def Let_def

lemma bump_revision_simps [simp, state_simps]:
  "status (bump_revision g) = status g" "version (bump_revision g) = version g" "mode (bump_revision g) = mode g"
  "success_criteria (bump_revision g) = success_criteria g" "assessment (bump_revision g) = assessment g"
  "evidence_log (bump_revision g) = evidence_log g"
  by (simp_all add: bump_revision_def)

lemma raise_ceilings_simps [simp, state_simps]:
  "status (raise_ceilings now u g) = status g" "version (raise_ceilings now u g) = version g"
  "mode (raise_ceilings now u g) = mode g" "assessment (raise_ceilings now u g) = assessment g"
  by (simp_all add: raise_ceilings_def)

lemma finish_transition_simps [simp, state_simps]:
  "status (finish_transition a now g) = status g" "version (finish_transition a now g) = version g + 1"
  "mode (finish_transition a now g) = mode g" "success_criteria (finish_transition a now g) = success_criteria g"
  "assessment (finish_transition a now g) = assessment g" "evidence_log (finish_transition a now g) = evidence_log g"
  "tokens_used (finish_transition a now g) = tokens_used g" "token_budget (finish_transition a now g) = token_budget g"
  "cost_usd (finish_transition a now g) = cost_usd g" "cost_budget_usd (finish_transition a now g) = cost_budget_usd g"
  "attempts (finish_transition a now g) = attempts g" "max_attempts (finish_transition a now g) = max_attempts g"
  "deadline_at (finish_transition a now g) = deadline_at g" "created_at (finish_transition a now g) = created_at g"
  by (simp_all add: finish_transition_def Let_def)

lemma goal_transition_Inr:
  "transition now operator u g = Inr g' \<longleftrightarrow> transition_guard g u operator \<and>
   (\<exists>h. apply_action (gu_action u) now u g = Inr h \<and> g' = finish_transition (gu_action u) now h)"
  by (auto simp: transition_def)

lemma do_progress_frame:
  "do_progress u g = Inr h \<Longrightarrow> mode h = mode g \<and> version h = version g \<and> status h = status g \<and> assessment h = assessment g"
  by (auto simp: do_progress_def Let_def)

lemma do_evidence_frame:
  "do_evidence now u g = Inr h \<Longrightarrow> mode h = mode g \<and> version h = version g \<and> status h = status g \<and> assessment h = assessment g"
  by (auto simp: do_evidence_def Let_def split: option.splits if_splits)

lemma do_wait_frame:
  "do_wait now u g = Inr h \<Longrightarrow> mode h = mode g \<and> version h = version g \<and> status h = Waiting \<and> assessment h = assessment g"
  by (auto simp: do_wait_def Let_def split: if_splits)

lemma do_block_frame:
  "do_block u g = Inr h \<Longrightarrow> mode h = mode g \<and> version h = version g \<and> status h \<in> {status g, Blocked} \<and> assessment h = assessment g"
  by (auto simp: do_block_def Let_def)

lemma do_complete_frame:
  "do_complete u g = Inr h \<Longrightarrow> mode h = mode g \<and> mode g \<noteq> Ongoing \<and> version h = version g \<and>
     status h \<in> {Review, Complete} \<and> assessment h = assessment g"
  by (auto simp: do_complete_def split: if_splits)

lemma do_approve_frame:
  "do_approve now g = Inr h \<Longrightarrow> mode h = mode g \<and> version h = version g \<and> status h \<in> {Waiting, Complete} \<and> status g = Review"
  by (auto simp: do_approve_def Let_def split: if_splits option.splits)

lemma do_assess_frame:
  "do_assess now u g = Inr h \<Longrightarrow> mode h = mode g \<and> version h = version g \<and> status h \<in> {Waiting, Review} \<and> assessment h \<noteq> None"
  by (auto simp: do_assess_def Let_def split: if_splits option.splits)

lemma do_resume_frame:
  "do_resume now u g = Inr h \<Longrightarrow> mode h = mode g \<and> version h = version g \<and> status h = Queued \<and> assessment h = assessment g"
  by (auto simp: do_resume_def Let_def split: if_splits)

lemma do_steer_frame:
  "do_steer u g = Inr h \<Longrightarrow> mode h = mode g \<and> version h = version g \<and> status h = status g \<and> assessment h = assessment g"
  by (auto simp: do_steer_def)

lemma do_revise_frame:
  "do_revise now u g = Inr h \<Longrightarrow> mode h = mode g \<and> version h = version g \<and> assessment h = assessment g \<and>
     (status g = Review \<and> status h = Paused \<or> status g \<noteq> Review \<and> status h = status g)"
  by (cases "CreateGoal Some (revised_contract u g)"; cases "status g = Review")
    (simp_all add: do_revise_def Let_def split: if_splits, safe?, simp_all)

lemma do_reconciled_frame:
  "do_reconciled u g = Inr h \<Longrightarrow> mode h = mode g \<and> version h = version g \<and> status h = status g \<and> assessment h = assessment g"
  by (auto simp: do_reconciled_def)

lemmas action_frames = do_progress_frame do_evidence_frame do_wait_frame do_block_frame do_complete_frame
    do_approve_frame do_assess_frame do_resume_frame do_steer_frame do_revise_frame do_reconciled_frame

lemma action_mode_version:
  "apply_action a now u g = Inr h \<Longrightarrow> mode h = mode g \<and> version h = version g"
  by (cases a) (auto dest: action_frames)

text \<open>Where each action can leave the status.\<close>

lemma action_status:
  assumes "apply_action a now u g = Inr h"
  shows "status h = status g \<or>
     (case a of Wait \<Rightarrow> status h = Waiting | Block \<Rightarrow> status h = Blocked
      | CompleteAction \<Rightarrow> status h \<in> {Review, Complete} | Approve \<Rightarrow> status h \<in> {Waiting, Complete}
      | Assess \<Rightarrow> status h \<in> {Waiting, Review} | Pause \<Rightarrow> status h = Paused | Cancel \<Rightarrow> status h = Canceled
      | Resume \<Rightarrow> status h = Queued | Revise \<Rightarrow> status g = Review \<and> status h = Paused | _ \<Rightarrow> False)"
  using assms by (cases a) (auto dest: action_frames)

text \<open>The invariant: a goal under review that is assessed rather than completed has an assessment.\<close>

definition goal_ok :: "goal \<Rightarrow> bool" where
  "goal_ok g = (status g = Review \<longrightarrow> mode g = Ongoing \<longrightarrow> assessment g \<noteq> None)"

lemma action_ok:
  assumes "apply_action a now u g = Inr h" "goal_ok g"
  shows "goal_ok h"
  using assms by (cases a) (auto simp: goal_ok_def dest: action_frames)

lemma transition_ok: "transition now operator u g = Inr g' \<Longrightarrow> goal_ok g \<Longrightarrow> goal_ok g'"
  unfolding goal_transition_Inr using action_ok by (fastforce simp: goal_ok_def)

lemma transition_version: "transition now operator u g = Inr g' \<Longrightarrow> version g' = version g + 1 \<and> gu_version u = version g"
  unfolding goal_transition_Inr using action_mode_version by (fastforce simp: transition_guard_def split: if_splits)

lemma exceeded_finish [simp, state_simps]: "exceeded now (finish_transition a t g) = exceeded now g"
  by (simp add: exceeded_def token_budget_of_def cost_budget_of_def deadline_of_def split: option.split)

lemma exceeded_resumed [simp, state_simps]:
  "exceeded now (g\<lparr>status := st, ready_at := t, blocker := b, blocker_count := n, failures := f,
     no_progress_runs := p\<rparr>) = exceeded now g"
  by (simp add: exceeded_def token_budget_of_def cost_budget_of_def deadline_of_def split: option.split)

section \<open>Runs of commands\<close>

type_synonym goal_cmd = "int \<times> bool \<times> goal_update"

definition goal_step :: "goal \<Rightarrow> goal_cmd \<Rightarrow> goal result" where
  "goal_step g c = (case c of (now, operator, u) \<Rightarrow> transition now operator u g)"

definition held_or_canceled :: "goal \<Rightarrow> bool" where
  "held_or_canceled g = (status g \<in> {Paused, Review, Blocked, Canceled})"

lemma held_step:
  assumes "held_or_canceled g" "transition now False u g = Inr g'"
  shows "held_or_canceled g'"
proof -
  obtain h where h: "transition_guard g u False" "apply_action (gu_action u) now u g = Inr h"
    "g' = finish_transition (gu_action u) now h" using assms(2) unfolding goal_transition_Inr by blast
  show ?thesis using h(1,3) assms(1) action_status [OF h(2)]
    by (cases "gu_action u") (auto simp: held_or_canceled_def transition_guard_def TERMINAL_def split: if_splits)
qed

interpretation goal_run: guarded_machine goal_step goal_ok "\<lambda>g h. version g \<le> version h" "\<lambda>_. True"
  by unfold_locales (auto simp: goal_step_def dest: transition_ok transition_version split: prod.splits)

interpretation held_run: guarded_machine goal_step held_or_canceled "\<lambda>_ _. True" "\<lambda>c. \<not> fst (snd c)"
  by unfold_locales (auto simp: goal_step_def dest: held_step split: prod.splits)

section \<open>Properties\<close>

lemma completion_missing_Nil:
  "completion_missing g = [] \<longleftrightarrow>
   (\<forall>i < length (success_criteria g). \<exists>e. last_evidence g i = Some e \<and> ev_satisfied e)"
proof -
  define Q where "Q i = (case last_evidence g i of None \<Rightarrow> True | Some e \<Rightarrow> \<not> ev_satisfied e)" for i
  have Q: "\<not> Q i \<longleftrightarrow> (\<exists>e. last_evidence g i = Some e \<and> ev_satisfied e)" for i
    by (simp add: Q_def split: option.split)
  have "completion_missing g = map snd (filter (\<lambda>(i, _). Q i) (enumerate 0 (success_criteria g)))"
    by (simp add: completion_missing_def Q_def)
  then have "completion_missing g = [] \<longleftrightarrow> (\<forall>i < length (success_criteria g). \<not> Q i)"
    by (auto simp: filter_empty_conv in_set_enumerate_eq)
  then show ?thesis by (simp add: Q)
qed

text \<open>Independent verification of a criterion by its last evidence.\<close>

definition verified :: "goal \<Rightarrow> nat \<Rightarrow> bool" where
  "verified g i = (\<exists>e v. last_evidence g i = Some e \<and> ev_verification e = Some v \<and>
     independent v \<and> criterion_verified v)"

lemma not_requires_review:
  "\<not> requires_review g \<longleftrightarrow> \<not> human_review g \<and>
     (independent_evidence_required g = Some True \<longrightarrow> (\<forall>i < length (success_criteria g). verified g i))"
proof -
  define Q where "Q i = (case last_evidence g i of None \<Rightarrow> True
     | Some e \<Rightarrow> (case ev_verification e of
         None \<Rightarrow> True | Some v \<Rightarrow> \<not> (independent v \<and> criterion_verified v)))" for i
  have Q: "Q i \<longleftrightarrow> \<not> verified g i" for i
    by (simp add: Q_def verified_def split: option.split)
  have "requires_review g = (if human_review g then True
      else if independent_evidence_required g \<noteq> Some True then False
      else list_ex Q [0 ..< length (success_criteria g)])"
    unfolding requires_review_def Q_def ..
  then show ?thesis by (auto simp: list_ex_iff Q)
qed

text \<open>
  C17: a goal becomes complete only with satisfied last evidence for every criterion, never when
  it is ongoing or was interrupted, and only in two ways: by \<open>complete\<close> when no human review
  is asked for and, unless the goal is exempt, every criterion was verified independently, or
  by the operator approving a goal under review.
\<close>

theorem completion_sound:
  assumes "transition now operator u g = Inr g'" "status g' = Complete"
  shows "mode g = Finite \<and>
    (\<forall>i < length (success_criteria g). \<exists>e. last_evidence g i = Some e \<and> ev_satisfied e) \<and>
    (gu_action u = Approve \<and> operator \<and> status g = Review \<or>
     gu_action u = CompleteAction \<and> \<not> recovery_required g \<and> \<not> human_review g \<and>
       (independent_evidence_required g = Some True \<longrightarrow> (\<forall>i < length (success_criteria g). verified g i)))"
proof -
  obtain h where h: "transition_guard g u operator" "apply_action (gu_action u) now u g = Inr h"
    "g' = finish_transition (gu_action u) now h" using assms(1) unfolding goal_transition_Inr by blast
  have st: "status h = Complete" using h(3) assms(2) by simp
  have "status g \<noteq> Complete" using h(1) by (auto simp: transition_guard_def TERMINAL_def split: if_splits)
  then have act: "gu_action u \<in> {Approve, CompleteAction}"
    using action_status [OF h(2)] st by (cases "gu_action u") auto
  have m: "mode g = Finite" if "mode g \<noteq> Ongoing" using that by (cases "mode g") auto
  show ?thesis
  proof (cases "gu_action u = Approve")
    case True
    then show ?thesis using h(1,2) st m
      by (auto simp: do_approve_def Let_def completion_missing_Nil [symmetric] transition_guard_def
          split: if_splits option.splits)
  next
    case False
    then have "apply_action CompleteAction now u g = Inr h" "gu_action u = CompleteAction" using act h(2) by auto
    then show ?thesis using st m
      by (auto simp: do_complete_def completion_missing_Nil [symmetric] not_requires_review [symmetric]
          split: if_splits)
  qed
qed

text \<open>
  An update made against a version is applied at most once. After an update is accepted,
  every later update against the same version is refused, whatever happens in between.
\<close>

theorem stale_update_refused:
  assumes "goal_ok g" "transition now operator u g = Inr g'" "gu_version u' = gu_version u"
  shows "transition now' operator' u' (exec_all goal_step g' cs) = Inl ValueError"
proof -
  have ok: "goal_ok g'" using assms(1,2) transition_ok by blast
  have "version g' \<le> version (exec_all goal_step g' cs)" by (rule goal_run.run_rel [OF ok]) simp
  then have "gu_version u' \<noteq> version (exec_all goal_step g' cs)"
    using transition_version [OF assms(2)] assms(3) by simp
  then show ?thesis by (simp add: transition_def transition_guard_def)
qed

text \<open>
  without the operator a paused, blocked or reviewed goal goes nowhere: no sequence of
  updates by the agent makes it run, wait or count as complete.
\<close>

theorem held_goal_needs_operator:
  assumes "status g \<in> {Paused, Review, Blocked}" "\<forall>c \<in> set cs. \<not> fst (snd c)"
  shows "status (exec_all goal_step g cs) \<in> {Paused, Review, Blocked, Canceled}"
  using held_run.run_inv [of g cs] assms by (auto simp: held_or_canceled_def)

text \<open>
  A goal resumes only by the operator and only when, with the ceilings the command raises,
  it has reached none of its four ceilings.
\<close>

theorem resume_lifts_ceiling:
  assumes "transition now operator u g = Inr g'" "gu_action u = Resume"
  shows "operator \<and> exceeded now g' = None \<and> status g' = Queued \<and> status g \<notin> TERMINAL"
proof -
  obtain h where h: "transition_guard g u operator" "do_resume now u g = Inr h"
    "g' = finish_transition Resume now h" using assms unfolding goal_transition_Inr by auto
  have "exceeded now (raise_ceilings now u g) = None"
    "h = (raise_ceilings now u g)\<lparr>status := Queued, ready_at := now, blocker := [],
       blocker_count := 0, failures := 0, no_progress_runs := Some 0\<rparr>"
    using h(2) by (simp_all add: do_resume_def Let_def split: if_splits)
  then have "exceeded now h = None" "status h = Queued"
    by simp_all
  then show ?thesis using h(1,3) assms(2)
    by (simp add: transition_guard_def split: if_splits)
qed

text \<open>
  On every goal that commands can produce, \<open>transition\<close> raises nothing but ValueError: the
  approval of an ongoing goal always finds the assessment it marks.
\<close>

theorem transition_errors:
  assumes "CreateGoal uuid spec = Inr s" "transition now operator u (exec_all goal_step (new_goal i t s actor) cs) = Inl e"
  shows "e = ValueError"
proof -
  let ?g = "exec_all goal_step (new_goal i t s actor) cs"
  have "goal_ok (new_goal i t s actor)" by (simp add: goal_ok_def new_goal_def)
  then have ok: "goal_ok ?g" by (rule goal_run.run_inv) simp
  have bind: "r = Inl e \<or> (\<exists>a. r = Inr a \<and> f a = Inl e)" if "bind_result r f = Inl e" for r :: "goal result" and f
    using that by (cases r) auto
  have create: "x = ValueError" if "CreateGoal v sp = Inl x" for v sp x
    using that by (auto simp: CreateGoal_def guard_def Let_def split: if_splits)
  have "x = ValueError" if "apply_action a now u ?g = Inl x" for a x
  proof (cases a)
    case Revise
    with that have "do_revise now u ?g = Inl x" by simp
    then show ?thesis
      by (cases "CreateGoal Some (revised_contract u ?g)") (auto simp: do_revise_def Let_def dest: create split: if_splits)
  next
    case Approve
    with that have "do_approve now ?g = Inl x" by simp
    then show ?thesis using ok by (auto simp: do_approve_def goal_ok_def Let_def split: if_splits option.splits)
  qed (use that in \<open>auto simp: do_progress_def do_evidence_def do_wait_def do_block_def do_complete_def
    do_assess_def do_resume_def do_steer_def do_reconciled_def Let_def split: option.splits if_splits\<close>)
  then show ?thesis using assms(2) bind by (fastforce simp: transition_def guard_def split: if_splits)
qed

section \<open>A concrete goal\<close>

definition sample_spec :: create_goal where
  "sample_spec = \<lparr>cg_objective = ''ship'', cg_success_criteria = [''tests pass''], cg_kind = Short,
     cg_mode = Finite, cg_parent_goal_id = None, cg_request_key = None, cg_token_budget = None,
     cg_cost_budget_usd = None, cg_max_attempts = None, cg_deadline_seconds = None,
     cg_review_seconds = 86400, cg_human_review = False, cg_priority = 0\<rparr>"

definition sample_goal :: goal where
  "sample_goal = (new_goal ''g'' 0 sample_spec ''op'')\<lparr>independent_evidence_required := None,
     evidence_log := [\<lparr>ev_criterion = 0, ev_summary = ''ran'', ev_reference = ''ci'', ev_satisfied = True,
       ev_recorded_at = 0, ev_verification = None\<rparr>]\<rparr>"

definition sample_update :: "goal_action \<Rightarrow> int \<Rightarrow> goal_update" where
  "sample_update a v = \<lparr>gu_action = a, gu_version = v, gu_note = ''n'', gu_next_action = [],
     gu_objective = None, gu_success_criteria = None, gu_criterion = None, gu_reference = [],
     gu_satisfied = None, gu_wake_at = None, gu_wake_aware = False, gu_event_type = None,
     gu_event_match = [], gu_task_id = None, gu_assessment = None, gu_token_budget = None,
     gu_cost_budget_usd = None, gu_max_attempts = None, gu_deadline_seconds = None\<rparr>"

lemmas sample_defs = sample_goal_def new_goal_def sample_spec_def sample_update_def

lemma sample_blank: "\<not> blank ''n''" by code_simp

lemma sample_complete:
  "\<exists>g'. transition 1 False (sample_update CompleteAction 1) sample_goal = Inr g' \<and> status g' = Complete"
proof -
  have "completion_missing sample_goal = []" "\<not> requires_review sample_goal"
    by (simp_all add: sample_defs completion_missing_def requires_review_def last_evidence_def)
  moreover have "transition_guard sample_goal (sample_update CompleteAction 1) False"
    using sample_blank by (simp add: transition_guard_def sample_defs TERMINAL_def)
  moreover have "gu_action (sample_update CompleteAction 1) = CompleteAction" "mode sample_goal = Finite"
    "\<not> recovery_required sample_goal"
    by (simp_all add: sample_defs)
  ultimately show ?thesis by (simp add: transition_def do_complete_def)
qed

theorem completion_sound_witness:
  "\<exists>g'. transition 1 False (sample_update CompleteAction 1) sample_goal = Inr g' \<and> status g' = Complete \<and>
     (\<exists>e. last_evidence sample_goal 0 = Some e \<and> ev_satisfied e)"
proof -
  obtain g' where g': "transition 1 False (sample_update CompleteAction 1) sample_goal = Inr g'"
    "status g' = Complete" using sample_complete by blast
  have "0 < length (success_criteria sample_goal)" by (simp add: sample_defs)
  then show ?thesis using completion_sound [OF g'] g' by blast
qed

lemma sample_pause:
  "\<exists>g'. transition 1 False (sample_update Pause 1) sample_goal = Inr g' \<and> status g' = Paused"
proof -
  have "transition_guard sample_goal (sample_update Pause 1) False"
    by (simp add: transition_guard_def sample_defs TERMINAL_def)
  moreover have "gu_action (sample_update Pause 1) = Pause" by (simp add: sample_update_def)
  ultimately show ?thesis by (simp add: transition_def)
qed

theorem stale_update_refused_witness:
  "\<exists>g'. transition 1 False (sample_update Pause 1) sample_goal = Inr g' \<and>
     transition 2 True (sample_update Resume 1) g' = Inl ValueError"
proof -
  obtain g' where g': "transition 1 False (sample_update Pause 1) sample_goal = Inr g'" using sample_pause by blast
  have ok: "goal_ok sample_goal" by (simp add: goal_ok_def sample_defs)
  have v: "gu_version (sample_update Resume 1) = gu_version (sample_update Pause 1)" by (simp add: sample_update_def)
  have "transition 2 True (sample_update Resume 1) (exec_all goal_step g' []) = Inl ValueError"
    by (rule stale_update_refused [OF ok g' v])
  then show ?thesis using g' by auto
qed

theorem held_goal_needs_operator_witness:
  "status (exec_all goal_step (sample_goal\<lparr>status := Paused\<rparr>)
     [(1, False, sample_update CompleteAction 1), (2, False, sample_update Pause 1)])
   \<in> {Paused, Review, Blocked, Canceled}"
  by (rule held_goal_needs_operator) simp_all

theorem resume_lifts_ceiling_witness:
  "\<exists>g'. transition 1 True (sample_update Resume 1) (sample_goal\<lparr>status := Blocked\<rparr>) = Inr g' \<and>
     exceeded 1 g' = None"
proof -
  let ?g = "sample_goal\<lparr>status := Blocked\<rparr>" and ?u = "sample_update Resume 1"
  have "transition_guard ?g ?u True"
    by (simp add: transition_guard_def sample_defs TERMINAL_def)
  moreover have act: "gu_action ?u = Resume" by (simp add: sample_update_def)
  moreover have "exceeded 1 (raise_ceilings 1 ?u ?g) = None"
    by (simp add: exceeded_def raise_ceilings_def sample_defs token_budget_of_def cost_budget_of_def
        deadline_of_def int_or_def usd_or_def future_def DEFAULT_TOKEN_BUDGET_def
        DEFAULT_COST_BUDGET_USD_def DEFAULT_MAX_ATTEMPTS_def DEFAULT_DEADLINE_SECONDS_def)
  ultimately obtain g' where g': "transition 1 True ?u ?g = Inr g'"
    by (simp add: transition_def do_resume_def Let_def)
  then show ?thesis using resume_lifts_ceiling [OF g' act] by blast
qed

theorem transition_errors_witness:
  "\<exists>s. CreateGoal Some sample_spec = Inr s \<and>
     (\<forall>e. transition 5 False (sample_update Resume 1) (new_goal ''g'' 0 s ''op'') = Inl e \<longrightarrow> e = ValueError) \<and>
     \<not> (\<exists>g'. transition 5 False (sample_update Resume 1) (new_goal ''g'' 0 s ''op'') = Inr g')"
proof -
  obtain s where s: "CreateGoal Some sample_spec = Inr s"
    by (simp add: CreateGoal_def sample_spec_def len_between_def opt_all_def py_strip_def is_space_def guard_def Let_def)
  let ?u = "sample_update Resume 1" and ?g = "new_goal ''g'' 0 s ''op''"
  have bad: "transition 5 False ?u ?g = Inl ValueError"
    by (simp add: transition_def transition_guard_def sample_update_def TERMINAL_def)
  have "transition 5 False ?u (exec_all goal_step ?g []) = Inl e \<Longrightarrow> e = ValueError" for e
    by (rule transition_errors [OF s])
  then show ?thesis using s bad by auto
qed

end
