(* ===== verification/Spend_Limits.thy ===== *)
theory Spend_Limits
  imports Prelude
begin

text \<open>
  Exact-amount decisions (\<open>robothor/entity/spend_limits.py\<close>) and the money values they are
  made of (\<open>_money\<close> of \<open>robothor/entity/policy.py\<close>). A \<open>Decimal\<close> is sign, coefficient and
  exponent, or one of its special values; comparison is exact, addition rounds to the 28
  digits of the default context, half to even.
\<close>

section \<open>Decimals\<close>

datatype dec = Dec bool nat int | DecInf bool | DecNaN

definition signed :: "bool \<Rightarrow> nat \<Rightarrow> int" where
  "signed neg c = (if neg then - int c else int c)"

text \<open>Two finite values at their smaller exponent.\<close>

definition scale_to :: "int \<Rightarrow> int \<Rightarrow> int \<Rightarrow> int" where
  "scale_to e c ce = c * 10 ^ nat (ce - e)"

definition num_le :: "int \<Rightarrow> int \<Rightarrow> int \<Rightarrow> int \<Rightarrow> bool" where
  "num_le c1 e1 c2 e2 = (let e = min e1 e2 in scale_to e c1 e1 \<le> scale_to e c2 e2)"

fun digits :: "nat \<Rightarrow> nat" where
  "digits n = (if n < 10 then 1 else Suc (digits (n div 10)))"

declare digits.simps [simp del]

definition PRECISION :: nat where "PRECISION = 28"

text \<open>Rounding a coefficient to the context's precision, half to even.\<close>

definition round_half_even :: "nat \<Rightarrow> nat \<Rightarrow> nat" where
  "round_half_even c k =
     (let q = c div 10 ^ k; r = c mod 10 ^ k in
      if 2 * r > 10 ^ k \<or> (2 * r = 10 ^ k \<and> odd q) then q + 1 else q)"

definition fix_precision :: "int \<Rightarrow> int \<Rightarrow> int \<times> int" where
  "fix_precision c e =
     (let n = nat \<bar>c\<bar>; k = digits n - PRECISION in
      if k = 0 then (c, e) else (sgn c * int (round_half_even n k), e + int k))"

definition num_add :: "int \<Rightarrow> int \<Rightarrow> int \<Rightarrow> int \<Rightarrow> int \<times> int" where
  "num_add c1 e1 c2 e2 =
     (let e = min e1 e2 in fix_precision (scale_to e c1 e1 + scale_to e c2 e2) e)"

section \<open>Amounts\<close>

text \<open>The Python values an amount argument can be.\<close>

datatype amount = AInt int | ADec dec | ABool bool | AFloat | ANone

fun num_of :: "amount \<Rightarrow> int \<times> int" where
  "num_of (AInt i) = (i, 0)"
| "num_of (ADec (Dec neg c e)) = (signed neg c, e)"
| "num_of _ = (0, 0)"

fun valid_amount :: "amount \<Rightarrow> bool" where
  "valid_amount (AInt i) = (0 \<le> i)"
| "valid_amount (ADec (Dec neg c e)) = (\<not> neg \<or> c = 0)"
| "valid_amount _ = False"

text \<open>\<open>a + b\<close> on valid amounts: exact on two ints, else a Decimal addition.\<close>

fun amount_add :: "amount \<Rightarrow> amount \<Rightarrow> int \<times> int" where
  "amount_add (AInt i) (AInt j) = (i + j, 0)"
| "amount_add a b = num_add (fst (num_of a)) (snd (num_of a)) (fst (num_of b)) (snd (num_of b))"

definition amount_le :: "int \<times> int \<Rightarrow> int \<times> int \<Rightarrow> bool" where
  "amount_le a b = num_le (fst a) (snd a) (fst b) (snd b)"

definition within_limit :: "amount \<Rightarrow> amount \<Rightarrow> amount \<Rightarrow> bool" where
  "within_limit used amount limit \<longleftrightarrow>
     valid_amount used \<and> valid_amount amount \<and> valid_amount limit \<and>
     amount_le (amount_add used amount) (num_of limit)"

section \<open>The decision\<close>

datatype decision_outcome = ALLOW | APPROVAL_REQUIRED | DENY

datatype decision_reason =
    WITHIN_POLICY | APPROVAL_THRESHOLD | POLICY_MISSING | POLICY_DISABLED | POLICY_INCOMPLETE
  | POLICY_TENANT_MISMATCH | POLICY_ORGANIZATION_MISMATCH | INSTRUMENT_OWNERSHIP_MISMATCH
  | INSTRUMENT_INACTIVE | CATEGORY_NOT_ALLOWED | VENDOR_NOT_ALLOWED | CURRENCY_NOT_ALLOWED
  | PER_TRANSACTION_LIMIT | USAGE_UNAVAILABLE | USAGE_SNAPSHOT_MISMATCH | DAILY_LIMIT
  | MONTHLY_LIMIT | IDEMPOTENCY_CONFLICT

text \<open>An optional argument is \<open>ANone\<close>; a usage may be any value.\<close>

definition decide_limits ::
  "amount \<Rightarrow> amount \<Rightarrow> amount \<Rightarrow> amount \<Rightarrow> amount \<Rightarrow> amount \<Rightarrow> bool \<Rightarrow> amount
     \<Rightarrow> decision_outcome \<times> decision_reason" where
  "decide_limits amount per_transaction_limit monthly_limit monthly_used daily_limit daily_used
     usage_matches approval_threshold =
     (if \<not> within_limit (AInt 0) amount per_transaction_limit then (DENY, PER_TRANSACTION_LIMIT)
      else if \<not> valid_amount monthly_used \<or> (daily_limit \<noteq> ANone \<and> \<not> valid_amount daily_used)
        then (DENY, USAGE_UNAVAILABLE)
      else if \<not> usage_matches then (DENY, USAGE_SNAPSHOT_MISMATCH)
      else if daily_limit \<noteq> ANone \<and> (daily_used = ANone \<or> \<not> within_limit daily_used amount daily_limit)
        then (DENY, DAILY_LIMIT)
      else if monthly_used = ANone \<or> \<not> within_limit monthly_used amount monthly_limit
        then (DENY, MONTHLY_LIMIT)
      else if approval_threshold \<noteq> ANone then
        (if \<not> valid_amount approval_threshold then (DENY, POLICY_INCOMPLETE)
         else if amount_le (num_of approval_threshold) (num_of amount)
           then (APPROVAL_REQUIRED, APPROVAL_THRESHOLD)
         else (ALLOW, WITHIN_POLICY))
      else (ALLOW, WITHIN_POLICY))"

section \<open>Money\<close>

text \<open>\<open>Decimal(text)\<close>: optional sign, digits with an optional point, optional exponent.\<close>

definition drop_sign :: "string \<Rightarrow> bool \<times> string" where
  "drop_sign s = (case s of
      c # cs \<Rightarrow> if c = CHR ''-'' then (True, cs) else if c = CHR ''+'' then (False, cs) else (False, s)
    | [] \<Rightarrow> (False, []))"

definition all_digits :: "string \<Rightarrow> bool" where
  "all_digits s = list_all is_digit s"

definition digits_value :: "string \<Rightarrow> nat" where
  "digits_value s = foldl (\<lambda>acc c. 10 * acc + digit_val c) 0 s"

definition parse_exponent :: "string \<Rightarrow> int option" where
  "parse_exponent s =
     (if s = [] then Some 0
      else (case drop_sign (tl s) of (neg, ds) \<Rightarrow>
        if ds \<noteq> [] \<and> all_digits ds then Some (signed neg (digits_value ds)) else None))"

definition parse_number :: "bool \<Rightarrow> string \<Rightarrow> dec option" where
  "parse_number neg s =
     (let int_part = takeWhile is_digit s; rest = dropWhile is_digit s;
          frac = (case rest of c # cs \<Rightarrow> if c = CHR ''.'' then takeWhile is_digit cs else [] | [] \<Rightarrow> []);
          after = (case rest of c # cs \<Rightarrow> if c = CHR ''.'' then dropWhile is_digit cs else rest | [] \<Rightarrow> [])
      in if int_part = [] \<and> frac = [] then None
         else if after \<noteq> [] \<and> hd after \<notin> {CHR ''e'', CHR ''E''} then None
         else (case parse_exponent after of
             None \<Rightarrow> None
           | Some e \<Rightarrow> Some (Dec neg (digits_value (int_part @ frac)) (e - int (length frac)))))"

definition decimal_of_string :: "string \<Rightarrow> dec option" where
  "decimal_of_string text =
     (case drop_sign (filter (\<lambda>c. c \<noteq> CHR ''_'') (py_strip text)) of (neg, s) \<Rightarrow>
        let low = py_lower s in
        if low = ''inf'' \<or> low = ''infinity'' then Some (DecInf neg)
        else if (take 3 low = ''nan'' \<and> all_digits (drop 3 low)) \<or>
                (take 4 low = ''snan'' \<and> all_digits (drop 4 low)) then Some DecNaN
        else parse_number neg s)"

datatype money_input = MBool bool | MFloat | MDecimal dec | MInt int | MText string

definition MAX_AMOUNT :: dec where "MAX_AMOUNT = Dec False 999999999999999999 (- 4)"

definition parse_money :: "money_input \<Rightarrow> dec option" where
  "parse_money v =
     (case v of
        MBool b \<Rightarrow> None
      | MFloat \<Rightarrow> None
      | MDecimal d \<Rightarrow> Some d
      | MInt i \<Rightarrow> Some (Dec (i < 0) (nat \<bar>i\<bar>) 0)
      | MText s \<Rightarrow> decimal_of_string s)"

definition money :: "money_input \<Rightarrow> bool \<Rightarrow> dec result" where
  "money v allow_zero =
     (case parse_money v of
        Some (Dec neg c e) \<Rightarrow>
          if (neg \<and> c \<noteq> 0) \<or> (\<not> allow_zero \<and> c = 0) then Inl ValueError
          else if \<not> amount_le (num_of (ADec (Dec neg c e))) (num_of (ADec MAX_AMOUNT)) then Inl ValueError
          else if e < - 4 then Inl ValueError
          else Inr (Dec neg c e)
      | _ \<Rightarrow> Inl ValueError)"

text \<open>\<open>format(d, "f")\<close>: no exponent, the digits padded to the left of the point.\<close>

fun format_f :: "dec \<Rightarrow> string" where
  "format_f (Dec neg c e) =
     (if neg then ''-'' else []) @
     (if 0 \<le> e then show_nat (c * 10 ^ nat e)
      else (let k = nat (- e); ds = pad_zeros (Suc k) (show_nat c); n = length ds - k
            in take n ds @ ''.'' @ drop n ds))"
| "format_f (DecInf neg) = (if neg then ''-Infinity'' else ''Infinity'')"
| "format_f DecNaN = ''NaN''"

section \<open>Exactness on money\<close>

text \<open>A validated money value counted in ten-thousandths, the finest unit \<open>money\<close> accepts.\<close>

fun units :: "dec \<Rightarrow> int" where
  "units (Dec neg c e) = signed neg c * 10 ^ nat (e + 4)"
| "units _ = 0"

definition money_value :: "dec \<Rightarrow> bool" where
  "money_value d = (\<exists>neg c e. d = Dec neg c e \<and> - 4 \<le> e \<and> (\<not> neg \<or> c = 0) \<and> units d < 10 ^ 18)"

lemma scale_units:
  assumes "- 4 \<le> m" "m \<le> e"
  shows "c * 10 ^ nat (e + 4) = scale_to m c e * (10::int) ^ nat (m + 4)"
proof -
  have "nat (e + 4) = nat (e - m) + nat (m + 4)" using assms by simp
  then show ?thesis by (simp add: scale_to_def power_add)
qed

lemma num_le_units:
  assumes "- 4 \<le> e1" "- 4 \<le> e2"
  shows "num_le c1 e1 c2 e2 \<longleftrightarrow> c1 * 10 ^ nat (e1 + 4) \<le> c2 * (10::int) ^ nat (e2 + 4)"
proof -
  have "- 4 \<le> min e1 e2" using assms by simp
  then show ?thesis
    using scale_units [of "min e1 e2" e1 c1] scale_units [of "min e1 e2" e2 c2]
    by (simp add: num_le_def Let_def)
qed

lemma digits_le: "n < 10 ^ k \<Longrightarrow> 0 < k \<Longrightarrow> digits n \<le> k"
proof (induction n arbitrary: k rule: digits.induct)
  case (1 n)
  show ?case
  proof (cases "n < 10")
    case True
    then show ?thesis using 1 by (subst digits.simps) simp
  next
    case False
    then obtain j where j: "k = Suc j" "0 < j" using 1(2,3) by (cases k; cases "k - 1") auto
    then have "n div 10 < 10 ^ j" using 1(2) by (simp add: less_mult_imp_div_less mult.commute)
    then show ?thesis using 1(1) [OF False _ j(2)] False j by (subst digits.simps) simp
  qed
qed

lemma num_add_exact:
  assumes "0 \<le> c1" "0 \<le> c2" "- 4 \<le> e1" "- 4 \<le> e2"
    and "c1 * 10 ^ nat (e1 + 4) < 10 ^ 18" "c2 * 10 ^ nat (e2 + 4) < 10 ^ 18"
  shows "\<exists>c e. num_add c1 e1 c2 e2 = (c, e) \<and> - 4 \<le> e \<and>
    c * 10 ^ nat (e + 4) = c1 * 10 ^ nat (e1 + 4) + c2 * (10::int) ^ nat (e2 + 4)"
proof -
  define m where "m = min e1 e2"
  define c where "c = scale_to m c1 e1 + scale_to m c2 e2"
  have m: "- 4 \<le> m" "m \<le> e1" "m \<le> e2" using assms by (auto simp: m_def)
  have eq: "c * 10 ^ nat (m + 4) = c1 * 10 ^ nat (e1 + 4) + c2 * (10::int) ^ nat (e2 + 4)"
    using scale_units [OF m(1,2), of c1] scale_units [OF m(1,3), of c2] by (simp add: c_def algebra_simps)
  have nn: "0 \<le> c" using assms(1,2) by (simp add: c_def scale_to_def)
  have one: "(1::int) \<le> 10 ^ nat (m + 4)" by simp
  have "c \<le> c * 10 ^ nat (m + 4)" using mult_left_mono [OF one nn] by simp
  also have "\<dots> < 10 ^ 28" using eq assms(5,6) by simp
  finally have "nat \<bar>c\<bar> < 10 ^ 28" using nn by (simp add: nat_less_iff)
  then have "digits (nat \<bar>c\<bar>) \<le> 28" by (rule digits_le) simp
  then have "num_add c1 e1 c2 e2 = (c, m)"
    by (simp add: num_add_def Let_def fix_precision_def PRECISION_def c_def m_def)
  then show ?thesis using m eq by blast
qed

lemma money_value_money: "money v z = Inr d \<Longrightarrow> money_value d \<and> (z \<or> 0 < units d)"
proof -
  assume a: "money v z = Inr d"
  then obtain neg c e where d: "d = Dec neg c e" "\<not> neg \<or> c = 0" "z \<or> c \<noteq> 0" "- 4 \<le> e"
    "amount_le (num_of (ADec d)) (num_of (ADec MAX_AMOUNT))"
    by (auto simp: money_def split: option.splits dec.splits if_splits)
  have "units d \<le> 999999999999999999"
    using d(5) num_le_units [OF d(4), of "- 4" "signed neg c" 999999999999999999]
    by (simp add: d(1) amount_le_def MAX_AMOUNT_def signed_def)
  then have "money_value d" unfolding money_value_def using d by auto
  moreover have "0 < units d" if "c \<noteq> 0" using that d(1,2) by (auto simp: signed_def)
  ultimately show ?thesis using d(3) by blast
qed

lemma within_limit_units:
  assumes "money_value u" "money_value a" "money_value l"
  shows "within_limit (ADec u) (ADec a) (ADec l) \<longleftrightarrow> units u + units a \<le> units l"
proof -
  obtain n1 c1 e1 where u: "u = Dec n1 c1 e1" "- 4 \<le> e1" "\<not> n1 \<or> c1 = 0" "units u < 10 ^ 18"
    using assms(1) by (auto simp: money_value_def)
  obtain n2 c2 e2 where a: "a = Dec n2 c2 e2" "- 4 \<le> e2" "\<not> n2 \<or> c2 = 0" "units a < 10 ^ 18"
    using assms(2) by (auto simp: money_value_def)
  obtain n3 c3 e3 where l: "l = Dec n3 c3 e3" "- 4 \<le> e3" "\<not> n3 \<or> c3 = 0"
    using assms(3) by (auto simp: money_value_def)
  have nn: "0 \<le> signed n1 c1" "0 \<le> signed n2 c2" using u(3) a(3) by (auto simp: signed_def)
  have lt: "signed n1 c1 * 10 ^ nat (e1 + 4) < 10 ^ 18" "signed n2 c2 * 10 ^ nat (e2 + 4) < 10 ^ 18"
    using u(1,4) a(1,4) by simp_all
  obtain c e where ce: "num_add (signed n1 c1) e1 (signed n2 c2) e2 = (c, e)" "- 4 \<le> e"
    "c * 10 ^ nat (e + 4) = units u + units a"
    using num_add_exact [OF nn u(2) a(2) lt] u(1) a(1) by auto
  have "within_limit (ADec u) (ADec a) (ADec l) \<longleftrightarrow> num_le c e (signed n3 c3) e3"
    using u a l ce(1) by (auto simp: within_limit_def amount_le_def)
  also have "\<dots> \<longleftrightarrow> units u + units a \<le> units l"
    using num_le_units [OF ce(2) l(2)] ce(3) l(1) by simp
  finally show ?thesis .
qed

lemma zero_units: "within_limit (AInt 0) (ADec a) (ADec l) \<longleftrightarrow> units a \<le> units l"
  if "money_value a" "money_value l"
proof -
  have z: "money_value (Dec False 0 0)"
    unfolding money_value_def
    by (intro exI [of _ False] exI [of _ "0::nat"] exI [of _ "0::int"]) (simp add: signed_def)
  have "within_limit (AInt 0) (ADec a) (ADec l) = within_limit (ADec (Dec False 0 0)) (ADec a) (ADec l)"
    by (simp add: within_limit_def signed_def)
  then show ?thesis using within_limit_units [OF z that] by (simp add: signed_def)
qed

lemma amount_le_units:
  assumes "money_value t" "money_value a"
  shows "amount_le (num_of (ADec t)) (num_of (ADec a)) \<longleftrightarrow> units t \<le> units a"
  using assms by (auto simp: money_value_def amount_le_def num_le_units)

lemma money_value_valid: "money_value d \<Longrightarrow> valid_amount (ADec d)"
  by (auto simp: money_value_def)

text \<open>
  C24: on validated money the decision is exact: it allows a purchase just when, counted in
  ten-thousandths with no rounding anywhere, the amount is within the transaction limit, the
  day's and the month's totals with it are within theirs, and it is below the approval threshold;
  at or above the threshold, with the limits kept, it asks for approval.
\<close>

theorem decide_limits_exact:
  assumes "money va False = Inr a" "money vp True = Inr p" "money vm True = Inr m" "money vmu True = Inr mu"
    "money vd True = Inr d" "money vdu True = Inr du" "money vt True = Inr t"
  shows "(fst (decide_limits (ADec a) (ADec p) (ADec m) (ADec mu) (ADec d) (ADec du) True (ADec t)) = ALLOW \<longleftrightarrow>
      units a \<le> units p \<and> units du + units a \<le> units d \<and> units mu + units a \<le> units m \<and> units a < units t) \<and>
    (fst (decide_limits (ADec a) (ADec p) (ADec m) (ADec mu) (ADec d) (ADec du) True (ADec t)) = APPROVAL_REQUIRED \<longleftrightarrow>
      units a \<le> units p \<and> units du + units a \<le> units d \<and> units mu + units a \<le> units m \<and> units t \<le> units a)"
proof -
  have mv: "money_value a" "money_value p" "money_value m" "money_value mu" "money_value d" "money_value du"
    "money_value t" using assms money_value_money by blast+
  show ?thesis
    using money_value_valid [OF mv(4)] money_value_valid [OF mv(6)] money_value_valid [OF mv(7)]
    by (auto simp: decide_limits_def zero_units [OF mv(1,2)] within_limit_units [OF mv(6,1,5)]
        within_limit_units [OF mv(4,1,3)] amount_le_units [OF mv(7,1)] split: if_splits)
qed

theorem decide_limits_exact_witness:
  "fst (decide_limits (ADec (Dec False 1999 (- 2))) (ADec (Dec False 50 0)) (ADec (Dec False 1 3))
      (ADec (Dec False 9800 (- 1))) (ADec (Dec False 100 0)) (ADec (Dec False 801 (- 1))) True
      (ADec (Dec False 20 0))) = DENY"
proof -
  have m: "money (MText ''19.99'') False = Inr (Dec False 1999 (- 2))" "money (MText ''50'') True = Inr (Dec False 50 0)"
    "money (MText ''1e3'') True = Inr (Dec False 1 3)" "money (MText ''980.0'') True = Inr (Dec False 9800 (- 1))"
    "money (MText ''100'') True = Inr (Dec False 100 0)" "money (MText '' 80.1 '') True = Inr (Dec False 801 (- 1))"
    "money (MInt 20) True = Inr (Dec False 20 0)"
    by (simp_all add: money_def parse_money_def decimal_of_string_def parse_number_def parse_exponent_def
        drop_sign_def all_digits_def digits_value_def py_strip_def is_space_def py_lower_def is_digit_def
        digit_val_def amount_le_def num_le_def scale_to_def signed_def MAX_AMOUNT_def Let_def)
  show ?thesis
  proof (rule ccontr)
    assume "fst (decide_limits (ADec (Dec False 1999 (- 2))) (ADec (Dec False 50 0)) (ADec (Dec False 1 3))
      (ADec (Dec False 9800 (- 1))) (ADec (Dec False 100 0)) (ADec (Dec False 801 (- 1))) True
      (ADec (Dec False 20 0))) \<noteq> DENY" (is "fst ?d \<noteq> DENY")
    then have "fst ?d = ALLOW \<or> fst ?d = APPROVAL_REQUIRED" by (cases "fst ?d") auto
    then show False using decide_limits_exact [OF m] by (simp add: signed_def nat_add_distrib)
  qed
qed

text \<open>
  Outside the validated range a Decimal sum can round below the limit it exceeds.
\<close>

lemma rounding_admits_excess:
  "within_limit (ADec (Dec False 1 28)) (AInt 1) (ADec (Dec False 1 28))"
proof -
  have d: "digits 10000000000000000000000000001 = 29" by (simp add: digits.simps)
  have r: "round_half_even 10000000000000000000000000001 1 = 1000000000000000000000000000"
    by (simp add: round_half_even_def Let_def)
  have "num_add 1 28 1 0 = (1000000000000000000000000000, 1)"
    using d r by (simp add: num_add_def scale_to_def fix_precision_def PRECISION_def Let_def)
  then show ?thesis
    by (simp add: within_limit_def signed_def amount_le_def num_le_def scale_to_def Let_def)
qed

end
