(* ===== verification/Treasury_Ledger.thy ===== *)
theory Treasury_Ledger
  imports Spend_Limits "HOL-Library.Sublist"
begin

text \<open>
  The payment-safe audit form of a value (\<open>robothor/entity/audit.py\<close>) and the append-only,
  hash-chained treasury ledger that stores it (\<open>robothor/entity/ledger.py\<close>).
\<close>

section \<open>Audit values\<close>

text \<open>The Python values the redaction tells apart; keys of a mapping are strings.\<close>

datatype pyval =
    PNone | PBool bool | PInt int | PFloat int int | PStr string | PSecret string | PDecimal dec
  | PTime string | PEnum pyval | PMap "(string \<times> pyval) list" | PSeq "pyval list" | POther string

definition REDACTED :: json where "REDACTED = JStr ''[REDACTED]''"

definition SENSITIVE_KEYS :: "string list" where
  "SENSITIVE_KEYS = [''account_number'', ''card_number'', ''cardnumber'', ''cryptogram'', ''cvc'', ''cvc2'',
     ''cvv'', ''cvv2'', ''pan'', ''password'', ''payment_method_token'', ''provider_authorization_token'',
     ''provider_payment_method_token'', ''provider_reference'', ''provider_token'',
     ''provider_virtual_card_token'', ''security_code'', ''secret'']"

definition is_lower :: "char \<Rightarrow> bool" where
  "is_lower c = (97 \<le> (of_char c :: nat) \<and> (of_char c :: nat) \<le> 122)"

definition is_upper :: "char \<Rightarrow> bool" where
  "is_upper c = (65 \<le> (of_char c :: nat) \<and> (of_char c :: nat) \<le> 90)"

text \<open>\<open>re.sub("([a-z0-9])([A-Z])", r"\1_\2", s)\<close>.\<close>

fun snake_case :: "string \<Rightarrow> string" where
  "snake_case (c # d # cs) =
     (if (is_lower c \<or> is_digit c) \<and> is_upper d then c # CHR ''_'' # snake_case (d # cs)
      else c # snake_case (d # cs))"
| "snake_case s = s"

text \<open>\<open>re.sub("[^a-z0-9]+", "_", s)\<close>; the flag says that a replaced run is open.\<close>

fun squash :: "bool \<Rightarrow> string \<Rightarrow> string" where
  "squash open_run [] = []"
| "squash open_run (c # cs) =
     (if is_lower c \<or> is_digit c then c # squash False cs
      else if open_run then squash True cs else CHR ''_'' # squash True cs)"

definition strip_underscores :: "string \<Rightarrow> string" where
  "strip_underscores s =
     rev (dropWhile (\<lambda>c. c = CHR ''_'') (rev (dropWhile (\<lambda>c. c = CHR ''_'') s)))"

definition normalise_key :: "string \<Rightarrow> string" where
  "normalise_key key = strip_underscores (squash False (py_lower (snake_case (py_strip key))))"

text \<open>
  A match of \<open>(?:\d[ -]?){12,19}(?!\d)\<close> from here on, with \<open>k\<close> digits already taken, and of
  the whole pattern anywhere: its start must not follow a digit. Every match has between 12
  and 19 digits, so the count the code makes of it always succeeds.
\<close>

fun pan_from :: "nat \<Rightarrow> string \<Rightarrow> bool" where
  "pan_from k [] = (12 \<le> k \<and> k \<le> 19)"
| "pan_from k (c # cs) =
     (if \<not> is_digit c then 12 \<le> k \<and> k \<le> 19
      else k < 19 \<and>
        (pan_from (Suc k) cs \<or>
         (case cs of d # ds \<Rightarrow> (d = CHR '' '' \<or> d = CHR ''-'') \<and> pan_from (Suc k) ds | [] \<Rightarrow> False)))"

fun pan_search :: "bool \<Rightarrow> string \<Rightarrow> bool" where
  "pan_search after_digit [] = False"
| "pan_search after_digit (c # cs) =
     ((\<not> after_digit \<and> pan_from 0 (c # cs)) \<or> pan_search (is_digit c) cs)"

definition contains_payment_digits :: "string \<Rightarrow> bool" where
  "contains_payment_digits s = pan_search False s"

definition sensitive :: "string option \<Rightarrow> bool" where
  "sensitive field_name = (case field_name of None \<Rightarrow> False | Some k \<Rightarrow> normalise_key k \<in> set SENSITIVE_KEYS)"

fun redact_for_audit :: "string option \<Rightarrow> pyval \<Rightarrow> json" where
  "redact_for_audit fn (PSecret s) = REDACTED"
| "redact_for_audit fn PNone = (if sensitive fn then REDACTED else JNull)"
| "redact_for_audit fn (PBool b) = (if sensitive fn then REDACTED else JBool b)"
| "redact_for_audit fn (PInt i) = (if sensitive fn then REDACTED else JInt i)"
| "redact_for_audit fn (PFloat m e) = (if sensitive fn then REDACTED else JFloat m e)"
| "redact_for_audit fn (PStr s) =
     (if sensitive fn then REDACTED else if contains_payment_digits s then REDACTED else JStr s)"
| "redact_for_audit fn (PDecimal d) = (if sensitive fn then REDACTED else JStr (format_f d))"
| "redact_for_audit fn (PTime t) = (if sensitive fn then REDACTED else JStr t)"
| "redact_for_audit fn (PEnum v) = (if sensitive fn then REDACTED else redact_for_audit fn v)"
| "redact_for_audit fn (PMap kvs) =
     (if sensitive fn then REDACTED
      else JObj (map (\<lambda>kv. (fst kv, redact_for_audit (Some (fst kv)) (snd kv))) kvs))"
| "redact_for_audit fn (PSeq xs) =
     (if sensitive fn then REDACTED else JArr (map (redact_for_audit None) xs))"
| "redact_for_audit fn (POther tn) = (if sensitive fn then REDACTED else JStr (''<'' @ tn @ ''>''))"

text \<open>A JSON value as the Python value it is.\<close>

fun pyval_of_json :: "json \<Rightarrow> pyval" where
  "pyval_of_json JNull = PNone"
| "pyval_of_json (JBool b) = PBool b"
| "pyval_of_json (JInt i) = PInt i"
| "pyval_of_json (JFloat m e) = PFloat m e"
| "pyval_of_json (JStr s) = PStr s"
| "pyval_of_json (JArr xs) = PSeq (map pyval_of_json xs)"
| "pyval_of_json (JObj kvs) = PMap (map (\<lambda>kv. (fst kv, pyval_of_json (snd kv))) kvs)"

text \<open>No text in it holds a card number, and what a sensitive key names is redacted.\<close>

fun payment_safe :: "json \<Rightarrow> bool" where
  "payment_safe (JStr s) = (\<not> contains_payment_digits s)"
| "payment_safe (JArr xs) = list_all payment_safe xs"
| "payment_safe (JObj kvs) =
     list_all (\<lambda>kv. payment_safe (snd kv) \<and> (sensitive (Some (fst kv)) \<longrightarrow> snd kv = REDACTED)) kvs"
| "payment_safe _ = True"

lemma safe_REDACTED [simp]: "payment_safe REDACTED"
  by (simp add: REDACTED_def contains_payment_digits_def is_digit_def)

lemma redact_sensitive: "sensitive fn \<Longrightarrow> redact_for_audit fn v = REDACTED"
  by (cases v) auto

lemma redact_json_safe: "payment_safe (redact_for_audit fn (pyval_of_json j))"
proof (induction j arbitrary: fn)
  case (JObj kvs)
  have "payment_safe (redact_for_audit (Some k) (pyval_of_json v))" if "(k, v) \<in> set kvs" for k v
    using JObj [OF that] by (simp add: snds.intros)
  then show ?case by (auto simp: list_all_iff redact_sensitive)
qed (auto simp: list_all_iff)

section \<open>Events\<close>

datatype treasury_event_type =
    PROPOSAL_EVALUATED | APPROVAL_GRANTED | APPROVAL_REJECTED | AUTHORIZATION_REQUESTED
  | AUTHORIZATION_RECORDED | SETTLEMENT_RECORDED | REVERSAL_RECORDED

fun event_type_value :: "treasury_event_type \<Rightarrow> string" where
  "event_type_value PROPOSAL_EVALUATED = ''proposal_evaluated''"
| "event_type_value APPROVAL_GRANTED = ''approval_granted''"
| "event_type_value APPROVAL_REJECTED = ''approval_rejected''"
| "event_type_value AUTHORIZATION_REQUESTED = ''authorization_requested''"
| "event_type_value AUTHORIZATION_RECORDED = ''authorization_recorded''"
| "event_type_value SETTLEMENT_RECORDED = ''settlement_recorded''"
| "event_type_value REVERSAL_RECORDED = ''reversal_recorded''"

text \<open>A draft; its time is the ISO form of an aware datetime, its data as validated or not.\<close>

record ledger_draft =
  ld_tenant_id :: string
  ld_organization_id :: string
  ld_event_type :: treasury_event_type
  ld_actor_id :: string
  ld_subject_id :: string
  ld_idempotency_key :: string
  ld_audit_data :: pyval
  ld_occurred_at :: string

record ledger_event =
  sequence :: nat
  event_id :: string
  le_tenant_id :: string
  le_organization_id :: string
  le_event_type :: treasury_event_type
  le_actor_id :: string
  le_subject_id :: string
  le_idempotency_key :: string
  occurred_at :: string
  previous_hash :: string
  event_hash :: string
  audit_data_json :: string

type_synonym ledger_key = "string \<times> string \<times> string"

record ledger =
  lg_events :: "ledger_event list"
  lg_semantic_hashes :: "(ledger_key, string) dict"
  lg_by_idempotency :: "(ledger_key, ledger_event) dict"

definition GENESIS_HASH :: string where "GENESIS_HASH = replicate 64 CHR ''0''"

definition empty_ledger :: ledger where
  "empty_ledger = \<lparr>lg_events = [], lg_semantic_hashes = [], lg_by_idempotency = []\<rparr>"

text \<open>Validating \<open>audit_data\<close>: redacted, and an object afterwards.\<close>

definition sanitize_audit_data :: "pyval \<Rightarrow> pyval result" where
  "sanitize_audit_data v =
     (case redact_for_audit None v of JObj kvs \<Rightarrow> Inr (pyval_of_json (JObj kvs)) | _ \<Rightarrow> Inl ValueError)"

definition canonical_audit_data :: "('a codec_scheme) \<Rightarrow> json \<Rightarrow> string" where
  "canonical_audit_data env data = json_dumps env data"

definition semantic_hash :: "('a codec_scheme) \<Rightarrow> ledger_draft \<Rightarrow> string \<Rightarrow> string" where
  "semantic_hash env d audit_json =
     hash_json env (JObj
       [(''actor_id'', JStr (ld_actor_id d)), (''audit_data'', JStr audit_json),
        (''event_type'', JStr (event_type_value (ld_event_type d))),
        (''idempotency_key'', JStr (ld_idempotency_key d)),
        (''organization_id'', JStr (ld_organization_id d)), (''subject_id'', JStr (ld_subject_id d)),
        (''tenant_id'', JStr (ld_tenant_id d))])"

definition event_material :: "nat \<Rightarrow> string \<Rightarrow> string \<Rightarrow> treasury_event_type \<Rightarrow> string \<Rightarrow> string \<Rightarrow> string
    \<Rightarrow> string \<Rightarrow> string \<Rightarrow> string \<Rightarrow> json" where
  "event_material n tenant org ty actor subject key at prev audit_json = JObj
     [(''actor_id'', JStr actor), (''audit_data'', JStr audit_json),
      (''event_type'', JStr (event_type_value ty)), (''idempotency_key'', JStr key),
      (''occurred_at'', JStr at), (''organization_id'', JStr org), (''previous_hash'', JStr prev),
      (''sequence'', JInt (int n)), (''subject_id'', JStr subject), (''tenant_id'', JStr tenant)]"

text \<open>\<open>_event_hash\<close> of the fields of a stored event.\<close>

definition hash_of_event :: "('a codec_scheme) \<Rightarrow> ledger_event \<Rightarrow> string" where
  "hash_of_event env e =
     hash_json env (event_material (sequence e) (le_tenant_id e) (le_organization_id e) (le_event_type e)
       (le_actor_id e) (le_subject_id e) (le_idempotency_key e) (occurred_at e) (previous_hash e)
       (audit_data_json e))"

definition ledger_append ::
  "('a codec_scheme) \<Rightarrow> ledger_draft \<Rightarrow> ledger \<Rightarrow> (ledger_event \<times> ledger) result" where
  "ledger_append env d l =
     (case redact_for_audit None (ld_audit_data d) of
        JObj kvs \<Rightarrow>
          (let audit_json = canonical_audit_data env (JObj kvs);
               sem = semantic_hash env d audit_json;
               key = (ld_tenant_id d, ld_organization_id d, ld_idempotency_key d)
           in (case dict_get (lg_by_idempotency l) key of
                Some existing \<Rightarrow>
                  (case dict_get (lg_semantic_hashes l) key of
                     None \<Rightarrow> Inl KeyError
                   | Some stored \<Rightarrow> if stored \<noteq> sem then Inl ValueError else Inr (existing, l))
              | None \<Rightarrow>
                  (let n = Suc (length (lg_events l));
                       prev = (if lg_events l = [] then GENESIS_HASH else event_hash (last (lg_events l)));
                       h = hash_json env (event_material n (ld_tenant_id d) (ld_organization_id d)
                             (ld_event_type d) (ld_actor_id d) (ld_subject_id d) (ld_idempotency_key d)
                             (ld_occurred_at d) prev audit_json);
                       e = \<lparr>sequence = n, event_id = uuid5_url env h, le_tenant_id = ld_tenant_id d,
                            le_organization_id = ld_organization_id d, le_event_type = ld_event_type d,
                            le_actor_id = ld_actor_id d, le_subject_id = ld_subject_id d,
                            le_idempotency_key = ld_idempotency_key d, occurred_at = ld_occurred_at d,
                            previous_hash = prev, event_hash = h, audit_data_json = audit_json\<rparr>
                   in Inr (e, l\<lparr>lg_events := lg_events l @ [e],
                               lg_semantic_hashes := dict_set key sem (lg_semantic_hashes l),
                               lg_by_idempotency := dict_set key e (lg_by_idempotency l)\<rparr>))))
      | _ \<Rightarrow> Inl ValueError)"

definition find_by_idempotency :: "string \<Rightarrow> string \<Rightarrow> string \<Rightarrow> ledger \<Rightarrow> ledger_event option" where
  "find_by_idempotency tenant org key l = dict_get (lg_by_idempotency l) (tenant, org, key)"

fun chain_ok :: "('a codec_scheme) \<Rightarrow> nat \<Rightarrow> string \<Rightarrow> ledger_event list \<Rightarrow> bool" where
  "chain_ok env n prev [] = True"
| "chain_ok env n prev (e # es) =
     (if sequence e \<noteq> n \<or> previous_hash e \<noteq> prev then False
      else if event_hash e \<noteq> hash_of_event env e then False
      else chain_ok env (Suc n) (event_hash e) es)"

definition verify_chain :: "('a codec_scheme) \<Rightarrow> ledger \<Rightarrow> bool" where
  "verify_chain env l = chain_ok env 1 GENESIS_HASH (lg_events l)"

section \<open>The chain\<close>

lemma chain_ok_snoc:
  "chain_ok env n prev (es @ [e]) \<longleftrightarrow> chain_ok env n prev es \<and> sequence e = n + length es \<and>
     previous_hash e = (if es = [] then prev else event_hash (last es)) \<and>
     event_hash e = hash_of_event env e"
  by (induction env n prev es rule: chain_ok.induct) auto

lemma event_type_value_inj: "event_type_value x = event_type_value y \<Longrightarrow> x = y"
  by (cases x; cases y) auto

lemma event_material_inj:
  "event_material n t r ty a s k at p j = event_material n' t' r' ty' a' s' k' at' p' j' \<Longrightarrow>
   n = n' \<and> t = t' \<and> r = r' \<and> ty = ty' \<and> a = a' \<and> s = s' \<and> k = k' \<and> at = at' \<and> p = p' \<and> j = j'"
  by (auto simp: event_material_def intro: event_type_value_inj)

text \<open>Everything of an event that its hash covers.\<close>

definition hashed_part :: "ledger_event \<Rightarrow> ledger_event" where
  "hashed_part e = e\<lparr>event_id := []\<rparr>"

text \<open>
  Two different documents with one hash, among the events of two given chains: the same place in
  both, where the chains differ for the last time.
\<close>

definition material :: "ledger_event \<Rightarrow> json" where
  "material e = event_material (sequence e) (le_tenant_id e) (le_organization_id e) (le_event_type e)
     (le_actor_id e) (le_subject_id e) (le_idempotency_key e) (occurred_at e) (previous_hash e) (audit_data_json e)"

definition collides_at :: "('a codec_scheme) \<Rightarrow> ledger_event list \<Rightarrow> ledger_event list \<Rightarrow> nat \<Rightarrow> bool" where
  "collides_at env es es' i \<longleftrightarrow>
     i < length es \<and> material (es ! i) \<noteq> material (es' ! i) \<and>
     hash_json env (material (es ! i)) = hash_json env (material (es' ! i)) \<and>
     map hashed_part (drop (Suc i) es) = map hashed_part (drop (Suc i) es')"

lemma same_material:
  assumes "material e = material e'" "event_hash e = event_hash e'"
  shows "hashed_part e = hashed_part e'" "previous_hash e = previous_hash e'"
proof -
  note m = event_material_inj [OF assms(1) [unfolded material_def]]
  show "previous_hash e = previous_hash e'" using m by blast
  show "hashed_part e = hashed_part e'"
    using m assms(2) by (cases e; cases e') (simp add: hashed_part_def)
qed

lemma collides_at_snoc:
  assumes "collides_at env es es' i" "length es = length es'" "hashed_part e = hashed_part e'"
  shows "collides_at env (es @ [e]) (es' @ [e']) i"
  using assms by (auto simp: collides_at_def nth_append)

lemma chain_unique:
  assumes "length es = length es'" "chain_ok env n p es" "chain_ok env n p es'"
    and "es \<noteq> [] \<Longrightarrow> event_hash (last es) = event_hash (last es')"
  shows "map hashed_part es = map hashed_part es' \<or> (\<exists>i. collides_at env es es' i)"
  using assms
proof (induction es arbitrary: es' rule: rev_induct)
  case Nil
  then show ?case by simp
next
  case (snoc e es)
  then obtain e' fs where es': "es' = fs @ [e']" by (cases es' rule: rev_exhaust) auto
  have e: "chain_ok env n p es" "event_hash e = hash_of_event env e"
    "previous_hash e = (if es = [] then p else event_hash (last es))"
    using snoc.prems(2) unfolding chain_ok_snoc by auto
  have e': "chain_ok env n p fs" "event_hash e' = hash_of_event env e'"
    "previous_hash e' = (if fs = [] then p else event_hash (last fs))"
    using snoc.prems(3) unfolding es' chain_ok_snoc by auto
  have h: "event_hash e = event_hash e'" using snoc.prems(4) es' by simp
  have len: "length es = length fs" using snoc.prems(1) es' by simp
  show ?case
  proof (cases "material e = material e'")
    case False
    have "hash_json env (material e) = hash_json env (material e')"
      using h e(2) e'(2) by (simp add: hash_of_event_def material_def)
    then have "collides_at env (es @ [e]) es' (length es)"
      using False len by (simp add: collides_at_def es' nth_append)
    then show ?thesis by blast
  next
    case True
    note same = same_material [OF True h]
    have "map hashed_part es = map hashed_part fs \<or> (\<exists>i. collides_at env es fs i)"
    proof (rule snoc.IH [OF len e(1) e'(1)])
      assume "es \<noteq> []"
      moreover have "fs \<noteq> []" using calculation len by auto
      ultimately show "event_hash (last es) = event_hash (last fs)" using same(2) e(3) e'(3) by simp
    qed
    then show ?thesis using same(1) collides_at_snoc [OF _ len same(1)] by (auto simp: es')
  qed
qed

section \<open>The ledger's invariant\<close>

definition key_of :: "ledger_event \<Rightarrow> ledger_key" where
  "key_of e = (le_tenant_id e, le_organization_id e, le_idempotency_key e)"

definition ledger_ok :: "('a codec_scheme) \<Rightarrow> ledger \<Rightarrow> bool" where
  "ledger_ok env l \<longleftrightarrow> verify_chain env l \<and>
     (\<forall>k e. dict_get (lg_by_idempotency l) k = Some e \<longleftrightarrow> e \<in> set (lg_events l) \<and> key_of e = k) \<and>
     (\<forall>k. dict_get (lg_semantic_hashes l) k = None \<longleftrightarrow> dict_get (lg_by_idempotency l) k = None)"

lemma ledger_indexed:
  "ledger_ok env l \<Longrightarrow> e \<in> set (lg_events l) \<Longrightarrow> dict_get (lg_by_idempotency l) (key_of e) = Some e"
  unfolding ledger_ok_def by blast

lemma chain_distinct:
  "chain_ok env n p es \<Longrightarrow> distinct es \<and> (\<forall>e \<in> set es. n \<le> sequence e)"
  by (induction env n p es rule: chain_ok.induct) (fastforce split: if_splits)+

definition ledger_step :: "('a codec_scheme) \<Rightarrow> ledger \<Rightarrow> ledger_draft \<Rightarrow> ledger result" where
  "ledger_step env l d = map_sum id snd (ledger_append env d l)"

text \<open>What later drafts keep: the events so far are a prefix, and the entries under known keys stay.\<close>

definition ledger_extends :: "ledger \<Rightarrow> ledger \<Rightarrow> bool" where
  "ledger_extends l l' \<longleftrightarrow> prefix (lg_events l) (lg_events l') \<and>
     (\<forall>k e. dict_get (lg_by_idempotency l) k = Some e \<longrightarrow>
        dict_get (lg_by_idempotency l') k = Some e \<and>
        dict_get (lg_semantic_hashes l') k = dict_get (lg_semantic_hashes l) k)"

text \<open>The two ways an append succeeds.\<close>

lemma ledger_append_Inr:
  assumes "ledger_append env d l = Inr (e, l')"
  obtains (known) k where "l' = l" "k = (ld_tenant_id d, ld_organization_id d, ld_idempotency_key d)"
      "dict_get (lg_by_idempotency l) k = Some e"
  | (fresh) k sem where "k = (ld_tenant_id d, ld_organization_id d, ld_idempotency_key d)" "key_of e = k"
      "dict_get (lg_by_idempotency l) k = None"
      "sequence e = Suc (length (lg_events l))"
      "previous_hash e = (if lg_events l = [] then GENESIS_HASH else event_hash (last (lg_events l)))"
      "event_hash e = hash_of_event env e" "event_id e = uuid5_url env (event_hash e)"
      "l' = l\<lparr>lg_events := lg_events l @ [e], lg_semantic_hashes := dict_set k sem (lg_semantic_hashes l),
             lg_by_idempotency := dict_set k e (lg_by_idempotency l)\<rparr>"
proof -
  obtain kvs where kvs: "redact_for_audit None (ld_audit_data d) = JObj kvs"
    using assms by (auto simp: ledger_append_def split: json.splits)
  define k where "k = (ld_tenant_id d, ld_organization_id d, ld_idempotency_key d)"
  show thesis
  proof (cases "dict_get (lg_by_idempotency l) k")
    case (Some e')
    then show thesis using assms kvs k_def known [OF _ k_def]
      by (auto simp: ledger_append_def Let_def split: option.splits if_splits)
  next
    case None
    then show thesis
      using assms kvs k_def
      by (intro fresh [OF k_def, of "semantic_hash env d (canonical_audit_data env (JObj kvs))"])
        (auto simp: ledger_append_def Let_def key_of_def hash_of_event_def)
  qed
qed

lemma ledger_append_step:
  assumes ok: "ledger_ok env l" and a: "ledger_append env d l = Inr (e, l')"
  shows "ledger_ok env l' \<and> ledger_extends l l'"
  using a
proof (cases rule: ledger_append_Inr)
  case (known k)
  then show ?thesis using ok by (auto simp: ledger_extends_def)
next
  case (fresh k sem)
  have new: "\<forall>e' \<in> set (lg_events l). key_of e' \<noteq> k"
    using ledger_indexed [OF ok] fresh(3) by fastforce
  have "ledger_ok env l'"
    using ok fresh(2,4-6) new
    unfolding ledger_ok_def verify_chain_def fresh(8)
    by (auto simp: chain_ok_snoc)
  moreover have "ledger_extends l l'"
    using fresh(3) unfolding ledger_extends_def fresh(8) by auto
  ultimately show ?thesis ..
qed

lemma ledger_extends_refl: "ledger_extends l l"
  by (simp add: ledger_extends_def)

lemma ledger_extends_trans: "ledger_extends l m \<Longrightarrow> ledger_extends m n \<Longrightarrow> ledger_extends l n"
  unfolding ledger_extends_def by (auto intro: prefix_order.trans)

lemma ledger_step_Inr:
  "ledger_ok env l \<Longrightarrow> ledger_step env l d = Inr l' \<Longrightarrow> ledger_ok env l' \<and> ledger_extends l l'"
  by (auto simp: ledger_step_def dest: ledger_append_step)

interpretation ledger_run: guarded_machine "ledger_step env" "ledger_ok env" ledger_extends "\<lambda>_. True"
  for env
  by unfold_locales (auto intro: ledger_extends_refl ledger_extends_trans dest: ledger_step_Inr)

lemma empty_ledger_ok [simp]: "ledger_ok env empty_ledger"
  by (simp add: ledger_ok_def empty_ledger_def verify_chain_def)

section \<open>Properties\<close>

text \<open>
  C18: whatever drafts are appended to a new ledger, in whatever order and with whatever
  conflicts refused on the way, its chain verifies, each key of a tenant, organization and
  idempotency key has one event, and every event ever returned stays where it was.
\<close>

theorem ledger_append_only:
  "verify_chain env (exec_all (ledger_step env) empty_ledger ds) \<and>
   distinct (map key_of (lg_events (exec_all (ledger_step env) empty_ledger ds))) \<and>
   prefix (lg_events (exec_all (ledger_step env) empty_ledger ds))
          (lg_events (exec_all (ledger_step env) empty_ledger (ds @ es)))"
proof -
  define l where "l = exec_all (ledger_step env) empty_ledger ds"
  have ok: "ledger_ok env l" unfolding l_def by (rule ledger_run.run_inv) simp_all
  have "prefix (lg_events l) (lg_events (exec_all (ledger_step env) l es))"
    using ledger_run.run_rel [OF ok, of es] by (simp add: ledger_extends_def)
  moreover have dist: "distinct (lg_events l)"
    using ok chain_distinct unfolding ledger_ok_def verify_chain_def by blast
  have "inj_on key_of (set (lg_events l))"
  proof (rule inj_onI)
    fix x y assume "x \<in> set (lg_events l)" "y \<in> set (lg_events l)" "key_of x = key_of y"
    then show "x = y" using ledger_indexed [OF ok] by (metis option.inject)
  qed
  then have "distinct (map key_of (lg_events l))" using dist by (simp add: distinct_map)
  ultimately show ?thesis using ok by (simp add: ledger_ok_def exec_all_append l_def [symmetric])
qed

text \<open>
  C19: tampering is evident. Two event lists of the same length whose chains both verify and that
  end in the same hash agree on every event in everything but its id; otherwise they contain a
  collision of SHA-256, at the last place where they differ: the two events there are different
  documents with one hash.
\<close>

theorem ledger_tamper_evident:
  assumes "verify_chain env l" "verify_chain env l'" "length (lg_events l) = length (lg_events l')"
    and "lg_events l \<noteq> [] \<Longrightarrow> event_hash (last (lg_events l)) = event_hash (last (lg_events l'))"
  shows "map hashed_part (lg_events l) = map hashed_part (lg_events l') \<or>
    (\<exists>i. collides_at env (lg_events l) (lg_events l') i)"
  using chain_unique [OF assms(3), of env 1 GENESIS_HASH] assms(1,2,4)
  unfolding verify_chain_def by blast

text \<open>
  appending is idempotent for good. Once a draft is stored, appending it again after any
  further drafts returns the same event and changes nothing, and a draft with the same key but
  another meaning is refused, or hashes to the same value.
\<close>

theorem ledger_append_idempotent:
  assumes ok: "ledger_ok env l" and fresh: "find_by_idempotency (ld_tenant_id d) (ld_organization_id d) (ld_idempotency_key d) l = None"
    and a: "ledger_append env d l = Inr (e, l')"
  shows "ledger_append env d (exec_all (ledger_step env) l' ds) = Inr (e, exec_all (ledger_step env) l' ds) \<and>
    (\<forall>d' audit. ld_tenant_id d' = ld_tenant_id d \<longrightarrow> ld_organization_id d' = ld_organization_id d \<longrightarrow>
        ld_idempotency_key d' = ld_idempotency_key d \<longrightarrow> redact_for_audit None (ld_audit_data d') = JObj audit \<longrightarrow>
        semantic_hash env d' (json_dumps env (JObj audit)) \<noteq>
        semantic_hash env d (json_dumps env (redact_for_audit None (ld_audit_data d))) \<longrightarrow>
        ledger_append env d' (exec_all (ledger_step env) l' ds) = Inl ValueError)"
proof -
  let ?k = "(ld_tenant_id d, ld_organization_id d, ld_idempotency_key d)"
  obtain kvs where kvs: "redact_for_audit None (ld_audit_data d) = JObj kvs"
    using a by (auto simp: ledger_append_def split: json.splits)
  let ?sem = "semantic_hash env d (json_dumps env (JObj kvs))"
  have at: "dict_get (lg_by_idempotency l') ?k = Some e" "dict_get (lg_semantic_hashes l') ?k = Some ?sem"
    using a fresh kvs
    by (auto simp: ledger_append_def find_by_idempotency_def canonical_audit_data_def Let_def)
  have ok': "ledger_ok env l'" using ledger_append_step [OF ok a] ..
  have "ledger_extends l' (exec_all (ledger_step env) l' ds)" by (rule ledger_run.run_rel [OF ok']) simp
  then have "dict_get (lg_by_idempotency (exec_all (ledger_step env) l' ds)) ?k = Some e"
    "dict_get (lg_semantic_hashes (exec_all (ledger_step env) l' ds)) ?k = Some ?sem"
    using at by (auto simp: ledger_extends_def)
  then show ?thesis using kvs
    by (simp add: ledger_append_def canonical_audit_data_def Let_def)
qed

text \<open>
  no text the ledger stores holds a card number. For every draft whose data passed its
  validation, and for any other JSON data, the audit document that is hashed and stored has no
  string with a run of 12 to 19 digits in it and nothing but the mark under a sensitive key.
\<close>

theorem ledger_audit_safe:
  "payment_safe (redact_for_audit fn (pyval_of_json j)) \<and>
   (\<forall>v data. sanitize_audit_data v = Inr data \<longrightarrow> payment_safe (redact_for_audit None data))"
  using redact_json_safe by (auto simp: sanitize_audit_data_def split: json.splits simp del: pyval_of_json.simps)

section \<open>A concrete ledger\<close>

definition plain_codec :: codec where
  "plain_codec = \<lparr>json_loads = (\<lambda>_. None), json_dumps = (\<lambda>_. ''j''), sha256_hex = id, uuid5_url = id\<rparr>"

definition sample_draft :: ledger_draft where
  "sample_draft = \<lparr>ld_tenant_id = ''t'', ld_organization_id = ''o'', ld_event_type = APPROVAL_GRANTED,
     ld_actor_id = ''a'', ld_subject_id = ''s'', ld_idempotency_key = ''key-0001'',
     ld_audit_data = PMap [(''note'', PStr ''4111 1111 1111 1111'')], ld_occurred_at = ''2026-01-01T00:00:00+00:00''\<rparr>"

lemma sample_append:
  "\<exists>e l'. ledger_append plain_codec sample_draft empty_ledger = Inr (e, l') \<and> lg_events l' = [e]"
  by (simp add: ledger_append_def sample_draft_def sensitive_def empty_ledger_def Let_def)

theorem ledger_audit_safe_witness:
  "\<exists>data. sanitize_audit_data (PMap [(''note'', PStr ''4111 1111 1111 1111'')]) = Inr data \<and>
     payment_safe (redact_for_audit None data)"
proof -
  obtain data where d: "sanitize_audit_data (PMap [(''note'', PStr ''4111 1111 1111 1111'')]) = Inr data"
    by (simp add: sanitize_audit_data_def sensitive_def)
  then have "payment_safe (redact_for_audit None data)"
    using conjunct2 [OF ledger_audit_safe [of None JNull]] by blast
  then show ?thesis using d by blast
qed

theorem ledger_append_idempotent_witness:
  "\<exists>e l'. ledger_append plain_codec sample_draft empty_ledger = Inr (e, l') \<and>
     ledger_append plain_codec sample_draft (exec_all (ledger_step plain_codec) l' [sample_draft]) =
       Inr (e, exec_all (ledger_step plain_codec) l' [sample_draft])"
proof -
  obtain e l' where a: "ledger_append plain_codec sample_draft empty_ledger = Inr (e, l')"
    using sample_append by blast
  have "find_by_idempotency (ld_tenant_id sample_draft) (ld_organization_id sample_draft)
      (ld_idempotency_key sample_draft) empty_ledger = None"
    by (simp add: find_by_idempotency_def empty_ledger_def)
  from conjunct1 [OF ledger_append_idempotent [OF empty_ledger_ok this a, of "[sample_draft]"]] a
  show ?thesis by blast
qed

theorem ledger_tamper_evident_witness:
  "\<exists>l l'. lg_events l \<noteq> [] \<and> l \<noteq> l' \<and> verify_chain plain_codec l \<and> verify_chain plain_codec l' \<and>
     map hashed_part (lg_events l) = map hashed_part (lg_events l')"
proof -
  obtain e l where a: "ledger_append plain_codec sample_draft empty_ledger = Inr (e, l)" "lg_events l = [e]"
    using sample_append by blast
  let ?l' = "l\<lparr>lg_events := [e\<lparr>event_id := CHR ''x'' # event_id e\<rparr>]\<rparr>"
  have v: "verify_chain plain_codec l"
    using ledger_append_step [OF empty_ledger_ok a(1)] by (simp add: ledger_ok_def)
  then have v': "verify_chain plain_codec ?l'"
    using a(2) by (simp add: verify_chain_def hash_of_event_def split: if_splits)
  have h: "event_hash (last (lg_events l)) = event_hash (last (lg_events ?l'))" using a(2) by simp
  have len: "length (lg_events l) = length (lg_events ?l')" using a(2) by simp
  have "\<not> collides_at plain_codec (lg_events l) (lg_events ?l') i" for i
    using a(2) by (auto simp: collides_at_def material_def)
  then have "map hashed_part (lg_events l) = map hashed_part (lg_events ?l')"
    using ledger_tamper_evident [OF v v' len h] by blast
  moreover have "l \<noteq> ?l'"
  proof
    assume "l = ?l'"
    then have "lg_events l = lg_events ?l'" by (rule arg_cong)
    then have "event_id e = CHR ''x'' # event_id e" using a(2) by (cases e) simp
    then show False by simp
  qed
  moreover have "lg_events l \<noteq> []" using a(2) by simp
  ultimately show ?thesis using v v' by blast
qed

end
