(* ===== verification/Treasury_Policy.thy ===== *)
theory Treasury_Policy
  imports Spend_Limits
begin

text \<open>
  Deny-by-default spend decisions (\<open>robothor/entity/policy.py\<close>), the store that makes them
  idempotent, the requests a decision opens (\<open>robothor/entity/providers.py\<close>) and the
  authority boundary above them (\<open>robothor/entity/authority.py\<close>). A time is its ISO form with
  its date's ordinal.
\<close>

section \<open>Constrained strings\<close>

text \<open>\<open>strip_whitespace\<close> and the patterns, on code points up to 255.\<close>

definition trim_space :: "char \<Rightarrow> bool" where
  "trim_space c = (let n = (of_char c :: nat) in (9 \<le> n \<and> n \<le> 13) \<or> n = 32 \<or> n = 133 \<or> n = 160)"

definition trim :: "string \<Rightarrow> string" where
  "trim s = rev (dropWhile trim_space (rev (dropWhile trim_space s)))"

definition ascii_lower :: "char \<Rightarrow> bool" where
  "ascii_lower c = (97 \<le> (of_char c :: nat) \<and> (of_char c :: nat) \<le> 122)"

definition ascii_upper :: "char \<Rightarrow> bool" where
  "ascii_upper c = (65 \<le> (of_char c :: nat) \<and> (of_char c :: nat) \<le> 90)"

definition alnum :: "char \<Rightarrow> bool" where
  "alnum c = (ascii_lower c \<or> ascii_upper c \<or> is_digit c)"

definition id_pattern :: "string \<Rightarrow> bool" where
  "id_pattern s = (case s of [] \<Rightarrow> False
     | c # cs \<Rightarrow> alnum c \<and> list_all (\<lambda>d. alnum d \<or> d \<in> set ''_.:-'') cs)"

definition entity_identifier :: "string \<Rightarrow> string result" where
  "entity_identifier raw = (let s = trim raw in
     guard (1 \<le> length s \<and> length s \<le> 128 \<and> id_pattern s) ValueError (Inr s))"

definition idempotency_key :: "string \<Rightarrow> string result" where
  "idempotency_key raw = (let s = trim raw in
     guard (8 \<le> length s \<and> length s \<le> 128 \<and> id_pattern s) ValueError (Inr s))"

section \<open>Proposals, policies, usage\<close>

datatype stamp = Stamp (stamp_iso: string) (stamp_date: int)

record instrument =
  in_tenant_id :: string
  in_organization_id :: string
  virtual_card_id :: string
  virtual_card_token :: string
  in_active :: bool

record 'm spend_proposal =
  proposal_id :: string
  sp_tenant_id :: string
  sp_organization_id :: string
  sp_actor_id :: string
  sp_instrument :: instrument
  sp_purpose :: string
  sp_vendor :: string
  sp_category :: string
  sp_currency :: string
  sp_amount :: 'm
  sp_idempotency_key :: string
  requested_at :: stamp

record 'm treasury_policy =
  policy_id :: string
  policy_version :: int
  tp_tenant_id :: string
  tp_organization_id :: string
  tp_enabled :: bool
  allowed_categories :: "string list"
  allowed_vendors :: "string list"
  allowed_currencies :: "string list"
  per_transaction_limit :: 'm
  daily_limit :: 'm
  monthly_limit :: 'm
  approval_threshold :: 'm

record 'm spend_usage =
  us_tenant_id :: string
  us_organization_id :: string
  usage_date :: int
  daily_committed :: 'm
  monthly_committed :: 'm

fun all_results :: "'a result list \<Rightarrow> 'a list result" where
  "all_results [] = Inr []"
| "all_results (r # rs) = bind_result r (\<lambda>x. bind_result (all_results rs) (\<lambda>xs. Inr (x # xs)))"

text \<open>
  Validation: from raw values to a proposal, a policy, a usage. How pydantic normalises a
  category and a currency (whether the case is changed before or after the pattern is matched)
  is not in the repository: the two are the parameters \<open>cat\<close> and \<open>cur\<close>.
\<close>

definition SpendProposal ::
  "(string \<Rightarrow> string result) \<Rightarrow> (string \<Rightarrow> string result) \<Rightarrow> money_input spend_proposal
     \<Rightarrow> dec spend_proposal result" where
  "SpendProposal cat cur p =
     bind_result (entity_identifier (proposal_id p)) (\<lambda>pid.
     bind_result (entity_identifier (sp_tenant_id p)) (\<lambda>tenant.
     bind_result (entity_identifier (sp_organization_id p)) (\<lambda>org.
     bind_result (entity_identifier (sp_actor_id p)) (\<lambda>actor.
     bind_result (cat (sp_category p)) (\<lambda>category.
     bind_result (cur (sp_currency p)) (\<lambda>currency.
     bind_result (money (sp_amount p) False) (\<lambda>amount.
     bind_result (idempotency_key (sp_idempotency_key p)) (\<lambda>key.
       (let purpose = trim (sp_purpose p); vendor = trim (sp_vendor p) in
        guard (3 \<le> length purpose \<and> length purpose \<le> 500 \<and> 1 \<le> length vendor \<and> length vendor \<le> 200) ValueError
         (Inr \<lparr>proposal_id = pid, sp_tenant_id = tenant, sp_organization_id = org, sp_actor_id = actor,
               sp_instrument = sp_instrument p, sp_purpose = purpose, sp_vendor = vendor,
               sp_category = category, sp_currency = currency, sp_amount = amount, sp_idempotency_key = key,
               requested_at = requested_at p\<rparr>))))))))))"

definition normalise_vendors :: "string list \<Rightarrow> string list result" where
  "normalise_vendors values =
     (let ns = remdups (map (\<lambda>v. casefold (py_strip v)) (filter (\<lambda>v. py_strip v \<noteq> []) (map trim values)))
      in guard (list_all (\<lambda>v. length v \<le> 200) ns) ValueError (Inr ns))"

definition dec_positive :: "dec \<Rightarrow> bool" where
  "dec_positive d = (case d of Dec neg c e \<Rightarrow> \<not> neg \<and> c \<noteq> 0 | _ \<Rightarrow> False)"

definition dec_less :: "dec \<Rightarrow> dec \<Rightarrow> bool" where
  "dec_less a b = (\<not> amount_le (num_of (ADec b)) (num_of (ADec a)))"

definition TreasuryPolicy ::
  "(string \<Rightarrow> string result) \<Rightarrow> (string \<Rightarrow> string result) \<Rightarrow> money_input treasury_policy
     \<Rightarrow> dec treasury_policy result" where
  "TreasuryPolicy cat cur p =
     guard (1 \<le> policy_version p) ValueError
     (bind_result (entity_identifier (policy_id p)) (\<lambda>pid.
      bind_result (entity_identifier (tp_tenant_id p)) (\<lambda>tenant.
      bind_result (entity_identifier (tp_organization_id p)) (\<lambda>org.
      bind_result (all_results (map cat (allowed_categories p))) (\<lambda>cats.
      bind_result (normalise_vendors (allowed_vendors p)) (\<lambda>vendors.
      bind_result (all_results (map cur (allowed_currencies p))) (\<lambda>curs.
      bind_result (money (per_transaction_limit p) True) (\<lambda>per.
      bind_result (money (daily_limit p) True) (\<lambda>daily.
      bind_result (money (monthly_limit p) True) (\<lambda>monthly.
      bind_result (money (approval_threshold p) True) (\<lambda>threshold.
        if dec_positive daily \<and> dec_less daily per then Inl ValueError
        else if dec_positive monthly \<and> dec_less monthly daily then Inl ValueError
        else if dec_positive per \<and> dec_less per threshold then Inl ValueError
        else Inr \<lparr>policy_id = pid, policy_version = policy_version p, tp_tenant_id = tenant,
               tp_organization_id = org, tp_enabled = tp_enabled p, allowed_categories = cats,
               allowed_vendors = vendors, allowed_currencies = curs, per_transaction_limit = per,
               daily_limit = daily, monthly_limit = monthly, approval_threshold = threshold\<rparr>)))))))))))"

definition SpendUsage :: "money_input spend_usage \<Rightarrow> dec spend_usage result" where
  "SpendUsage u =
     bind_result (entity_identifier (us_tenant_id u)) (\<lambda>tenant.
     bind_result (entity_identifier (us_organization_id u)) (\<lambda>org.
     bind_result (money (daily_committed u) True) (\<lambda>daily.
     bind_result (money (monthly_committed u) True) (\<lambda>monthly.
       Inr \<lparr>us_tenant_id = tenant, us_organization_id = org, usage_date = usage_date u,
            daily_committed = daily, monthly_committed = monthly\<rparr>))))"

definition is_complete :: "dec treasury_policy \<Rightarrow> bool" where
  "is_complete p \<longleftrightarrow> allowed_categories p \<noteq> [] \<and> allowed_vendors p \<noteq> [] \<and> allowed_currencies p \<noteq> [] \<and>
     dec_positive (per_transaction_limit p) \<and> dec_positive (daily_limit p) \<and> dec_positive (monthly_limit p)"

section \<open>Fingerprints and decisions\<close>

definition token_fingerprint :: "('a codec_scheme) \<Rightarrow> string \<Rightarrow> string" where
  "token_fingerprint env token = take 16 (sha256_hex env token)"

definition fingerprint_payload :: "('a codec_scheme) \<Rightarrow> dec spend_proposal \<Rightarrow> json" where
  "fingerprint_payload env p = JObj
     [(''actor_id'', JStr (sp_actor_id p)), (''amount'', JStr (format_f (sp_amount p))),
      (''category'', JStr (sp_category p)), (''currency'', JStr (sp_currency p)),
      (''idempotency_key'', JStr (sp_idempotency_key p)),
      (''instrument_id'', JStr (virtual_card_id (sp_instrument p))),
      (''instrument_token_fingerprint'', JStr (token_fingerprint env (virtual_card_token (sp_instrument p)))),
      (''organization_id'', JStr (sp_organization_id p)), (''proposal_id'', JStr (proposal_id p)),
      (''purpose'', JStr (sp_purpose p)), (''requested_at'', JStr (stamp_iso (requested_at p))),
      (''tenant_id'', JStr (sp_tenant_id p)), (''vendor'', JStr (sp_vendor p))]"

definition fingerprint :: "('a codec_scheme) \<Rightarrow> dec spend_proposal \<Rightarrow> string" where
  "fingerprint env p = hash_json env (fingerprint_payload env p)"

record policy_decision =
  decision_id :: string
  pd_proposal_id :: string
  proposal_fingerprint :: string
  pd_idempotency_key :: string
  pd_policy_id :: "string option"
  pd_policy_version :: "int option"
  pd_outcome :: decision_outcome
  pd_reason :: decision_reason

fun outcome_value :: "decision_outcome \<Rightarrow> string" where
  "outcome_value ALLOW = ''allow''"
| "outcome_value APPROVAL_REQUIRED = ''approval_required''"
| "outcome_value DENY = ''deny''"

fun reason_value :: "decision_reason \<Rightarrow> string" where
  "reason_value WITHIN_POLICY = ''within_policy''"
| "reason_value APPROVAL_THRESHOLD = ''approval_threshold''"
| "reason_value POLICY_MISSING = ''policy_missing''"
| "reason_value POLICY_DISABLED = ''policy_disabled''"
| "reason_value POLICY_INCOMPLETE = ''policy_incomplete''"
| "reason_value POLICY_TENANT_MISMATCH = ''policy_tenant_mismatch''"
| "reason_value POLICY_ORGANIZATION_MISMATCH = ''policy_organization_mismatch''"
| "reason_value INSTRUMENT_OWNERSHIP_MISMATCH = ''instrument_ownership_mismatch''"
| "reason_value INSTRUMENT_INACTIVE = ''instrument_inactive''"
| "reason_value CATEGORY_NOT_ALLOWED = ''category_not_allowed''"
| "reason_value VENDOR_NOT_ALLOWED = ''vendor_not_allowed''"
| "reason_value CURRENCY_NOT_ALLOWED = ''currency_not_allowed''"
| "reason_value PER_TRANSACTION_LIMIT = ''per_transaction_limit''"
| "reason_value USAGE_UNAVAILABLE = ''usage_unavailable''"
| "reason_value USAGE_SNAPSHOT_MISMATCH = ''usage_snapshot_mismatch''"
| "reason_value DAILY_LIMIT = ''daily_limit''"
| "reason_value MONTHLY_LIMIT = ''monthly_limit''"
| "reason_value IDEMPOTENCY_CONFLICT = ''idempotency_conflict''"

definition make_decision ::
  "('a codec_scheme) \<Rightarrow> dec spend_proposal \<Rightarrow> dec treasury_policy option \<Rightarrow> decision_outcome \<Rightarrow> decision_reason
     \<Rightarrow> policy_decision" where
  "make_decision env p policy outcome reason =
     (let policy_identity = (case policy of None \<Rightarrow> ''none''
            | Some t \<Rightarrow> policy_id t @ '':'' @ show_int (policy_version t));
          name = fingerprint env p @ '':'' @ policy_identity @ '':'' @ outcome_value outcome @ '':'' @ reason_value reason
      in \<lparr>decision_id = uuid5_url env name, pd_proposal_id = proposal_id p,
          proposal_fingerprint = fingerprint env p, pd_idempotency_key = sp_idempotency_key p,
          pd_policy_id = map_option policy_id policy, pd_policy_version = map_option policy_version policy,
          pd_outcome = outcome, pd_reason = reason\<rparr>)"

section \<open>The decision table\<close>

definition evaluate_uncached ::
  "dec spend_proposal \<Rightarrow> dec treasury_policy option \<Rightarrow> dec spend_usage option \<Rightarrow> decision_outcome \<times> decision_reason" where
  "evaluate_uncached p policy usage =
     (case policy of
        None \<Rightarrow> (DENY, POLICY_MISSING)
      | Some t \<Rightarrow>
          if \<not> tp_enabled t then (DENY, POLICY_DISABLED)
          else if \<not> is_complete t then (DENY, POLICY_INCOMPLETE)
          else if sp_tenant_id p \<noteq> tp_tenant_id t then (DENY, POLICY_TENANT_MISMATCH)
          else if sp_organization_id p \<noteq> tp_organization_id t then (DENY, POLICY_ORGANIZATION_MISMATCH)
          else if in_tenant_id (sp_instrument p) \<noteq> sp_tenant_id p \<or>
                  in_organization_id (sp_instrument p) \<noteq> sp_organization_id p
            then (DENY, INSTRUMENT_OWNERSHIP_MISMATCH)
          else if \<not> in_active (sp_instrument p) then (DENY, INSTRUMENT_INACTIVE)
          else if sp_category p \<notin> set (allowed_categories t) then (DENY, CATEGORY_NOT_ALLOWED)
          else if casefold (sp_vendor p) \<notin> set (allowed_vendors t) then (DENY, VENDOR_NOT_ALLOWED)
          else if sp_currency p \<notin> set (allowed_currencies t) then (DENY, CURRENCY_NOT_ALLOWED)
          else decide_limits (ADec (sp_amount p)) (ADec (per_transaction_limit t)) (ADec (monthly_limit t))
                 (case usage of None \<Rightarrow> ANone | Some u \<Rightarrow> ADec (monthly_committed u))
                 (ADec (daily_limit t))
                 (case usage of None \<Rightarrow> ANone | Some u \<Rightarrow> ADec (daily_committed u))
                 (case usage of None \<Rightarrow> False | Some u \<Rightarrow>
                    us_tenant_id u = sp_tenant_id p \<and> us_organization_id u = sp_organization_id p \<and>
                    usage_date u = stamp_date (requested_at p))
                 (ADec (approval_threshold t)))"

section \<open>The decision store\<close>

record stored_decision =
  sd_fingerprint :: string
  sd_decision :: policy_decision

text \<open>\<open>SpendPolicyEngine.evaluate\<close> over a store's two operations.\<close>

definition scope_of :: "dec spend_proposal \<Rightarrow> string" where
  "scope_of p = sp_tenant_id p @ '':'' @ sp_organization_id p"

definition settle ::
  "('s \<Rightarrow> string \<Rightarrow> string \<Rightarrow> stored_decision \<Rightarrow> stored_decision \<times> 's) \<Rightarrow> ('a codec_scheme)
     \<Rightarrow> dec spend_proposal \<Rightarrow> dec treasury_policy option \<Rightarrow> dec spend_usage option \<Rightarrow> 's
     \<Rightarrow> policy_decision \<times> 's" where
  "settle put env p policy usage s =
     (case evaluate_uncached p policy usage of (outcome, reason) \<Rightarrow>
        (case put s (scope_of p) (sp_idempotency_key p)
            \<lparr>sd_fingerprint = fingerprint env p, sd_decision = make_decision env p policy outcome reason\<rparr> of
           (winner, s') \<Rightarrow>
             if sd_fingerprint winner = fingerprint env p then (sd_decision winner, s')
             else (make_decision env p policy DENY IDEMPOTENCY_CONFLICT, s')))"

definition evaluate ::
  "('s \<Rightarrow> string \<Rightarrow> string \<Rightarrow> stored_decision option)
     \<Rightarrow> ('s \<Rightarrow> string \<Rightarrow> string \<Rightarrow> stored_decision \<Rightarrow> stored_decision \<times> 's) \<Rightarrow> ('a codec_scheme)
     \<Rightarrow> dec spend_proposal \<Rightarrow> dec treasury_policy option \<Rightarrow> dec spend_usage option \<Rightarrow> 's
     \<Rightarrow> policy_decision \<times> 's" where
  "evaluate get put env p policy usage s =
     (case get s (scope_of p) (sp_idempotency_key p) of
        Some prior \<Rightarrow>
          if sd_fingerprint prior = fingerprint env p then (sd_decision prior, s)
          else (make_decision env p policy DENY IDEMPOTENCY_CONFLICT, s)
      | None \<Rightarrow> settle put env p policy usage s)"

text \<open>\<open>InMemoryDecisionStore\<close>.\<close>

type_synonym memory_store = "(string \<times> string, stored_decision) dict"

definition store_get :: "memory_store \<Rightarrow> string \<Rightarrow> string \<Rightarrow> stored_decision option" where
  "store_get s scope key = dict_get s (scope, key)"

definition store_put_if_absent ::
  "memory_store \<Rightarrow> string \<Rightarrow> string \<Rightarrow> stored_decision \<Rightarrow> stored_decision \<times> memory_store" where
  "store_put_if_absent s scope key r =
     (case dict_get s (scope, key) of Some w \<Rightarrow> (w, s) | None \<Rightarrow> (r, dict_set (scope, key) r s))"

text \<open>A sequence of evaluations, each of a proposal under the policy and usage of its moment.\<close>

type_synonym evaluation = "dec spend_proposal \<times> dec treasury_policy option \<times> dec spend_usage option"

fun run_evals ::
  "('s \<Rightarrow> string \<Rightarrow> string \<Rightarrow> stored_decision option)
     \<Rightarrow> ('s \<Rightarrow> string \<Rightarrow> string \<Rightarrow> stored_decision \<Rightarrow> stored_decision \<times> 's) \<Rightarrow> ('a codec_scheme)
     \<Rightarrow> evaluation list \<Rightarrow> 's \<Rightarrow> 's" where
  "run_evals get put env [] s = s"
| "run_evals get put env ((p, policy, usage) # es) s =
     run_evals get put env es (snd (evaluate get put env p policy usage s))"

section \<open>What a store promises\<close>

text \<open>
  The \<open>DecisionStore\<close> protocol: \<open>put_if_absent\<close> returns the record that is there afterwards,
  the one that was there before when there was one, and touches no other key.
\<close>

locale decision_store =
  fixes get :: "'s \<Rightarrow> string \<Rightarrow> string \<Rightarrow> stored_decision option"
    and put :: "'s \<Rightarrow> string \<Rightarrow> string \<Rightarrow> stored_decision \<Rightarrow> stored_decision \<times> 's"
  assumes put_winner: "put s sc k r = (w, s') \<Longrightarrow> w = (case get s sc k of None \<Rightarrow> r | Some w' \<Rightarrow> w')"
    and get_put: "put s sc k r = (w, s') \<Longrightarrow> get s' sc' k' = (if sc' = sc \<and> k' = k then Some w else get s sc' k')"
begin

lemma put_keeps:
  assumes "put s sc k r = (w, s')" "get s sc' k' = Some x"
  shows "get s' sc' k' = Some x"
  using get_put [OF assms(1), of sc' k'] put_winner [OF assms(1)] assms(2) by (auto split: if_splits)

lemma settle_store:
  assumes "settle put env p policy usage s = (d, s')"
  shows "\<exists>r w. put s (scope_of p) (sp_idempotency_key p) r = (w, s') \<and> sd_fingerprint r = fingerprint env p \<and>
     sd_decision r = make_decision env p policy (fst (evaluate_uncached p policy usage)) (snd (evaluate_uncached p policy usage)) \<and>
     (sd_fingerprint w = fingerprint env p \<and> d = sd_decision w \<or>
      sd_fingerprint w \<noteq> fingerprint env p \<and> d = make_decision env p policy DENY IDEMPOTENCY_CONFLICT)"
proof -
  obtain outcome reason where u: "evaluate_uncached p policy usage = (outcome, reason)" by fastforce
  define r where "r = \<lparr>sd_fingerprint = fingerprint env p, sd_decision = make_decision env p policy outcome reason\<rparr>"
  obtain w s'' where put: "put s (scope_of p) (sp_idempotency_key p) r = (w, s'')" by fastforce
  have "s'' = s' \<and> (sd_fingerprint w = fingerprint env p \<and> d = sd_decision w \<or>
      sd_fingerprint w \<noteq> fingerprint env p \<and> d = make_decision env p policy DENY IDEMPOTENCY_CONFLICT)"
    using assms put unfolding settle_def u r_def by (auto split: if_splits)
  then show ?thesis using put u by (intro exI [of _ r] exI [of _ w]) (simp add: r_def)
qed

lemma evaluate_keeps:
  assumes "evaluate get put env p policy usage s = (d, s')" "get s sc k = Some x"
  shows "get s' sc k = Some x"
proof (cases "get s (scope_of p) (sp_idempotency_key p)")
  case None
  then have "settle put env p policy usage s = (d, s')" using assms(1) by (simp add: evaluate_def)
  then show ?thesis using settle_store put_keeps assms(2) by metis
next
  case (Some prior)
  then show ?thesis using assms by (auto simp: evaluate_def split: if_splits)
qed

lemma evaluate_fresh:
  assumes "evaluate get put env p policy usage s = (d, s')" "get s (scope_of p) (sp_idempotency_key p) = None"
  shows "d = make_decision env p policy (fst (evaluate_uncached p policy usage)) (snd (evaluate_uncached p policy usage)) \<and>
    get s' (scope_of p) (sp_idempotency_key p) = Some \<lparr>sd_fingerprint = fingerprint env p, sd_decision = d\<rparr>"
proof -
  have "settle put env p policy usage s = (d, s')" using assms by (simp add: evaluate_def)
  then obtain r w where r: "put s (scope_of p) (sp_idempotency_key p) r = (w, s')" "sd_fingerprint r = fingerprint env p"
    "sd_decision r = make_decision env p policy (fst (evaluate_uncached p policy usage)) (snd (evaluate_uncached p policy usage))"
    "sd_fingerprint w = fingerprint env p \<and> d = sd_decision w \<or> sd_fingerprint w \<noteq> fingerprint env p \<and>
      d = make_decision env p policy DENY IDEMPOTENCY_CONFLICT"
    using settle_store by blast
  have w: "w = r" using put_winner [OF r(1)] assms(2) by simp
  then have "w = \<lparr>sd_fingerprint = fingerprint env p, sd_decision = d\<rparr>"
    using r(2,4) by (cases w) auto
  then show ?thesis using get_put [OF r(1), of "scope_of p" "sp_idempotency_key p"] r(3,4) w r(2) by simp
qed

text \<open>A settled key answers every later evaluation of it.\<close>

lemma evaluate_settled:
  assumes "get s (scope_of q) (sp_idempotency_key q) = Some \<lparr>sd_fingerprint = f, sd_decision = d\<rparr>"
  shows "evaluate get put env q policy usage s =
    (if f = fingerprint env q then d else make_decision env q policy DENY IDEMPOTENCY_CONFLICT, s)"
  using assms by (simp add: evaluate_def)

lemma run_keeps: "get s sc k = Some x \<Longrightarrow> get (run_evals get put env es s) sc k = Some x"
proof (induction es arbitrary: s)
  case (Cons e es)
  obtain p policy usage where e: "e = (p, policy, usage)" by (cases e)
  obtain d s' where ev: "evaluate get put env p policy usage s = (d, s')" by fastforce
  show ?case using Cons.IH [OF evaluate_keeps [OF ev Cons.prems]] e ev by simp
qed simp

text \<open>Two evaluations that both missed the key and settle one after the other.\<close>

lemma settle_race:
  assumes "settle put env p policy usage s = (d, s1)" "settle put env q policy' usage' s1 = (d', s2)"
    and "scope_of p = scope_of q" "sp_idempotency_key p = sp_idempotency_key q"
    and "fingerprint env p = fingerprint env q" "get s (scope_of p) (sp_idempotency_key p) = None"
  shows "d' = d"
proof -
  have "evaluate get put env p policy usage s = (d, s1)" using assms(1,6) by (simp add: evaluate_def)
  from evaluate_fresh [OF this assms(6)]
  have g: "get s1 (scope_of q) (sp_idempotency_key q) = Some \<lparr>sd_fingerprint = fingerprint env p, sd_decision = d\<rparr>"
    using assms(3,4) by simp
  obtain r w where "put s1 (scope_of q) (sp_idempotency_key q) r = (w, s2)"
    "sd_fingerprint w = fingerprint env q \<and> d' = sd_decision w \<or> sd_fingerprint w \<noteq> fingerprint env q \<and>
      d' = make_decision env q policy' DENY IDEMPOTENCY_CONFLICT"
    using settle_store [OF assms(2)] by blast
  then show ?thesis using put_winner g assms(5) by fastforce
qed

end

interpretation mem: decision_store store_get store_put_if_absent
  by unfold_locales (auto simp: store_get_def store_put_if_absent_def split: option.splits if_splits)

section \<open>Requests\<close>

text \<open>The validators of the two requests a provider receives.\<close>

definition OperationalAuthorizationRequest ::
  "('a codec_scheme) \<Rightarrow> dec spend_proposal \<Rightarrow> policy_decision \<Rightarrow> (dec spend_proposal \<times> policy_decision) result" where
  "OperationalAuthorizationRequest env p d =
     (if pd_outcome d \<noteq> ALLOW then Inl ValueError
      else if pd_proposal_id d \<noteq> proposal_id p \<or> proposal_fingerprint d \<noteq> fingerprint env p \<or>
              pd_idempotency_key d \<noteq> sp_idempotency_key p then Inl ValueError
      else Inr (p, d))"

record provision_request =
  pr_tenant_id :: string
  pr_organization_id :: string
  pr_policy :: "dec treasury_policy"
  pr_expires_aware :: "bool option"

definition VirtualCardProvisionRequest :: "provision_request \<Rightarrow> provision_request result" where
  "VirtualCardProvisionRequest r =
     (if pr_expires_aware r = Some False then Inl ValueError
      else if tp_tenant_id (pr_policy r) \<noteq> pr_tenant_id r \<or>
              tp_organization_id (pr_policy r) \<noteq> pr_organization_id r then Inl ValueError
      else if \<not> tp_enabled (pr_policy r) \<or> \<not> is_complete (pr_policy r) then Inl ValueError
      else Inr r)"

section \<open>Authority\<close>

datatype authority_tier =
    OBSERVE_TIER | REVERSIBLE_TIER | CONTROLLED_COMMITMENT | PRODUCTION_TIER | AUTHORITY_EXPANSION

fun tier_value :: "authority_tier \<Rightarrow> nat" where
  "tier_value OBSERVE_TIER = 0"
| "tier_value REVERSIBLE_TIER = 1"
| "tier_value CONTROLLED_COMMITMENT = 2"
| "tier_value PRODUCTION_TIER = 3"
| "tier_value AUTHORITY_EXPANSION = 4"

datatype action_kind =
    OBSERVE | LEARNING_UPDATE | REVERSIBLE_OPERATION | EXTERNAL_COMMITMENT | OPERATIONAL_SPEND
  | PRODUCTION_CHANGE | SELF_MODIFICATION | AUTHORITY_CHANGE

fun action_tier :: "action_kind \<Rightarrow> authority_tier" where
  "action_tier OBSERVE = OBSERVE_TIER"
| "action_tier LEARNING_UPDATE = REVERSIBLE_TIER"
| "action_tier REVERSIBLE_OPERATION = REVERSIBLE_TIER"
| "action_tier EXTERNAL_COMMITMENT = CONTROLLED_COMMITMENT"
| "action_tier OPERATIONAL_SPEND = CONTROLLED_COMMITMENT"
| "action_tier PRODUCTION_CHANGE = PRODUCTION_TIER"
| "action_tier SELF_MODIFICATION = PRODUCTION_TIER"
| "action_tier AUTHORITY_CHANGE = AUTHORITY_EXPANSION"

datatype authority_reason =
    WITHIN_DELEGATED_AUTHORITY | OWNERSHIP_MISMATCH | OUTSIDE_DELEGATED_TIER
  | EXTERNAL_COMMITMENT_REQUIRES_APPROVAL | TREASURY_DECISION_REQUIRED | TREASURY_DECISION_MISMATCH
  | TREASURY_DENIED | TREASURY_APPROVAL_REQUIRED | AUTONOMOUS_SPEND_DISABLED
  | PRODUCTION_CHANGE_REQUIRES_APPROVAL | SELF_MODIFICATION_REQUIRES_APPROVAL
  | AUTHORITY_CHANGE_REQUIRES_APPROVAL

record entity_action =
  action_id :: string
  ea_tenant_id :: string
  ea_organization_id :: string
  ea_kind :: action_kind
  ea_subject_id :: "string option"

record authority_policy =
  ap_policy_id :: string
  ap_version :: int
  ap_tenant_id :: string
  ap_organization_id :: string
  max_automatic_tier :: authority_tier
  allow_autonomous_controlled_spend :: bool
  allow_autonomous_external_commitments :: bool

text \<open>Outcome and reason; the decision's record adds the identities of action and policy.\<close>

definition authority_evaluate ::
  "entity_action \<Rightarrow> authority_policy \<Rightarrow> policy_decision option \<Rightarrow> decision_outcome \<times> authority_reason" where
  "authority_evaluate a p treasury =
     (if ea_tenant_id a \<noteq> ap_tenant_id p \<or> ea_organization_id a \<noteq> ap_organization_id p
        then (DENY, OWNERSHIP_MISMATCH)
      else if ea_kind a = PRODUCTION_CHANGE then (APPROVAL_REQUIRED, PRODUCTION_CHANGE_REQUIRES_APPROVAL)
      else if ea_kind a = SELF_MODIFICATION then (APPROVAL_REQUIRED, SELF_MODIFICATION_REQUIRES_APPROVAL)
      else if ea_kind a = AUTHORITY_CHANGE then (APPROVAL_REQUIRED, AUTHORITY_CHANGE_REQUIRES_APPROVAL)
      else if ea_kind a = OPERATIONAL_SPEND then
        (case treasury of
           None \<Rightarrow> (DENY, TREASURY_DECISION_REQUIRED)
         | Some d \<Rightarrow>
             if ea_subject_id a \<noteq> Some (pd_proposal_id d) then (DENY, TREASURY_DECISION_MISMATCH)
             else if pd_outcome d = DENY then (DENY, TREASURY_DENIED)
             else if pd_outcome d = APPROVAL_REQUIRED then (APPROVAL_REQUIRED, TREASURY_APPROVAL_REQUIRED)
             else if \<not> allow_autonomous_controlled_spend p then (APPROVAL_REQUIRED, AUTONOMOUS_SPEND_DISABLED)
             else if tier_value (action_tier (ea_kind a)) > tier_value (max_automatic_tier p)
               then (APPROVAL_REQUIRED, OUTSIDE_DELEGATED_TIER)
             else (ALLOW, WITHIN_DELEGATED_AUTHORITY))
      else if ea_kind a = EXTERNAL_COMMITMENT \<and> \<not> allow_autonomous_external_commitments p
        then (APPROVAL_REQUIRED, EXTERNAL_COMMITMENT_REQUIRES_APPROVAL)
      else if tier_value (action_tier (ea_kind a)) > tier_value (max_automatic_tier p)
        then (APPROVAL_REQUIRED, OUTSIDE_DELEGATED_TIER)
      else (ALLOW, WITHIN_DELEGATED_AUTHORITY))"

section \<open>Properties\<close>

text \<open>
  C4: an allow is earned. Whatever policy and usage there are, or are missing, a validated
  proposal is allowed, or sent for approval, only when there is an enabled and complete policy of
  its own tenant and organization and a usage snapshot of them for its own day, on an active
  instrument of theirs, for a listed category, vendor and currency, and only
  when, with no rounding, the amount is within the transaction limit and the day's and the
  month's committed totals with it are within theirs; below the threshold it is allowed.
\<close>

theorem treasury_allow_sound:
  assumes "SpendProposal cat cur rp = Inr p"
    and "\<forall>t. policy = Some t \<longrightarrow> (\<exists>rt. TreasuryPolicy cat cur rt = Inr t)"
    and "\<forall>u. usage = Some u \<longrightarrow> (\<exists>ru. SpendUsage ru = Inr u)"
    and "evaluate_uncached p policy usage = (outcome, reason)" "outcome \<noteq> DENY"
  shows "\<exists>t u. policy = Some t \<and> usage = Some u \<and> tp_enabled t \<and> is_complete t \<and>
    sp_tenant_id p = tp_tenant_id t \<and> sp_organization_id p = tp_organization_id t \<and>
    in_tenant_id (sp_instrument p) = sp_tenant_id p \<and> in_organization_id (sp_instrument p) = sp_organization_id p \<and>
    in_active (sp_instrument p) \<and> sp_category p \<in> set (allowed_categories t) \<and>
    casefold (sp_vendor p) \<in> set (allowed_vendors t) \<and> sp_currency p \<in> set (allowed_currencies t) \<and>
    us_tenant_id u = sp_tenant_id p \<and> us_organization_id u = sp_organization_id p \<and>
    usage_date u = stamp_date (requested_at p) \<and> 0 < units (sp_amount p) \<and>
    units (sp_amount p) \<le> units (per_transaction_limit t) \<and>
    units (daily_committed u) + units (sp_amount p) \<le> units (daily_limit t) \<and>
    units (monthly_committed u) + units (sp_amount p) \<le> units (monthly_limit t) \<and>
    (outcome = ALLOW \<longleftrightarrow> units (sp_amount p) < units (approval_threshold t))"
proof -
  obtain t where t0: "policy = Some t" using assms(4,5) by (cases policy) (auto simp: evaluate_uncached_def)
  obtain u where u0: "usage = Some u"
    using assms(4,5) t0 by (cases usage) (auto simp: evaluate_uncached_def decide_limits_def split: if_splits)
  obtain rt ru where v: "TreasuryPolicy cat cur rt = Inr t" "SpendUsage ru = Inr u"
    using assms(2,3) t0 u0 by blast
  have a: "money_value (sp_amount p)" "0 < units (sp_amount p)"
    using assms(1) by (auto simp: SpendProposal_def Let_def dest: money_value_money)
  have t: "money_value (per_transaction_limit t)" "money_value (daily_limit t)" "money_value (monthly_limit t)"
    "money_value (approval_threshold t)"
    using v(1) by (auto simp: TreasuryPolicy_def dest: money_value_money split: if_splits)
  have u: "money_value (daily_committed u)" "money_value (monthly_committed u)"
    using v(2) by (auto simp: SpendUsage_def dest: money_value_money)
  note valid = money_value_valid [OF a(1)] money_value_valid [OF t(1)] money_value_valid [OF t(2)]
    money_value_valid [OF t(3)] money_value_valid [OF t(4)] money_value_valid [OF u(1)] money_value_valid [OF u(2)]
  note exact = zero_units [OF a(1) t(1)] within_limit_units [OF u(1) a(1) t(2)] within_limit_units [OF u(2) a(1) t(3)]
    amount_le_units [OF t(4) a(1)]
  show ?thesis using assms(4,5) a(2) valid
    unfolding t0 u0 evaluate_uncached_def option.case decide_limits_def exact
    by (auto split: if_splits)
qed

text \<open>
  decisions are replayed, not recomputed. Once a proposal is decided under a fresh key, every
  later evaluation of it returns that same decision, whatever was evaluated in between and
  however its policy and usage changed; another proposal under the same key is denied.
\<close>

theorem treasury_replay:
  assumes "evaluate store_get store_put_if_absent env p policy usage s = (d, s')"
    and "store_get s (scope_of p) (sp_idempotency_key p) = None"
    and "scope_of q = scope_of p" "sp_idempotency_key q = sp_idempotency_key p"
  shows "fst (evaluate store_get store_put_if_absent env q policy' usage'
             (run_evals store_get store_put_if_absent env es s')) =
    (if fingerprint env q = fingerprint env p then d
     else make_decision env q policy' DENY IDEMPOTENCY_CONFLICT)"
proof -
  have "store_get s' (scope_of p) (sp_idempotency_key p) = Some \<lparr>sd_fingerprint = fingerprint env p, sd_decision = d\<rparr>"
    using mem.evaluate_fresh [OF assms(1,2)] by blast
  from mem.run_keeps [OF this, of env es]
  show ?thesis by (subst mem.evaluate_settled) (auto simp: assms(3,4))
qed

text \<open>
  Two engines that both missed a key and settle it one after the other over a shared store
  hand out one decision, whatever policy and usage each of them saw.
\<close>

theorem treasury_race_agrees:
  assumes "store_get s (scope_of p) (sp_idempotency_key p) = None"
    and "settle store_put_if_absent env p policy usage s = (d, s1)"
    and "settle store_put_if_absent env p policy' usage' s1 = (d', s2)"
  shows "d' = d"
  by (rule mem.settle_race [OF assms(2,3) refl refl refl assms(1)])

text \<open>
  An authorization can be built only for the very proposal that was decided, and only when it
  was allowed: every fingerprinted field agrees, or the two payloads themselves collide.
\<close>

theorem authorization_bound_to_proposal:
  assumes "store_get s (scope_of p) (sp_idempotency_key p) = None"
    and "evaluate store_get store_put_if_absent env p policy usage s = (d, s')"
    and "OperationalAuthorizationRequest env q d = Inr req"
  shows "fst (evaluate_uncached p policy usage) = ALLOW \<and>
    (fingerprint_payload env q \<noteq> fingerprint_payload env p \<longrightarrow>
       hash_json env (fingerprint_payload env q) = hash_json env (fingerprint_payload env p))"
proof -
  have d: "d = make_decision env p policy (fst (evaluate_uncached p policy usage)) (snd (evaluate_uncached p policy usage))"
    using mem.evaluate_fresh [OF assms(2,1)] by blast
  have "pd_outcome d = ALLOW" "proposal_fingerprint d = fingerprint env q"
    using assms(3) by (auto simp: OperationalAuthorizationRequest_def split: if_splits)
  then have "fst (evaluate_uncached p policy usage) = ALLOW" "fingerprint env p = fingerprint env q"
    unfolding d by (simp_all add: make_decision_def Let_def)
  then show ?thesis by (simp add: fingerprint_def)
qed

text \<open>
  Two tenants can share a scope. When tenant and organization of two proposals concatenate to
  the same text and their keys are equal, the second is denied as a conflict with the first,
  although they are of different tenants.
\<close>

theorem scope_collision_denies:
  assumes "sp_tenant_id p @ '':'' @ sp_organization_id p = sp_tenant_id q @ '':'' @ sp_organization_id q"
    and "sp_idempotency_key p = sp_idempotency_key q" "fingerprint env p \<noteq> fingerprint env q"
    and "store_get s (scope_of p) (sp_idempotency_key p) = None"
  shows "pd_reason (fst (evaluate store_get store_put_if_absent env q policy' usage'
      (snd (evaluate store_get store_put_if_absent env p policy usage s)))) = IDEMPOTENCY_CONFLICT"
proof -
  obtain d s' where ev: "evaluate store_get store_put_if_absent env p policy usage s = (d, s')" by fastforce
  have sc: "scope_of q = scope_of p" using assms(1) by (simp add: scope_of_def)
  have "store_get s' (scope_of q) (sp_idempotency_key q) = Some \<lparr>sd_fingerprint = fingerprint env p, sd_decision = d\<rparr>"
    using mem.evaluate_fresh [OF ev assms(4)] sc assms(2) by simp
  then show ?thesis using assms(3) ev
    by (simp add: mem.evaluate_settled make_decision_def Let_def)
qed

text \<open>
  The hard boundaries hold for every policy: an action is allowed without a person only inside
  its own tenant and organization, never a production change, a self-modification or a change
  of authority, within the delegated tier, and a spend only with an allowing treasury decision
  for its subject and the policy's leave to spend.
\<close>

theorem authority_allow_exact:
  "fst (authority_evaluate a p treasury) = ALLOW \<longleftrightarrow>
   ea_tenant_id a = ap_tenant_id p \<and> ea_organization_id a = ap_organization_id p \<and>
   ea_kind a \<notin> {PRODUCTION_CHANGE, SELF_MODIFICATION, AUTHORITY_CHANGE} \<and>
   tier_value (action_tier (ea_kind a)) \<le> tier_value (max_automatic_tier p) \<and>
   (ea_kind a = EXTERNAL_COMMITMENT \<longrightarrow> allow_autonomous_external_commitments p) \<and>
   (ea_kind a = OPERATIONAL_SPEND \<longrightarrow> allow_autonomous_controlled_spend p \<and>
      (\<exists>d. treasury = Some d \<and> pd_outcome d = ALLOW \<and> ea_subject_id a = Some (pd_proposal_id d)))"
proof (cases treasury)
  case None
  then show ?thesis by (auto simp: authority_evaluate_def)
next
  case (Some d)
  then show ?thesis by (cases "pd_outcome d") (auto simp: authority_evaluate_def)
qed

section \<open>A concrete purchase\<close>

definition policy_codec :: codec where
  "policy_codec = \<lparr>json_loads = (\<lambda>_. None),
     json_dumps = (\<lambda>j. case j of JObj kvs \<Rightarrow> concat (map (\<lambda>kv. case snd kv of JStr s \<Rightarrow> s @ ''|'' | _ \<Rightarrow> []) kvs) | _ \<Rightarrow> []),
     sha256_hex = id, uuid5_url = id\<rparr>"

definition sample_proposal :: "string \<Rightarrow> string \<Rightarrow> money_input spend_proposal" where
  "sample_proposal tenant org = \<lparr>proposal_id = ''p1'', sp_tenant_id = tenant, sp_organization_id = org,
     sp_actor_id = ''main'', sp_instrument = \<lparr>in_tenant_id = tenant, in_organization_id = org,
       virtual_card_id = ''v1'', virtual_card_token = ''tok-00000001'', in_active = True\<rparr>,
     sp_purpose = ''hosting'', sp_vendor = ''Acme'', sp_category = ''infra'', sp_currency = ''USD'',
     sp_amount = MText ''19.99'', sp_idempotency_key = ''key-0001'', requested_at = Stamp ''2026-01-01T00:00:00+00:00'' 5\<rparr>"

definition sample_policy :: "money_input treasury_policy" where
  "sample_policy = \<lparr>policy_id = ''pol'', policy_version = 1, tp_tenant_id = ''t'', tp_organization_id = ''o'',
     tp_enabled = True, allowed_categories = [''infra''], allowed_vendors = ['' Acme ''],
     allowed_currencies = [''USD''], per_transaction_limit = MInt 50, daily_limit = MInt 100,
     monthly_limit = MInt 1000, approval_threshold = MInt 20\<rparr>"

definition sample_usage :: "money_input spend_usage" where
  "sample_usage = \<lparr>us_tenant_id = ''t'', us_organization_id = ''o'', usage_date = 5,
     daily_committed = MText ''80.01'', monthly_committed = MInt 500\<rparr>"

definition decided :: "dec spend_proposal \<Rightarrow> policy_decision \<times> memory_store" where
  "decided p = evaluate store_get store_put_if_absent policy_codec p None None []"

lemma sample_money:
  "money (MText ''19.99'') False = Inr (Dec False 1999 (- 2))" "money (MText ''80.01'') True = Inr (Dec False 8001 (- 2))"
  "money (MInt 50) True = Inr (Dec False 50 0)" "money (MInt 100) True = Inr (Dec False 100 0)"
  "money (MInt 1000) True = Inr (Dec False 1000 0)" "money (MInt 500) True = Inr (Dec False 500 0)"
  "money (MInt 20) True = Inr (Dec False 20 0)"
  by (simp_all add: money_def parse_money_def decimal_of_string_def parse_number_def parse_exponent_def
      drop_sign_def all_digits_def digits_value_def py_strip_def is_space_def py_lower_def is_digit_def
      digit_val_def amount_le_def num_le_def scale_to_def signed_def MAX_AMOUNT_def Let_def)

lemma sample_ids:
  "entity_identifier ''p1'' = Inr ''p1''" "entity_identifier ''t'' = Inr ''t''" "entity_identifier ''o'' = Inr ''o''"
  "entity_identifier ''main'' = Inr ''main''" "entity_identifier ''pol'' = Inr ''pol''"
  "idempotency_key ''key-0001'' = Inr ''key-0001''" "normalise_vendors ['' Acme ''] = Inr [''acme'']"
  "trim ''hosting'' = ''hosting''" "trim ''Acme'' = ''Acme''" "casefold ''Acme'' = ''acme''"
  by code_simp+

lemma sample_valid:
  "\<exists>p t u. SpendProposal Inr Inr (sample_proposal ''t'' ''o'') = Inr p \<and> TreasuryPolicy Inr Inr sample_policy = Inr t \<and>
     SpendUsage sample_usage = Inr u \<and> fst (evaluate_uncached p (Some t) (Some u)) = ALLOW \<and>
     sp_amount p = Dec False 1999 (- 2) \<and> daily_committed u = Dec False 8001 (- 2) \<and> daily_limit t = Dec False 100 0"
proof -
  obtain p where p: "SpendProposal Inr Inr (sample_proposal ''t'' ''o'') = Inr p"
    "sp_tenant_id p = ''t''" "sp_organization_id p = ''o''" "in_tenant_id (sp_instrument p) = ''t''"
    "in_organization_id (sp_instrument p) = ''o''" "in_active (sp_instrument p)" "sp_category p = ''infra''"
    "sp_vendor p = ''Acme''" "sp_currency p = ''USD''" "sp_amount p = Dec False 1999 (- 2)"
    "stamp_date (requested_at p) = 5"
    by (simp add: SpendProposal_def sample_proposal_def sample_ids sample_money Let_def)
  obtain t where t: "TreasuryPolicy Inr Inr sample_policy = Inr t" "tp_tenant_id t = ''t''" "tp_organization_id t = ''o''"
    "tp_enabled t" "allowed_categories t = [''infra'']" "allowed_vendors t = [''acme'']" "allowed_currencies t = [''USD'']"
    "per_transaction_limit t = Dec False 50 0" "daily_limit t = Dec False 100 0" "monthly_limit t = Dec False 1000 0"
    "approval_threshold t = Dec False 20 0"
    by (simp add: TreasuryPolicy_def sample_policy_def sample_ids sample_money dec_positive_def dec_less_def
        amount_le_def num_le_def scale_to_def signed_def Let_def)
  define u where "u = \<lparr>us_tenant_id = ''t'', us_organization_id = ''o'', usage_date = 5,
     daily_committed = Dec False 8001 (- 2), monthly_committed = Dec False 500 0\<rparr>"
  have u: "SpendUsage sample_usage = Inr u"
    by (simp add: SpendUsage_def sample_usage_def sample_ids sample_money u_def)
  have m: "money_value (Dec False 1999 (- 2))" "money_value (Dec False 8001 (- 2))" "money_value (Dec False 50 0)"
    "money_value (Dec False 100 0)" "money_value (Dec False 1000 0)" "money_value (Dec False 500 0)"
    "money_value (Dec False 20 0)"
    using sample_money money_value_money by blast+
  have "fst (decide_limits (ADec (Dec False 1999 (- 2))) (ADec (Dec False 50 0)) (ADec (Dec False 1000 0))
      (ADec (Dec False 500 0)) (ADec (Dec False 100 0)) (ADec (Dec False 8001 (- 2))) True (ADec (Dec False 20 0))) = ALLOW"
    unfolding decide_limits_def zero_units [OF m(1,3)] within_limit_units [OF m(2,1,4)]
      within_limit_units [OF m(6,1,5)] amount_le_units [OF m(7,1)]
    by (simp add: signed_def)
  then have "fst (evaluate_uncached p (Some t) (Some u)) = ALLOW"
    by (simp add: evaluate_uncached_def is_complete_def dec_positive_def p t u_def sample_ids)
  moreover have "daily_committed u = Dec False 8001 (- 2)" by (simp add: u_def)
  ultimately show ?thesis using p t u by blast
qed

theorem treasury_allow_sound_witness:
  "\<exists>p t u. SpendProposal Inr Inr (sample_proposal ''t'' ''o'') = Inr p \<and> TreasuryPolicy Inr Inr sample_policy = Inr t \<and>
     SpendUsage sample_usage = Inr u \<and> units (daily_committed u) + units (sp_amount p) \<le> units (daily_limit t)"
proof -
  obtain p t u where s: "SpendProposal Inr Inr (sample_proposal ''t'' ''o'') = Inr p" "TreasuryPolicy Inr Inr sample_policy = Inr t"
     "SpendUsage sample_usage = Inr u" "fst (evaluate_uncached p (Some t) (Some u)) = ALLOW"
    using sample_valid by blast
  obtain r where "evaluate_uncached p (Some t) (Some u) = (ALLOW, r)"
    using s(4) by (cases "evaluate_uncached p (Some t) (Some u)") auto
  then have "\<exists>t' u'. Some t = Some t' \<and> Some u = Some u' \<and>
      units (daily_committed u') + units (sp_amount p) \<le> units (daily_limit t')"
    using treasury_allow_sound [OF s(1), of "Some t" "Some u" ALLOW r] s(2,3) by blast
  then show ?thesis using s(1-3) by auto
qed

lemma sample_absent: "store_get [] (scope_of p) (sp_idempotency_key p) = None"
  by (simp add: store_get_def)

theorem treasury_replay_witness:
  "\<exists>p t. TreasuryPolicy Inr Inr sample_policy = Inr t \<and>
     pd_reason (fst (evaluate store_get store_put_if_absent policy_codec p (Some t) None (snd (decided p)))) = POLICY_MISSING"
proof -
  obtain p t where p: "SpendProposal Inr Inr (sample_proposal ''t'' ''o'') = Inr p" "TreasuryPolicy Inr Inr sample_policy = Inr t"
    using sample_valid by blast
  obtain d s' where d: "evaluate store_get store_put_if_absent policy_codec p None None [] = (d, s')" by fastforce
  have dd: "d = make_decision policy_codec p None DENY POLICY_MISSING"
    using mem.evaluate_fresh [OF d sample_absent] by (simp add: evaluate_uncached_def)
  have "fst (evaluate store_get store_put_if_absent policy_codec p (Some t) None
      (run_evals store_get store_put_if_absent policy_codec [] s')) = d"
    using treasury_replay [OF d sample_absent refl refl, of "Some t" None "[]"] by simp
  then have "pd_reason (fst (evaluate store_get store_put_if_absent policy_codec p (Some t) None (snd (decided p)))) = POLICY_MISSING"
    using d dd by (simp add: decided_def make_decision_def Let_def)
  then show ?thesis using p(2) by blast
qed

theorem treasury_race_agrees_witness:
  "\<exists>p t d s1 s2. settle store_put_if_absent policy_codec p None None [] = (d, s1) \<and>
     settle store_put_if_absent policy_codec p (Some t) None s1 = (d, s2)"
proof -
  obtain p t where "SpendProposal Inr Inr (sample_proposal ''t'' ''o'') = Inr p" "TreasuryPolicy Inr Inr sample_policy = Inr t"
    using sample_valid by blast
  obtain d s1 where d: "settle store_put_if_absent policy_codec p None None [] = (d, s1)" by fastforce
  obtain d' s2 where d': "settle store_put_if_absent policy_codec p (Some t) None s1 = (d', s2)" by fastforce
  have "d' = d" by (rule treasury_race_agrees [OF sample_absent d d'])
  then show ?thesis using d d' by blast
qed

theorem authorization_bound_to_proposal_witness:
  "\<exists>p t u d req. evaluate store_get store_put_if_absent policy_codec p (Some t) (Some u) [] = d \<and>
     OperationalAuthorizationRequest policy_codec p (fst d) = Inr req \<and> fst (evaluate_uncached p (Some t) (Some u)) = ALLOW"
proof -
  obtain p t u where al: "fst (evaluate_uncached p (Some t) (Some u)) = ALLOW" using sample_valid by blast
  obtain d s' where d: "evaluate store_get store_put_if_absent policy_codec p (Some t) (Some u) [] = (d, s')" by fastforce
  have "d = make_decision policy_codec p (Some t) ALLOW (snd (evaluate_uncached p (Some t) (Some u)))"
    using mem.evaluate_fresh [OF d sample_absent] al by simp
  then have req: "OperationalAuthorizationRequest policy_codec p d = Inr (p, d)"
    by (simp add: OperationalAuthorizationRequest_def make_decision_def Let_def)
  have "fst (evaluate_uncached p (Some t) (Some u)) = ALLOW"
    using authorization_bound_to_proposal [OF sample_absent d req] by blast
  then show ?thesis using d req by (metis fst_conv)
qed

theorem scope_collision_denies_witness:
  "\<exists>p q. SpendProposal Inr Inr (sample_proposal ''a:b'' ''c'') = Inr p \<and>
     SpendProposal Inr Inr (sample_proposal ''a'' ''b:c'') = Inr q \<and> sp_tenant_id p \<noteq> sp_tenant_id q \<and>
     pd_reason (fst (evaluate store_get store_put_if_absent policy_codec q None None (snd (decided p)))) = IDEMPOTENCY_CONFLICT"
proof -
  have ids: "entity_identifier ''a:b'' = Inr ''a:b''" "entity_identifier ''c'' = Inr ''c''"
    "entity_identifier ''a'' = Inr ''a''" "entity_identifier ''b:c'' = Inr ''b:c''" by code_simp+
  obtain p where p: "SpendProposal Inr Inr (sample_proposal ''a:b'' ''c'') = Inr p" "sp_tenant_id p = ''a:b''"
    "sp_organization_id p = ''c''" "sp_idempotency_key p = ''key-0001''"
    "sp_actor_id p = ''main''" "sp_amount p = Dec False 1999 (- 2)" "sp_category p = ''infra''" "sp_currency p = ''USD''"
    "virtual_card_id (sp_instrument p) = ''v1''" "virtual_card_token (sp_instrument p) = ''tok-00000001''"
    by (simp add: SpendProposal_def sample_proposal_def sample_ids sample_money ids Let_def)
  obtain q where q: "SpendProposal Inr Inr (sample_proposal ''a'' ''b:c'') = Inr q" "sp_tenant_id q = ''a''"
    "sp_organization_id q = ''b:c''" "sp_idempotency_key q = ''key-0001''"
    "sp_actor_id q = ''main''" "sp_amount q = Dec False 1999 (- 2)" "sp_category q = ''infra''" "sp_currency q = ''USD''"
    "virtual_card_id (sp_instrument q) = ''v1''" "virtual_card_token (sp_instrument q) = ''tok-00000001''"
    by (simp add: SpendProposal_def sample_proposal_def sample_ids sample_money ids Let_def)
  have fp: "fingerprint policy_codec p \<noteq> fingerprint policy_codec q"
    using p q by (simp add: fingerprint_def hash_json_def fingerprint_payload_def policy_codec_def)
  have sc: "sp_tenant_id p @ '':'' @ sp_organization_id p = sp_tenant_id q @ '':'' @ sp_organization_id q"
    using p q by simp
  have "sp_idempotency_key p = sp_idempotency_key q" using p q by simp
  from scope_collision_denies [OF sc this fp sample_absent, of None None None None]
  show ?thesis using p(1,2) q(1,2) by (simp add: decided_def)
qed

theorem authority_allow_exact_witness:
  "fst (authority_evaluate
      \<lparr>action_id = ''a'', ea_tenant_id = ''t'', ea_organization_id = ''o'', ea_kind = EXTERNAL_COMMITMENT,
       ea_subject_id = None\<rparr>
      \<lparr>ap_policy_id = ''p'', ap_version = 1, ap_tenant_id = ''t'', ap_organization_id = ''o'',
       max_automatic_tier = CONTROLLED_COMMITMENT, allow_autonomous_controlled_spend = False,
       allow_autonomous_external_commitments = True\<rparr> None) = ALLOW"
  by (simp add: authority_allow_exact)

end
