(* ===== verification/Execution_Lanes.thy ===== *)
theory Execution_Lanes
  imports Prelude
begin

text \<open>
  Execution lanes (\<open>robothor/engine/lanes.py\<close>): the slots of the three lanes, the hand-over of a
  freed slot to the first live waiter, cancellation while queued or just handed a slot, and
  background work yielding to a queued interactive turn. Every locked region is one step; what
  runs between them (a future being cancelled, a waiter resuming, a timeout) is a step of its
  own, in any order. A future is named by a number, as is the acquisition it belongs to.
\<close>

section \<open>The state of a lane\<close>

datatype lane = INTERACTIVE | BACKGROUND | HOOKS

definition DEFAULT_INTERACTIVE_LIMIT :: int where "DEFAULT_INTERACTIVE_LIMIT = 0"
definition DEFAULT_BACKGROUND_LIMIT :: int where "DEFAULT_BACKGROUND_LIMIT = 2"
definition DEFAULT_BACKGROUND_YIELD_MS :: int where "DEFAULT_BACKGROUND_YIELD_MS = 200"
definition DEFAULT_HOOKS_LIMIT :: int where "DEFAULT_HOOKS_LIMIT = 8"

record lane_state =
  limit :: nat
  active :: nat
  waiters :: "nat list"
  handed :: "nat set"
  yielding :: nat

definition new_lane_state :: "int \<Rightarrow> bool \<Rightarrow> lane_state" where
  "new_lane_state n uncapped_at_zero =
     \<lparr>limit = nat (max (if uncapped_at_zero then 0 else 1) n), active = 0, waiters = [], handed = {}, yielding = 0\<rparr>"

definition has_room :: "lane_state \<Rightarrow> bool" where
  "has_room st = (limit st = 0 \<or> active st < limit st)"

definition waiting :: "lane_state \<Rightarrow> nat" where
  "waiting st = length (waiters st) + yielding st"

text \<open>The first waiter that is not done; the done ones in front of it are dropped.\<close>

fun hand_over :: "nat set \<Rightarrow> nat list \<Rightarrow> nat option \<times> nat list" where
  "hand_over gone [] = (None, [])"
| "hand_over gone (f # fs) = (if f \<in> gone then hand_over gone fs else (Some f, fs))"

text \<open>The bodies under the lock, for one lane; \<open>gone\<close> holds the cancelled futures.\<close>

definition acquire_locked :: "nat \<Rightarrow> lane_state \<Rightarrow> bool \<times> lane_state" where
  "acquire_locked f st =
     (if has_room st \<and> waiters st = [] then (True, st\<lparr>active := active st + 1\<rparr>)
      else (False, st\<lparr>waiters := waiters st @ [f]\<rparr>))"

definition resumed_locked :: "nat \<Rightarrow> lane_state \<Rightarrow> lane_state" where
  "resumed_locked f st = st\<lparr>handed := handed st - {f}\<rparr>"

definition cancelled_locked :: "nat \<Rightarrow> lane_state \<Rightarrow> bool \<times> lane_state" where
  "cancelled_locked f st =
     (f \<in> handed st, st\<lparr>handed := handed st - {f}, waiters := remove1 f (waiters st)\<rparr>)"

definition release_locked :: "nat set \<Rightarrow> lane_state \<Rightarrow> lane_state" where
  "release_locked gone st =
     (case hand_over gone (waiters st) of
        (Some f, ws) \<Rightarrow> st\<lparr>waiters := ws, handed := insert f (handed st)\<rparr>
      | (None, ws) \<Rightarrow> st\<lparr>waiters := ws, active := active st - 1\<rparr>)"

section \<open>The lanes\<close>

text \<open>
  The three states, the futures of the yielding background work, and what the code leaves to the
  tasks: which acquisitions hold a slot, which futures are cancelled, which names are taken.
\<close>

record lanes =
  states :: "lane \<Rightarrow> lane_state"
  yield_ms :: nat
  interactive_clear :: "nat list"
  holding :: "lane \<Rightarrow> nat set"
  cancelled :: "nat set"
  used :: "nat set"

definition new_lanes :: "int \<Rightarrow> int \<Rightarrow> int \<Rightarrow> int \<Rightarrow> lanes" where
  "new_lanes interactive_limit background_limit yms hooks_limit =
     \<lparr>states = (\<lambda>l. case l of INTERACTIVE \<Rightarrow> new_lane_state interactive_limit True
         | BACKGROUND \<Rightarrow> new_lane_state background_limit False | HOOKS \<Rightarrow> new_lane_state hooks_limit False),
      yield_ms = nat (max 0 yms), interactive_clear = [], holding = (\<lambda>_. {}), cancelled = {}, used = {}\<rparr>"

definition set_state :: "lane \<Rightarrow> lane_state \<Rightarrow> lanes \<Rightarrow> lanes" where
  "set_state l st s = s\<lparr>states := (states s)(l := st)\<rparr>"

definition notify_interactive_clear :: "lanes \<Rightarrow> lanes" where
  "notify_interactive_clear s =
     (if waiters (states s INTERACTIVE) \<noteq> [] then s else s\<lparr>interactive_clear := []\<rparr>)"

definition yield_begin :: "nat \<Rightarrow> lanes \<Rightarrow> lanes option" where
  "yield_begin f s =
     (if yield_ms s = 0 \<or> waiters (states s INTERACTIVE) = [] then None
      else Some (set_state BACKGROUND ((states s BACKGROUND)\<lparr>yielding := yielding (states s BACKGROUND) + 1\<rparr>)
             (s\<lparr>interactive_clear := interactive_clear s @ [f], used := insert f (used s)\<rparr>)))"

definition yield_end :: "nat \<Rightarrow> lanes \<Rightarrow> lanes" where
  "yield_end f s =
     set_state BACKGROUND ((states s BACKGROUND)\<lparr>yielding := yielding (states s BACKGROUND) - 1\<rparr>)
       (s\<lparr>interactive_clear := remove1 f (interactive_clear s)\<rparr>)"

definition acquire :: "lane \<Rightarrow> nat \<Rightarrow> lanes \<Rightarrow> lanes" where
  "acquire l f s =
     (case acquire_locked f (states s l) of
        (True, st) \<Rightarrow> set_state l st (s\<lparr>holding := (holding s)(l := insert f (holding s l)), used := insert f (used s)\<rparr>)
      | (False, st) \<Rightarrow> set_state l st (s\<lparr>used := insert f (used s)\<rparr>))"

text \<open>\<open>release\<close>, also called by the cancelled waiter that had been handed a slot.\<close>

definition release :: "lane \<Rightarrow> lanes \<Rightarrow> lanes" where
  "release l s =
     (let s' = set_state l (release_locked (cancelled s) (states s l)) s
      in if l = INTERACTIVE then notify_interactive_clear s' else s')"

definition release_holder :: "lane \<Rightarrow> nat \<Rightarrow> lanes \<Rightarrow> lanes" where
  "release_holder l f s = release l (s\<lparr>holding := (holding s)(l := holding s l - {f})\<rparr>)"

definition resume :: "lane \<Rightarrow> nat \<Rightarrow> lanes \<Rightarrow> lanes" where
  "resume l f s = set_state l (resumed_locked f (states s l))
     (s\<lparr>holding := (holding s)(l := insert f (holding s l))\<rparr>)"

definition on_cancelled :: "lane \<Rightarrow> nat \<Rightarrow> lanes \<Rightarrow> lanes" where
  "on_cancelled l f s =
     (case cancelled_locked f (states s l) of (was_handed, st) \<Rightarrow>
        (let was_waiting = f \<in> set (waiters (states s l));
             s1 = set_state l st s;
             s2 = (if was_waiting \<and> l = INTERACTIVE then notify_interactive_clear s1 else s1)
         in if was_handed then release l s2 else s2))"

definition lanes_snapshot :: "lanes \<Rightarrow> lane \<Rightarrow> nat \<times> nat \<times> nat" where
  "lanes_snapshot s l = (active (states s l), waiting (states s l), limit (states s l))"

inductive lane_step :: "lanes \<Rightarrow> lanes \<Rightarrow> bool" where
  step_acquire: "f \<notin> used s \<Longrightarrow> lane_step s (acquire l f s)"
| step_yield: "f \<notin> used s \<Longrightarrow> yield_begin f s = Some t \<Longrightarrow> lane_step s t"
| step_yield_end: "lane_step s (yield_end f s)"
| step_cancel: "f \<in> set (waiters (states s l)) \<union> handed (states s l) \<Longrightarrow>
     lane_step s (s\<lparr>cancelled := insert f (cancelled s)\<rparr>)"
| step_cancelled: "f \<in> handed (states s l) \<or> f \<in> cancelled s \<and> f \<notin> holding s l \<Longrightarrow>
     lane_step s (on_cancelled l f s)"
| step_resume: "f \<in> handed (states s l) \<Longrightarrow> f \<notin> cancelled s \<Longrightarrow> lane_step s (resume l f s)"
| step_release: "f \<in> holding s l \<Longrightarrow> lane_step s (release_holder l f s)"

inductive_cases lane_stepE: "lane_step s t"

section \<open>The invariant\<close>

text \<open>
  A lane's books balance: every active slot is held or was just handed to a waiter, a waiter
  exists only when every slot of a capped lane is taken, and no cap is exceeded.
\<close>

definition lane_ok :: "lane_state \<Rightarrow> nat set \<Rightarrow> nat set \<Rightarrow> bool" where
  "lane_ok st hold names \<longleftrightarrow>
     finite hold \<and> finite (handed st) \<and> hold \<inter> handed st = {} \<and>
     active st = card hold + card (handed st) \<and>
     distinct (waiters st) \<and> set (waiters st) \<inter> (hold \<union> handed st) = {} \<and>
     set (waiters st) \<union> hold \<union> handed st \<subseteq> names \<and>
     (0 < limit st \<longrightarrow> active st \<le> limit st) \<and>
     (waiters st \<noteq> [] \<longrightarrow> active st = limit st \<and> 0 < limit st)"

definition lanes_ok :: "lanes \<Rightarrow> bool" where
  "lanes_ok s \<longleftrightarrow> (\<forall>l. lane_ok (states s l) (holding s l) (used s)) \<and>
     (waiters (states s INTERACTIVE) = [] \<longrightarrow> interactive_clear s = [])"

lemma lane_ok_mono: "lane_ok st hold names \<Longrightarrow> names \<subseteq> names' \<Longrightarrow> lane_ok st hold names'"
  by (auto simp: lane_ok_def)

lemma hand_over_spec:
  "hand_over gone ws = (x, ws') \<Longrightarrow>
   (case x of None \<Rightarrow> ws' = [] \<and> set ws \<subseteq> gone
    | Some f \<Rightarrow> f \<notin> gone \<and> (\<exists>pre. ws = pre @ f # ws' \<and> set pre \<subseteq> gone))"
proof (induction gone ws rule: hand_over.induct)
  case (2 gone f fs)
  show ?case
  proof (cases "f \<in> gone")
    case True
    then have "hand_over gone fs = (x, ws')" using 2(2) by simp
    from 2(1) [OF True this] True show ?thesis
      by (auto split: option.splits) (metis append_Cons insert_subset list.simps(15))?
  next
    case False
    then show ?thesis using 2(2) by auto
  qed
qed simp

lemma lane_ok_acquire:
  assumes "lane_ok st hold names" "f \<notin> names"
  shows "acquire_locked f st = (True, st') \<Longrightarrow> lane_ok st' (insert f hold) (insert f names)"
    and "acquire_locked f st = (False, st') \<Longrightarrow> lane_ok st' hold (insert f names) \<and> waiters st' \<noteq> []"
proof -
  have "f \<notin> hold" "finite hold" using assms by (auto simp: lane_ok_def)
  then have "card (insert f hold) = Suc (card hold)" by simp
  then show "acquire_locked f st = (True, st') \<Longrightarrow> lane_ok st' (insert f hold) (insert f names)"
    and "acquire_locked f st = (False, st') \<Longrightarrow> lane_ok st' hold (insert f names) \<and> waiters st' \<noteq> []"
    using assms by (auto simp: acquire_locked_def lane_ok_def has_room_def split: if_splits)
qed

text \<open>One slot given up: what \<open>hold\<close> loses, the first live waiter or the free slots gain.\<close>

lemma lane_ok_release:
  assumes "finite hold" "finite (handed st)" "hold \<inter> handed st = {}"
    and "active st = Suc (card hold + card (handed st))"
    and "distinct (waiters st)" "set (waiters st) \<inter> (hold \<union> handed st) = {}"
    and "set (waiters st) \<union> hold \<union> handed st \<subseteq> names"
    and "0 < limit st \<longrightarrow> active st \<le> limit st" "waiters st \<noteq> [] \<longrightarrow> active st = limit st \<and> 0 < limit st"
  shows "lane_ok (release_locked gone st) hold names"
proof -
  obtain x ws where h: "hand_over gone (waiters st) = (x, ws)" by fastforce
  show ?thesis
  proof (cases x)
    case None
    then have "ws = []" using hand_over_spec [OF h] by simp
    then show ?thesis using assms h None by (auto simp: release_locked_def lane_ok_def)
  next
    case (Some f)
    then obtain pre where pre: "waiters st = pre @ f # ws" using hand_over_spec [OF h] by auto
    then have "f \<notin> handed st" "f \<notin> hold" using assms(6) by auto
    then show ?thesis using assms h Some pre by (auto simp: release_locked_def lane_ok_def)
  qed
qed

lemma lane_ok_yielding [simp]: "lane_ok (st\<lparr>yielding := n\<rparr>) hold names = lane_ok st hold names"
  by (simp add: lane_ok_def)

lemma lane_ok_cancelled:
  assumes "lane_ok st hold names" "f \<notin> handed st"
  shows "lane_ok (snd (cancelled_locked f st)) hold names"
  using assms by (auto simp: cancelled_locked_def lane_ok_def dest: notin_set_remove1)

lemma lane_ok_pass_on:
  assumes ok: "lane_ok st hold names" and f: "f \<in> handed st"
  shows "lane_ok (release_locked gone (snd (cancelled_locked f st))) hold names"
proof -
  have w: "f \<notin> set (waiters st)" and fin: "finite (handed st)" using ok f by (auto simp: lane_ok_def)
  have c: "Suc (card (handed st - {f})) = card (handed st)" using card_Suc_Diff1 [OF fin f] .
  let ?st = "snd (cancelled_locked f st)"
  have "handed ?st = handed st - {f}" "waiters ?st = waiters st" "active ?st = active st" "limit ?st = limit st"
    using w by (simp_all add: cancelled_locked_def remove1_idem)
  then show ?thesis using ok c by (intro lane_ok_release) (auto simp: lane_ok_def)
qed

lemma lane_ok_resume:
  assumes ok: "lane_ok st hold names" and f: "f \<in> handed st"
  shows "lane_ok (resumed_locked f st) (insert f hold) names"
proof -
  have "f \<notin> hold" "finite hold" "finite (handed st)" using ok f by (auto simp: lane_ok_def)
  then have "card (insert f hold) = Suc (card hold)" "Suc (card (handed st - {f})) = card (handed st)"
    using card_Suc_Diff1 [OF _ f] by auto
  then show ?thesis using ok f by (auto simp: resumed_locked_def lane_ok_def)
qed

lemma lane_ok_give_back:
  assumes ok: "lane_ok st hold names" and f: "f \<in> hold"
  shows "lane_ok (release_locked gone st) (hold - {f}) names"
proof -
  have "finite hold" using ok by (simp add: lane_ok_def)
  then have "card hold = Suc (card (hold - {f}))" using card_Suc_Diff1 f by metis
  moreover have "active st = card hold + card (handed st)" using ok unfolding lane_ok_def by blast
  ultimately have act: "active st = Suc (card (hold - {f}) + card (handed st))" by linarith
  show ?thesis by (rule lane_ok_release [OF _ _ _ act]) (use ok in \<open>auto simp: lane_ok_def\<close>)
qed

section \<open>Reachable states\<close>

text \<open>Changing one lane.\<close>

lemma lanes_ok_set:
  assumes "lanes_ok s" "lane_ok st (H l) names" "used s \<subseteq> names" "\<And>k. k \<noteq> l \<Longrightarrow> H k = holding s k"
    and "states t = (states s)(l := st)" "holding t = H" "used t = names"
    and "waiters (states t INTERACTIVE) = [] \<Longrightarrow> interactive_clear t = []"
  shows "lanes_ok t"
  unfolding lanes_ok_def
proof (intro conjI allI impI)
  fix k
  show "lane_ok (states t k) (holding t k) (used t)"
  proof (cases "k = l")
    case True
    then show ?thesis using assms(2,5-7) by simp
  next
    case False
    then have "lane_ok (states s k) (holding s k) names"
      using assms(1,3) lane_ok_mono unfolding lanes_ok_def by blast
    then show ?thesis using False assms(4-7) by simp
  qed
qed (rule assms(8))

lemma notify_simps [simp]:
  "states (notify_interactive_clear s) = states s" "holding (notify_interactive_clear s) = holding s"
  "used (notify_interactive_clear s) = used s"
  "waiters (states s INTERACTIVE) = [] \<Longrightarrow> interactive_clear (notify_interactive_clear s) = []"
  by (simp_all add: notify_interactive_clear_def)

lemma set_state_simps [simp]:
  "states (set_state l st s) = (states s)(l := st)" "holding (set_state l st s) = holding s"
  "used (set_state l st s) = used s" "interactive_clear (set_state l st s) = interactive_clear s"
  "cancelled (set_state l st s) = cancelled s"
  by (simp_all add: set_state_def)

lemma release_simps [simp]:
  "states (release l s) = (states s)(l := release_locked (cancelled s) (states s l))"
  "holding (release l s) = holding s" "used (release l s) = used s"
  by (simp_all add: release_def Let_def)

lemma release_clear:
  "l = INTERACTIVE \<or> interactive_clear s = [] \<or> waiters (states s INTERACTIVE) \<noteq> [] \<Longrightarrow>
   waiters (states (release l s) INTERACTIVE) = [] \<Longrightarrow> interactive_clear (release l s) = []"
  by (auto simp: release_def Let_def notify_interactive_clear_def split: if_splits)

lemma lane_step_ok: "lane_step s t \<Longrightarrow> lanes_ok s \<Longrightarrow> lanes_ok t"
proof (induction rule: lane_step.induct)
  case (step_acquire f s l)
  have ok: "lane_ok (states s l) (holding s l) (used s)" using step_acquire(2) by (simp add: lanes_ok_def)
  obtain b st where a: "acquire_locked f (states s l) = (b, st)" by fastforce
  show ?case
  proof (cases b)
    case True
    then have "lane_ok st (insert f (holding s l)) (insert f (used s))"
      using lane_ok_acquire(1) [OF ok step_acquire(1)] a by simp
    moreover have "waiters st = waiters (states s l)" using a True by (auto simp: acquire_locked_def split: if_splits)
    ultimately show ?thesis using step_acquire(2) a True
      by (intro lanes_ok_set [where l = l and st = st and names = "insert f (used s)"
          and H = "(holding s)(l := insert f (holding s l))", OF step_acquire(2)])
        (auto simp: acquire_def lanes_ok_def split: if_splits)
  next
    case False
    then have "lane_ok st (holding s l) (insert f (used s))" "waiters st \<noteq> []"
      using lane_ok_acquire(2) [OF ok step_acquire(1)] a by auto
    then show ?thesis using step_acquire(2) a False
      by (intro lanes_ok_set [where l = l and st = st and names = "insert f (used s)"
          and H = "holding s", OF step_acquire(2)])
        (auto simp: acquire_def lanes_ok_def split: if_splits)
  qed
next
  case (step_yield f s t)
  have "lane_ok (states s BACKGROUND) (holding s BACKGROUND) (insert f (used s))"
    by (rule lane_ok_mono [of _ _ "used s"]) (use step_yield(3) in \<open>auto simp: lanes_ok_def\<close>)
  with step_yield show ?case
    by (intro lanes_ok_set [where l = BACKGROUND and names = "insert f (used s)" and H = "holding s"
        and st = "states t BACKGROUND", OF step_yield(3)])
      (auto simp: yield_begin_def lanes_ok_def set_state_def intro: lane_ok_mono split: if_splits)
next
  case (step_yield_end s f)
  then show ?case
    by (intro lanes_ok_set [where l = BACKGROUND and names = "used s" and H = "holding s"
        and st = "states (yield_end f s) BACKGROUND", OF step_yield_end])
      (auto simp: yield_end_def lanes_ok_def set_state_def)
next
  case (step_cancel f s l)
  then show ?case by (simp add: lanes_ok_def)
next
  case (step_cancelled f s l)
  have ok: "lane_ok (states s l) (holding s l) (used s)" using step_cancelled(2) by (simp add: lanes_ok_def)
  obtain b st where c: "cancelled_locked f (states s l) = (b, st)" by fastforce
  have b: "b = (f \<in> handed (states s l))" using c by (simp add: cancelled_locked_def)
  define s2 where "s2 = (if f \<in> set (waiters (states s l)) \<and> l = INTERACTIVE
      then notify_interactive_clear (set_state l st s) else set_state l st s)"
  have s2: "states s2 = (states s)(l := st)" "holding s2 = holding s" "used s2 = used s"
    by (simp_all add: s2_def)
  have clear2: "waiters (states s2 INTERACTIVE) = [] \<Longrightarrow> interactive_clear s2 = []"
    using step_cancelled(2) c
    by (auto simp: s2_def lanes_ok_def cancelled_locked_def remove1_idem split: if_splits)
  have t: "on_cancelled l f s = (if b then release l s2 else s2)"
    by (simp add: on_cancelled_def c Let_def s2_def)
  show ?case
  proof (cases b)
    case True
    have "lane_ok (release_locked (cancelled s2) st) (holding s l) (used s)"
      using lane_ok_pass_on [OF ok, of f] b True c by simp
    moreover have "waiters (states (release l s2) INTERACTIVE) = [] \<Longrightarrow> interactive_clear (release l s2) = []"
      using release_clear [of l s2] clear2 by blast
    ultimately show ?thesis unfolding t using True s2
      by (intro lanes_ok_set [where l = l and st = "release_locked (cancelled s2) st" and names = "used s"
          and H = "holding s", OF step_cancelled(2)]) simp_all
  next
    case False
    have "lane_ok st (holding s l) (used s)" using lane_ok_cancelled [OF ok, of f] b False c by simp
    then show ?thesis unfolding t using False s2 clear2
      by (intro lanes_ok_set [where l = l and st = st and names = "used s" and H = "holding s", OF step_cancelled(2)])
        simp_all
  qed
next
  case (step_resume f s l)
  have ok: "lane_ok (states s l) (holding s l) (used s)" using step_resume(3) by (simp add: lanes_ok_def)
  show ?case using lane_ok_resume [OF ok step_resume(1)] step_resume(3)
    by (intro lanes_ok_set [where l = l and st = "resumed_locked f (states s l)" and names = "used s"
        and H = "(holding s)(l := insert f (holding s l))", OF step_resume(3)])
      (auto simp: resume_def lanes_ok_def resumed_locked_def split: if_splits)
next
  case (step_release f s l)
  have ok: "lane_ok (states s l) (holding s l) (used s)" using step_release(2) by (simp add: lanes_ok_def)
  let ?s = "s\<lparr>holding := (holding s)(l := holding s l - {f})\<rparr>"
  have "waiters (states (release l ?s) INTERACTIVE) = [] \<Longrightarrow> interactive_clear (release l ?s) = []"
    using release_clear [of l ?s] step_release(2) by (auto simp: lanes_ok_def)
  then show ?case using lane_ok_give_back [OF ok step_release(1), of "cancelled s"]
    by (intro lanes_ok_set [where l = l and st = "release_locked (cancelled s) (states s l)" and names = "used s"
        and H = "(holding s)(l := holding s l - {f})", OF step_release(2)])
      (simp_all add: release_holder_def)
qed

lemma new_lanes_ok: "lanes_ok (new_lanes i b y h)"
  by (auto simp: lanes_ok_def new_lanes_def lane_ok_def new_lane_state_def split: lane.splits)

lemma reachable_ok: "lane_step\<^sup>*\<^sup>* (new_lanes i b y h) s \<Longrightarrow> lanes_ok s"
  by (induction rule: rtranclp_induct) (auto intro: new_lanes_ok lane_step_ok)

lemma limit_steps: "lane_step s t \<Longrightarrow> limit (states t l) = limit (states s l)"
  by (induction rule: lane_step.induct)
    (auto simp: acquire_def acquire_locked_def yield_begin_def yield_end_def on_cancelled_def
      cancelled_locked_def resume_def resumed_locked_def release_holder_def release_locked_def Let_def
      split: prod.splits option.splits if_splits)

lemma limit_reachable: "lane_step\<^sup>*\<^sup>* s t \<Longrightarrow> limit (states t l) = limit (states s l)"
  by (induction rule: rtranclp_induct) (auto dest: limit_steps [of _ _ l])

text \<open>
  C20: however acquisitions, releases, cancellations, resumptions and yields interleave, a capped
  lane never has more slots held than its limit, the active count is the slots held plus those
  on their way to a waiter, a waiter waits only while every slot is taken, so no freed slot is
  ever lost, and an uncapped lane never makes anyone wait.
\<close>

theorem lanes_balance:
  assumes "lane_step\<^sup>*\<^sup>* (new_lanes i b y h) s"
  shows "active (states s l) = card (holding s l) + card (handed (states s l)) \<and>
    (0 < limit (states s l) \<longrightarrow> card (holding s l) \<le> limit (states s l)) \<and>
    (waiters (states s l) \<noteq> [] \<longrightarrow> 0 < limit (states s l) \<and>
       card (holding s l) + card (handed (states s l)) = limit (states s l)) \<and>
    (waiters (states s INTERACTIVE) \<noteq> [] \<longrightarrow> 0 < i)"
proof -
  have ok: "\<forall>l. lane_ok (states s l) (holding s l) (used s)" using reachable_ok [OF assms] by (simp add: lanes_ok_def)
  have "limit (states s INTERACTIVE) = nat (max 0 i)"
    using limit_reachable [OF assms, of INTERACTIVE] by (simp add: new_lanes_def new_lane_state_def)
  then have "waiters (states s INTERACTIVE) \<noteq> [] \<longrightarrow> 0 < i" using ok by (force simp: lane_ok_def)
  moreover have "lane_ok (states s l) (holding s l) (used s)" using ok by blast
  ultimately show ?thesis unfolding lane_ok_def by (auto intro: order_trans [OF le_add1])
qed

text \<open>
  background work is never left yielding to nobody: in every reachable state with no
  interactive turn queued, every future that yielding work waits on has been signalled.
\<close>

theorem no_lost_yield:
  assumes "lane_step\<^sup>*\<^sup>* (new_lanes i b y h) s" "waiters (states s INTERACTIVE) = []"
  shows "interactive_clear s = []"
  using reachable_ok [OF assms(1)] assms(2) by (simp add: lanes_ok_def)

section \<open>A concrete run\<close>

definition sample_lanes :: lanes where
  "sample_lanes = acquire BACKGROUND 1 (acquire BACKGROUND 0 (new_lanes 0 1 200 8))"

lemma sample_lanes_run: "lane_step\<^sup>*\<^sup>* (new_lanes 0 1 200 8) sample_lanes"
proof -
  have "lane_step (new_lanes 0 1 200 8) (acquire BACKGROUND 0 (new_lanes 0 1 200 8))"
    by (rule step_acquire) (simp add: new_lanes_def)
  moreover have "lane_step (acquire BACKGROUND 0 (new_lanes 0 1 200 8)) sample_lanes"
    unfolding sample_lanes_def
    by (rule step_acquire) (simp add: acquire_def acquire_locked_def new_lanes_def new_lane_state_def has_room_def)
  ultimately show ?thesis by (meson r_into_rtranclp rtranclp_trans)
qed

lemma sample_lanes_state:
  "waiters (states sample_lanes BACKGROUND) = [1]" "limit (states sample_lanes BACKGROUND) = 1"
  "waiters (states sample_lanes INTERACTIVE) = []"
  by (simp_all add: sample_lanes_def acquire_def acquire_locked_def new_lanes_def new_lane_state_def has_room_def)

theorem lanes_balance_witness:
  "card (holding sample_lanes BACKGROUND) + card (handed (states sample_lanes BACKGROUND)) = 1"
  using lanes_balance [OF sample_lanes_run, of BACKGROUND] sample_lanes_state by simp

theorem no_lost_yield_witness: "interactive_clear sample_lanes = []"
  by (rule no_lost_yield [OF sample_lanes_run sample_lanes_state(3)])

end
