(* ===== verification/Model_Breaker.thy ===== *)
theory Model_Breaker
  imports Prelude
begin

text \<open>
  The per-model circuit breaker (\<open>robothor/engine/model_breaker.py\<close>): the streak of failures
  that opens a model's circuit, the cooldown that half-opens it, the alert raised once per
  opening, and the persisted floor between two operator alerts. Times are integer ticks.
\<close>

section \<open>The breaker\<close>

record breaker_state =
  consecutive_failures :: int
  open_until :: int
  alerted :: bool

record breaker =
  threshold :: int
  cooldown_seconds :: int
  has_on_open :: bool
  models :: "(string, breaker_state) dict"

definition fresh_state :: breaker_state where
  "fresh_state = \<lparr>consecutive_failures = 0, open_until = 0, alerted = False\<rparr>"

definition model_state :: "string \<Rightarrow> breaker \<Rightarrow> breaker_state" where
  "model_state model b = (case dict_get (models b) model of None \<Rightarrow> fresh_state | Some st \<Rightarrow> st)"

definition put_model :: "string \<Rightarrow> breaker_state \<Rightarrow> breaker \<Rightarrow> breaker" where
  "put_model model st b = b\<lparr>models := dict_set model st (models b)\<rparr>"

definition is_open :: "int \<Rightarrow> string \<Rightarrow> breaker \<Rightarrow> bool \<times> breaker" where
  "is_open now model b =
     (case dict_get (models b) model of
        None \<Rightarrow> (False, b)
      | Some st \<Rightarrow>
          if open_until st = 0 then (False, b)
          else if now \<ge> open_until st then
            (False, put_model model (st\<lparr>open_until := 0, consecutive_failures := 0, alerted := False\<rparr>) b)
          else (True, b))"

text \<open>The alerts an operation raises through \<open>on_open\<close>.\<close>

type_synonym alert = "string \<times> string"

definition record_failure :: "int \<Rightarrow> string \<Rightarrow> string \<Rightarrow> breaker \<Rightarrow> breaker \<times> alert list" where
  "record_failure now model reason b =
     (let st = model_state model b;
          st1 = st\<lparr>consecutive_failures := consecutive_failures st + 1\<rparr>
      in if consecutive_failures st1 < threshold b \<or> open_until st1 \<noteq> 0 then (put_model model st1 b, [])
         else (let st2 = st1\<lparr>open_until := now + cooldown_seconds b\<rparr>
               in if \<not> alerted st2 \<and> has_on_open b
                  then (put_model model (st2\<lparr>alerted := True\<rparr>) b, [(model, reason)])
                  else (put_model model st2 b, [])))"

definition record_success :: "string \<Rightarrow> breaker \<Rightarrow> breaker" where
  "record_success model b =
     (case dict_get (models b) model of
        None \<Rightarrow> b
      | Some st \<Rightarrow> put_model model (st\<lparr>consecutive_failures := 0, open_until := 0, alerted := False\<rparr>) b)"

section \<open>Runs\<close>

datatype breaker_cmd = Probe int string | Fail int string string | Succeed string

fun cmd_model :: "breaker_cmd \<Rightarrow> string" where
  "cmd_model (Probe now m) = m"
| "cmd_model (Fail now m r) = m"
| "cmd_model (Succeed m) = m"

fun breaker_step :: "breaker \<Rightarrow> breaker_cmd \<Rightarrow> breaker \<times> alert list" where
  "breaker_step b (Probe now m) = (snd (is_open now m b), [])"
| "breaker_step b (Fail now m r) = record_failure now m r b"
| "breaker_step b (Succeed m) = (record_success m b, [])"

fun breaker_run :: "breaker \<Rightarrow> breaker_cmd list \<Rightarrow> breaker \<times> alert list" where
  "breaker_run b [] = (b, [])"
| "breaker_run b (c # cs) =
     (case breaker_step b c of (b', as) \<Rightarrow> (case breaker_run b' cs of (b'', as') \<Rightarrow> (b'', as @ as')))"

lemma breaker_run_snoc:
  "breaker_run b (cs @ [c]) =
   (case breaker_run b cs of (b', as) \<Rightarrow> (case breaker_step b' c of (b'', as') \<Rightarrow> (b'', as @ as')))"
  by (induction cs arbitrary: b) (auto split: prod.splits)

lemma put_model_simps [simp]:
  "threshold (put_model m st b) = threshold b" "cooldown_seconds (put_model m st b) = cooldown_seconds b"
  "has_on_open (put_model m st b) = has_on_open b"
  "dict_get (models (put_model m st b)) k = (if k = m then Some st else dict_get (models b) k)"
  by (simp_all add: put_model_def)

lemma step_config [simp]:
  "threshold (fst (breaker_step b c)) = threshold b" "cooldown_seconds (fst (breaker_step b c)) = cooldown_seconds b"
  "has_on_open (fst (breaker_step b c)) = has_on_open b"
  by (cases c; auto simp: is_open_def record_failure_def record_success_def Let_def split: option.splits)+

lemma run_config:
  "threshold (fst (breaker_run b cs)) = threshold b \<and> cooldown_seconds (fst (breaker_run b cs)) = cooldown_seconds b \<and>
   has_on_open (fst (breaker_run b cs)) = has_on_open b"
proof (induction cs rule: rev_induct)
  case (snoc c cs)
  obtain b' as where r: "breaker_run b cs = (b', as)" by fastforce
  obtain b'' as' where st: "breaker_step b' c = (b'', as')" by fastforce
  show ?case using snoc r st step_config [of b' c] by (simp add: breaker_run_snoc)
qed simp

text \<open>An operation on another model changes neither this one's state nor its alerts.\<close>

lemma step_other:
  assumes "cmd_model c \<noteq> m" "breaker_step b c = (b', as)"
  shows "dict_get (models b') m = dict_get (models b) m" "filter (\<lambda>a. fst a = m) as = []"
  using assms
  by (cases c; auto simp: is_open_def record_failure_def record_success_def Let_def split: option.splits if_splits)+

fun fail_time :: "breaker_cmd \<Rightarrow> int" where
  "fail_time (Fail now m r) = now"
| "fail_time c = 0"

fun fail_reason :: "breaker_cmd \<Rightarrow> string" where
  "fail_reason (Fail now m r) = r"
| "fail_reason c = []"

fun is_fail :: "breaker_cmd \<Rightarrow> bool" where
  "is_fail (Fail now m r) = (0 \<le> now)"
| "is_fail c = False"

text \<open>The state of a model that has only failed, and the alerts raised for it.\<close>

definition streak_state :: "breaker \<Rightarrow> breaker_cmd list \<Rightarrow> breaker_state" where
  "streak_state b fs =
     (if int (length fs) < threshold b
      then \<lparr>consecutive_failures = int (length fs), open_until = 0, alerted = False\<rparr>
      else \<lparr>consecutive_failures = int (length fs),
            open_until = fail_time (fs ! (nat (threshold b) - 1)) + cooldown_seconds b, alerted = has_on_open b\<rparr>)"

definition streak_alerts :: "breaker \<Rightarrow> string \<Rightarrow> breaker_cmd list \<Rightarrow> alert list" where
  "streak_alerts b m fs =
     (if int (length fs) < threshold b \<or> \<not> has_on_open b then []
      else [(m, fail_reason (fs ! (nat (threshold b) - 1)))])"

lemma streak:
  assumes "0 < threshold b" "0 < cooldown_seconds b" "dict_get (models b) m = None"
    and "\<forall>c \<in> set cs. cmd_model c = m \<longrightarrow> is_fail c"
  shows "model_state m (fst (breaker_run b cs)) = streak_state b (filter (\<lambda>c. cmd_model c = m) cs) \<and>
    filter (\<lambda>a. fst a = m) (snd (breaker_run b cs)) = streak_alerts b m (filter (\<lambda>c. cmd_model c = m) cs)"
  using assms(4)
proof (induction cs rule: rev_induct)
  case Nil
  then show ?case using assms(1,3)
    by (simp add: model_state_def streak_state_def streak_alerts_def fresh_state_def)
next
  case (snoc c cs)
  obtain b' as where r: "breaker_run b cs = (b', as)" by fastforce
  obtain b'' as' where st: "breaker_step b' c = (b'', as')" by fastforce
  define fs where "fs = filter (\<lambda>c. cmd_model c = m) cs"
  have ih: "model_state m b' = streak_state b fs" "filter (\<lambda>a. fst a = m) as = streak_alerts b m fs"
    using snoc r by (simp_all add: fs_def)
  have run: "breaker_run b (cs @ [c]) = (b'', as @ as')" by (simp add: breaker_run_snoc r st)
  have cfg: "threshold b' = threshold b" "cooldown_seconds b' = cooldown_seconds b" "has_on_open b' = has_on_open b"
    using run_config [of b cs] r by simp_all
  show ?case
  proof (cases "cmd_model c = m")
    case False
    then show ?thesis using step_other [OF False st] ih run by (simp add: fs_def model_state_def)
  next
    case True
    then have f: "is_fail c" using snoc.prems by simp
    then obtain now reason where c: "c = Fail now m reason" "0 \<le> now"
      using True by (cases c) auto
    have rf: "record_failure now m reason b' = (b'', as')" using st c by simp
    have fl: "filter (\<lambda>c. cmd_model c = m) (cs @ [c]) = fs @ [c]" using True by (simp add: fs_def)
    consider (low) "int (length fs) + 1 < threshold b" | (trip) "int (length fs) + 1 = threshold b"
      | (opened) "threshold b \<le> int (length fs)" by linarith
    then have "model_state m b'' = streak_state b (fs @ [c]) \<and>
        filter (\<lambda>a. fst a = m) as @ filter (\<lambda>a. fst a = m) as' = streak_alerts b m (fs @ [c])"
    proof cases
      case low
      then show ?thesis using rf ih cfg
        by (auto simp: record_failure_def Let_def streak_state_def streak_alerts_def model_state_def)
    next
      case trip
      then have "nat (threshold b) - 1 = length fs" by linarith
      then show ?thesis using rf ih cfg trip c
        by (auto simp: record_failure_def Let_def streak_state_def streak_alerts_def model_state_def nth_append
            split: if_splits)
    next
      case opened
      then have i: "nat (threshold b) - 1 < length fs" using assms(1) by linarith
      let ?k = "fs ! (nat (threshold b) - 1)"
      have "?k \<in> set cs" "cmd_model ?k = m" using nth_mem [OF i] by (auto simp: fs_def)
      then have "is_fail ?k" using snoc.prems by simp
      then have "0 \<le> fail_time ?k" by (cases ?k) auto
      then have "fail_time ?k + cooldown_seconds b \<noteq> 0" using assms(2) by linarith
      then show ?thesis using rf ih cfg opened i
        by (auto simp: record_failure_def Let_def streak_state_def streak_alerts_def model_state_def nth_append)
    qed
    then show ?thesis using run fl by simp
  qed
qed

text \<open>
  A model's circuit opens exactly at its \<open>threshold\<close>-th failure in a row, whatever happens to
  other models in between, and stays open for the cooldown counted from that failure however
  many more follow; the alert is raised once, at that failure.
\<close>

theorem breaker_trips_exactly:
  assumes "0 < threshold b" "0 < cooldown_seconds b" "dict_get (models b) m = None"
    and "\<forall>c \<in> set cs. cmd_model c = m \<longrightarrow> is_fail c"
    and "fs = filter (\<lambda>c. cmd_model c = m) cs"
  shows "(fst (is_open t m (fst (breaker_run b cs))) \<longleftrightarrow>
      threshold b \<le> int (length fs) \<and> t < fail_time (fs ! (nat (threshold b) - 1)) + cooldown_seconds b) \<and>
    length (filter (\<lambda>a. fst a = m) (snd (breaker_run b cs))) =
      (if threshold b \<le> int (length fs) \<and> has_on_open b then 1 else 0)"
proof -
  note s = streak [OF assms(1-4), folded assms(5)]
  let ?b = "fst (breaker_run b cs)"
  have op: "open_until (model_state m ?b) =
      (if threshold b \<le> int (length fs) then fail_time (fs ! (nat (threshold b) - 1)) + cooldown_seconds b else 0)"
    using s by (simp add: streak_state_def)
  have "0 < fail_time (fs ! (nat (threshold b) - 1)) + cooldown_seconds b" if "threshold b \<le> int (length fs)"
  proof -
    have i: "nat (threshold b) - 1 < length fs" using assms(1) that by linarith
    then have "is_fail (fs ! (nat (threshold b) - 1))" using assms(4,5) nth_mem [OF i] by auto
    then show ?thesis using assms(2) by (cases "fs ! (nat (threshold b) - 1)") auto
  qed
  moreover have "fst (is_open t m ?b) \<longleftrightarrow> open_until (model_state m ?b) \<noteq> 0 \<and> t < open_until (model_state m ?b)"
    by (auto simp: is_open_def model_state_def fresh_state_def split: option.splits)
  ultimately have "fst (is_open t m ?b) \<longleftrightarrow>
      threshold b \<le> int (length fs) \<and> t < fail_time (fs ! (nat (threshold b) - 1)) + cooldown_seconds b"
    using op by auto
  then show ?thesis using s by (simp add: streak_alerts_def)
qed

definition sample_breaker :: breaker where
  "sample_breaker = \<lparr>threshold = 3, cooldown_seconds = 600, has_on_open = True, models = []\<rparr>"

theorem breaker_trips_exactly_witness:
  "fst (is_open 611 ''m'' (fst (breaker_run sample_breaker
     [Fail 10 ''m'' ''e'', Fail 11 ''n'' ''e'', Fail 11 ''m'' ''e'', Succeed ''n'', Fail 12 ''m'' ''e'', Fail 99 ''m'' ''e''])))"
  using breaker_trips_exactly [of sample_breaker "''m''"
      "[Fail 10 ''m'' ''e'', Fail 11 ''n'' ''e'', Fail 11 ''m'' ''e'', Succeed ''n'', Fail 12 ''m'' ''e'', Fail 99 ''m'' ''e'']"
      "[Fail 10 ''m'' ''e'', Fail 11 ''m'' ''e'', Fail 12 ''m'' ''e'', Fail 99 ''m'' ''e'']" 611]
  by (simp add: sample_breaker_def)

section \<open>The alert floor\<close>

text \<open>
  The state file holds the time of each model's last alert; \<open>None\<close> is a missing or unreadable
  file, read as empty, and a write may fail. A trip is told to the operator when the model's
  last alert is at least the floor ago.
\<close>

type_synonym alert_file = "(string, int) dict option"

definition load_alert_state :: "alert_file \<Rightarrow> (string, int) dict" where
  "load_alert_state f = (case f of None \<Rightarrow> [] | Some d \<Rightarrow> d)"

definition should_alert :: "int \<Rightarrow> string \<Rightarrow> int \<Rightarrow> alert_file \<Rightarrow> bool" where
  "should_alert gap model now f =
     (case dict_get (load_alert_state f) model of None \<Rightarrow> True | Some prev \<Rightarrow> now - prev \<ge> gap)"

definition mark_alerted :: "bool \<Rightarrow> string \<Rightarrow> int \<Rightarrow> alert_file \<Rightarrow> alert_file" where
  "mark_alerted writable model now f =
     (if writable then Some (dict_set model now (load_alert_state f)) else f)"

definition alert_operator :: "int \<Rightarrow> bool \<Rightarrow> string \<Rightarrow> int \<Rightarrow> alert_file \<Rightarrow> bool \<times> alert_file" where
  "alert_operator gap writable model now f =
     (if \<not> should_alert gap model now f then (False, f)
      else (True, mark_alerted writable model now f))"

text \<open>The alerts delivered over a sequence of trips.\<close>

fun alert_run :: "int \<Rightarrow> (string \<times> int) list \<Rightarrow> alert_file \<Rightarrow> (string \<times> int) list" where
  "alert_run gap [] f = []"
| "alert_run gap ((m, now) # ts) f =
     (case alert_operator gap True m now f of
        (told, f') \<Rightarrow> (if told then [(m, now)] else []) @ alert_run gap ts f')"

lemma alert_run_after:
  assumes "dict_get (load_alert_state f) m = Some prev" "(m, now) \<in> set (alert_run gap ts f)"
    and "sorted (map snd ts)" "0 \<le> gap"
  shows "prev + gap \<le> now"
  using assms(1-3)
proof (induction gap ts f arbitrary: prev rule: alert_run.induct)
  case (2 gap k t ts f)
  obtain told f' where a: "alert_operator gap True k t f = (told, f')" by fastforce
  show ?case
  proof (cases "told \<and> k = m")
    case True
    then have t: "prev + gap \<le> t" using a 2(2)
      by (auto simp: alert_operator_def should_alert_def split: if_splits)
    have "(m, now) = (k, t) \<or> (m, now) \<in> set (alert_run gap ts f')" using 2(3) a True by auto
    moreover have "t \<le> now" if "(m, now) \<in> set (alert_run gap ts f')"
    proof -
      have "set (alert_run gap us g) \<subseteq> set us" for us g
        by (induction gap us g rule: alert_run.induct) (auto split: prod.splits if_splits)
      then have "now \<in> snd ` set ts" using that by force
      then show ?thesis using 2(4) by auto
    qed
    ultimately show ?thesis using t by auto
  next
    case False
    have "dict_get (load_alert_state f') m = Some prev"
      using a 2(2) False by (auto simp: alert_operator_def mark_alerted_def load_alert_state_def split: if_splits)
    moreover have "(m, now) \<in> set (alert_run gap ts f')" using 2(3) a False by (auto split: if_splits)
    ultimately show ?thesis using 2(1) a 2(4) by auto
  qed
qed simp

text \<open>
  while the state file can be written, two alerts about one model are never closer than the
  floor \<open>gap\<close>, however often its circuit opens.
\<close>

theorem alert_floor:
  assumes "sorted (map snd ts)" "0 \<le> gap"
  shows "sorted_wrt (\<lambda>a b. fst a = fst b \<longrightarrow> snd a + gap \<le> snd b) (alert_run gap ts f)"
  using assms
proof (induction gap ts f rule: alert_run.induct)
  case (2 gap k t ts f)
  obtain told f' where a: "alert_operator gap True k t f = (told, f')" by fastforce
  have ih: "sorted_wrt (\<lambda>a b. fst a = fst b \<longrightarrow> snd a + gap \<le> snd b) (alert_run gap ts f')"
    using 2 a by simp
  show ?case
  proof (cases told)
    case True
    then have "dict_get (load_alert_state f') k = Some t"
      using a by (auto simp: alert_operator_def mark_alerted_def load_alert_state_def split: if_splits)
    then have "t + gap \<le> now" if "(k, now) \<in> set (alert_run gap ts f')" for now
      using alert_run_after that 2(2,3) by fastforce
    then show ?thesis using ih a True by auto
  next
    case False
    then show ?thesis using ih a by simp
  qed
qed simp

theorem alert_floor_witness:
  "sorted_wrt (\<lambda>a b. fst a = fst b \<longrightarrow> snd a + 21600 \<le> snd b)
     (alert_run 21600 [(''m'', 0), (''m'', 600), (''m'', 21600)] None)"
  by (rule alert_floor) simp_all

end
