(* ===== verification/Effects.thy ===== *)
theory Effects
  imports Prelude "HOL-Library.Product_Lexorder"
begin

text \<open>
  The durable effect ledger of the agent engine (\<open>robothor/engine/runtime/effects.py\<close>) with
  what records and settles its rows: the stored tool responses (\<open>effect_results.py\<close>), the
  read-back of tasks and notes (\<open>task_recovery.py\<close>, \<open>note_recovery.py\<close>), the sweep of ended
  runs (\<open>effect_recovery.py\<close>), the revocation by a chat poll (\<open>chat_effect_recovery.py\<close>) and the
  operator's reconciliation of a goal family (\<open>goals/effect_summary.py\<close>). The table is the list of its rows in insertion order; every operation
  is one transaction, which the advisory lock of the principal and the row locks make atomic,
  so concurrent workers are sequences of operations. The one writer that is no command of a
  history is \<open>tenancy/move_workload.py\<close>, an administrator's migration that changes the tenant
  of rows and is refused while a run of theirs is live. A time is an integer of microseconds.
\<close>

section \<open>Execution contexts\<close>

text \<open>A deadline carries a timezone or is naive.\<close>

datatype deadline = Aware int | Naive int

record exec_context =
  ctx_tenant :: string
  ctx_principal :: string
  ctx_request :: string
  ctx_parent :: "string option"
  ctx_goal :: "string option"
  ctx_attempt :: "string option"
  ctx_budget :: "string option"
  ctx_deadline :: "deadline option"
  ctx_parent_goal :: "string option"

definition opt_truthy :: "string option \<Rightarrow> bool" where
  "opt_truthy s = (s \<noteq> None \<and> s \<noteq> Some [])"

definition context_post_init :: "exec_context \<Rightarrow> exec_context result" where
  "context_post_init c =
     guard (ctx_tenant c \<noteq> [] \<and> ctx_principal c \<noteq> [] \<and> ctx_request c \<noteq> []) ValueError
       (guard (opt_truthy (ctx_goal c) = opt_truthy (ctx_attempt c)) ValueError
         (case ctx_deadline c of
            Some (Naive _) \<Rightarrow> Inl ValueError
          | _ \<Rightarrow> Inr c))"

section \<open>Rows\<close>

datatype effect_state = Prepared | Dispatching | Uncertain | Finished | Confirmed | NotApplied

text \<open>The \<open>resolution\<close> column, by the writer that stores it.\<close>

datatype resolution =
    Evidence string json
  | ToolResponse json
  | Reconciliation string string string
  | Lookup string

record effect =
  eff_id :: string
  eff_tenant :: string
  eff_principal :: string
  eff_request :: string
  eff_run :: string
  eff_agent :: string
  eff_goal :: "string option"
  eff_budget :: "string option"
  eff_tool :: string
  eff_fingerprint :: string
  eff_state :: effect_state
  eff_version :: nat
  eff_resolution :: "resolution option"
  eff_created :: int
  eff_updated :: int

type_synonym effects = "effect list"

record effect_verification =
  ver_outcome :: string
  ver_settled :: bool
  ver_reference :: string
  ver_result :: "json_obj option"

text \<open>
  The library functions: the codec, and the text pass of \<open>robothor.secrets.redaction\<close> on one
  string (a table of regular expressions).
\<close>

record effect_env = codec +
  redact_text :: "string \<Rightarrow> string"

definition READBACK_TOOLS :: "string set" where
  "READBACK_TOOLS = {''create_task'', ''create_note''}"

definition HOST_LOCAL_TOOLS :: "string set" where
  "HOST_LOCAL_TOOLS = {''exec'', ''execute_code'', ''browser'', ''write_file''}"

definition UNCERTAIN_FENCE_WINDOW :: int where
  "UNCERTAIN_FENCE_WINDOW = 24 * 60 * 60 * 1000000"

section \<open>Redaction of stored results\<close>

definition MAX_RESULT_DEPTH :: nat where
  "MAX_RESULT_DEPTH = 32"

definition BINARY_RESULT_KEYS :: "string set" where
  "BINARY_RESULT_KEYS = {''image_base64'', ''screenshot_base64''}"

function redact_tool_result :: "(string \<Rightarrow> string) \<Rightarrow> json \<Rightarrow> nat \<Rightarrow> json" where
  "redact_tool_result red j depth =
     (if MAX_RESULT_DEPTH < depth then JStr ''<redacted>''
      else (case j of
          JStr s \<Rightarrow> if s \<noteq> [] then JStr (red s) else JStr s
        | JObj kvs \<Rightarrow> JObj (map (\<lambda>(k, v).
            (k, if k \<in> BINARY_RESULT_KEYS then v else redact_tool_result red v (depth + 1))) kvs)
        | JArr vs \<Rightarrow> JArr (map (\<lambda>v. redact_tool_result red v (depth + 1)) vs)
        | _ \<Rightarrow> j))"
  by pat_completeness auto

termination
  by (relation "measure (\<lambda>(_, _, depth). Suc MAX_RESULT_DEPTH - depth)") auto

declare redact_tool_result.simps [simp del]

definition stored_result :: "('a effect_env_scheme) \<Rightarrow> json \<Rightarrow> json" where
  "stored_result env j = redact_tool_result (redact_text env) j 0"

section \<open>Reservation\<close>

text \<open>Presentation does not change the action: \<open>finalReport\<close> of a task is not hashed.\<close>

definition effect_fingerprint :: "('a effect_env_scheme) \<Rightarrow> string \<Rightarrow> json \<Rightarrow> string" where
  "effect_fingerprint env tool args =
     (let args' = (case args of
          JObj kvs \<Rightarrow> if tool = ''create_task''
            then JObj (filter (\<lambda>(k, _). k \<noteq> ''finalReport'') kvs) else args
        | _ \<Rightarrow> args)
      in hash_json env (JArr [JStr tool, args']))"

text \<open>\<open>column = value\<close> in SQL: with a null on either side it does not hold.\<close>

definition sql_eq :: "string option \<Rightarrow> string option \<Rightarrow> bool" where
  "sql_eq a b = (a \<noteq> None \<and> a = b)"

definition owned_by :: "exec_context \<Rightarrow> effect \<Rightarrow> bool" where
  "owned_by c r = (eff_tenant r = ctx_tenant c \<and> eff_principal r = ctx_principal c)"

definition unresolved :: "effect \<Rightarrow> bool" where
  "unresolved r = (eff_state r \<in> {Prepared, Dispatching, Uncertain})"

definition is_tool_response :: "resolution option \<Rightarrow> bool" where
  "is_tool_response r = (case r of Some (ToolResponse _) \<Rightarrow> True | _ \<Rightarrow> False)"

definition reconciled_row :: "exec_context \<Rightarrow> string \<Rightarrow> effect \<Rightarrow> bool" where
  "reconciled_row c digest r =
     (owned_by c r \<and> eff_request r = ctx_request c \<and> eff_fingerprint r = digest \<and>
      (eff_state r = Confirmed \<or>
       eff_state r = Finished \<and> is_tool_response (eff_resolution r)))"

definition fences :: "exec_context \<Rightarrow> string \<Rightarrow> string \<Rightarrow> int \<Rightarrow> effect \<Rightarrow> bool" where
  "fences c digest tool now r =
     (owned_by c r \<and>
      (unresolved r \<and> eff_fingerprint r = digest \<or>
       eff_state r = Uncertain \<and>
         (eff_request r = ctx_request c \<or> sql_eq (eff_goal r) (ctx_goal c) \<or>
          sql_eq (eff_budget r) (ctx_budget c) \<or>
          (eff_goal r = None \<and> eff_budget r = None \<and> eff_tool r = tool \<and>
           tool \<notin> HOST_LOCAL_TOOLS \<and>
           (tool \<in> READBACK_TOOLS \<or> eff_updated r > now - UNCERTAIN_FENCE_WINDOW)))))"

text \<open>\<open>ORDER BY created_at [DESC] LIMIT 1\<close>; among equal times, the first in the table.\<close>

fun newest :: "effects \<Rightarrow> effect option" where
  "newest [] = None"
| "newest (r # rs) =
     (case newest rs of
        None \<Rightarrow> Some r
      | Some q \<Rightarrow> if eff_created r < eff_created q then Some q else Some r)"

fun oldest :: "effects \<Rightarrow> effect option" where
  "oldest [] = None"
| "oldest (r # rs) =
     (case oldest rs of
        None \<Rightarrow> Some r
      | Some q \<Rightarrow> if eff_created q < eff_created r then Some q else Some r)"

text \<open>The primary key and the unique index over unresolved intents.\<close>

definition same_intent :: "effect \<Rightarrow> effect \<Rightarrow> bool" where
  "same_intent r q =
     (eff_tenant r = eff_tenant q \<and> eff_principal r = eff_principal q \<and>
      eff_fingerprint r = eff_fingerprint q)"

definition insert_effect :: "effect \<Rightarrow> effects \<Rightarrow> effects result" where
  "insert_effect r tbl =
     (if eff_id r \<in> eff_id ` set tbl then Inl DbError
      else if unresolved r \<and> list_ex (\<lambda>q. unresolved q \<and> same_intent q r) tbl then Inl DbError
      else Inr (tbl @ [r]))"

definition new_effect ::
  "exec_context \<Rightarrow> string \<Rightarrow> string \<Rightarrow> string \<Rightarrow> string \<Rightarrow> string \<Rightarrow> int \<Rightarrow> effect" where
  "new_effect c run agent tool digest uuid now =
     \<lparr>eff_id = uuid, eff_tenant = ctx_tenant c, eff_principal = ctx_principal c,
      eff_request = ctx_request c, eff_run = run, eff_agent = agent, eff_goal = ctx_goal c,
      eff_budget = ctx_budget c, eff_tool = tool, eff_fingerprint = digest,
      eff_state = Prepared, eff_version = 1, eff_resolution = None,
      eff_created = now, eff_updated = now\<rparr>"

datatype begin_error = EffectPending string | BeginFailed error

definition begin_effect ::
  "('a effect_env_scheme) \<Rightarrow> exec_context \<Rightarrow> string \<Rightarrow> string \<Rightarrow> string \<Rightarrow> json \<Rightarrow>
   string \<Rightarrow> int \<Rightarrow> effects \<Rightarrow> begin_error + effect \<times> effects" where
  "begin_effect env c run agent tool args uuid now tbl =
     (let digest = effect_fingerprint env tool args in
      case newest (filter (reconciled_row c digest) tbl) of
        Some r \<Rightarrow> Inr (r, tbl)
      | None \<Rightarrow>
          (case oldest (filter (fences c digest tool now) tbl) of
             Some r \<Rightarrow> Inl (EffectPending (eff_id r))
           | None \<Rightarrow>
               (let r = new_effect c run agent tool digest uuid now in
                case insert_effect r tbl of
                  Inl e \<Rightarrow> Inl (BeginFailed e)
                | Inr tbl' \<Rightarrow> Inr (r, tbl'))))"

section \<open>Updates\<close>

text \<open>\<open>UPDATE ... WHERE\<close>: the row count and the table after it.\<close>

definition sql_update :: "(effect \<Rightarrow> bool) \<Rightarrow> (effect \<Rightarrow> effect) \<Rightarrow> effects \<Rightarrow> nat \<times> effects" where
  "sql_update P f tbl =
     (length (filter P tbl), map (\<lambda>r. if P r then f r else r) tbl)"

definition one_row :: "nat \<times> effects \<Rightarrow> bool \<times> effects" where
  "one_row u = (fst u = 1, snd u)"

definition set_state :: "effect_state \<Rightarrow> int \<Rightarrow> effect \<Rightarrow> effect" where
  "set_state st now r =
     r\<lparr>eff_state := st, eff_version := eff_version r + 1, eff_updated := now\<rparr>"

definition set_resolution :: "effect_state \<Rightarrow> resolution \<Rightarrow> int \<Rightarrow> effect \<Rightarrow> effect" where
  "set_resolution st res now r = set_state st now (r\<lparr>eff_resolution := Some res\<rparr>)"

definition worker_row :: "exec_context \<Rightarrow> string \<Rightarrow> string \<Rightarrow> effect \<Rightarrow> bool" where
  "worker_row c ident run r =
     (eff_id r = ident \<and> owned_by c r \<and> eff_request r = ctx_request c \<and> eff_run r = run)"

definition mark_dispatched ::
  "exec_context \<Rightarrow> string \<Rightarrow> string \<Rightarrow> int \<Rightarrow> effects \<Rightarrow> bool \<times> effects" where
  "mark_dispatched c ident run now tbl =
     one_row (sql_update (\<lambda>r. worker_row c ident run r \<and> eff_state r = Prepared)
       (set_state Dispatching now) tbl)"

definition finish_effect ::
  "exec_context \<Rightarrow> string \<Rightarrow> string \<Rightarrow> bool \<Rightarrow> int \<Rightarrow> effects \<Rightarrow> bool \<times> effects" where
  "finish_effect c ident run uncertain now tbl =
     one_row (sql_update
       (\<lambda>r. worker_row c ident run r \<and> eff_state r \<in> {Prepared, Dispatching})
       (set_state (if uncertain then Uncertain else Finished) now) tbl)"

definition lose_worker :: "int \<Rightarrow> effect \<Rightarrow> effect" where
  "lose_worker now r =
     set_state (if eff_state r = Prepared then NotApplied else Uncertain) now r"

definition abandon_run :: "exec_context \<Rightarrow> string \<Rightarrow> int \<Rightarrow> effects \<Rightarrow> nat \<times> effects" where
  "abandon_run c run now tbl =
     sql_update
       (\<lambda>r. owned_by c r \<and> eff_run r = run \<and> eff_state r \<in> {Prepared, Dispatching})
       (lose_worker now) tbl"

text \<open>\<open>effect_results.record\<close> and \<open>cacheable\<close>.\<close>

definition record_result ::
  "('a effect_env_scheme) \<Rightarrow> exec_context \<Rightarrow> string \<Rightarrow> string \<Rightarrow> json \<Rightarrow> int \<Rightarrow> effects \<Rightarrow>
   bool \<times> effects" where
  "record_result env c ident run result now tbl =
     one_row (sql_update
       (\<lambda>r. worker_row c ident run r \<and> eff_state r = Dispatching)
       (set_resolution Finished (ToolResponse (stored_result env result)) now) tbl)"

text \<open>
  \<open>task_receipts._bind\<close>: the existing task a deduplication selected, remembered before its
  result is delivered; \<open>live\<close> tells whether the task is a live row of the effect's tenant.
\<close>

definition bind_existing ::
  "(string \<Rightarrow> string \<Rightarrow> bool) \<Rightarrow> effect \<Rightarrow> string \<Rightarrow> int \<Rightarrow> effects \<Rightarrow> effects result" where
  "bind_existing live rec task now tbl =
     (let u = sql_update
        (\<lambda>r. eff_id r = eff_id rec \<and> eff_tenant r = eff_tenant rec \<and> eff_run r = eff_run rec \<and>
          eff_principal r = eff_principal rec \<and> eff_state r = Dispatching \<and>
          eff_tool r = ''create_task'' \<and> live (eff_tenant r) task \<and>
          (eff_resolution r = None \<or> eff_resolution r = Some (Lookup task)))
        (set_resolution Dispatching (Lookup task) now) tbl
      in if fst u \<noteq> 1 then Inl ValueError else Inr (snd u))"

text \<open>The sweeps move an unresolved read-back to the end of the queue.\<close>

definition rotate_readback :: "string \<Rightarrow> string \<Rightarrow> int \<Rightarrow> effects \<Rightarrow> effects" where
  "rotate_readback tenant ident now tbl =
     snd (sql_update
       (\<lambda>r. eff_id r = ident \<and> eff_tenant r = tenant \<and> eff_state r = Uncertain)
       (\<lambda>r. r\<lparr>eff_updated := now\<rparr>) tbl)"

definition cacheable :: "json \<Rightarrow> bool" where
  "cacheable result =
     (case result of
        JObj d \<Rightarrow> \<not> truthy (obj_get d ''error'' JNull) \<and>
          obj_get d ''success'' JNull \<noteq> JBool False \<and>
          obj_get d ''ok'' JNull \<noteq> JBool False \<and>
          obj_get d ''status'' JNull \<notin> {JStr ''error'', JStr ''failed'', JStr ''rejected''}
      | _ \<Rightarrow> False)"

text \<open>
  What a recovery needs of its caller: a tenant and a principal (\<open>EffectScope\<close>). The row by
  its key, which is unique in the table.
\<close>

type_synonym effect_scope = "string \<times> string"

definition scope_row :: "effect_scope \<Rightarrow> string \<Rightarrow> effect \<Rightarrow> bool" where
  "scope_row sc ident r =
     (eff_id r = ident \<and> eff_tenant r = fst sc \<and> eff_principal r = snd sc)"

definition read_effect :: "effect_scope \<Rightarrow> string \<Rightarrow> effects \<Rightarrow> effect option" where
  "read_effect sc ident tbl = find (scope_row sc ident) tbl"

section \<open>Settling an uncertain effect\<close>

text \<open>
  \<open>resolve\<close> reads the row in one transaction, asks the verifier outside of any, and writes in
  another: \<open>resolve_decide\<close> is what it does up to the write, \<open>resolve_commit\<close> the write, a
  compare-and-swap on the version it read.
\<close>

definition check_verdict ::
  "('a effect_env_scheme) \<Rightarrow> effect_verification \<Rightarrow> (effect_state \<times> resolution) option result" where
  "check_verdict env v =
     (if ver_outcome v \<notin> {''applied'', ''not_applied'', ''unknown''} then Inl ValueError
      else if ver_outcome v = ''unknown'' \<or> \<not> ver_settled v then Inr None
      else if ver_reference v = [] then Inl ValueError
      else if ver_outcome v = ''applied'' \<and>
          (case ver_result v of None \<Rightarrow> True | Some d \<Rightarrow> truthy (obj_get d ''error'' JNull))
        then Inl ValueError
      else Inr (Some (if ver_outcome v = ''applied'' then Confirmed else NotApplied,
        Evidence (ver_reference v)
          (stored_result env (case ver_result v of None \<Rightarrow> JNull | Some d \<Rightarrow> JObj d)))))"

definition resolve_decide ::
  "('a effect_env_scheme) \<Rightarrow> (effect \<Rightarrow> effect_verification result) \<Rightarrow> effect option \<Rightarrow>
   (nat \<times> effect_state \<times> resolution) option result" where
  "resolve_decide env verifier row =
     (case row of
        None \<Rightarrow> Inr None
      | Some r \<Rightarrow>
          if eff_state r \<noteq> Uncertain then Inr None
          else bind_result (verifier r)
            (\<lambda>v. map_sum id (map_option (Pair (eff_version r))) (check_verdict env v)))"

definition resolve_commit ::
  "effect_scope \<Rightarrow> string \<Rightarrow> nat \<Rightarrow> effect_state \<Rightarrow> resolution \<Rightarrow> int \<Rightarrow> effects \<Rightarrow>
   bool \<times> effects" where
  "resolve_commit sc ident ver st res now tbl =
     one_row (sql_update
       (\<lambda>r. scope_row sc ident r \<and> eff_version r = ver \<and> eff_state r = Uncertain)
       (set_resolution st res now) tbl)"

text \<open>\<open>between\<close> is what the other workers do to the table while the verifier runs.\<close>

definition resolve_effect ::
  "('a effect_env_scheme) \<Rightarrow> (effects \<Rightarrow> effects) \<Rightarrow> effect_scope \<Rightarrow> string \<Rightarrow>
   (effect \<Rightarrow> effect_verification result) \<Rightarrow> int \<Rightarrow> effects \<Rightarrow> (bool \<times> effects) result" where
  "resolve_effect env between sc ident verifier now tbl =
     bind_result (resolve_decide env verifier (read_effect sc ident tbl))
       (\<lambda>d. Inr (case d of
            None \<Rightarrow> (False, between tbl)
          | Some (ver, st, res) \<Rightarrow> resolve_commit sc ident ver st res now (between tbl)))"

definition release_effect ::
  "effect_scope \<Rightarrow> string \<Rightarrow> string \<Rightarrow> string \<Rightarrow> string \<Rightarrow> int \<Rightarrow> effects \<Rightarrow>
   (bool \<times> effects) result" where
  "release_effect sc ident source actor note now tbl =
     (if py_strip actor = [] \<or> py_strip note = [] then Inl ValueError
      else Inr (one_row (sql_update
        (\<lambda>r. scope_row sc ident r \<and> eff_goal r = None \<and> eff_state r = Uncertain)
        (set_resolution Finished (Reconciliation source actor note) now) tbl)))"

definition attest ::
  "effect_scope \<Rightarrow> string \<Rightarrow> string \<Rightarrow> string \<Rightarrow> int \<Rightarrow> effects \<Rightarrow> (bool \<times> effects) result" where
  "attest sc ident actor note now tbl =
     release_effect sc ident ''reconciled'' actor note now tbl"

definition expire ::
  "effect_scope \<Rightarrow> string \<Rightarrow> string \<Rightarrow> string \<Rightarrow> int \<Rightarrow> effects \<Rightarrow> (bool \<times> effects) result" where
  "expire sc ident actor note now tbl =
     release_effect sc ident ''expired'' actor note now tbl"

section \<open>Runs that are over\<close>

text \<open>
  \<open>sweep_terminal\<close> gives up the unresolved effects of a tenant's ended runs, the hundred oldest
  that no other transaction holds locked; \<open>ended\<close> is the join with \<open>agent_runs\<close>.
\<close>

definition abandoned_rows ::
  "(effect \<Rightarrow> bool) \<Rightarrow> (effect \<Rightarrow> bool) \<Rightarrow> string \<Rightarrow> effects \<Rightarrow> effects" where
  "abandoned_rows ended locked tenant tbl =
     take 100 (sort_key (\<lambda>r. (eff_created r, eff_id r))
       (filter (\<lambda>r. eff_tenant r = tenant \<and> eff_state r \<in> {Prepared, Dispatching} \<and> ended r \<and>
          \<not> locked r) tbl))"

definition sweep_terminal ::
  "(effect \<Rightarrow> bool) \<Rightarrow> (effect \<Rightarrow> bool) \<Rightarrow> string \<Rightarrow> int \<Rightarrow> effects \<Rightarrow> nat \<times> effects" where
  "sweep_terminal ended locked tenant now tbl =
     (let abandoned = abandoned_rows ended locked tenant tbl
      in sql_update (\<lambda>r. r \<in> set abandoned) (lose_worker now) tbl)"

text \<open>
  \<open>chat_effect_recovery\<close>: a poll of a chat revokes the admission of one effect whose own run has
  ended; here \<open>ended\<close> also compares the run's user with the principal.
\<close>

definition revoke_admission ::
  "(effect \<Rightarrow> bool) \<Rightarrow> effect_scope \<Rightarrow> string \<Rightarrow> int \<Rightarrow> effects \<Rightarrow> effects" where
  "revoke_admission ended sc ident now tbl =
     snd (sql_update
       (\<lambda>r. scope_row sc ident r \<and> eff_state r \<in> {Prepared, Dispatching} \<and> ended r)
       (lose_worker now) tbl)"

text \<open>
  \<open>effect_summary.reconcile_family\<close>: an operator settles the uncertain effects of a goal's family
  at once; \<open>family\<close> holds of the ids of its goals.
\<close>

definition settle_family ::
  "(string \<Rightarrow> bool) \<Rightarrow> string \<Rightarrow> string \<Rightarrow> string \<Rightarrow> bool \<Rightarrow> int \<Rightarrow> effects \<Rightarrow> effects result" where
  "settle_family family tenant actor note operator now tbl =
     (let rows = filter (\<lambda>r. eff_tenant r = tenant \<and>
            (case eff_goal r of None \<Rightarrow> False | Some k \<Rightarrow> family k) \<and>
            eff_state r \<in> {Prepared, Dispatching, Uncertain}) tbl
      in if rows = [] then Inr tbl
         else if \<not> operator \<or> py_strip actor = [] \<or> py_strip note = [] then Inl ValueError
         else if \<exists>r \<in> set rows. eff_state r \<noteq> Uncertain then Inl ValueError
         else Inr (snd (sql_update
           (\<lambda>r. eff_tenant r = tenant \<and> eff_id r \<in> eff_id ` set rows \<and> eff_state r = Uncertain)
           (set_resolution Finished (Reconciliation ''reconciled'' actor note) now) tbl)))"

section \<open>The transactions as commands\<close>

text \<open>
  Every transaction of the running system that can reach the table, whoever runs it: \<open>CVerdict\<close>
  is the write of \<open>resolve\<close> for a verdict obtained on some earlier version of the row.
\<close>

datatype effect_cmd =
    CBegin exec_context string string string json string int
  | CMark exec_context string string int
  | CFinish exec_context string string bool int
  | CAbandon exec_context string int
  | CRecord exec_context string string json int
  | CVerdict effect_scope string nat effect_verification int
  | CRelease effect_scope string string string string int
  | CBind "string \<Rightarrow> string \<Rightarrow> bool" effect string int
  | CRotate string string int
  | CSweep "effect \<Rightarrow> bool" "effect \<Rightarrow> bool" string int
  | CRevoke "effect \<Rightarrow> bool" effect_scope string int
  | CSettleFamily "string \<Rightarrow> bool" string string string bool int

definition commit_verdict ::
  "('a effect_env_scheme) \<Rightarrow> effect_scope \<Rightarrow> string \<Rightarrow> nat \<Rightarrow> effect_verification \<Rightarrow> int \<Rightarrow> effects \<Rightarrow>
   effects result" where
  "commit_verdict env sc ident ver v now tbl =
     map_sum id (\<lambda>d. case d of
         None \<Rightarrow> tbl
       | Some (st, res) \<Rightarrow> snd (resolve_commit sc ident ver st res now tbl))
       (check_verdict env v)"

fun effect_step ::
  "('a effect_env_scheme) \<Rightarrow> effects \<Rightarrow> effect_cmd \<Rightarrow> error + effects" where
  "effect_step env tbl (CBegin c run agent tool args uuid now) =
     (case begin_effect env c run agent tool args uuid now tbl of
        Inl (EffectPending _) \<Rightarrow> Inl ValueError
      | Inl (BeginFailed e) \<Rightarrow> Inl e
      | Inr (_, tbl') \<Rightarrow> Inr tbl')"
| "effect_step env tbl (CMark c ident run now) = Inr (snd (mark_dispatched c ident run now tbl))"
| "effect_step env tbl (CFinish c ident run uncertain now) =
     Inr (snd (finish_effect c ident run uncertain now tbl))"
| "effect_step env tbl (CAbandon c run now) = Inr (snd (abandon_run c run now tbl))"
| "effect_step env tbl (CRecord c ident run result now) =
     Inr (snd (record_result env c ident run result now tbl))"
| "effect_step env tbl (CVerdict sc ident ver v now) = commit_verdict env sc ident ver v now tbl"
| "effect_step env tbl (CRelease sc ident source actor note now) =
     map_sum id snd (release_effect sc ident source actor note now tbl)"
| "effect_step env tbl (CBind live rec task now) = bind_existing live rec task now tbl"
| "effect_step env tbl (CRotate tenant ident now) = Inr (rotate_readback tenant ident now tbl)"
| "effect_step env tbl (CSweep ended locked tenant now) =
     Inr (snd (sweep_terminal ended locked tenant now tbl))"
| "effect_step env tbl (CRevoke ended sc ident now) = Inr (revoke_admission ended sc ident now tbl)"
| "effect_step env tbl (CSettleFamily family tenant actor note operator now) =
     settle_family family tenant actor note operator now tbl"

abbreviation effect_run :: "('a effect_env_scheme) \<Rightarrow> effects \<Rightarrow> effect_cmd list \<Rightarrow> effects" where
  "effect_run env \<equiv> exec_all (effect_step env)"

section \<open>What every transaction keeps\<close>

definition same_identity :: "effect \<Rightarrow> effect \<Rightarrow> bool" where
  "same_identity r q =
     (eff_id r = eff_id q \<and> eff_tenant r = eff_tenant q \<and> eff_principal r = eff_principal q \<and>
      eff_request r = eff_request q \<and> eff_run r = eff_run q \<and> eff_agent r = eff_agent q \<and>
      eff_created r = eff_created q \<and> eff_goal r = eff_goal q \<and>
      eff_budget r = eff_budget q \<and> eff_tool r = eff_tool q \<and>
      eff_fingerprint r = eff_fingerprint q)"

definition settled :: "effect \<Rightarrow> bool" where
  "settled r = (eff_state r = Confirmed \<or>
     eff_state r = Finished \<and> is_tool_response (eff_resolution r))"

fun state_rank :: "effect_state \<Rightarrow> nat" where
  "state_rank Prepared = 0"
| "state_rank Dispatching = 1"
| "state_rank Uncertain = 2"
| "state_rank _ = 3"

definition advances :: "effect \<Rightarrow> effect \<Rightarrow> bool" where
  "advances r q =
     (same_identity r q \<and> eff_version r \<le> eff_version q \<and>
      state_rank (eff_state r) \<le> state_rank (eff_state q) \<and>
      (\<not> unresolved r \<longrightarrow> q = r) \<and>
      (eff_version q = eff_version r \<longrightarrow> q = r\<lparr>eff_updated := eff_updated q\<rparr>))"

definition table_advances :: "effects \<Rightarrow> effects \<Rightarrow> bool" where
  "table_advances tbl tbl' = (\<forall>r \<in> set tbl. \<exists>q \<in> set tbl'. advances r q)"

definition effects_ok :: "effects \<Rightarrow> bool" where
  "effects_ok tbl =
     (distinct (map eff_id tbl) \<and>
      (\<forall>r \<in> set tbl. \<forall>q \<in> set tbl. unresolved r \<longrightarrow> unresolved q \<longrightarrow> same_intent r q \<longrightarrow> r = q) \<and>
      (\<forall>r \<in> set tbl. \<forall>q \<in> set tbl. settled r \<longrightarrow> unresolved q \<or> settled q \<longrightarrow>
         eff_request r = eff_request q \<longrightarrow> same_intent r q \<longrightarrow> r = q))"

lemma advances_refl [simp, intro]: "advances r r"
  by (simp add: advances_def same_identity_def)

lemma table_advances_refl [simp]: "table_advances t t"
  unfolding table_advances_def using advances_refl by blast

lemma advances_trans: "advances r q \<Longrightarrow> advances q p \<Longrightarrow> advances r p"
proof -
  assume a: "advances r q" and b: "advances q p"
  have ident: "same_identity r p" using a b by (simp add: advances_def same_identity_def)
  have le: "eff_version r \<le> eff_version q" "eff_version q \<le> eff_version p"
    "state_rank (eff_state r) \<le> state_rank (eff_state p)"
    using a b by (auto simp: advances_def)
  have frozen: "\<not> unresolved r \<Longrightarrow> p = r" using a b by (auto simp: advances_def)
  have "p = r\<lparr>eff_updated := eff_updated p\<rparr>" if "eff_version p = eff_version r"
  proof -
    have "eff_version q = eff_version r" "eff_version p = eff_version q" using le that by simp_all
    then have "q = r\<lparr>eff_updated := eff_updated q\<rparr>" "p = q\<lparr>eff_updated := eff_updated p\<rparr>"
      using a b by (simp_all only: advances_def simp_thms)
    then show ?thesis by (metis effect.update_convs(15) effect.surjective)
  qed
  then show ?thesis using ident le frozen by (simp only: advances_def simp_thms) simp
qed

lemma settled_not_unresolved: "settled r \<Longrightarrow> \<not> unresolved r"
  by (auto simp: settled_def unresolved_def)

lemma advances_unresolved: "advances r q \<Longrightarrow> unresolved q \<Longrightarrow> unresolved r"
  by (auto simp: advances_def)

lemma advances_settled: "advances r q \<Longrightarrow> settled r \<Longrightarrow> q = r"
  using settled_not_unresolved by (auto simp: advances_def)

lemma state_cases_unresolved:
  "unresolved r \<longleftrightarrow> state_rank (eff_state r) < 3"
  by (cases "eff_state r") (auto simp: unresolved_def)

lemma advances_set_state:
  assumes "state_rank (eff_state r) < state_rank st"
  shows "advances r (set_state st now r)" "advances r (set_resolution st res now r)"
proof -
  have "state_rank (eff_state r) < 3" using assms by (cases st) auto
  then show "advances r (set_state st now r)" "advances r (set_resolution st res now r)"
    using assms
    by (auto simp: advances_def same_identity_def set_state_def set_resolution_def
        state_cases_unresolved)
qed

lemma same_identity_intent:
  "same_identity r r' \<Longrightarrow> same_identity q q' \<Longrightarrow> same_intent r' q' = same_intent r q"
  by (auto simp: same_identity_def same_intent_def)

lemma effects_ok_idD:
  "effects_ok tbl \<Longrightarrow> r \<in> set tbl \<Longrightarrow> q \<in> set tbl \<Longrightarrow> eff_id r = eff_id q \<Longrightarrow> r = q"
  by (simp add: effects_ok_def distinct_map inj_on_def)

lemma sql_update_advances:
  assumes "\<And>r. P r \<Longrightarrow> advances r (f r)"
  shows "table_advances tbl (snd (sql_update P f tbl))"
  unfolding table_advances_def
proof
  fix r
  assume "r \<in> set tbl"
  moreover have "advances r (if P r then f r else r)" using assms by simp
  ultimately show "\<exists>q \<in> set (snd (sql_update P f tbl)). advances r q"
    by (auto simp: sql_update_def simp del: set_map intro!: bexI [of _ "if P r then f r else r"])
      (auto intro: rev_image_eqI)
qed

lemma sql_update_ok:
  assumes ok: "effects_ok tbl" and adv: "\<And>r. P r \<Longrightarrow> advances r (f r)"
  shows "effects_ok (snd (sql_update P f tbl))"
proof -
  define g where "g r = (if P r then f r else r)" for r
  have g: "advances r (g r)" for r by (simp add: g_def adv)
  have ident: "same_identity r (g r)" for r using g [of r] by (simp add: advances_def)
  have ids: "map eff_id (map g tbl) = map eff_id tbl"
    using ident by (auto simp: same_identity_def)
  have "distinct (map eff_id (map g tbl))" using ok unfolding ids effects_ok_def by simp
  moreover have "g r = g q" if "r \<in> set tbl" "q \<in> set tbl" "unresolved (g r)" "unresolved (g q)"
    "same_intent (g r) (g q)" for r q
  proof -
    have "unresolved r" "unresolved q"
      using that g [of r] g [of q] advances_unresolved by blast+
    moreover have "same_intent r q"
      using that same_identity_intent [OF ident [of r] ident [of q]] by simp
    ultimately have "r = q" using ok that(1,2) unfolding effects_ok_def by blast
    then show ?thesis by simp
  qed
  moreover have "g r = g q" if "r \<in> set tbl" "q \<in> set tbl" "settled (g r)"
    "unresolved (g q) \<or> settled (g q)" "eff_request (g r) = eff_request (g q)"
    "same_intent (g r) (g q)" for r q
  proof -
    have i: "same_intent r q"
      using that same_identity_intent [OF ident [of r] ident [of q]] by simp
    have req: "eff_request r = eff_request q"
      using that(5) ident [of r] ident [of q] by (simp add: same_identity_def)
    have live: "unresolved p \<or> settled p" if "unresolved (g p) \<or> settled (g p)" for p
      using that g [of p] by (auto simp: advances_def)
    have "unresolved r \<or> settled r" "unresolved q \<or> settled q" using live that(3,4) by blast+
    moreover have "same_intent q r" using i by (auto simp: same_intent_def)
    ultimately have "r = q" using ok that(1,2) i req unfolding effects_ok_def by metis
    then show ?thesis by simp
  qed
  ultimately have "effects_ok (map g tbl)" unfolding effects_ok_def by auto
  then show ?thesis by (simp add: sql_update_def g_def [abs_def])
qed

lemma in_set_insert_effect:
  "insert_effect r tbl = Inr tbl' \<Longrightarrow>
   tbl' = tbl @ [r] \<and> eff_id r \<notin> eff_id ` set tbl \<and>
   (unresolved r \<longrightarrow> (\<forall>q \<in> set tbl. unresolved q \<longrightarrow> \<not> same_intent q r))"
  by (auto simp: insert_effect_def list_ex_iff split: if_splits)

lemma newest_None [simp]: "newest rs = None \<longleftrightarrow> rs = []"
  by (cases rs) (auto split: option.splits)

lemma oldest_None [simp]: "oldest rs = None \<longleftrightarrow> rs = []"
  by (cases rs) (auto split: option.splits)

lemma newest_Some: "newest rs = Some r \<Longrightarrow> r \<in> set rs \<and> (\<forall>q \<in> set rs. eff_created q \<le> eff_created r)"
  by (induction rs arbitrary: r) (auto split: option.splits if_splits)

lemma oldest_Some: "oldest rs = Some r \<Longrightarrow> r \<in> set rs \<and> (\<forall>q \<in> set rs. eff_created r \<le> eff_created q)"
  by (induction rs arbitrary: r) (auto split: option.splits if_splits)

lemma new_effect_simps [simp]:
  "eff_id (new_effect c run agent tool digest uuid now) = uuid"
  "eff_tenant (new_effect c run agent tool digest uuid now) = ctx_tenant c"
  "eff_principal (new_effect c run agent tool digest uuid now) = ctx_principal c"
  "eff_request (new_effect c run agent tool digest uuid now) = ctx_request c"
  "eff_run (new_effect c run agent tool digest uuid now) = run"
  "eff_fingerprint (new_effect c run agent tool digest uuid now) = digest"
  "eff_state (new_effect c run agent tool digest uuid now) = Prepared"
  "unresolved (new_effect c run agent tool digest uuid now)"
  "\<not> settled (new_effect c run agent tool digest uuid now)"
  by (simp_all add: new_effect_def unresolved_def settled_def)

lemma reconciled_row_settled:
  "reconciled_row c digest r \<longleftrightarrow>
     owned_by c r \<and> eff_request r = ctx_request c \<and> eff_fingerprint r = digest \<and> settled r"
  by (auto simp: reconciled_row_def settled_def)

lemma effects_ok_snoc:
  assumes "effects_ok tbl" "eff_id r \<notin> eff_id ` set tbl" "unresolved r" "\<not> settled r"
    and "\<And>q. q \<in> set tbl \<Longrightarrow> unresolved q \<Longrightarrow> \<not> same_intent q r"
    and "\<And>q. q \<in> set tbl \<Longrightarrow> settled q \<Longrightarrow> eff_request q = eff_request r \<Longrightarrow> \<not> same_intent q r"
    and "\<And>q. same_intent r q = same_intent q r"
  shows "effects_ok (tbl @ [r])"
  unfolding effects_ok_def
proof (intro conjI ballI impI)
  show "distinct (map eff_id (tbl @ [r]))" using assms(1,2) by (simp add: effects_ok_def)
next
  fix p q
  assume "p \<in> set (tbl @ [r])" "q \<in> set (tbl @ [r])" "unresolved p" "unresolved q" "same_intent p q"
  then show "p = q" using assms(1,5,7) unfolding effects_ok_def by (metis Un_iff empty_iff
        insert_iff list.set(1) list.set(2) set_append)
next
  fix p q
  assume a: "p \<in> set (tbl @ [r])" "q \<in> set (tbl @ [r])" "settled p" "unresolved q \<or> settled q"
    "eff_request p = eff_request q" "same_intent p q"
  have "p \<in> set tbl" using a(1,3) assms(4) by auto
  then show "p = q" using a assms(1,6) unfolding effects_ok_def
    by (cases "q = r") auto
qed

text \<open>The three outcomes of a reservation.\<close>

lemma begin_effect_cases:
  assumes "begin_effect env c run agent tool args uuid now tbl = Inr (r, tbl')"
  defines "digest \<equiv> effect_fingerprint env tool args"
  obtains (replay) "tbl' = tbl" "r \<in> set tbl" "reconciled_row c digest r"
  | (fresh) "r = new_effect c run agent tool digest uuid now" "tbl' = tbl @ [r]"
      "uuid \<notin> eff_id ` set tbl"
      "\<forall>q \<in> set tbl. \<not> reconciled_row c digest q"
      "\<forall>q \<in> set tbl. \<not> fences c digest tool now q"
proof (cases "newest (filter (reconciled_row c digest) tbl)")
  case (Some q)
  then have "r = q" "tbl' = tbl" using assms by (auto simp: begin_effect_def Let_def)
  then show ?thesis using newest_Some [OF Some] replay by auto
next
  case None
  then have n: "\<forall>q \<in> set tbl. \<not> reconciled_row c digest q" by (simp add: filter_empty_conv)
  show ?thesis
  proof (cases "oldest (filter (fences c digest tool now) tbl)")
    case (Some q)
    then show ?thesis using assms(1) None by (simp add: begin_effect_def digest_def)
  next
    case o: None
    let ?n = "new_effect c run agent tool digest uuid now"
    have "insert_effect ?n tbl = Inr tbl'" "r = ?n"
      using assms(1) None o
      by (auto simp: begin_effect_def digest_def Let_def split: sum.splits)
    then show ?thesis using fresh n o in_set_insert_effect [of ?n tbl tbl']
      by (auto simp: filter_empty_conv)
  qed
qed

lemma begin_effect_ok:
  assumes ok: "effects_ok tbl"
    and b: "begin_effect env c run agent tool args uuid now tbl = Inr (r, tbl')"
  shows "effects_ok tbl'" "table_advances tbl tbl'"
proof -
  have "effects_ok tbl' \<and> table_advances tbl tbl'"
    using b
  proof (cases rule: begin_effect_cases)
    case replay
    then show ?thesis using ok by (auto simp: table_advances_def)
  next
    case fresh
    have "\<not> same_intent q r" if "q \<in> set tbl" "unresolved q" for q
      using fresh(1) fresh(5) that by (auto simp: fences_def owned_by_def same_intent_def)
    moreover have "\<not> same_intent q r" if "q \<in> set tbl" "settled q" "eff_request q = eff_request r" for q
      using fresh(1) fresh(4) that
      by (auto simp: reconciled_row_settled owned_by_def same_intent_def)
    moreover have "same_intent r q = same_intent q r" for q by (auto simp: same_intent_def)
    ultimately have "effects_ok (tbl @ [r])"
      using ok fresh(1,3) by (intro effects_ok_snoc) simp_all
    then show ?thesis using fresh(2) by (auto simp: table_advances_def)
  qed
  then show "effects_ok tbl'" "table_advances tbl tbl'" by simp_all
qed

lemma lose_worker_advances:
  "eff_state r \<in> {Prepared, Dispatching} \<Longrightarrow> advances r (lose_worker now r)"
  by (auto simp: lose_worker_def intro!: advances_set_state)

lemma snd_one_row [simp]: "snd (one_row u) = snd u"
  by (simp add: one_row_def)

lemma check_verdict_state:
  "check_verdict env v = Inr (Some (st, res)) \<Longrightarrow> st \<in> {Confirmed, NotApplied}"
  by (auto simp: check_verdict_def split: if_splits)

text \<open>Every transaction is an insert by a reservation or an update that advances rows.\<close>

lemma effect_step_update:
  assumes "effect_step env tbl cmd = Inr tbl'" "\<And>c run agent tool args uuid now.
    cmd \<noteq> CBegin c run agent tool args uuid now"
  shows "tbl' = tbl \<or> (\<exists>P f. tbl' = snd (sql_update P f tbl) \<and> (\<forall>r. P r \<longrightarrow> advances r (f r)))"
proof (cases cmd)
  case (CBegin c run agent tool args uuid now)
  then show ?thesis using assms(2) by simp
next
  case (CMark c ident run now)
  then show ?thesis using assms(1)
    by (auto simp: mark_dispatched_def intro!: exI advances_set_state)
next
  case (CFinish c ident run uncertain now)
  then show ?thesis using assms(1)
    by (auto simp: finish_effect_def intro!: exI advances_set_state)
next
  case (CAbandon c run now)
  then show ?thesis using assms(1)
    by (auto simp: abandon_run_def intro!: exI lose_worker_advances)
next
  case (CRecord c ident run result now)
  then show ?thesis using assms(1)
    by (auto simp: record_result_def intro!: exI advances_set_state)
next
  case (CVerdict sc ident ver v now)
  then obtain d where d: "check_verdict env v = Inr d" using assms(1)
    by (auto simp: commit_verdict_def)
  show ?thesis
  proof (cases d)
    case None
    then show ?thesis using CVerdict assms(1) d by (simp add: commit_verdict_def)
  next
    case (Some p)
    obtain st res where p: "p = (st, res)" by (cases p)
    then have "state_rank st = 3" using check_verdict_state d Some by fastforce
    then show ?thesis using CVerdict assms(1) d Some p
      by (auto simp: commit_verdict_def resolve_commit_def intro!: exI advances_set_state)
  qed
next
  case (CBind live rec task now)
  let ?P = "\<lambda>r. eff_id r = eff_id rec \<and> eff_tenant r = eff_tenant rec \<and> eff_run r = eff_run rec \<and>
    eff_principal r = eff_principal rec \<and> eff_state r = Dispatching \<and>
    eff_tool r = ''create_task'' \<and> live (eff_tenant r) task \<and>
    (eff_resolution r = None \<or> eff_resolution r = Some (Lookup task))"
  let ?f = "set_resolution Dispatching (Lookup task) now"
  have "tbl' = snd (sql_update ?P ?f tbl)" using assms(1) CBind
    by (auto simp: bind_existing_def Let_def split: if_splits)
  moreover have "\<forall>r. ?P r \<longrightarrow> advances r (?f r)"
    by (auto simp: advances_def same_identity_def set_resolution_def set_state_def unresolved_def)
  ultimately show ?thesis by blast
next
  case (CRotate tenant ident now)
  then show ?thesis using assms(1)
    by (auto simp: rotate_readback_def advances_def same_identity_def unresolved_def intro!: exI)
next
  case (CSweep ended locked tenant now)
  have "\<forall>r \<in> set (abandoned_rows ended locked tenant tbl). advances r (lose_worker now r)"
    by (auto simp: abandoned_rows_def intro!: lose_worker_advances dest!: in_set_takeD)
  then show ?thesis using CSweep assms(1)
    by (auto simp: sweep_terminal_def Let_def intro!: exI)
next
  case (CRevoke ended sc ident now)
  then show ?thesis using assms(1)
    by (auto simp: revoke_admission_def intro!: exI lose_worker_advances)
next
  case (CSettleFamily family tenant actor why operator now)
  then show ?thesis using assms(1)
    by (auto simp: settle_family_def Let_def split: if_splits intro!: exI advances_set_state)
next
  case (CRelease sc ident source actor why now)
  let ?P = "\<lambda>r. scope_row sc ident r \<and> eff_goal r = None \<and> eff_state r = Uncertain"
  let ?f = "set_resolution Finished (Reconciliation source actor why) now"
  have "tbl' = snd (sql_update ?P ?f tbl)" using assms(1) CRelease
    by (auto simp: release_effect_def split: if_splits dest!: arg_cong [of "one_row _" _ snd])
  moreover have "\<forall>r. ?P r \<longrightarrow> advances r (?f r)" by (auto intro!: advances_set_state)
  ultimately show ?thesis by blast
qed

lemma effect_step_ok:
  assumes "effects_ok tbl" "effect_step env tbl cmd = Inr tbl'"
  shows "effects_ok tbl'" "table_advances tbl tbl'"
proof -
  have "effects_ok tbl' \<and> table_advances tbl tbl'"
  proof (cases "\<exists>c run agent tool args uuid now. cmd = CBegin c run agent tool args uuid now")
    case True
    then show ?thesis using assms begin_effect_ok
      by (auto split: sum.splits begin_error.splits)
  next
    case False
    then consider "tbl' = tbl"
      | P f where "tbl' = snd (sql_update P f tbl)" "\<And>r. P r \<Longrightarrow> advances r (f r)"
      using effect_step_update [OF assms(2)] by blast
    then show ?thesis
    proof cases
      case 1
      then show ?thesis using assms(1) by simp
    next
      case 2
      then show ?thesis using sql_update_ok [OF assms(1), of P f] sql_update_advances [of P f tbl]
        by simp
    qed
  qed
  then show "effects_ok tbl'" "table_advances tbl tbl'" by simp_all
qed

lemma table_advances_trans:
  "table_advances s t \<Longrightarrow> table_advances t u \<Longrightarrow> table_advances s u"
  unfolding table_advances_def using advances_trans by blast

interpretation effects_run: guarded_machine
  "effect_step env" effects_ok table_advances "\<lambda>_. True"
  by unfold_locales
    (auto intro: effect_step_ok table_advances_trans simp: table_advances_refl)

lemma fences_unresolved: "fences c digest tool now r \<Longrightarrow> unresolved r"
  unfolding fences_def by (elim conjE disjE) (simp_all add: unresolved_def)

lemma run_ok: "effects_ok tbl \<Longrightarrow> effects_ok (effect_run env tbl cmds)"
  by (rule effects_run.run_inv) simp_all

lemma run_advances: "effects_ok tbl \<Longrightarrow> table_advances tbl (effect_run env tbl cmds)"
  by (rule effects_run.run_rel) simp_all

lemma run_rowE:
  assumes "effects_ok tbl" "r \<in> set tbl"
  obtains q where "q \<in> set (effect_run env tbl cmds)" "advances r q"
  using run_advances [OF assms(1), of env cmds] assms(2) unfolding table_advances_def by blast

lemma sql_update_one:
  assumes "effects_ok tbl" "r \<in> set tbl" "P r" "\<And>q. P q \<Longrightarrow> eff_id q = eff_id r"
  shows "fst (sql_update P f tbl) = 1"
proof -
  have "filter P tbl = filter (\<lambda>q. q = r) tbl"
  proof (rule filter_cong [OF refl])
    fix q
    assume "q \<in> set tbl"
    then show "P q = (q = r)" using assms(2-4) effects_ok_idD [OF assms(1), of q r] by blast
  qed
  moreover have "distinct tbl" using assms(1) distinct_map unfolding effects_ok_def by blast
  ultimately show ?thesis using assms(2)
    by (simp add: sql_update_def distinct_length_filter)
qed

lemma sql_update_none: "\<forall>r \<in> set tbl. \<not> P r \<Longrightarrow> sql_update P f tbl = (0, tbl)"
  by (auto simp: sql_update_def filter_empty_conv intro: map_idI)

section \<open>Properties\<close>

lemma state_rank_less_1: "state_rank s < Suc 0 \<longleftrightarrow> s = Prepared"
  by (cases s) auto

text \<open>
  C5: a reserved action is dispatched at most once: after one worker's \<open>mark_dispatched\<close>
  succeeded, no later one does for that row, by the same or another worker, whatever
  reservations, results, losses, verdicts and releases come between.
\<close>

theorem effect_dispatched_once:
  assumes "effects_ok tbl"
    and "mark_dispatched c ident run now tbl = (True, tbl')"
  shows "mark_dispatched c' ident run' now' (effect_run env tbl' cmds) =
    (False, effect_run env tbl' cmds)"
proof -
  let ?P = "\<lambda>r. worker_row c ident run r \<and> eff_state r = Prepared"
  have t: "tbl' = snd (sql_update ?P (set_state Dispatching now) tbl)"
    and n: "fst (sql_update ?P (set_state Dispatching now) tbl) = 1"
    using assms(2) by (auto simp: mark_dispatched_def one_row_def)
  have ok: "effects_ok tbl'"
    using assms(1) unfolding t by (intro sql_update_ok advances_set_state) auto
  have "filter ?P tbl \<noteq> []" using n by (auto simp: sql_update_def)
  then obtain r where r: "r \<in> set tbl" "?P r" by (auto simp: filter_empty_conv)
  define d where "d = set_state Dispatching now r"
  have d: "d \<in> set tbl'" "eff_id d = ident" "eff_state d = Dispatching"
    using r by (force simp: t d_def sql_update_def set_state_def worker_row_def)+
  let ?T = "effect_run env tbl' cmds"
  obtain q where q: "q \<in> set ?T" "advances d q" using run_rowE [OF ok d(1)] .
  have no: "\<not> (worker_row c' ident run' p \<and> eff_state p = Prepared)" if "p \<in> set ?T" for p
  proof
    assume a: "worker_row c' ident run' p \<and> eff_state p = Prepared"
    then have "eff_id p = eff_id q" using q(2) d(2)
      by (simp add: worker_row_def advances_def same_identity_def)
    then have "p = q" using effects_ok_idD [OF run_ok [OF ok] that q(1)] by simp
    then show False using a q(2) d(3) by (simp add: advances_def)
  qed
  then show ?thesis
    unfolding mark_dispatched_def by (subst sql_update_none) (auto simp: one_row_def)
qed

text \<open>
  C6: once an action of a request is confirmed by a verifier or its tool's response is
  recorded, every later attempt to reserve the same action for that request returns that very
  row and writes nothing: the action is replayed, not repeated.
\<close>

theorem effect_response_replayed:
  assumes "effects_ok tbl" and "r \<in> set tbl"
    and "reconciled_row c (effect_fingerprint env tool args) r"
  shows "begin_effect env c run agent tool args uuid now (effect_run env' tbl cmds) =
    Inr (r, effect_run env' tbl cmds)"
proof -
  let ?T = "effect_run env' tbl cmds"
  let ?d = "effect_fingerprint env tool args"
  have st: "settled r" using assms(3) by (simp add: reconciled_row_settled)
  obtain q where "q \<in> set ?T" "advances r q" using run_rowE [OF assms(1,2)] .
  then have r: "r \<in> set ?T" using advances_settled st by metis
  have "p = r" if "p \<in> set (filter (reconciled_row c ?d) ?T)" for p
  proof -
    have p: "p \<in> set ?T" "reconciled_row c ?d p" using that by simp_all
    have "same_intent r p" "eff_request r = eff_request p" "settled p"
      using p(2) assms(3)
      by (simp_all add: reconciled_row_settled owned_by_def same_intent_def)
    then show ?thesis using run_ok [OF assms(1)] r p(1) st unfolding effects_ok_def by blast
  qed
  moreover obtain p where "newest (filter (reconciled_row c ?d) ?T) = Some p"
    using r assms(3) newest_None [of "filter (reconciled_row c ?d) ?T"]
    by (cases "newest (filter (reconciled_row c ?d) ?T)") (auto simp: filter_empty_conv)
  ultimately have "newest (filter (reconciled_row c ?d) ?T) = Some r"
    using newest_Some by blast
  then show ?thesis by (simp add: begin_effect_def Let_def)
qed

text \<open>
  C25: in every table the transactions can build, an action of a principal has at most one
  unresolved row; so a reservation never meets the unique index over unresolved intents: with
  an identifier not in the table it replays a recorded row, refuses, naming an unresolved row,
  or adds one prepared row.
\<close>

theorem effect_single_flight:
  fixes env' :: "'b effect_env_scheme" and cmds :: "effect_cmd list"
  defines "tbl \<equiv> effect_run env' [] cmds"
  assumes "uuid \<notin> eff_id ` set tbl"
  shows "(\<forall>r \<in> set tbl. \<forall>q \<in> set tbl. unresolved r \<and> unresolved q \<and> same_intent r q \<longrightarrow> r = q) \<and>
    (case begin_effect env c run agent tool args uuid now tbl of
       Inl (BeginFailed e) \<Rightarrow> False
     | Inl (EffectPending ident) \<Rightarrow> \<exists>r \<in> set tbl. eff_id r = ident \<and> unresolved r
     | Inr (r, tbl') \<Rightarrow> r \<in> set tbl \<and> settled r \<and> tbl' = tbl \<or>
         eff_id r = uuid \<and> eff_state r = Prepared \<and> tbl' = tbl @ [r])"
proof -
  have "effects_ok []" by (simp add: effects_ok_def)
  then have ok: "effects_ok tbl" unfolding tbl_def by (rule run_ok)
  let ?d = "effect_fingerprint env tool args"
  have "\<exists>r \<in> set tbl. eff_id r = ident \<and> unresolved r"
    if b: "begin_effect env c run agent tool args uuid now tbl = Inl (EffectPending ident)" for ident
  proof -
    obtain r where r: "oldest (filter (fences c ?d tool now) tbl) = Some r" "ident = eff_id r"
      using b by (auto simp: begin_effect_def Let_def split: option.splits sum.splits)
    have "r \<in> set tbl" "fences c ?d tool now r" using oldest_Some [OF r(1)] by auto
    then show ?thesis using r(2) fences_unresolved by blast
  qed
  moreover have "begin_effect env c run agent tool args uuid now tbl \<noteq> Inl (BeginFailed e)" for e
  proof
    let ?n = "new_effect c run agent tool ?d uuid now"
    assume "begin_effect env c run agent tool args uuid now tbl = Inl (BeginFailed e)"
    then have "oldest (filter (fences c ?d tool now) tbl) = None" "insert_effect ?n tbl = Inl e"
      by (auto simp: begin_effect_def Let_def split: option.splits sum.splits)
    moreover have "fences c ?d tool now q" if "unresolved q" "same_intent q ?n" for q
      using that by (simp add: fences_def owned_by_def same_intent_def)
    ultimately show False using assms(2)
      by (auto simp: insert_effect_def list_ex_iff filter_empty_conv split: if_splits)
  qed
  moreover have "r \<in> set tbl \<and> settled r \<and> tbl' = tbl \<or>
      eff_id r = uuid \<and> eff_state r = Prepared \<and> tbl' = tbl @ [r]"
    if "begin_effect env c run agent tool args uuid now tbl = Inr (r, tbl')" for r tbl'
    using that by (cases rule: begin_effect_cases) (auto simp: reconciled_row_settled)
  moreover have "\<forall>r \<in> set tbl. \<forall>q \<in> set tbl. unresolved r \<and> unresolved q \<and> same_intent r q \<longrightarrow> r = q"
    using ok unfolding effects_ok_def by blast
  ultimately show ?thesis by (auto split: sum.splits begin_error.splits)
qed

text \<open>
  a verdict settles only the row it was given for. \<open>resolve\<close> read an uncertain row, asked
  the verifier while other workers went on, and now writes: the write takes effect exactly if
  nothing but the row's rotation changed it meanwhile, and otherwise leaves the table alone.
\<close>

theorem stale_verdict_dropped:
  assumes "effects_ok tbl" and "read_effect sc ident tbl = Some r" and "eff_state r = Uncertain"
    and "read_effect sc ident (effect_run env tbl cmds) = Some q"
  shows "(q = r\<lparr>eff_updated := eff_updated q\<rparr> \<longrightarrow>
      fst (resolve_commit sc ident (eff_version r) st res now (effect_run env tbl cmds))) \<and>
    (q \<noteq> r\<lparr>eff_updated := eff_updated q\<rparr> \<longrightarrow>
      resolve_commit sc ident (eff_version r) st res now (effect_run env tbl cmds) =
        (False, effect_run env tbl cmds))"
proof -
  let ?T = "effect_run env tbl cmds"
  let ?P = "\<lambda>p. scope_row sc ident p \<and> eff_version p = eff_version r \<and> eff_state p = Uncertain"
  have r: "r \<in> set tbl" "scope_row sc ident r" and q: "q \<in> set ?T" "scope_row sc ident q"
    using assms(2,4) by (auto simp: read_effect_def find_Some_iff)
  obtain q' where q': "q' \<in> set ?T" "advances r q'" using run_rowE [OF assms(1) r(1)] .
  have "eff_id q' = eff_id q" using q'(2) q(2) r(2)
    by (simp add: scope_row_def advances_def same_identity_def)
  then have adv: "advances r q"
    using effects_ok_idD [OF run_ok [OF assms(1)] q'(1) q(1)] q'(2) by simp
  have only: "p = q" if "p \<in> set ?T" "scope_row sc ident p" for p
    using effects_ok_idD [OF run_ok [OF assms(1)] that(1) q(1)] that(2) q(2)
    by (simp add: scope_row_def)
  show ?thesis
  proof (cases "q = r\<lparr>eff_updated := eff_updated q\<rparr>")
    case True
    have "eff_version q = eff_version r" by (subst True) simp
    moreover have "eff_state q = Uncertain" using assms(3) by (subst True) simp
    ultimately have "fst (sql_update ?P (set_resolution st res now) ?T) = 1"
      using q by (intro sql_update_one [OF run_ok [OF assms(1)] q(1)]) (auto simp: scope_row_def)
    then show ?thesis using True by (simp add: resolve_commit_def one_row_def)
  next
    case False
    then have "eff_version q \<noteq> eff_version r" using adv by (auto simp: advances_def)
    then have "sql_update ?P (set_resolution st res now) ?T = (0, ?T)"
      using only by (intro sql_update_none) auto
    then show ?thesis using False by (simp add: resolve_commit_def one_row_def)
  qed
qed

section \<open>Witnesses\<close>

definition plain_effect_env :: effect_env where
  "plain_effect_env = \<lparr>json_loads = \<lambda>_. None, json_dumps = \<lambda>_. [], sha256_hex = \<lambda>s. s,
     uuid5_url = \<lambda>s. s, redact_text = \<lambda>s. s\<rparr>"

definition sample_context :: exec_context where
  "sample_context = \<lparr>ctx_tenant = ''t'', ctx_principal = ''p'', ctx_request = ''q'',
     ctx_parent = None, ctx_goal = None, ctx_attempt = None, ctx_budget = None,
     ctx_deadline = None, ctx_parent_goal = None\<rparr>"

definition sample_row :: "effect_state \<Rightarrow> resolution option \<Rightarrow> effect" where
  "sample_row st res = (new_effect sample_context ''r'' ''a'' ''send'' [] ''u'' 0)
     \<lparr>eff_state := st, eff_resolution := res\<rparr>"

lemma sample_ok: "effects_ok [sample_row st res]"
  by (simp add: effects_ok_def)

lemma sample_row_simps [simp]:
  "eff_id (sample_row st res) = ''u''" "eff_tenant (sample_row st res) = ''t''"
  "eff_principal (sample_row st res) = ''p''" "eff_request (sample_row st res) = ''q''"
  "eff_run (sample_row st res) = ''r''" "eff_fingerprint (sample_row st res) = []"
  "eff_state (sample_row st res) = st" "eff_resolution (sample_row st res) = res"
  "eff_goal (sample_row st res) = None" "eff_version (sample_row st res) = 1"
  by (simp_all add: sample_row_def new_effect_def sample_context_def)

lemma sample_context_simps [simp]:
  "ctx_tenant sample_context = ''t''" "ctx_principal sample_context = ''p''"
  "ctx_request sample_context = ''q''"
  by (simp_all add: sample_context_def)

lemma sample_fingerprint: "effect_fingerprint plain_effect_env tool args = []"
  by (simp add: effect_fingerprint_def hash_json_def plain_effect_env_def)

theorem effect_dispatched_once_witness:
  "fst (mark_dispatched sample_context ''u'' ''r'' 1 [sample_row Prepared None]) \<and>
   (let tbl = snd (mark_dispatched sample_context ''u'' ''r'' 1 [sample_row Prepared None]);
        t = effect_run plain_effect_env tbl [CFinish sample_context ''u'' ''r'' True 2]
    in mark_dispatched sample_context ''u'' ''r'' 3 t = (False, t))"
proof -
  have m: "fst (mark_dispatched sample_context ''u'' ''r'' 1 [sample_row Prepared None])"
    by (simp add: mark_dispatched_def one_row_def sql_update_def worker_row_def owned_by_def)
  then have "mark_dispatched sample_context ''u'' ''r'' 1 [sample_row Prepared None] =
      (True, snd (mark_dispatched sample_context ''u'' ''r'' 1 [sample_row Prepared None]))"
    by (cases "mark_dispatched sample_context ''u'' ''r'' 1 [sample_row Prepared None]") simp
  from effect_dispatched_once [OF sample_ok this] m show ?thesis by (simp only: Let_def simp_thms)
qed

theorem effect_response_replayed_witness:
  "let r = sample_row Finished (Some (ToolResponse JNull));
       t = effect_run plain_effect_env [r] [CFinish sample_context ''u'' ''r'' True 2]
   in begin_effect plain_effect_env sample_context ''r2'' ''a'' ''send'' JNull ''w'' 3 t = Inr (r, t)"
  unfolding Let_def
  by (rule effect_response_replayed [OF sample_ok])
    (simp_all add: reconciled_row_def owned_by_def sample_fingerprint is_tool_response_def)

theorem effect_single_flight_witness:
  "case begin_effect plain_effect_env sample_context ''r'' ''a'' ''send'' JNull ''u'' 3
       (effect_run plain_effect_env [] []) of
     Inl (BeginFailed e) \<Rightarrow> False
   | Inl (EffectPending ident) \<Rightarrow>
       \<exists>r \<in> set (effect_run plain_effect_env [] []). eff_id r = ident \<and> unresolved r
   | Inr (r, tbl') \<Rightarrow>
       r \<in> set (effect_run plain_effect_env [] []) \<and> settled r \<and>
         tbl' = effect_run plain_effect_env [] [] \<or>
       eff_id r = ''u'' \<and> eff_state r = Prepared \<and> tbl' = effect_run plain_effect_env [] [] @ [r]"
  by (rule conjunct2 [OF effect_single_flight]) simp

theorem stale_verdict_dropped_witness:
  "resolve_commit (''t'', ''p'') ''u'' 1 Confirmed (Evidence ''e'' JNull) 9
     (effect_run plain_effect_env [sample_row Uncertain None]
       [CRelease (''t'', ''p'') ''u'' ''reconciled'' ''op'' ''seen'' 5]) =
   (False, effect_run plain_effect_env [sample_row Uncertain None]
       [CRelease (''t'', ''p'') ''u'' ''reconciled'' ''op'' ''seen'' 5])"
proof -
  let ?r = "sample_row Uncertain None"
  let ?q = "set_resolution Finished (Reconciliation ''reconciled'' ''op'' ''seen'') 5 ?r"
  let ?cs = "[CRelease (''t'', ''p'') ''u'' ''reconciled'' ''op'' ''seen'' 5]"
  have sp: "py_strip ''op'' \<noteq> []" "py_strip ''seen'' \<noteq> []" by (simp_all add: py_strip_def is_space_def)
  then have run: "effect_run plain_effect_env [?r] ?cs = [?q]"
    by (simp add: release_effect_def one_row_def sql_update_def scope_row_def)
  have 1: "read_effect (''t'', ''p'') ''u'' [?r] = Some ?r"
    by (simp add: read_effect_def scope_row_def)
  have 2: "read_effect (''t'', ''p'') ''u'' (effect_run plain_effect_env [?r] ?cs) = Some ?q"
    unfolding run by (simp add: read_effect_def scope_row_def set_resolution_def set_state_def)
  have "?q \<noteq> ?r\<lparr>eff_updated := eff_updated ?q\<rparr>"
  proof
    assume "?q = ?r\<lparr>eff_updated := eff_updated ?q\<rparr>"
    then have "eff_state ?q = eff_state (?r\<lparr>eff_updated := eff_updated ?q\<rparr>)" by (rule arg_cong)
    then show False by (simp add: set_resolution_def set_state_def)
  qed
  with stale_verdict_dropped [OF sample_ok 1 _ 2, of Confirmed "Evidence ''e'' JNull" 9]
  show ?thesis by simp
qed

end
