(* ===== verification/Delegation_Models.thy ===== *)
theory Delegation_Models
  imports Spend_Limits "HOL-Library.Product_Lexorder"
begin

text \<open>
  Delegated spending, its contracts (\<open>robothor/autonomy/models.py\<close>) and the projection of
  what is committed per month (\<open>robothor/autonomy/budget.py\<close>). A date is year, month and day,
  compared in that order; a UTC time is a date with the microsecond of the day. The text fields
  of an operation are kept but their patterns and lengths are not modelled.
\<close>

section \<open>Dates\<close>

type_synonym date = "int \<times> int \<times> int"
type_synonym datetime = "date \<times> int"

fun date_year :: "date \<Rightarrow> int" where "date_year (y, m, d) = y"
fun date_month :: "date \<Rightarrow> int" where "date_month (y, m, d) = m"
fun date_day :: "date \<Rightarrow> int" where "date_day (y, m, d) = d"

definition leap_year :: "int \<Rightarrow> bool" where
  "leap_year y = (y mod 4 = 0 \<and> (y mod 100 \<noteq> 0 \<or> y mod 400 = 0))"

text \<open>\<open>calendar.monthrange(year, month)[1]\<close>.\<close>

definition days_in_month :: "int \<Rightarrow> int \<Rightarrow> int" where
  "days_in_month y m =
     (if m = 2 then (if leap_year y then 29 else 28)
      else if m \<in> {4, 6, 9, 11} then 30 else 31)"

text \<open>\<open>date.toordinal()\<close>: the differences of dates in days.\<close>

definition days_before_month :: "int \<Rightarrow> int \<Rightarrow> int" where
  "days_before_month y m = sum_list (map (\<lambda>k. days_in_month y k) [1..m - 1])"

definition ordinal :: "date \<Rightarrow> int" where
  "ordinal dt = (case dt of (y, m, d) \<Rightarrow>
     (y - 1) * 365 + (y - 1) div 4 - (y - 1) div 100 + (y - 1) div 400 +
     days_before_month y m + d)"

definition month_index :: "date \<Rightarrow> int" where
  "month_index dt = date_year dt * 12 + date_month dt - 1"

definition real_date :: "date \<Rightarrow> bool" where
  "real_date dt =
     (1 \<le> date_month dt \<and> date_month dt \<le> 12 \<and> 1 \<le> date_day dt \<and>
      date_day dt \<le> days_in_month (date_year dt) (date_month dt))"

text \<open>The ordinal before the first day of a month; a day is counted from there.\<close>

definition month_start :: "int \<Rightarrow> int" where
  "month_start k = ordinal (k div 12, k mod 12 + 1, 0)"

lemma month_parts: "real_date dt \<Longrightarrow> month_index dt div 12 = date_year dt \<and> month_index dt mod 12 = date_month dt - 1"
  unfolding real_date_def month_index_def by presburger

lemma ordinal_month_start: "real_date dt \<Longrightarrow> ordinal dt = month_start (month_index dt) + date_day dt"
  using month_parts [of dt] by (cases dt) (simp add: month_start_def ordinal_def)

lemma div_before:
  fixes n :: int
  assumes "0 < n"
  shows "y div n = (y - 1) div n + (if y mod n = 0 then 1 else 0)"
proof (cases "y mod n = 0")
  case True
  then have "y = n * (y div n)" using mult_div_mod_eq [of n y] by simp
  then have "y - 1 = n * (y div n - 1) + (n - 1)" by (simp add: algebra_simps)
  then have "(y - 1) div n = y div n - 1" by (rule int_div_pos_eq) (use assms in simp_all)
  then show ?thesis using True by simp
next
  case False
  have "y - 1 = n * (y div n) + (y mod n - 1)" by simp
  then have "(y - 1) div n = y div n"
    by (rule int_div_pos_eq) (use assms False pos_mod_sign [of n y] pos_mod_bound [of n y] in linarith)+
  then show ?thesis using False by simp
qed

lemma leap_divides:
  fixes y :: int
  shows "y mod 400 = 0 \<Longrightarrow> y mod 100 = 0" "y mod 100 = 0 \<Longrightarrow> y mod 4 = 0"
  by presburger+

lemma year_length:
  "ordinal (y + 1, 1, 0) = ordinal (y, 1, 0) + 365 + (if leap_year y then 1 else 0)"
proof -
  define a b c :: int where "a = (if y mod 4 = 0 then 1 else 0)" and "b = (if y mod 100 = 0 then 1 else 0)"
    and "c = (if y mod 400 = 0 then 1 else 0)"
  have "y div 4 = (y - 1) div 4 + a" "y div 100 = (y - 1) div 100 + b" "y div 400 = (y - 1) div 400 + c"
    unfolding a_def b_def c_def by (rule div_before, simp)+
  moreover have "a - b + c = (if leap_year y then 1 else 0)"
    using leap_divides [of y] unfolding a_def b_def c_def leap_year_def
    by (cases "y mod 400 = 0"; cases "y mod 100 = 0"; cases "y mod 4 = 0") simp_all
  moreover have "ordinal (y + 1, 1, 0) = y * 365 + y div 4 - y div 100 + y div 400"
    "ordinal (y, 1, 0) = (y - 1) * 365 + (y - 1) div 4 - (y - 1) div 100 + (y - 1) div 400"
    by (simp_all add: ordinal_def days_before_month_def)
  moreover have "o1 = o0 + 365 + l" if "q4 = p4 + a" "q1 = p1 + b" "q5 = p5 + c" "a - b + c = l"
    "o1 = y * 365 + q4 - q1 + q5" "o0 = (y - 1) * 365 + p4 - p1 + p5" for o1 o0 l q4 q1 q5 p4 p1 p5 :: int
    using that by simp
  ultimately show ?thesis by blast
qed

lemma month_start_parts:
  "0 \<le> j \<Longrightarrow> j < 12 \<Longrightarrow> month_start (12 * y + j) = ordinal (y, 1, 0) + days_before_month y (j + 1)"
  by (simp add: month_start_def ordinal_def days_before_month_def)

lemma month_cases:
  fixes j :: int
  assumes "0 \<le> j" "j < 12"
  obtains "j = 0" | "j = 1" | "j = 2" | "j = 3" | "j = 4" | "j = 5" | "j = 6" | "j = 7" | "j = 8" | "j = 9"
    | "j = 10" | "j = 11"
proof -
  have "j = 0 \<or> j = 1 \<or> j = 2 \<or> j = 3 \<or> j = 4 \<or> j = 5 \<or> j = 6 \<or> j = 7 \<or> j = 8 \<or> j = 9 \<or> j = 10 \<or> j = 11"
    using assms by presburger
  then show thesis using that by blast
qed

lemma upto_months:
  "[1..2::int] = [1, 2]" "[1..3::int] = [1, 2, 3]" "[1..4::int] = [1, 2, 3, 4]" "[1..5::int] = [1, 2, 3, 4, 5]"
  "[1..6::int] = [1, 2, 3, 4, 5, 6]" "[1..7::int] = [1, 2, 3, 4, 5, 6, 7]" "[1..8::int] = [1, 2, 3, 4, 5, 6, 7, 8]"
  "[1..9::int] = [1, 2, 3, 4, 5, 6, 7, 8, 9]" "[1..10::int] = [1, 2, 3, 4, 5, 6, 7, 8, 9, 10]"
  "[1..11::int] = [1, 2, 3, 4, 5, 6, 7, 8, 9, 10, 11]"
  by code_simp+

lemma month_start_year: "month_start k + 365 \<le> month_start (k + 12)"
proof -
  define y j where "y = k div 12" and "j = k mod 12"
  have j: "0 \<le> j" "j < 12" and k: "k = 12 * y + j" "k + 12 = 12 * (y + 1) + j" by (simp_all add: y_def j_def)
  have "days_before_month y (j + 1) \<le> days_before_month (y + 1) (j + 1) + (if leap_year y then 1 else 0)"
    using j by (rule month_cases) (simp_all add: days_before_month_def upto_months days_in_month_def)
  moreover have "month_start (k + 12) = ordinal (y + 1, 1, 0) + days_before_month (y + 1) (j + 1)"
    unfolding k(2) by (rule month_start_parts [OF j])
  ultimately show ?thesis using month_start_parts [OF j, of y] year_length [of y] k(1) by simp
qed

lemma month_start_next: "month_start (k + 1) = month_start k + days_in_month (k div 12) (k mod 12 + 1)"
proof -
  define y j where "y = k div 12" and "j = k mod 12"
  have j: "0 \<le> j" "j < 12" and k: "k = 12 * y + j" by (simp_all add: y_def j_def)
  show ?thesis
  proof (cases "j = 11")
    case True
    have "month_start (k + 1) = ordinal (y + 1, 1, 0)"
      using month_start_parts [of 0 "y + 1"] k True by (simp add: days_before_month_def algebra_simps)
    then show ?thesis
      using month_start_parts [OF j] year_length [of y] True
      by (simp add: k y_def [symmetric] j_def [symmetric] days_before_month_def upto_months days_in_month_def)
  next
    case False
    have "days_before_month y (j + 2) = days_before_month y (j + 1) + days_in_month y (j + 1)"
      using j False by (elim month_cases) (simp_all add: days_before_month_def upto_months)
    then show ?thesis
      using month_start_parts [of "j + 1" y] month_start_parts [OF j] j False
      by (simp add: k y_def [symmetric] j_def [symmetric] add.assoc)
  qed
qed

lemma days_28: "28 \<le> days_in_month y m"
  by (simp add: days_in_month_def)

lemma month_start_mono: "i \<le> k \<Longrightarrow> month_start i \<le> month_start k"
proof (induction k rule: int_ge_induct)
  case (step k)
  then show ?case using month_start_next [of k] days_28 [of "k div 12" "k mod 12 + 1"] by linarith
qed simp

text \<open>A date at most a year and a day later lies at most thirteen months later.\<close>

lemma year_ahead:
  assumes "real_date d" "real_date e" "ordinal e \<le> ordinal d + 366"
  shows "month_index e \<le> month_index d + 13"
proof (rule ccontr)
  let ?k = "month_index d"
  assume "\<not> month_index e \<le> ?k + 13"
  then have "month_start (?k + 14) \<le> month_start (month_index e)" by (intro month_start_mono) simp
  moreover have "month_start (?k + 2) + 365 \<le> month_start (?k + 14)" using month_start_year [of "?k + 2"] by (simp add: add.commute)
  moreover have "month_start (?k + 1) + 28 \<le> month_start (?k + 2)"
    using month_start_next [of "?k + 1"] days_28 by (simp add: add.assoc)
  moreover have "ordinal d \<le> month_start (?k + 1)"
    using ordinal_month_start [OF assms(1)] month_start_next [of ?k] month_parts [OF assms(1)] assms(1)
    by (simp add: real_date_def)
  moreover have "month_start (month_index e) + 1 \<le> ordinal e"
    using ordinal_month_start [OF assms(2)] assms(2) by (simp add: real_date_def)
  ultimately show False using assms(3) by linarith
qed

section \<open>Contracts\<close>

text \<open>\<open>Minor\<close>: a strict integer of minor units.\<close>

definition valid_minor :: "int \<Rightarrow> bool" where
  "valid_minor n = (0 \<le> n \<and> n \<le> 10 ^ 12)"

datatype action = Account | Login | Application | Purchase | Subscription

datatype interval = Every1 | Every2 | Every3 | Every6 | Every12

fun interval_months :: "interval \<Rightarrow> int" where
  "interval_months Every1 = 1"
| "interval_months Every2 = 2"
| "interval_months Every3 = 3"
| "interval_months Every6 = 6"
| "interval_months Every12 = 12"

record recurrence =
  rec_interval :: interval
  next_charge_on :: date
  ends_on :: "date option"

definition ordered_dates :: "recurrence \<Rightarrow> recurrence result" where
  "ordered_dates r =
     (case ends_on r of
        Some e \<Rightarrow> if e < next_charge_on r then Inl ValueError else Inr r
      | None \<Rightarrow> Inr r)"

record web_operation =
  wo_origin :: string
  wo_action :: action
  wo_purpose :: string
  wo_key :: string
  wo_amount :: int
  wo_currency :: string
  wo_recurring :: int
  wo_annual :: int
  wo_recurrence :: "recurrence option"

definition payment_action :: "action \<Rightarrow> bool" where
  "payment_action a = (a \<in> {Purchase, Subscription})"

definition commitment_consistent :: "web_operation \<Rightarrow> web_operation result" where
  "commitment_consistent w =
     (if \<not> payment_action (wo_action w) \<and> (wo_amount w \<noteq> 0 \<or> wo_recurring w \<noteq> 0 \<or> wo_annual w \<noteq> 0)
        then Inl ValueError
      else if wo_recurring w \<noteq> 0 \<and> wo_annual w < wo_recurring w then Inl ValueError
      else if wo_recurrence w \<noteq> None \<and> wo_recurring w = 0 then Inl ValueError
      else if wo_action w = Subscription \<and> wo_annual w = 0 then Inl ValueError
      else Inr w)"

text \<open>What Pydantic checks of a \<open>WebOperation\<close> besides its text.\<close>

definition web_operation_ok :: "web_operation \<Rightarrow> bool" where
  "web_operation_ok w =
     (valid_minor (wo_amount w) \<and> valid_minor (wo_recurring w) \<and> valid_minor (wo_annual w) \<and>
      commitment_consistent w = Inr w \<and>
      (case wo_recurrence w of None \<Rightarrow> True | Some r \<Rightarrow> ordered_dates r = Inr r))"

record delegation =
  dg_enabled :: bool
  dg_agent_ids :: "string set"
  dg_origins :: "string set"
  dg_any_website :: bool
  dg_actions :: "action set"
  dg_expires_at :: datetime
  dg_currency :: string
  per_purchase_minor :: int
  monthly_minor :: int
  recurring_minor :: int
  annual_minor :: int
  allowed_purposes :: "string set"

definition delegation_ok :: "delegation \<Rightarrow> bool" where
  "delegation_ok p =
     (valid_minor (per_purchase_minor p) \<and> valid_minor (monthly_minor p) \<and>
      valid_minor (recurring_minor p) \<and> valid_minor (annual_minor p))"

definition delegation_checks ::
  "delegation \<Rightarrow> web_operation \<Rightarrow> string \<Rightarrow> datetime \<Rightarrow> (bool \<times> string) list" where
  "delegation_checks p w agent_id now =
     [(dg_enabled p, ''grant_disabled''),
      (dg_expires_at p > now, ''grant_expired''),
      (agent_id \<in> dg_agent_ids p, ''agent_not_allowed''),
      (dg_any_website p \<or> wo_origin w \<in> dg_origins p, ''origin_not_allowed''),
      (wo_action w \<in> dg_actions p, ''action_not_allowed''),
      (allowed_purposes p = {} \<or>
         casefold (py_strip (wo_purpose w)) \<in> casefold ` allowed_purposes p, ''purpose_not_allowed''),
      (wo_currency w = dg_currency p, ''currency_not_allowed'')]"

definition delegation_decision ::
  "delegation \<Rightarrow> web_operation \<Rightarrow> string \<Rightarrow> int \<Rightarrow> datetime \<Rightarrow> string" where
  "delegation_decision p w agent_id used_minor now =
     (case find (\<lambda>c. \<not> fst c) (delegation_checks p w agent_id now) of
        Some (_, reason) \<Rightarrow> reason
      | None \<Rightarrow>
          (case decide_limits (AInt (wo_amount w)) (AInt (per_purchase_minor p)) (AInt (monthly_minor p))
                  (AInt (if payment_action (wo_action w) then used_minor else 0)) ANone ANone True ANone of
             (outcome, reason) \<Rightarrow>
               if outcome \<noteq> ALLOW then
                 (if reason = PER_TRANSACTION_LIMIT then ''purchase_limit'' else ''monthly_limit'')
               else if wo_recurring w > recurring_minor p then ''recurring_limit''
               else if wo_annual w > annual_minor p then ''annual_limit''
               else ''allow''))"

record runtime_settings =
  rs_enabled :: bool
  managed_browser :: bool
  payment_processing :: bool
  payment_assessment_reference :: string

definition assessed_payments :: "runtime_settings \<Rightarrow> runtime_settings result" where
  "assessed_payments s =
     guard (\<not> payment_processing s \<or> py_strip (payment_assessment_reference s) \<noteq> []) ValueError (Inr s)"

definition default_settings :: runtime_settings where
  "default_settings = \<lparr>rs_enabled = False, managed_browser = False, payment_processing = False,
     payment_assessment_reference = []\<rparr>"

section \<open>The monthly projection\<close>

datatype op_state = Reserved | Submitting | Reconciling | Awaiting_Input | Completed | Failed | Cancelled

definition live_state :: "op_state \<Rightarrow> bool" where
  "live_state s = (s \<notin> {Failed, Cancelled})"

text \<open>The columns the projection reads: proposal, state and \<open>updated_at\<close>.\<close>

type_synonym projection_row = "web_operation \<times> op_state \<times> datetime"

text \<open>
  The months are indices \<open>12 * year + month - 1\<close>; the code prints them as \<open>YYYY-MM\<close> when it
  returns, which keeps the 25 keys apart and in order.
\<close>

definition charge_day :: "recurrence \<Rightarrow> int \<Rightarrow> date" where
  "charge_day r index =
     (let year = index div 12; month = index mod 12 + 1
      in (year, month, min (date_day (next_charge_on r)) (days_in_month year month)))"

definition past_end :: "recurrence \<Rightarrow> int \<Rightarrow> bool" where
  "past_end r index = (case ends_on r of None \<Rightarrow> False | Some e \<Rightarrow> e < charge_day r index)"

definition add_to :: "int \<Rightarrow> int \<Rightarrow> (int, int) dict \<Rightarrow> (int, int) dict" where
  "add_to k v months = (case dict_get months k of None \<Rightarrow> months | Some w \<Rightarrow> dict_set k (w + v) months)"

lemma interval_pos: "0 < interval_months i"
  by (cases i) auto

function add_charges ::
  "recurrence \<Rightarrow> int \<Rightarrow> int \<Rightarrow> int \<Rightarrow> (int, int) dict \<Rightarrow> (int, int) dict" where
  "add_charges r recurring limit index months =
     (if index < limit then
        (if past_end r index then months
         else add_charges r recurring limit (index + interval_months (rec_interval r))
           (add_to index recurring months))
      else months)"
  by pat_completeness auto

termination
  by (relation "measure (\<lambda>(_, _, limit, index, _). nat (limit - index))")
    (auto simp: interval_pos)

declare add_charges.simps [simp del]

definition first_charge :: "recurrence \<Rightarrow> int \<Rightarrow> int" where
  "first_charge r first =
     (let anchor = month_index (next_charge_on r); n = interval_months (rec_interval r)
      in anchor + max 0 ((first - anchor + n - 1) div n) * n)"

definition project_row ::
  "date \<Rightarrow> projection_row \<Rightarrow> (int, int) dict \<Rightarrow> (int, int) dict result" where
  "project_row today row months =
     (case row of (w, st, updated) \<Rightarrow>
       if \<not> live_state st then Inr months
       else
         (let first = month_index today;
              months1 = (if st \<noteq> Completed \<or> month_index (fst updated) = first
                then add_to first (wo_amount w) months else months)
          in if wo_recurring w = 0 then Inr months1
             else (case wo_recurrence w of
                 None \<Rightarrow> Inl ValueError
               | Some r \<Rightarrow>
                   Inr (add_charges r (wo_recurring w) (first + 25) (first_charge r first) months1))))"

fun project_rows ::
  "date \<Rightarrow> projection_row list \<Rightarrow> (int, int) dict \<Rightarrow> (int, int) dict result" where
  "project_rows today [] months = Inr months"
| "project_rows today (row # rows) months =
     bind_result (project_row today row months) (project_rows today rows)"

definition empty_months :: "date \<Rightarrow> (int, int) dict" where
  "empty_months today = map (\<lambda>k. (k, 0)) [month_index today..month_index today + 24]"

definition monthly_projection :: "projection_row list \<Rightarrow> date \<Rightarrow> (int, int) dict result" where
  "monthly_projection rows today = project_rows today rows (empty_months today)"

definition proposal_record :: "web_operation \<Rightarrow> datetime \<Rightarrow> projection_row" where
  "proposal_record w now = (w, Reserved, now)"

section \<open>The projection is a sum\<close>

text \<open>
  The reference: a schedule charges in month \<open>k\<close> when \<open>k\<close> is a whole number of intervals past
  its first month and its charge day is not past the end; a row commits its amount to this
  month while it is live (once completed, only in the month of its completion), and its
  recurring amount to every month its schedule charges in.
\<close>

definition charges_in :: "recurrence \<Rightarrow> int \<Rightarrow> bool" where
  "charges_in r k =
     (month_index (next_charge_on r) \<le> k \<and>
      (k - month_index (next_charge_on r)) mod interval_months (rec_interval r) = 0 \<and>
      \<not> past_end r k)"

definition committed :: "date \<Rightarrow> int \<Rightarrow> projection_row \<Rightarrow> int" where
  "committed today k row = (case row of (w, st, updated) \<Rightarrow>
     if \<not> live_state st then 0
     else (if k = month_index today \<and> (st \<noteq> Completed \<or> month_index (fst updated) = month_index today)
             then wo_amount w else 0) +
          (if wo_recurring w \<noteq> 0 \<and> (\<exists>r. wo_recurrence w = Some r \<and> charges_in r k)
             then wo_recurring w else 0))"

definition schedule_missing :: "projection_row \<Rightarrow> bool" where
  "schedule_missing row = (case row of (w, st, _) \<Rightarrow>
     live_state st \<and> wo_recurring w \<noteq> 0 \<and> wo_recurrence w = None)"

definition total_committed :: "date \<Rightarrow> int \<Rightarrow> projection_row list \<Rightarrow> int" where
  "total_committed today k rows = sum_list (map (committed today k) rows)"

lemma charge_day_mono:
  assumes "i < k"
  shows "charge_day r i < charge_day r k"
proof (cases "i div 12 < k div 12")
  case False
  have "i div 12 \<le> k div 12" using assms by (intro zdiv_mono1) simp_all
  then have "i div 12 = k div 12" using False by simp
  moreover from this have "i mod 12 < k mod 12"
    using assms by (metis add_less_cancel_left mult_div_mod_eq)
  ultimately show ?thesis by (simp add: charge_day_def Let_def less_prod_def)
qed (simp add: charge_day_def Let_def less_prod_def)

lemma past_end_mono: "past_end r i \<Longrightarrow> i \<le> k \<Longrightarrow> past_end r k"
  using charge_day_mono [of i k r] by (cases "i = k") (auto simp: past_end_def split: option.splits)

lemma get_add_to [simp]:
  "dict_get (add_to k v months) j =
   map_option (\<lambda>w. if j = k then w + v else w) (dict_get months j)"
  by (cases "dict_get months j"; cases "dict_get months k") (auto simp: add_to_def)

lemma step_residue:
  fixes n :: int
  assumes "0 < n"
  shows "index \<le> k \<and> (k - index) mod n = 0 \<longleftrightarrow>
    k = index \<or> index + n \<le> k \<and> (k - (index + n)) mod n = 0"
proof -
  have m: "(k - (index + n)) mod n = (k - index) mod n"
    by (metis diff_diff_eq minus_mod_self2)
  have "k = index \<or> index + n \<le> k" if le: "index \<le> k" and res: "(k - index) mod n = 0"
  proof -
    obtain j where j: "k - index = n * j" using res by (auto simp: mod_eq_0_iff_dvd)
    show ?thesis
    proof (cases "j \<le> 0")
      case True
      then have "n * j \<le> 0" using assms by (simp add: mult_nonneg_nonpos)
      then show ?thesis using j le by simp
    next
      case False
      then have "n * 1 \<le> n * j" using assms by (intro mult_left_mono) simp_all
      then show ?thesis using j by simp
    qed
  qed
  then show ?thesis using m assms by auto
qed

lemma get_add_charges:
  "dict_get (add_charges r v limit index months) k =
   map_option (\<lambda>w. w + (if index \<le> k \<and> k < limit \<and>
       (k - index) mod interval_months (rec_interval r) = 0 \<and> \<not> past_end r k then v else 0))
     (dict_get months k)"
proof (induction r v limit index months rule: add_charges.induct)
  case (1 r v limit index months)
  let ?n = "interval_months (rec_interval r)"
  note step = step_residue [OF interval_pos, of index k "rec_interval r"]
  show ?case
  proof (cases "index < limit \<and> \<not> past_end r index")
    case True
    then show ?thesis
      using 1 step interval_pos [of "rec_interval r"]
      by (subst add_charges.simps)
        (auto simp: option.map_comp o_def intro!: option.map_cong0)
  next
    case False
    have "past_end r k" if "index \<le> k" "k < limit"
      using False that past_end_mono [of r index k] by auto
    then show ?thesis using False
      by (subst add_charges.simps) (auto simp: option.map_ident)
  qed
qed

lemma first_charge_residue:
  fixes r :: recurrence
  assumes "first \<le> k"
  defines "a \<equiv> month_index (next_charge_on r)" and "n \<equiv> interval_months (rec_interval r)"
  shows "first_charge r first \<le> k \<and> (k - first_charge r first) mod n = 0 \<longleftrightarrow>
    a \<le> k \<and> (k - a) mod n = 0"
proof -
  have n: "0 < n" unfolding n_def by (rule interval_pos)
  define q where "q = max 0 ((first - a + n - 1) div n)"
  have f: "first_charge r first = a + q * n"
    by (simp add: first_charge_def a_def n_def q_def Let_def)
  have m: "(k - (a + q * n)) mod n = (k - a) mod n"
    by (metis diff_diff_eq mod_diff_right_eq mod_mult_self2_is_0 diff_zero)
  have "0 \<le> q * n" using n by (simp add: q_def)
  moreover have "a + q * n \<le> k" if le: "a \<le> k" and res: "(k - a) mod n = 0"
  proof -
    obtain j where j: "k - a = n * j" using res by (auto simp: mod_eq_0_iff_dvd)
    have "0 \<le> j" using le j n by (metis diff_ge_0_iff_ge zero_le_mult_iff not_le)
    moreover have "(first - a + n - 1) div n \<le> (n * j + n - 1) div n"
      using assms(1) j n by (intro zdiv_mono1) simp_all
    moreover have "(n * j + n - 1) div n = j"
      using n div_mult_self2 [of n "n - 1" j] by (simp add: algebra_simps)
    ultimately have "q \<le> j" by (simp add: q_def)
    then have "q * n \<le> n * j" using n by (simp add: mult.commute)
    then show ?thesis using j by simp
  qed
  ultimately show ?thesis unfolding f m by auto
qed

lemma project_row_error:
  "project_row today row months = Inl e \<longleftrightarrow> e = ValueError \<and> schedule_missing row"
  by (cases row) (auto simp: project_row_def schedule_missing_def Let_def split: option.splits)

lemma project_row_get:
  assumes "project_row today row months = Inr months'"
    and "month_index today \<le> k" "k < month_index today + 25"
  shows "dict_get months' k = map_option (\<lambda>w. w + committed today k row) (dict_get months k)"
proof -
  obtain w st updated where row: "row = (w, st, updated)" by (cases row)
  show ?thesis
  proof (cases "live_state st")
    case False
    then show ?thesis using assms(1)
      by (simp add: project_row_def committed_def row option.map_ident)
  next
    case True
    let ?first = "month_index today"
    define months1 where "months1 = (if st \<noteq> Completed \<or> month_index (fst updated) = ?first
      then add_to ?first (wo_amount w) months else months)"
    have 1: "dict_get months1 k = map_option (\<lambda>v. v +
        (if k = ?first \<and> (st \<noteq> Completed \<or> month_index (fst updated) = ?first) then wo_amount w else 0))
        (dict_get months k)"
      by (cases "dict_get months k") (auto simp: months1_def)
    show ?thesis
    proof (cases "wo_recurring w = 0")
      case rec0: True
      then have "months' = months1" using assms(1) True
        by (simp add: project_row_def row Let_def months1_def)
      then show ?thesis using 1 rec0 True by (simp add: committed_def row)
    next
      case False
      then obtain r where r: "wo_recurrence w = Some r"
        and m: "months' = add_charges r (wo_recurring w) (?first + 25) (first_charge r ?first) months1"
        using assms(1) True by (auto simp: project_row_def row Let_def months1_def split: option.splits)
      have "(first_charge r ?first \<le> k \<and> k < ?first + 25 \<and>
          (k - first_charge r ?first) mod interval_months (rec_interval r) = 0 \<and> \<not> past_end r k) =
          charges_in r k"
        unfolding charges_in_def using first_charge_residue [OF assms(2), of r] assms(3) by argo
      then have "dict_get months' k = map_option (\<lambda>v. v + (if charges_in r k then wo_recurring w else 0))
          (dict_get months1 k)"
        unfolding m get_add_charges by (simp only:)
      then show ?thesis using 1 True False r
        by (cases "dict_get months k") (simp_all add: committed_def row)
    qed
  qed
qed

lemma project_rows_get:
  assumes "project_rows today rows months = Inr months'"
    and "month_index today \<le> k" "k < month_index today + 25"
  shows "dict_get months' k = map_option (\<lambda>w. w + total_committed today k rows) (dict_get months k)"
  using assms(1)
proof (induction rows arbitrary: months)
  case Nil
  then show ?case by (simp add: total_committed_def option.map_ident)
next
  case (Cons row rows)
  then obtain m1 where m: "project_row today row months = Inr m1" "project_rows today rows m1 = Inr months'"
    by auto
  show ?case using Cons.IH [OF m(2)] project_row_get [OF m(1) assms(2,3)]
    by (cases "dict_get months k") (simp_all add: total_committed_def)
qed

lemma project_rows_error:
  "project_rows today rows months = Inl e \<longleftrightarrow> e = ValueError \<and> (\<exists>row \<in> set rows. schedule_missing row)"
proof (induction rows arbitrary: months)
  case (Cons row rows)
  show ?case
  proof (cases "project_row today row months")
    case (Inl x)
    then show ?thesis using project_row_error [of today row months x] by auto
  next
    case (Inr m)
    then have "\<not> schedule_missing row" using project_row_error [of today row months ValueError] by auto
    then show ?thesis using Inr Cons.IH [of m] by auto
  qed
qed simp

lemma get_empty_months:
  "dict_get (empty_months today) k =
   (if month_index today \<le> k \<and> k < month_index today + 25 then Some 0 else None)"
  by (auto simp: empty_months_def map_of_map_restrict restrict_map_def o_def)

lemma monthly_projection_get:
  assumes "monthly_projection rows today = Inr months"
    and "month_index today \<le> k" "k < month_index today + 25"
  shows "dict_get months k = Some (total_committed today k rows)"
  using project_rows_get [OF assms(1) [unfolded monthly_projection_def] assms(2,3)] assms(2,3)
  by (simp add: get_empty_months)

text \<open>
  C33: the monthly projection is exact. It fails only when a live row has a recurring amount and
  no schedule; otherwise each of its 25 months holds the sum, over all rows, of what the row
  commits in that month: the skipping to the first charge, the steps by whole intervals and the
  stop at the first charge day past the end lose no charge and add none.
\<close>

theorem projection_exact:
  "(case monthly_projection rows today of
      Inl e \<Rightarrow> e = ValueError \<and> (\<exists>row \<in> set rows. schedule_missing row)
    | Inr months \<Rightarrow> (\<forall>k. month_index today \<le> k \<and> k < month_index today + 25 \<longrightarrow>
        dict_get months k = Some (total_committed today k rows)))"
proof (cases "monthly_projection rows today")
  case (Inl e)
  then show ?thesis using project_rows_error [of today rows "empty_months today" e]
    by (auto simp: monthly_projection_def)
next
  case (Inr months)
  then show ?thesis by (simp add: monthly_projection_get)
qed

definition sample_subscription :: web_operation where
  "sample_subscription = \<lparr>wo_origin = ''https://a'', wo_action = Subscription, wo_purpose = ''news'',
     wo_key = ''key-0001'', wo_amount = 500, wo_currency = ''USD'', wo_recurring = 300, wo_annual = 3600,
     wo_recurrence = Some \<lparr>rec_interval = Every3, next_charge_on = (2026, 1, 31), ends_on = None\<rparr>\<rparr>"

theorem projection_exact_witness:
  "\<exists>months. monthly_projection [(sample_subscription, Reserved, ((2026, 2, 1), 0))] (2026, 2, 1) = Inr months \<and>
     dict_get months (2026 * 12 + 3) = Some 300 \<and> dict_get months (2026 * 12 + 1) = Some 500"
proof -
  let ?row = "(sample_subscription, Reserved, ((2026, 2, 1), 0)) :: projection_row"
  have ok: "\<not> schedule_missing ?row"
    by (simp add: schedule_missing_def sample_subscription_def)
  then obtain months where m: "monthly_projection [?row] (2026, 2, 1) = Inr months"
    using projection_exact [of "[?row]" "(2026, 2, 1)"]
    by (cases "monthly_projection [?row] (2026, 2, 1)") auto
  have i: "month_index (2026, 2, 1) = 2026 * 12 + 1" by (simp add: month_index_def)
  have "dict_get months k = Some (total_committed (2026, 2, 1) k [?row])"
    if "2026 * 12 + 1 \<le> k \<and> k < 2026 * 12 + 26" for k
    using projection_exact [of "[?row]" "(2026, 2, 1)"] m i that by simp
  then have "dict_get months (2026 * 12 + 3) = Some (total_committed (2026, 2, 1) (2026 * 12 + 3) [?row])"
    "dict_get months (2026 * 12 + 1) = Some (total_committed (2026, 2, 1) (2026 * 12 + 1) [?row])" by simp_all
  then show ?thesis using m
    by (simp add: total_committed_def committed_def sample_subscription_def charges_in_def month_index_def
        past_end_def live_state_def)
qed

end
