(* ===== verification/Payments.thy ===== *)
theory Payments
  imports Delegation_Models "HOL-Library.Multiset"
begin

text \<open>
  Payment evidence (\<open>robothor/autonomy/payment_lifecycle.py\<close>): the facts issuers and merchants
  deliver and the position they project to.
\<close>

section \<open>Facts and positions\<close>

datatype fact_kind = FSubmitted | FAuthorized | FCharged | FRefunded | FReversed
datatype fact_source = Merchant | Issuer

record payment_fact =
  pf_key :: string
  pf_kind :: fact_kind
  pf_amount :: int
  pf_currency :: string
  pf_source :: fact_source
  pf_renewal_id :: "string option"
  pf_renewal_on :: "date option"

definition currency_code :: "string \<Rightarrow> bool" where
  "currency_code s = (length s = 3 \<and> list_all (\<lambda>c. 65 \<le> (of_char c :: nat) \<and> (of_char c :: nat) \<le> 90) s)"

definition validate_fact :: "payment_fact \<Rightarrow> payment_fact result" where
  "validate_fact f =
     (if \<not> (1 \<le> length (pf_key f) \<and> length (pf_key f) \<le> 128) then Inl ValueError
      else if \<not> valid_minor (pf_amount f) then Inl ValueError
      else if \<not> currency_code (pf_currency f) then Inl ValueError
      else if (case pf_renewal_id f of None \<Rightarrow> False | Some i \<Rightarrow> \<not> (1 \<le> length i \<and> length i \<le> 128))
        then Inl ValueError
      else if (pf_renewal_id f = None) \<noteq> (pf_renewal_on f = None) then Inl ValueError
      else if pf_renewal_id f \<noteq> None \<and> pf_source f \<noteq> Issuer then Inl ValueError
      else Inr f)"

datatype payment_state =
    PUnconfirmed | PSubmitted | PAuthorized | PCharged | PPartiallyRefunded | PRefunded | PReversed

record payment_position =
  pp_state :: payment_state
  authorized_minor :: int
  charged_minor :: int
  refunded_minor :: int
  reversed_minor :: int
  limit_exceeded :: bool
  authorization_exceeded :: bool

definition new_position :: payment_position where
  "new_position = \<lparr>pp_state = PUnconfirmed, authorized_minor = 0, charged_minor = 0,
     refunded_minor = 0, reversed_minor = 0, limit_exceeded = False, authorization_exceeded = False\<rparr>"

definition authorization_open_minor :: "payment_position \<Rightarrow> int" where
  "authorization_open_minor p = max 0 (authorized_minor p - charged_minor p - reversed_minor p)"

definition net_charged_minor :: "payment_position \<Rightarrow> int" where
  "net_charged_minor p = charged_minor p - refunded_minor p"

definition apply_fact :: "payment_position \<Rightarrow> payment_fact \<Rightarrow> payment_position result" where
  "apply_fact p f =
     (let amount = pf_amount f in
      if pf_kind f = FSubmitted then
        (if amount \<noteq> 0 then Inl ValueError
         else Inr (if pp_state p = PUnconfirmed then p\<lparr>pp_state := PSubmitted\<rparr> else p))
      else if pf_source f \<noteq> Issuer then Inl ValueError
      else if amount = 0 then Inl ValueError
      else (case pf_kind f of
          FAuthorized \<Rightarrow>
            if authorized_minor p \<noteq> 0 then Inl ValueError
            else (let q = p\<lparr>authorized_minor := amount\<rparr>
                  in Inr (if charged_minor q = 0 then q\<lparr>pp_state := PAuthorized\<rparr> else q))
        | FCharged \<Rightarrow>
            Inr (p\<lparr>charged_minor := charged_minor p + amount,
                   pp_state := (if refunded_minor p \<noteq> 0 then PPartiallyRefunded else PCharged)\<rparr>)
        | FRefunded \<Rightarrow>
            (let total = refunded_minor p + amount in
             if total > charged_minor p then Inl ValueError
             else Inr (p\<lparr>refunded_minor := total,
                         pp_state := (if total = charged_minor p then PRefunded else PPartiallyRefunded)\<rparr>))
        | _ \<Rightarrow>
            (let total = reversed_minor p + amount in
             if charged_minor p \<noteq> 0 \<and> total = authorized_minor p then Inl ValueError
             else if total > authorized_minor p - charged_minor p then Inl ValueError
             else (let q = p\<lparr>reversed_minor := total\<rparr>
                   in Inr (if charged_minor q = 0
                     then q\<lparr>pp_state := (if total = authorized_minor q then PReversed else PAuthorized)\<rparr>
                     else q)))))"

fun apply_facts :: "payment_position \<Rightarrow> payment_fact list \<Rightarrow> payment_position result" where
  "apply_facts p [] = Inr p"
| "apply_facts p (f # fs) = bind_result (apply_fact p f) (\<lambda>q. apply_facts q fs)"

fun collect_facts ::
  "string \<Rightarrow> payment_fact list \<Rightarrow> (string, payment_fact) dict \<Rightarrow> (string, payment_fact) dict result" where
  "collect_facts currency [] seen = Inr seen"
| "collect_facts currency (original # rest) seen =
     bind_result (validate_fact original) (\<lambda>f.
       if pf_currency f \<noteq> currency then Inl ValueError
       else (case dict_get seen (pf_key f) of
           Some previous \<Rightarrow> if previous \<noteq> f then Inl ValueError else collect_facts currency rest seen
         | None \<Rightarrow> collect_facts currency rest (dict_set (pf_key f) f seen)))"

fun fact_priority :: "fact_kind \<Rightarrow> nat" where
  "fact_priority FSubmitted = 0"
| "fact_priority FAuthorized = 1"
| "fact_priority FCharged = 2"
| "fact_priority FReversed = 3"
| "fact_priority FRefunded = 4"

definition set_flags :: "int \<Rightarrow> payment_position \<Rightarrow> payment_position" where
  "set_flags limit_minor p =
     p\<lparr>limit_exceeded := (max (authorized_minor p) (charged_minor p) > limit_minor),
       authorization_exceeded := (authorized_minor p \<noteq> 0 \<and> charged_minor p > authorized_minor p)\<rparr>"

definition project_payment ::
  "payment_fact list \<Rightarrow> int \<Rightarrow> string \<Rightarrow> payment_position result" where
  "project_payment facts limit_minor currency =
     (if limit_minor < 0 then Inl ValueError
      else bind_result (collect_facts currency facts []) (\<lambda>seen.
        let values = dict_values seen in
        if card ((\<lambda>f. (pf_renewal_id f, pf_renewal_on f)) ` set values) > 1 then Inl ValueError
        else map_sum id (set_flags limit_minor)
          (apply_facts new_position (sort_key (\<lambda>f. fact_priority (pf_kind f)) values))))"

section \<open>Collecting\<close>

definition consistent :: "payment_fact list \<Rightarrow> string \<Rightarrow> bool" where
  "consistent facts currency =
     ((\<forall>f \<in> set facts. validate_fact f = Inr f \<and> pf_currency f = currency) \<and>
      (\<forall>f \<in> set facts. \<forall>g \<in> set facts. pf_key f = pf_key g \<longrightarrow> f = g))"

lemma validate_fact_id: "validate_fact f = Inr g \<Longrightarrow> g = f"
  by (auto simp: validate_fact_def split: if_splits)

lemma validate_fact_error: "validate_fact f = Inl e \<Longrightarrow> e = ValueError"
  by (auto simp: validate_fact_def split: if_splits)

definition seen_ok :: "(string, payment_fact) dict \<Rightarrow> bool" where
  "seen_ok seen = (dict_ok seen \<and> (\<forall>(k, f) \<in> set seen. pf_key f = k))"

lemma collect_facts_error: "collect_facts currency facts seen = Inl e \<Longrightarrow> e = ValueError"
  by (induction facts arbitrary: seen)
    (auto split: if_splits option.splits dest: validate_fact_error elim!: bind_result.elims)

lemma seen_ok_values:
  assumes "seen_ok seen"
  shows "distinct (dict_values seen)" "inj_on pf_key (set (dict_values seen))"
    "dict_get seen k = Some f \<Longrightarrow> pf_key f = k \<and> f \<in> set (dict_values seen)"
proof -
  have keys: "map pf_key (dict_values seen) = map fst seen"
    using assms by (auto simp: seen_ok_def)
  then have "distinct (map pf_key (dict_values seen))"
    unfolding keys using assms by (simp add: seen_ok_def dict_ok_def)
  then show "distinct (dict_values seen)" "inj_on pf_key (set (dict_values seen))"
    using distinct_map [of pf_key "dict_values seen"] by blast+
  show "dict_get seen k = Some f \<Longrightarrow> pf_key f = k \<and> f \<in> set (dict_values seen)"
    using assms by (force simp: seen_ok_def dest: map_of_SomeD)
qed

lemma seen_ok_add:
  assumes "seen_ok seen" "dict_get seen (pf_key f) = None"
  shows "seen_ok (dict_set (pf_key f) f seen)"
    "set (dict_values (dict_set (pf_key f) f seen)) = insert f (set (dict_values seen))"
  using assms by (auto simp: seen_ok_def dict_set_new dict_ok_def map_of_eq_None_iff)

lemma collect_facts_Inr:
  assumes "collect_facts currency facts seen = Inr seen'" "seen_ok seen"
  shows "seen_ok seen' \<and> set (dict_values seen') = set (dict_values seen) \<union> set facts \<and>
    (\<forall>f \<in> set facts. validate_fact f = Inr f \<and> pf_currency f = currency)"
  using assms
proof (induction facts arbitrary: seen)
  case (Cons f fs)
  obtain g where "validate_fact f = Inr g" using Cons.prems(1) by (cases "validate_fact f") auto
  then have v: "validate_fact f = Inr f" using validate_fact_id by blast
  have cur: "pf_currency f = currency" using Cons.prems(1) v by (auto split: if_splits)
  show ?case
  proof (cases "dict_get seen (pf_key f)")
    case None
    then have "collect_facts currency fs (dict_set (pf_key f) f seen) = Inr seen'"
      using Cons.prems(1) v cur by simp
    then show ?thesis using Cons.IH seen_ok_add [OF Cons.prems(2) None] v cur by auto
  next
    case (Some g)
    then have "g = f" "collect_facts currency fs seen = Inr seen'"
      using Cons.prems(1) v cur by (auto split: if_splits)
    moreover have "g \<in> set (dict_values seen)"
      using seen_ok_values(3) [OF Cons.prems(2) Some] by simp
    ultimately show ?thesis using Cons.IH Cons.prems(2) v cur by auto
  qed
qed simp

lemma collect_facts_complete:
  assumes "seen_ok seen" "\<forall>f \<in> set facts. validate_fact f = Inr f \<and> pf_currency f = currency"
    "inj_on pf_key (set (dict_values seen) \<union> set facts)"
  shows "\<exists>seen'. collect_facts currency facts seen = Inr seen'"
  using assms
proof (induction facts arbitrary: seen)
  case (Cons f fs)
  show ?case
  proof (cases "dict_get seen (pf_key f)")
    case None
    have "inj_on pf_key (set (dict_values (dict_set (pf_key f) f seen)) \<union> set fs)"
      using Cons.prems(3) unfolding seen_ok_add(2) [OF Cons.prems(1) None] by simp
    then show ?thesis using Cons.IH [OF seen_ok_add(1) [OF Cons.prems(1) None]] Cons.prems(2) None by simp
  next
    case (Some g)
    have "g = f"
      using seen_ok_values(3) [OF Cons.prems(1) Some] inj_onD [OF Cons.prems(3), of g f] by simp
    moreover have "inj_on pf_key (set (dict_values seen) \<union> set fs)"
      using Cons.prems(3) by (rule inj_on_subset) auto
    ultimately show ?thesis using Cons.IH [OF Cons.prems(1)] Cons.prems(2) Some by simp
  qed
qed simp

text \<open>Collecting depends only on which facts there are.\<close>

lemma collect_facts_set:
  assumes "set facts = set facts'"
  shows "(\<exists>seen seen'. collect_facts currency facts [] = Inr seen \<and>
      collect_facts currency facts' [] = Inr seen' \<and> mset (dict_values seen) = mset (dict_values seen')) \<or>
    collect_facts currency facts [] = Inl ValueError \<and> collect_facts currency facts' [] = Inl ValueError"
proof -
  have nil: "seen_ok []" by (simp add: seen_ok_def)
  have both: "\<exists>seen'. collect_facts currency ys [] = Inr seen' \<and> mset (dict_values seen) = mset (dict_values seen')"
    if a: "collect_facts currency xs [] = Inr seen" and e: "set xs = set ys" for xs ys seen
  proof -
    note sx = collect_facts_Inr [OF a nil]
    have "set (dict_values seen) = set ys" using sx e by simp
    then have inj: "inj_on pf_key (set (dict_values []) \<union> set ys)"
      using seen_ok_values(2) [of seen] sx by simp
    have "\<forall>f \<in> set ys. validate_fact f = Inr f \<and> pf_currency f = currency" using sx e by blast
    then have "\<exists>seen'. collect_facts currency ys [] = Inr seen'"
      by (rule collect_facts_complete [OF nil _ inj])
    then obtain seen' where b: "collect_facts currency ys [] = Inr seen'" by blast
    have "set (dict_values seen) = set (dict_values seen')"
      using sx collect_facts_Inr [OF b nil] e by simp
    moreover have "seen_ok seen" "seen_ok seen'"
      using conjunct1 [OF sx] conjunct1 [OF collect_facts_Inr [OF b nil]] .
    ultimately have "mset (dict_values seen) = mset (dict_values seen')"
      using set_eq_iff_mset_eq_distinct [OF seen_ok_values(1) seen_ok_values(1), of seen seen'] by (simp only:)
    then show ?thesis using b by blast
  qed
  show ?thesis
  proof (cases "collect_facts currency facts []")
    case (Inr seen)
    then show ?thesis using both [OF Inr assms] by blast
  next
    case (Inl e)
    show ?thesis
    proof (cases "collect_facts currency facts' []")
      case (Inr seen)
      then show ?thesis using both [OF Inr assms [symmetric]] Inl by auto
    next
      case (Inl e')
      then show ?thesis
        using collect_facts_error [OF Inl] collect_facts_error [OF \<open>collect_facts currency facts [] = Inl e\<close>]
          \<open>collect_facts currency facts [] = Inl e\<close> by simp
    qed
  qed
qed

section \<open>Applying in any order\<close>

lemma apply_fact_error: "apply_fact p f = Inl e \<Longrightarrow> e = ValueError"
  by (auto simp: apply_fact_def Let_def split: if_splits fact_kind.splits)

lemma apply_facts_error: "apply_facts p fs = Inl e \<Longrightarrow> e = ValueError"
  by (induction fs arbitrary: p) (auto dest: apply_fact_error elim!: bind_result.elims)

lemma apply_facts_append:
  "apply_facts p (fs @ gs) = bind_result (apply_facts p fs) (\<lambda>q. apply_facts q gs)"
proof (induction fs arbitrary: p)
  case (Cons f fs)
  then show ?case by (cases "apply_fact p f") simp_all
qed simp

lemma apply_fact_charged:
  "apply_fact p f = Inr q \<Longrightarrow> 0 \<le> pf_amount f \<Longrightarrow> 0 \<le> charged_minor p \<Longrightarrow> 0 \<le> charged_minor q"
  by (auto simp: apply_fact_def Let_def split: if_splits fact_kind.splits)

text \<open>Two facts of one kind can be applied in either order.\<close>

lemma apply_fact_commute:
  assumes "pf_kind f = pf_kind g" "0 \<le> pf_amount f" "0 \<le> pf_amount g" "0 \<le> charged_minor p"
  shows "apply_facts p [f, g] = apply_facts p [g, f]"
proof (cases "pf_kind f")
  case FSubmitted
  then show ?thesis using assms by (auto simp: apply_fact_def Let_def)
next
  case FAuthorized
  then show ?thesis using assms by (auto simp: apply_fact_def Let_def)
next
  case FCharged
  then show ?thesis using assms by (auto simp: apply_fact_def Let_def algebra_simps)
next
  case FRefunded
  then show ?thesis using assms by (auto simp: apply_fact_def Let_def algebra_simps)
next
  case FReversed
  then show ?thesis using assms by (auto simp: apply_fact_def Let_def algebra_simps)
qed

lemma apply_facts_move:
  assumes "\<forall>f \<in> set (x # ys). pf_kind f = k \<and> 0 \<le> pf_amount f" "0 \<le> charged_minor p"
  shows "apply_facts p (ys @ x # zs) = apply_facts p (x # ys @ zs)"
  using assms
proof (induction ys arbitrary: p)
  case (Cons y ys)
  have "apply_facts p (y # ys @ x # zs) = apply_facts p (y # x # ys @ zs)"
  proof (cases "apply_fact p y")
    case (Inr q)
    then have "0 \<le> charged_minor q" using apply_fact_charged Cons.prems by auto
    then show ?thesis using Inr Cons.IH [of q] Cons.prems by simp
  qed simp
  also have "\<dots> = bind_result (apply_facts p [y, x]) (\<lambda>q. apply_facts q (ys @ zs))"
    using apply_facts_append [of p "[y, x]" "ys @ zs"] by simp
  also have "\<dots> = bind_result (apply_facts p [x, y]) (\<lambda>q. apply_facts q (ys @ zs))"
    using apply_fact_commute [of y x p] Cons.prems by simp
  also have "\<dots> = apply_facts p (x # y # ys @ zs)"
    using apply_facts_append [of p "[x, y]" "ys @ zs"] by simp
  finally show ?case by simp
qed simp

lemma apply_facts_perm:
  assumes "mset xs = mset ys" "\<forall>f \<in> set xs. pf_kind f = k \<and> 0 \<le> pf_amount f" "0 \<le> charged_minor p"
  shows "apply_facts p xs = apply_facts p ys"
  using assms
proof (induction xs arbitrary: ys p)
  case (Cons x xs)
  have "x \<in> set ys" using Cons.prems(1) by (metis list.set_intros(1) set_mset_mset)
  then obtain us vs where ys: "ys = us @ x # vs" by (meson split_list)
  have m: "mset xs = mset (us @ vs)" using Cons.prems(1) ys by simp
  have "set (x # us) \<subseteq> set (x # xs)" using m by (metis Un_upper1 insert_mono list.set(2) mset_eq_setD set_append)
  then have "apply_facts p ys = apply_facts p (x # us @ vs)"
    unfolding ys using apply_facts_move [of x us k p vs] Cons.prems by blast
  moreover have "apply_facts p (x # xs) = apply_facts p (x # us @ vs)"
  proof (cases "apply_fact p x")
    case (Inr q)
    then have "0 \<le> charged_minor q" using apply_fact_charged Cons.prems by auto
    then show ?thesis using Inr Cons.IH [OF m, of q] Cons.prems(2) by simp
  qed simp
  ultimately show ?case by simp
qed simp

text \<open>A stable sort by kind is the five kinds one after the other.\<close>

abbreviation kind_part :: "fact_kind \<Rightarrow> payment_fact list \<Rightarrow> payment_fact list" where
  "kind_part k fs \<equiv> filter (\<lambda>f. pf_kind f = k) fs"

abbreviation sort_facts :: "payment_fact list \<Rightarrow> payment_fact list" where
  "sort_facts \<equiv> sort_key (\<lambda>f. fact_priority (pf_kind f))"

lemma fact_priority_inj: "fact_priority k = fact_priority k' \<longleftrightarrow> k = k'"
  by (cases k; cases k') auto

lemma sorted_split:
  assumes "sorted (map key xs)"
  shows "filter (\<lambda>x. key x = (n::nat)) xs @ filter (\<lambda>x. n < key x) xs = filter (\<lambda>x. n \<le> key x) xs"
  using assms
proof (induction xs)
  case (Cons x xs)
  have "filter (\<lambda>y. key y = n) xs = []" if "n < key x"
    using Cons.prems that by (auto simp: filter_empty_conv)
  then show ?case using Cons by auto
qed simp

lemma sort_facts_parts:
  "sort_facts fs = kind_part FSubmitted fs @ kind_part FAuthorized fs @ kind_part FCharged fs @
     kind_part FReversed fs @ kind_part FRefunded fs"
proof -
  let ?key = "\<lambda>f. fact_priority (pf_kind f)"
  let ?xs = "sort_facts fs"
  have s: "sorted (map ?key ?xs)" by simp
  have part: "filter (\<lambda>x. ?key x = fact_priority k) ?xs = kind_part k fs" for k
    using sort_key_stable [of ?key "fact_priority k" fs] by (simp add: fact_priority_inj)
  have top: "filter (\<lambda>x. Suc (Suc (Suc (Suc 0))) < ?key x) ?xs = []"
  proof -
    have "\<not> Suc (Suc (Suc (Suc 0))) < fact_priority k" for k by (cases k) auto
    then show ?thesis by (simp only: filter_empty_conv) blast
  qed
  have step: "filter (\<lambda>x. n < ?key x) ?xs = kind_part k fs @ filter (\<lambda>x. Suc n < ?key x) ?xs"
    if "fact_priority k = Suc n" for k n
    using sorted_split [OF s, of "Suc n"] part [of k] unfolding that Suc_le_eq by simp
  have "?xs = kind_part FSubmitted fs @ filter (\<lambda>x. 0 < ?key x) ?xs"
    using sorted_split [OF s, of 0] part [of FSubmitted] by simp
  also have "filter (\<lambda>x. 0 < ?key x) ?xs = kind_part FAuthorized fs @ filter (\<lambda>x. Suc 0 < ?key x) ?xs"
    by (rule step) simp
  also have "filter (\<lambda>x. Suc 0 < ?key x) ?xs =
      kind_part FCharged fs @ filter (\<lambda>x. Suc (Suc 0) < ?key x) ?xs" by (rule step) simp
  also have "filter (\<lambda>x. Suc (Suc 0) < ?key x) ?xs =
      kind_part FReversed fs @ filter (\<lambda>x. Suc (Suc (Suc 0)) < ?key x) ?xs" by (rule step) simp
  also have "filter (\<lambda>x. Suc (Suc (Suc 0)) < ?key x) ?xs =
      kind_part FRefunded fs @ filter (\<lambda>x. Suc (Suc (Suc (Suc 0))) < ?key x) ?xs" by (rule step) simp
  also have "filter (\<lambda>x. Suc (Suc (Suc (Suc 0))) < ?key x) ?xs = []" by (rule top)
  also have "kind_part FRefunded fs @ [] = kind_part FRefunded fs" by simp
  finally show ?thesis .
qed

lemma apply_facts_parts:
  assumes "mset xs = mset ys" "\<forall>f \<in> set xs. 0 \<le> pf_amount f" "0 \<le> charged_minor p"
  shows "apply_facts p (concat (map (\<lambda>k. kind_part k xs) ks)) =
    apply_facts p (concat (map (\<lambda>k. kind_part k ys) ks))"
  using assms(3)
proof (induction ks arbitrary: p)
  case (Cons k ks)
  have m: "mset (kind_part k xs) = mset (kind_part k ys)" using assms(1) by (simp add: mset_filter)
  have k: "apply_facts p (kind_part k xs) = apply_facts p (kind_part k ys)"
    using apply_facts_perm [OF m, of k p] assms(2) Cons.prems by simp
  show ?case
  proof (cases "apply_facts p (kind_part k xs)")
    case (Inl e)
    then show ?thesis using k by (simp add: apply_facts_append)
  next
    case (Inr q)
    have "0 \<le> charged_minor q"
      using Inr Cons.prems assms(2) apply_fact_charged
    proof (induction "kind_part k xs" arbitrary: p)
      case (Cons f fs)
      have *: "apply_facts p fs' = Inr q \<Longrightarrow> 0 \<le> charged_minor p \<Longrightarrow> \<forall>f \<in> set fs'. 0 \<le> pf_amount f \<Longrightarrow>
          0 \<le> charged_minor q" for fs' p
        by (induction fs' arbitrary: p) (auto dest: apply_fact_charged)
      show ?case using * [of p "kind_part k xs"] Cons.prems by auto
    qed simp
    then show ?thesis using Inr k Cons.IH [of q] by (simp add: apply_facts_append)
  qed
qed simp

lemma apply_sorted_perm:
  assumes "mset xs = mset ys" "\<forall>f \<in> set xs. 0 \<le> pf_amount f" "0 \<le> charged_minor p"
  shows "apply_facts p (sort_facts xs) = apply_facts p (sort_facts ys)"
  using apply_facts_parts [OF assms, of "[FSubmitted, FAuthorized, FCharged, FReversed, FRefunded]"]
  by (simp add: sort_facts_parts)

lemma valid_fact_amount: "validate_fact f = Inr f \<Longrightarrow> 0 \<le> pf_amount f"
  by (auto simp: validate_fact_def valid_minor_def split: if_splits)

text \<open>
  C32: the order of delivery does not matter. Two journals with the same facts, in any order and
  with any repetitions, project to the same position, or are both refused.
\<close>

theorem payment_order_independent:
  assumes "set facts = set facts'"
  shows "project_payment facts limit_minor currency = project_payment facts' limit_minor currency"
proof (cases "limit_minor < 0")
  case False
  have nil: "seen_ok []" by (simp add: seen_ok_def)
  from collect_facts_set [OF assms, of currency] show ?thesis
  proof (elim disjE exE conjE)
    fix seen seen'
    assume a: "collect_facts currency facts [] = Inr seen" "collect_facts currency facts' [] = Inr seen'"
      and m: "mset (dict_values seen) = mset (dict_values seen')"
    have "\<forall>f \<in> set (dict_values seen). 0 \<le> pf_amount f"
      using collect_facts_Inr [OF a(1) nil] valid_fact_amount by auto
    then have "apply_facts new_position (sort_facts (dict_values seen)) =
        apply_facts new_position (sort_facts (dict_values seen'))"
      using m by (intro apply_sorted_perm) (simp_all add: new_position_def)
    moreover have "set (dict_values seen) = set (dict_values seen')" by (rule mset_eq_setD [OF m])
    ultimately show ?thesis using False a unfolding project_payment_def Let_def by simp
  qed (simp add: project_payment_def)
qed (simp add: project_payment_def)

section \<open>What a position says\<close>

definition kind_total :: "fact_kind \<Rightarrow> payment_fact list \<Rightarrow> int" where
  "kind_total k fs = sum_list (map pf_amount (kind_part k fs))"

lemma apply_facts_totals:
  "apply_facts p fs = Inr q \<Longrightarrow>
   authorized_minor q = authorized_minor p + kind_total FAuthorized fs \<and>
   charged_minor q = charged_minor p + kind_total FCharged fs \<and>
   refunded_minor q = refunded_minor p + kind_total FRefunded fs \<and>
   reversed_minor q = reversed_minor p + kind_total FReversed fs"
proof (induction fs arbitrary: p)
  case (Cons f fs)
  then obtain r where r: "apply_fact p f = Inr r" "apply_facts r fs = Inr q" by auto
  have "authorized_minor r = authorized_minor p + (if pf_kind f = FAuthorized then pf_amount f else 0)"
    "charged_minor r = charged_minor p + (if pf_kind f = FCharged then pf_amount f else 0)"
    "refunded_minor r = refunded_minor p + (if pf_kind f = FRefunded then pf_amount f else 0)"
    "reversed_minor r = reversed_minor p + (if pf_kind f = FReversed then pf_amount f else 0)"
    using r(1) by (auto simp: apply_fact_def Let_def split: if_splits fact_kind.splits)
  then show ?case using Cons.IH [OF r(2)] by (simp add: kind_total_def)
qed (simp add: kind_total_def)

lemma apply_facts_refund_bound:
  "apply_facts p fs = Inr q \<Longrightarrow> \<forall>f \<in> set fs. 0 \<le> pf_amount f \<Longrightarrow>
   refunded_minor p \<le> charged_minor p \<Longrightarrow> refunded_minor q \<le> charged_minor q"
proof (induction fs arbitrary: p)
  case (Cons f fs)
  then obtain r where r: "apply_fact p f = Inr r" "apply_facts r fs = Inr q" by auto
  have "refunded_minor r \<le> charged_minor r"
    using r(1) Cons.prems(2,3) by (auto simp: apply_fact_def Let_def split: if_splits fact_kind.splits)
  then show ?case using Cons.IH [OF r(2)] Cons.prems(2) by simp
qed simp

definition reversal_ok :: "payment_position \<Rightarrow> bool" where
  "reversal_ok p = (reversed_minor p = 0 \<or> charged_minor p + reversed_minor p \<le> authorized_minor p)"

lemma apply_facts_reversal:
  "apply_facts p fs = Inr q \<Longrightarrow> \<forall>f \<in> set fs. pf_kind f = FReversed \<or> pf_kind f = FRefunded \<Longrightarrow>
   reversal_ok p \<Longrightarrow> reversal_ok q"
proof (induction fs arbitrary: p)
  case (Cons f fs)
  then obtain r where r: "apply_fact p f = Inr r" "apply_facts r fs = Inr q" by auto
  have "reversal_ok r" using r(1) Cons.prems(2,3)
    by (auto simp: apply_fact_def Let_def reversal_ok_def split: if_splits)
  then show ?case using Cons.IH [OF r(2)] Cons.prems(2) by simp
qed simp

lemma kind_total_set:
  assumes "distinct vs"
  shows "kind_total k (sort_facts vs) = (\<Sum>f \<in> {f \<in> set vs. pf_kind f = k}. pf_amount f)"
proof -
  have "kind_part k (sort_facts vs) = kind_part k vs"
    using sort_key_stable [of "\<lambda>f. fact_priority (pf_kind f)" "fact_priority k" vs]
    by (simp add: fact_priority_inj)
  then show ?thesis using assms by (simp add: kind_total_def sum_list_distinct_conv_sum_set)
qed

lemma project_payment_Inr:
  assumes "project_payment facts limit_minor currency = Inr p"
  shows "authorized_minor p = (\<Sum>f \<in> {f \<in> set facts. pf_kind f = FAuthorized}. pf_amount f) \<and>
    charged_minor p = (\<Sum>f \<in> {f \<in> set facts. pf_kind f = FCharged}. pf_amount f) \<and>
    refunded_minor p = (\<Sum>f \<in> {f \<in> set facts. pf_kind f = FRefunded}. pf_amount f) \<and>
    reversed_minor p = (\<Sum>f \<in> {f \<in> set facts. pf_kind f = FReversed}. pf_amount f) \<and>
    0 \<le> net_charged_minor p \<and>
    (reversed_minor p = 0 \<or> charged_minor p + reversed_minor p \<le> authorized_minor p) \<and>
    (limit_exceeded p \<longleftrightarrow> limit_minor < authorized_minor p \<or> limit_minor < charged_minor p) \<and>
    (authorization_exceeded p \<longleftrightarrow> authorized_minor p \<noteq> 0 \<and> authorized_minor p < charged_minor p)"
proof -
  have nil: "seen_ok []" by (simp add: seen_ok_def)
  obtain seen q where c: "collect_facts currency facts [] = Inr seen"
    and a: "apply_facts new_position (sort_facts (dict_values seen)) = Inr q"
    and p: "p = set_flags limit_minor q"
    using assms by (auto simp: project_payment_def Let_def split: if_splits)
  let ?vs = "dict_values seen"
  have vs: "set ?vs = set facts" "distinct ?vs" "\<forall>f \<in> set ?vs. 0 \<le> pf_amount f"
    using collect_facts_Inr [OF c nil] seen_ok_values(1) valid_fact_amount by auto
  note totals = apply_facts_totals [OF a, unfolded kind_total_set [OF vs(2)] vs(1)]
  have refunds: "refunded_minor q \<le> charged_minor q"
    using apply_facts_refund_bound [OF a] vs(3) by (simp add: new_position_def)
  let ?A = "kind_part FSubmitted ?vs @ kind_part FAuthorized ?vs @ kind_part FCharged ?vs"
  let ?B = "kind_part FReversed ?vs @ kind_part FRefunded ?vs"
  have "apply_facts new_position (?A @ ?B) = Inr q" using a by (simp add: sort_facts_parts)
  then obtain r where r: "apply_facts new_position ?A = Inr r" "apply_facts r ?B = Inr q"
    unfolding apply_facts_append [of new_position ?A ?B] by auto
  have "reversed_minor r = 0"
    using apply_facts_totals [OF r(1)] by (simp add: kind_total_def new_position_def)
  then have "reversal_ok q" using apply_facts_reversal [OF r(2)] by (auto simp: reversal_ok_def)
  then show ?thesis using totals refunds unfolding p reversal_ok_def
    by (simp add: set_flags_def new_position_def net_charged_minor_def less_max_iff_disj)
qed

text \<open>
  A projected position is the exact account of the evidence: each of its four totals is the
  sum over the distinct facts of its kind; more is never refunded than was charged, an
  authorization is reversed only as far as it was not charged, and the two flags are raised
  exactly when the limit, or the authorization there is, was exceeded.
\<close>

theorem payment_position_exact:
  assumes "project_payment facts limit_minor currency = Inr p"
  shows "authorized_minor p = (\<Sum>f \<in> {f \<in> set facts. pf_kind f = FAuthorized}. pf_amount f) \<and>
    charged_minor p = (\<Sum>f \<in> {f \<in> set facts. pf_kind f = FCharged}. pf_amount f) \<and>
    refunded_minor p = (\<Sum>f \<in> {f \<in> set facts. pf_kind f = FRefunded}. pf_amount f) \<and>
    reversed_minor p = (\<Sum>f \<in> {f \<in> set facts. pf_kind f = FReversed}. pf_amount f) \<and>
    0 \<le> net_charged_minor p \<and>
    (reversed_minor p = 0 \<or> charged_minor p + reversed_minor p \<le> authorized_minor p) \<and>
    (limit_exceeded p \<longleftrightarrow> limit_minor < authorized_minor p \<or> limit_minor < charged_minor p) \<and>
    (authorization_exceeded p \<longleftrightarrow> authorized_minor p \<noteq> 0 \<and> authorized_minor p < charged_minor p)"
  by (rule project_payment_Inr [OF assms])

section \<open>A concrete journal\<close>

definition sample_fact :: "string \<Rightarrow> fact_kind \<Rightarrow> int \<Rightarrow> payment_fact" where
  "sample_fact k kind amount = \<lparr>pf_key = k, pf_kind = kind, pf_amount = amount, pf_currency = ''USD'',
     pf_source = Issuer, pf_renewal_id = None, pf_renewal_on = None\<rparr>"

lemma sample_project:
  "project_payment [sample_fact ''r'' FRefunded 40, sample_fact ''c'' FCharged 100,
      sample_fact ''c'' FCharged 100] 50 ''USD'' =
   Inr \<lparr>pp_state = PPartiallyRefunded, authorized_minor = 0, charged_minor = 100, refunded_minor = 40,
     reversed_minor = 0, limit_exceeded = True, authorization_exceeded = False\<rparr>"
  by (simp add: project_payment_def sample_fact_def validate_fact_def valid_minor_def currency_code_def
      sort_facts_parts apply_fact_def new_position_def set_flags_def Let_def)

theorem payment_order_independent_witness:
  "project_payment [sample_fact ''r'' FRefunded 40, sample_fact ''c'' FCharged 100,
      sample_fact ''c'' FCharged 100] 50 ''USD'' =
   project_payment [sample_fact ''c'' FCharged 100, sample_fact ''r'' FRefunded 40] 50 ''USD''"
  by (rule payment_order_independent) auto

theorem payment_position_exact_witness:
  "\<exists>p. project_payment [sample_fact ''r'' FRefunded 40, sample_fact ''c'' FCharged 100,
      sample_fact ''c'' FCharged 100] 50 ''USD'' = Inr p \<and> net_charged_minor p = 60 \<and>
     0 \<le> net_charged_minor p \<and> limit_exceeded p"
  using payment_position_exact [OF sample_project] sample_project
  by (simp add: net_charged_minor_def)

end
