(* ===== verification/Payment_Summary.thy ===== *)
theory Payment_Summary
  imports Payments
begin

text \<open>
  The summary of an operation's payments by renewal (\<open>robothor/autonomy/payment_groups.py\<close>) and
  the overspend signals read off it (\<open>overspend_reasons\<close> of \<open>payment_hold.py\<close>).
\<close>

section \<open>Groups\<close>

record group_position =
  gp_position :: "payment_position option"
  gp_reconcile :: bool

definition position_of :: "payment_fact list \<Rightarrow> int \<Rightarrow> string \<Rightarrow> group_position" where
  "position_of facts limit currency =
     (case project_payment facts limit currency of
        Inl _ \<Rightarrow> \<lparr>gp_position = None, gp_reconcile = True\<rparr>
      | Inr p \<Rightarrow> \<lparr>gp_position = Some p, gp_reconcile = limit_exceeded p \<or> authorization_exceeded p\<rparr>)"

definition schedule_matches :: "web_operation \<Rightarrow> date option \<Rightarrow> bool" where
  "schedule_matches w due_on =
     (case (due_on, wo_recurrence w) of
        (Some due, Some terms) \<Rightarrow>
          wo_action w = Subscription \<and>
          (let anchor = next_charge_on terms;
               months = (date_year due - date_year anchor) * 12 + date_month due - date_month anchor
           in 0 \<le> months \<and> months mod interval_months (rec_interval terms) = 0 \<and>
              date_day due = min (date_day anchor) (days_in_month (date_year due) (date_month due)) \<and>
              (case ends_on terms of None \<Rightarrow> True | Some e \<Rightarrow> due \<le> e))
      | _ \<Rightarrow> False)"

fun group_facts ::
  "payment_fact list \<Rightarrow> (string option, payment_fact list) dict \<Rightarrow>
   (string option, payment_fact list) dict result" where
  "group_facts [] groups = Inr groups"
| "group_facts (original # rest) groups =
     bind_result (validate_fact original) (\<lambda>f.
       group_facts rest (dict_set (pf_renewal_id f)
         ((case dict_get groups (pf_renewal_id f) of None \<Rightarrow> [] | Some fs \<Rightarrow> fs) @ [f]) groups))"

record renewal =
  rn_group :: group_position
  rn_id :: string
  rn_due :: "date option"
  rn_matches :: bool
  rn_count :: nat
  rn_period_exceeded :: bool
  rn_reconcile :: bool

definition the_due :: "payment_fact list \<Rightarrow> date option" where
  "the_due fs =
     (case remdups (map pf_renewal_on fs) of [d] \<Rightarrow> d | _ \<Rightarrow> None)"

definition renewal_of :: "web_operation \<Rightarrow> nat \<Rightarrow> payment_fact list \<Rightarrow> renewal" where
  "renewal_of w index fs =
     (let due = the_due fs; g = position_of fs (wo_recurring w) (wo_currency w);
          ok = schedule_matches w due
      in \<lparr>rn_group = g, rn_id = ''renewal-'' @ show_nat index, rn_due = due, rn_matches = ok,
         rn_count = length fs, rn_period_exceeded = False, rn_reconcile = gp_reconcile g \<or> \<not> ok\<rparr>)"

text \<open>Gross charges of one due date: refunds do not authorize another charge.\<close>

definition charged_of :: "renewal \<Rightarrow> int" where
  "charged_of r = (case gp_position (rn_group r) of None \<Rightarrow> 0 | Some p \<Rightarrow> charged_minor p)"

definition period_total :: "renewal list \<Rightarrow> date \<Rightarrow> int" where
  "period_total rs due = sum_list (map charged_of
     (filter (\<lambda>r. gp_position (rn_group r) \<noteq> None \<and> rn_due r = Some due) rs))"

definition check_period :: "web_operation \<Rightarrow> renewal list \<Rightarrow> renewal \<Rightarrow> renewal" where
  "check_period w rs r =
     (let over = (case rn_due r of None \<Rightarrow> False | Some due \<Rightarrow> wo_recurring w < period_total rs due)
      in r\<lparr>rn_period_exceeded := over, rn_reconcile := rn_reconcile r \<or> over\<rparr>)"

definition iso_date :: "date \<Rightarrow> string" where
  "iso_date d = (case d of (y, m, dd) \<Rightarrow>
     pad_zeros 4 (show_nat (nat y)) @ ''-'' @ pad_zeros 2 (show_nat (nat m)) @ ''-'' @
     pad_zeros 2 (show_nat (nat dd)))"

record payment_summary =
  ps_group :: group_position
  ps_count :: nat
  ps_reconcile :: bool
  ps_renewals :: "renewal list"

definition raw_renewals :: "web_operation \<Rightarrow> (string option, payment_fact list) dict \<Rightarrow> renewal list" where
  "raw_renewals w groups =
     map (\<lambda>(i, g). renewal_of w i g) (enumerate 1 (dict_values (dict_pop None groups)))"

definition summarize_payments :: "web_operation \<Rightarrow> payment_fact list \<Rightarrow> payment_summary result" where
  "summarize_payments w facts =
     bind_result (group_facts facts []) (\<lambda>groups.
       let base = position_of (case dict_get groups None of None \<Rightarrow> [] | Some fs \<Rightarrow> fs)
             (wo_amount w) (wo_currency w);
           raw = raw_renewals w groups;
           rs = map (check_period w raw) raw
       in Inr \<lparr>ps_group = base, ps_count = length facts,
               ps_reconcile = gp_reconcile base \<or> list_ex rn_reconcile rs,
               ps_renewals = sort_key
                 (\<lambda>r. (case rn_due r of None \<Rightarrow> [] | Some d \<Rightarrow> iso_date d, rn_id r)) rs\<rparr>)"

section \<open>Signals\<close>

definition flag :: "bool \<Rightarrow> string \<Rightarrow> string list" where
  "flag b s = (if b then [s] else [])"

definition position_signals :: "string \<Rightarrow> string \<Rightarrow> payment_position option \<Rightarrow> string list" where
  "position_signals before after p =
     (case p of
        None \<Rightarrow> []
      | Some q \<Rightarrow> flag (limit_exceeded q) (before @ ''limit_exceeded'' @ after) @
          flag (authorization_exceeded q) (before @ ''authorization_exceeded'' @ after))"

definition renewal_signals :: "renewal \<Rightarrow> string list" where
  "renewal_signals r =
     flag (rn_period_exceeded r) (''renewal_period_limit_exceeded:'' @ rn_id r) @
     position_signals ''renewal_'' ('':'' @ rn_id r) (gp_position (rn_group r))"

definition overspend_reasons :: "payment_summary \<Rightarrow> string list" where
  "overspend_reasons s =
     position_signals [] [] (gp_position (ps_group s)) @ concat (map renewal_signals (ps_renewals s))"

section \<open>No signal, no overspend\<close>

lemma flag_Nil [simp]: "flag b s = [] \<longleftrightarrow> \<not> b"
  by (simp add: flag_def)

lemma position_signals_Nil [simp]:
  "position_signals before after p = [] \<longleftrightarrow>
     (\<forall>q. p = Some q \<longrightarrow> \<not> limit_exceeded q \<and> \<not> authorization_exceeded q)"
  by (auto simp: position_signals_def split: option.splits)

lemma group_facts_Inr:
  "group_facts facts groups = Inr groups' \<Longrightarrow>
   dict_get groups' k = (let fs = filter (\<lambda>f. pf_renewal_id f = k) facts in
     case dict_get groups k of Some gs \<Rightarrow> Some (gs @ fs) | None \<Rightarrow> if fs = [] then None else Some fs)"
proof (induction facts arbitrary: groups)
  case (Cons f fs)
  obtain g where "validate_fact f = Inr g" using Cons.prems by (cases "validate_fact f") auto
  then have v: "validate_fact f = Inr f" using validate_fact_id by blast
  then show ?case using Cons.IH [of "dict_set (pf_renewal_id f)
      ((case dict_get groups (pf_renewal_id f) of None \<Rightarrow> [] | Some fs \<Rightarrow> fs) @ [f]) groups"] Cons.prems
    by (auto simp: Let_def split: option.splits if_splits)
qed (auto split: option.splits)

lemma group_facts_ok: "group_facts facts groups = Inr groups' \<Longrightarrow> dict_ok groups \<Longrightarrow> dict_ok groups'"
  by (induction facts arbitrary: groups) (auto split: option.splits)

abbreviation facts_of :: "string option \<Rightarrow> payment_fact list \<Rightarrow> payment_fact list" where
  "facts_of k facts \<equiv> filter (\<lambda>f. pf_renewal_id f = k) facts"

definition charged_total :: "payment_fact set \<Rightarrow> int" where
  "charged_total F = (\<Sum>f \<in> {f \<in> F. pf_kind f = FCharged}. pf_amount f)"

lemma group_facts_valid:
  "group_facts facts groups = Inr groups' \<Longrightarrow> \<forall>f \<in> set facts. validate_fact f = Inr f"
proof (induction facts arbitrary: groups)
  case (Cons f fs)
  obtain g where g: "validate_fact f = Inr g" using Cons.prems by (cases "validate_fact f") auto
  then have "g = f" using validate_fact_id by blast
  then show ?case using Cons.IH Cons.prems g by auto
qed simp

lemma position_of_Some:
  "gp_position (position_of fs limit currency) = Some p \<longleftrightarrow> project_payment fs limit currency = Inr p"
  by (auto simp: position_of_def split: sum.splits)

text \<open>The entries of the grouping, and the renewals made of them.\<close>

lemma renewal_groups:
  assumes "group_facts facts [] = Inr groups"
  shows "distinct (map fst (dict_pop None groups))"
    "(k, fs) \<in> set (dict_pop None groups) \<longleftrightarrow> k \<noteq> None \<and> fs = facts_of k facts \<and> fs \<noteq> []"
proof -
  have ok: "dict_ok groups" using group_facts_ok [OF assms] by simp
  then show d: "distinct (map fst (dict_pop None groups))" using dict_ok_pop [of groups None] by (simp add: dict_ok_def)
  have "(k, fs) \<in> set (dict_pop None groups) \<longleftrightarrow> dict_get (dict_pop None groups) k = Some fs"
    by (rule map_of_eq_Some_iff [OF d, symmetric])
  also have "\<dots> \<longleftrightarrow> k \<noteq> None \<and> fs = facts_of k facts \<and> fs \<noteq> []"
    using group_facts_Inr [OF assms, of k] by (auto simp: Let_def)
  finally show "(k, fs) \<in> set (dict_pop None groups) \<longleftrightarrow> k \<noteq> None \<and> fs = facts_of k facts \<and> fs \<noteq> []" .
qed

lemma same_due:
  assumes "project_payment fs limit currency = Inr p" "f \<in> set fs" "g \<in> set fs"
  shows "pf_renewal_on f = pf_renewal_on g"
proof -
  have nil: "seen_ok []" by (simp add: seen_ok_def)
  obtain seen where c: "collect_facts currency fs [] = Inr seen"
    and one: "card ((\<lambda>f. (pf_renewal_id f, pf_renewal_on f)) ` set (dict_values seen)) \<le> 1"
    using assms(1) by (auto simp: project_payment_def Let_def split: if_splits)
  have s: "set (dict_values seen) = set fs" using collect_facts_Inr [OF c nil] by simp
  let ?h = "\<lambda>f. (pf_renewal_id f, pf_renewal_on f)"
  have "?h f = ?h g"
  proof (rule ccontr)
    assume "?h f \<noteq> ?h g"
    then have "card {?h f, ?h g} = 2" by simp
    moreover have "{?h f, ?h g} \<subseteq> ?h ` set fs" using assms(2,3) by blast
    then have "card {?h f, ?h g} \<le> card (?h ` set fs)" by (intro card_mono) simp_all
    ultimately show False using one unfolding s by linarith
  qed
  then show ?thesis by simp
qed

lemma remdups_constant: "xs \<noteq> [] \<Longrightarrow> \<forall>x \<in> set xs. x = d \<Longrightarrow> remdups xs = [d]"
proof (induction xs)
  case (Cons x xs)
  then show ?case by (cases xs) auto
qed simp

lemma the_due_eq:
  assumes "fs \<noteq> []" "\<forall>f \<in> set fs. pf_renewal_on f = d"
  shows "the_due fs = d"
  using remdups_constant [of "map pf_renewal_on fs" d] assms by (simp add: the_due_def)

lemma charged_position:
  "project_payment fs limit currency = Inr p \<Longrightarrow> charged_minor p = charged_total (set fs)"
  using project_payment_Inr by (simp add: charged_total_def)

lemma summarize_Inr:
  assumes "summarize_payments w facts = Inr s"
  obtains groups where "group_facts facts [] = Inr groups"
    "ps_group s = position_of (facts_of None facts) (wo_amount w) (wo_currency w)"
    "set (ps_renewals s) = check_period w (raw_renewals w groups) ` set (raw_renewals w groups)"
proof -
  obtain groups where g: "group_facts facts [] = Inr groups"
    using assms by (cases "group_facts facts []") (auto simp: summarize_payments_def)
  have "(case dict_get groups None of None \<Rightarrow> [] | Some fs \<Rightarrow> fs) = facts_of None facts"
    using group_facts_Inr [OF g, of None] by (simp add: Let_def)
  then show thesis using that [OF g] assms g
    by (auto simp: summarize_payments_def Let_def)
qed

text \<open>What a renewal is made of does not depend on its number.\<close>

definition group_charge :: "web_operation \<Rightarrow> date \<Rightarrow> payment_fact list \<Rightarrow> int" where
  "group_charge w d fs =
     (if the_due fs = Some d then
        (case project_payment fs (wo_recurring w) (wo_currency w) of Inl _ \<Rightarrow> 0 | Inr p \<Rightarrow> charged_minor p)
      else 0)"

lemma renewal_of_simps [simp]:
  "rn_group (renewal_of w i fs) = position_of fs (wo_recurring w) (wo_currency w)"
  "rn_due (renewal_of w i fs) = the_due fs"
  by (simp_all add: renewal_of_def Let_def)

lemma sum_list_filter_if: "sum_list (map f (filter P xs)) = sum_list (map (\<lambda>x. if P x then f x else (0::int)) xs)"
  by (induction xs) auto

lemma period_total_groups:
  "period_total (raw_renewals w groups) d =
   sum_list (map (group_charge w d) (dict_values (dict_pop None groups)))"
proof -
  have r: "(if gp_position (rn_group (renewal_of w i fs)) \<noteq> None \<and> rn_due (renewal_of w i fs) = Some d
      then charged_of (renewal_of w i fs) else 0) = group_charge w d fs" for i fs
    by (auto simp: group_charge_def charged_of_def position_of_def split: sum.splits)
  have x: "(if gp_position (rn_group ((\<lambda>(i, g). renewal_of w i g) x)) \<noteq> None \<and>
        rn_due ((\<lambda>(i, g). renewal_of w i g) x) = Some d
      then charged_of ((\<lambda>(i, g). renewal_of w i g) x) else 0) = group_charge w d (snd x)" for x
    using r [of "fst x" "snd x"] by (simp only: split_beta)
  have "period_total (raw_renewals w groups) d =
      sum_list (map (\<lambda>p. group_charge w d (snd p)) (enumerate 1 (dict_values (dict_pop None groups))))"
    unfolding period_total_def raw_renewals_def sum_list_filter_if map_map o_def x ..
  also have "\<dots> = sum_list (map (group_charge w d) (map snd (enumerate 1 (dict_values (dict_pop None groups)))))"
    unfolding map_map o_def ..
  finally show ?thesis unfolding map_snd_enumerate .
qed

text \<open>Evidence that can be projected at all.\<close>

definition projectable :: "web_operation \<Rightarrow> payment_fact list \<Rightarrow> bool" where
  "projectable w fs = (\<exists>p. project_payment fs (wo_recurring w) (wo_currency w) = Inr p)"

definition due_charges :: "web_operation \<Rightarrow> payment_fact list \<Rightarrow> date \<Rightarrow> int" where
  "due_charges w facts d =
     charged_total {f \<in> set facts. pf_renewal_on f = Some d \<and> projectable w (facts_of (pf_renewal_id f) facts)}"

lemma projectable_due:
  assumes "projectable w fs" "f \<in> set fs"
  shows "the_due fs = pf_renewal_on f"
proof (rule the_due_eq)
  show "fs \<noteq> []" using assms(2) by (metis empty_iff list.set(1))
  show "\<forall>g \<in> set fs. pf_renewal_on g = pf_renewal_on f"
  proof
    obtain p where p: "project_payment fs (wo_recurring w) (wo_currency w) = Inr p"
      using assms(1) by (auto simp: projectable_def)
    fix g assume "g \<in> set fs"
    then show "pf_renewal_on g = pf_renewal_on f" by (rule same_due [OF p _ assms(2)])
  qed
qed

lemma period_total_facts:
  assumes g: "group_facts facts [] = Inr groups"
  shows "period_total (raw_renewals w groups) d = due_charges w facts d"
proof -
  let ?G = "dict_pop None groups"
  let ?F = "{f \<in> set facts. pf_renewal_on f = Some d \<and> projectable w (facts_of (pf_renewal_id f) facts)}"
  let ?S = "{f \<in> ?F. pf_kind f = FCharged}"
  let ?K = "set (map fst ?G)"
  note G = renewal_groups [OF g]
  have val: "fs = facts_of k facts" if "(k, fs) \<in> set ?G" for k fs using G(2) that by simp
  have K: "k \<in> ?K \<longleftrightarrow> k \<noteq> None \<and> facts_of k facts \<noteq> []" for k
  proof -
    have "k \<in> ?K \<longleftrightarrow> (\<exists>fs. (k, fs) \<in> set ?G)" by (simp only: set_map image_iff) (metis fst_conv prod.collapse)
    then show ?thesis unfolding G(2) by blast
  qed
  have charge: "group_charge w d (facts_of k facts) = (\<Sum>f \<in> {f \<in> ?S. pf_renewal_id f = k}. pf_amount f)" for k
  proof (cases "projectable w (facts_of k facts)")
    case True
    then obtain p where p: "project_payment (facts_of k facts) (wo_recurring w) (wo_currency w) = Inr p"
      by (auto simp: projectable_def)
    note due = projectable_due [OF True]
    show ?thesis
    proof (cases "the_due (facts_of k facts) = Some d")
      case True
      then have "{f \<in> ?S. pf_renewal_id f = k} = {f \<in> set (facts_of k facts). pf_kind f = FCharged}"
        using due \<open>projectable w (facts_of k facts)\<close> by auto
      then show ?thesis using True p charged_position [OF p] by (simp add: group_charge_def charged_total_def)
    next
      case False
      then have e: "{f \<in> ?S. pf_renewal_id f = k} = {}" using due by auto
      show ?thesis unfolding e using False by (simp add: group_charge_def)
    qed
  next
    case False
    then have e: "{f \<in> ?S. pf_renewal_id f = k} = {}" by auto
    have "group_charge w d (facts_of k facts) = 0"
      using False by (auto simp: group_charge_def projectable_def split: sum.split)
    then show ?thesis unfolding e by simp
  qed
  have img: "pf_renewal_id ` ?S \<subseteq> ?K"
  proof
    fix k
    assume "k \<in> pf_renewal_id ` ?S"
    then obtain f where f: "f \<in> set facts" "pf_renewal_on f = Some d" "k = pf_renewal_id f" by auto
    then have "validate_fact f = Inr f" using group_facts_valid [OF g] by blast
    then have "k \<noteq> None" using f by (auto simp: validate_fact_def split: if_splits)
    then show "k \<in> ?K" unfolding K using f by (auto simp: filter_empty_conv)
  qed
  have "period_total (raw_renewals w groups) d = sum_list (map (\<lambda>k. group_charge w d (facts_of k facts)) (map fst ?G))"
    unfolding period_total_groups map_map
    by (intro arg_cong [of _ _ sum_list] map_cong) (auto simp: dest: val)
  also have "\<dots> = (\<Sum>k \<in> ?K. group_charge w d (facts_of k facts))"
    using G(1) by (rule sum_list_distinct_conv_sum_set)
  also have "\<dots> = (\<Sum>k \<in> ?K. \<Sum>f \<in> {f \<in> ?S. pf_renewal_id f = k}. pf_amount f)"
    by (rule sum.cong [OF refl charge])
  also have "\<dots> = (\<Sum>f \<in> ?S. pf_amount f)"
    by (rule sum.group [OF _ _ img]) simp_all
  finally show ?thesis by (simp add: due_charges_def charged_total_def)
qed

lemma renewal_of_group:
  assumes g: "group_facts facts [] = Inr groups" and ne: "facts_of (Some i) facts \<noteq> []"
  shows "\<exists>r \<in> set (raw_renewals w groups).
    rn_group r = position_of (facts_of (Some i) facts) (wo_recurring w) (wo_currency w) \<and>
    rn_due r = the_due (facts_of (Some i) facts)"
proof -
  let ?fs = "facts_of (Some i) facts"
  have "(Some i, ?fs) \<in> set (dict_pop None groups)" using renewal_groups(2) [OF g] ne by blast
  then have "?fs \<in> set (dict_values (dict_pop None groups))" by force
  then have "?fs \<in> snd ` set (enumerate 1 (dict_values (dict_pop None groups)))"
    unfolding set_map [symmetric] map_snd_enumerate .
  then obtain n where "(n, ?fs) \<in> set (enumerate 1 (dict_values (dict_pop None groups)))"
    unfolding image_iff by (metis prod.collapse)
  then have "renewal_of w n ?fs \<in> set (raw_renewals w groups)" by (force simp: raw_renewals_def)
  then show ?thesis by (intro bexI [of _ "renewal_of w n ?fs"]) simp_all
qed

lemma raw_renewal_group:
  assumes g: "group_facts facts [] = Inr groups" and r: "r \<in> set (raw_renewals w groups)"
  shows "\<exists>i. facts_of (Some i) facts \<noteq> [] \<and>
    rn_group r = position_of (facts_of (Some i) facts) (wo_recurring w) (wo_currency w) \<and>
    rn_due r = the_due (facts_of (Some i) facts)"
proof -
  obtain n fs where x: "(n, fs) \<in> set (enumerate 1 (dict_values (dict_pop None groups)))" "r = renewal_of w n fs"
    using r by (auto simp: raw_renewals_def)
  then have "fs \<in> snd ` set (enumerate 1 (dict_values (dict_pop None groups)))" by force
  then have "fs \<in> set (dict_values (dict_pop None groups))" unfolding set_map [symmetric] map_snd_enumerate .
  then obtain k where "(k, fs) \<in> set (dict_pop None groups)" by auto
  then obtain i where "fs = facts_of (Some i) facts" "fs \<noteq> []" using renewal_groups(2) [OF g] by (cases k) auto
  then show ?thesis using x(2) by auto
qed

text \<open>
  What an overspend is, read off the facts. Evidence that can be projected is overspent when more
  was authorized or charged than the limit, or more was charged than was authorized where
  anything was; an operation is overspent when its own evidence is, that of a renewal is, or the
  gross charges of the renewals due on one date are above the recurring amount together.
  Evidence that cannot be projected, such as a charge after a full reversal, counts for nothing.
\<close>

definition kind_sum :: "fact_kind \<Rightarrow> payment_fact list \<Rightarrow> int" where
  "kind_sum k fs = (\<Sum>f \<in> {f \<in> set fs. pf_kind f = k}. pf_amount f)"

definition group_overspent :: "payment_fact list \<Rightarrow> int \<Rightarrow> string \<Rightarrow> bool" where
  "group_overspent fs limit currency =
     ((\<exists>p. project_payment fs limit currency = Inr p) \<and>
      (limit < kind_sum FAuthorized fs \<or> limit < kind_sum FCharged fs \<or>
       kind_sum FAuthorized fs \<noteq> 0 \<and> kind_sum FAuthorized fs < kind_sum FCharged fs))"

definition overspent :: "web_operation \<Rightarrow> payment_fact list \<Rightarrow> bool" where
  "overspent w facts =
     (group_overspent (facts_of None facts) (wo_amount w) (wo_currency w) \<or>
      (\<exists>i. group_overspent (facts_of (Some i) facts) (wo_recurring w) (wo_currency w)) \<or>
      (\<exists>d. wo_recurring w < due_charges w facts d))"

lemma group_overspent_flags:
  "group_overspent fs limit currency \<longleftrightarrow>
   (\<exists>p. project_payment fs limit currency = Inr p \<and> (limit_exceeded p \<or> authorization_exceeded p))"
proof (cases "project_payment fs limit currency")
  case (Inr p)
  note e = project_payment_Inr [OF Inr]
  show ?thesis using e Inr by (auto simp: group_overspent_def kind_sum_def)
qed (simp add: group_overspent_def)

lemma renewal_signals_Nil:
  "renewal_signals (check_period w rs r) \<noteq> [] \<longleftrightarrow>
   (\<exists>d. rn_due r = Some d \<and> wo_recurring w < period_total rs d) \<or>
   (\<exists>q. gp_position (rn_group r) = Some q \<and> (limit_exceeded q \<or> authorization_exceeded q))"
  by (auto simp: renewal_signals_def check_period_def Let_def split: option.split)

lemma overspent_date:
  assumes g: "group_facts facts [] = Inr groups" and w: "0 \<le> wo_recurring w" "wo_recurring w < due_charges w facts d"
  shows "\<exists>i. facts_of (Some i) facts \<noteq> [] \<and> the_due (facts_of (Some i) facts) = Some d"
proof -
  let ?F = "{f \<in> set facts. pf_renewal_on f = Some d \<and> projectable w (facts_of (pf_renewal_id f) facts)}"
  have "?F \<noteq> {}"
  proof
    assume e: "?F = {}"
    have "due_charges w facts d = 0" unfolding due_charges_def e by (simp add: charged_total_def)
    then show False using w by simp
  qed
  then obtain f where f: "f \<in> set facts" "pf_renewal_on f = Some d" "projectable w (facts_of (pf_renewal_id f) facts)"
    by blast
  have "validate_fact f = Inr f" using group_facts_valid [OF g] f(1) by blast
  then obtain i where i: "pf_renewal_id f = Some i" using f(2) by (auto simp: validate_fact_def split: if_splits)
  have fi: "f \<in> set (facts_of (Some i) facts)" using f(1) i by simp
  then have "facts_of (Some i) facts \<noteq> []" by (metis empty_iff list.set(1))
  moreover have "the_due (facts_of (Some i) facts) = Some d" using projectable_due [OF _ fi] f(2,3) i by simp
  ultimately show ?thesis by blast
qed

text \<open>A summary gives a signal exactly when the facts are overspent.\<close>

lemma overspend_reasons_exact:
  assumes s: "summarize_payments w facts = Inr s" and w: "0 \<le> wo_recurring w"
  shows "overspend_reasons s \<noteq> [] \<longleftrightarrow> overspent w facts"
proof -
  obtain groups where g: "group_facts facts [] = Inr groups"
    and base: "ps_group s = position_of (facts_of None facts) (wo_amount w) (wo_currency w)"
    and rs: "set (ps_renewals s) = check_period w (raw_renewals w groups) ` set (raw_renewals w groups)"
    by (rule summarize_Inr [OF s])
  let ?raw = "raw_renewals w groups" and ?fs = "\<lambda>i. facts_of (Some i) facts"
  have 1: "position_signals [] [] (gp_position (ps_group s)) \<noteq> [] \<longleftrightarrow>
      group_overspent (facts_of None facts) (wo_amount w) (wo_currency w)"
    unfolding base group_overspent_flags by (auto simp: position_of_Some)
  have pos: "(\<exists>q. gp_position (position_of fs (wo_recurring w) (wo_currency w)) = Some q \<and>
      (limit_exceeded q \<or> authorization_exceeded q)) = group_overspent fs (wo_recurring w) (wo_currency w)" for fs
    unfolding group_overspent_flags by (auto simp: position_of_Some)
  have empty: "\<not> group_overspent [] (wo_recurring w) (wo_currency w)" using w by (simp add: group_overspent_def kind_sum_def)
  have "(\<exists>r \<in> set ?raw. renewal_signals (check_period w ?raw r) \<noteq> []) \<longleftrightarrow>
      (\<exists>i. ?fs i \<noteq> [] \<and> ((\<exists>d. the_due (?fs i) = Some d \<and> wo_recurring w < due_charges w facts d) \<or>
        group_overspent (?fs i) (wo_recurring w) (wo_currency w)))"
    unfolding renewal_signals_Nil period_total_facts [OF g]
  proof
    assume "\<exists>r \<in> set ?raw. (\<exists>d. rn_due r = Some d \<and> wo_recurring w < due_charges w facts d) \<or>
      (\<exists>q. gp_position (rn_group r) = Some q \<and> (limit_exceeded q \<or> authorization_exceeded q))"
    then obtain r where r: "r \<in> set ?raw" "(\<exists>d. rn_due r = Some d \<and> wo_recurring w < due_charges w facts d) \<or>
      (\<exists>q. gp_position (rn_group r) = Some q \<and> (limit_exceeded q \<or> authorization_exceeded q))" by blast
    from raw_renewal_group [OF g r(1)] r(2) show "\<exists>i. ?fs i \<noteq> [] \<and>
        ((\<exists>d. the_due (?fs i) = Some d \<and> wo_recurring w < due_charges w facts d) \<or>
        group_overspent (?fs i) (wo_recurring w) (wo_currency w))"
      using pos by metis
  next
    assume "\<exists>i. ?fs i \<noteq> [] \<and> ((\<exists>d. the_due (?fs i) = Some d \<and> wo_recurring w < due_charges w facts d) \<or>
        group_overspent (?fs i) (wo_recurring w) (wo_currency w))"
    then obtain i where i: "?fs i \<noteq> []" "(\<exists>d. the_due (?fs i) = Some d \<and> wo_recurring w < due_charges w facts d) \<or>
        group_overspent (?fs i) (wo_recurring w) (wo_currency w)" by blast
    from renewal_of_group [OF g i(1), of w] i(2) show "\<exists>r \<in> set ?raw.
      (\<exists>d. rn_due r = Some d \<and> wo_recurring w < due_charges w facts d) \<or>
      (\<exists>q. gp_position (rn_group r) = Some q \<and> (limit_exceeded q \<or> authorization_exceeded q))"
      using pos by metis
  qed
  also have "\<dots> \<longleftrightarrow> (\<exists>i. group_overspent (?fs i) (wo_recurring w) (wo_currency w)) \<or>
      (\<exists>d. wo_recurring w < due_charges w facts d)"
    using overspent_date [OF g w] empty by metis
  finally have 2: "(\<exists>r \<in> set ?raw. renewal_signals (check_period w ?raw r) \<noteq> []) \<longleftrightarrow>
      (\<exists>i. group_overspent (?fs i) (wo_recurring w) (wo_currency w)) \<or> (\<exists>d. wo_recurring w < due_charges w facts d)" .
  have "overspend_reasons s \<noteq> [] \<longleftrightarrow> position_signals [] [] (gp_position (ps_group s)) \<noteq> [] \<or>
      (\<exists>r \<in> set ?raw. renewal_signals (check_period w ?raw r) \<noteq> [])"
    by (auto simp: overspend_reasons_def rs)
  then show ?thesis unfolding 1 2 overspent_def .
qed

section \<open>A concrete subscription\<close>

definition sample_renewal :: payment_fact where
  "sample_renewal = (sample_fact ''n'' FCharged 300)
     \<lparr>pf_renewal_id := Some ''x'', pf_renewal_on := Some (2026, 4, 30)\<rparr>"

lemma sample_summary:
  "\<exists>s. summarize_payments sample_subscription [sample_fact ''c'' FCharged 500, sample_renewal] = Inr s \<and>
     overspend_reasons s = []"
  by (simp add: summarize_payments_def raw_renewals_def renewal_of_def position_of_def project_payment_def
      sample_renewal_def sample_fact_def sample_subscription_def validate_fact_def valid_minor_def
      currency_code_def sort_facts_parts apply_fact_def new_position_def set_flags_def the_due_def
      overspend_reasons_def position_signals_def renewal_signals_def flag_def check_period_def
      period_total_def charged_of_def Let_def)

end
