(* ===== verification/Delegated_Store.thy ===== *)
theory Delegated_Store
  imports Payment_Summary
begin

text \<open>
  The tables of delegated spending and its authorization (\<open>robothor/autonomy/store.py\<close> with
  the hold of \<open>payment_hold.py\<close>): grants, reservations under the budget, and the gates in front
  of a submission. The owner's advisory lock makes every operation one atomic step. Encrypted
  columns hold their plain values here: sealing and opening is a library's, and every read
  opens what the store sealed. A table is the list of its rows in the order of insertion; the
  clock is read once per step. The request context of an operation is not modelled.
\<close>

section \<open>Tables\<close>

datatype store_error = PermissionError string | StoreValueError string | StoreTypeError
  | StoreKeyError | StoreDbError

type_synonym scope = "string \<times> string"

record grant_row =
  ag_id :: string
  ag_scope :: scope
  ag_policy :: delegation
  ag_version :: int
  ag_revoked :: bool

record op_row =
  ao_id :: string
  ao_scope :: scope
  ao_grant :: string
  ao_grant_version :: int
  ao_agent :: string
  ao_key :: string
  ao_fingerprint :: string
  ao_proposal :: web_operation
  ao_state :: op_state
  ao_evidence :: "json_obj option"
  ao_plan :: "json_obj option"
  ao_reason :: "string option"
  ao_workflow :: "string option"
  ao_created :: datetime
  ao_updated :: datetime

datatype handoff_state = Awaiting_External_Action | Checking | Resolved | Expired

record handoff_request =
  hr_request :: string
  hr_kind :: string
  hr_url :: string
  hr_selector :: "string option"
  hr_text :: "string option"
  hr_session :: "string option"
  hr_lifetime :: int

record handoff_row =
  ho_id :: string
  ho_scope :: scope
  ho_operation :: string
  ho_agent :: string
  ho_fingerprint :: string
  ho_spec :: handoff_request
  ho_state :: handoff_state
  ho_expires :: datetime
  ho_attempts :: nat
  ho_token :: "string option"
  ho_lease :: "datetime option"

datatype workflow_state = WOpen | WCompleted | WClosed | WLost

record workflow_row =
  wf_id :: string
  wf_scope :: scope
  wf_agent :: string
  wf_operation :: string
  wf_instance :: string
  wf_origin :: string
  wf_fingerprint :: string
  wf_state :: workflow_state
  wf_revision :: int

text \<open>A command is running until it has a result.\<close>

record command_row =
  wc_workflow :: string
  wc_command :: string
  wc_fingerprint :: string
  wc_request :: json_obj
  wc_result :: "json_obj option"

text \<open>An event is scope, subject and name; the list is in the order of their serial ids.\<close>

record autonomy_db =
  ad_grants :: "grant_row list"
  ad_ops :: "op_row list"
  ad_settings :: "(scope, runtime_settings) dict"
  ad_events :: "(scope \<times> string \<times> string) list"
  ad_facts :: "(scope \<times> string \<times> payment_fact) list"
  ad_handoffs :: "handoff_row list"
  ad_workflows :: "workflow_row list"
  ad_commands :: "command_row list"
  ad_alerts :: "(scope \<times> string) list"

type_synonym 'a store_result = "store_error + 'a"

fun bind_store :: "'a store_result \<Rightarrow> ('a \<Rightarrow> 'b store_result) \<Rightarrow> 'b store_result" where
  "bind_store (Inl e) f = Inl e"
| "bind_store (Inr a) f = f a"

definition require :: "bool \<Rightarrow> store_error \<Rightarrow> 'a store_result \<Rightarrow> 'a store_result" where
  "require ok e r = (if ok then r else Inl e)"

lemma require_Inr [simp]: "require ok e r = Inr a \<longleftrightarrow> ok \<and> r = Inr a"
  by (simp add: require_def)

lemma bind_store_Inr [simp]: "bind_store r f = Inr b \<longleftrightarrow> (\<exists>a. r = Inr a \<and> f a = Inr b)"
  by (cases r) auto

definition lift_result :: "string \<Rightarrow> 'a result \<Rightarrow> 'a store_result" where
  "lift_result why r = (case r of Inl _ \<Rightarrow> Inl (StoreValueError why) | Inr a \<Rightarrow> Inr a)"

lemma lift_result_Inr [simp]: "lift_result why r = Inr a \<longleftrightarrow> r = Inr a"
  by (cases r) (simp_all add: lift_result_def)

definition add_event :: "scope \<Rightarrow> string \<Rightarrow> string \<Rightarrow> autonomy_db \<Rightarrow> autonomy_db" where
  "add_event sc subject event db = db\<lparr>ad_events := ad_events db @ [(sc, subject, event)]\<rparr>"

definition find_op :: "scope \<Rightarrow> string \<Rightarrow> autonomy_db \<Rightarrow> op_row store_result" where
  "find_op sc ident db =
     (case find (\<lambda>r. ao_id r = ident \<and> ao_scope r = sc) (ad_ops db) of
        None \<Rightarrow> Inl (PermissionError ''operation_not_found'')
      | Some r \<Rightarrow> Inr r)"

definition update_op :: "string \<Rightarrow> (op_row \<Rightarrow> op_row) \<Rightarrow> autonomy_db \<Rightarrow> autonomy_db" where
  "update_op ident f db = db\<lparr>ad_ops := map (\<lambda>r. if ao_id r = ident then f r else r) (ad_ops db)\<rparr>"

definition record_operation_event ::
  "scope \<Rightarrow> string \<Rightarrow> string \<Rightarrow> autonomy_db \<Rightarrow> autonomy_db store_result" where
  "record_operation_event sc ident event db =
     bind_store (find_op sc ident db) (\<lambda>_. Inr (add_event sc ident event db))"

section \<open>Grants and holds\<close>

definition HOLD_PLACED :: string where "HOLD_PLACED = ''grant_payment_hold_placed''"
definition HOLD_CLEARED :: string where "HOLD_CLEARED = ''grant_payment_hold_cleared''"
definition REFUSAL :: string where "REFUSAL = ''grant_payment_hold''"

definition grant_on_hold :: "scope \<Rightarrow> string \<Rightarrow> autonomy_db \<Rightarrow> bool" where
  "grant_on_hold sc grant db =
     (case rev (filter (\<lambda>(s, subject, event). s = sc \<and> subject = grant \<and>
         event \<in> {HOLD_PLACED, HOLD_CLEARED}) (ad_events db)) of
        [] \<Rightarrow> False
      | (_, _, event) # _ \<Rightarrow> event = HOLD_PLACED)"

definition place_hold ::
  "scope \<Rightarrow> string \<Rightarrow> string \<Rightarrow> string list \<Rightarrow> autonomy_db \<Rightarrow> bool \<times> autonomy_db" where
  "place_hold sc grant operation reasons db =
     (if grant_on_hold sc grant db then (False, db)
      else (True, foldl (\<lambda>d reason. add_event sc operation (''payment_overspend:'' @ reason) d)
        (add_event sc grant HOLD_PLACED db) reasons))"

definition find_grant :: "scope \<Rightarrow> string \<Rightarrow> autonomy_db \<Rightarrow> grant_row option" where
  "find_grant sc grant db = find (\<lambda>g. ag_id g = grant \<and> ag_scope g = sc) (ad_grants db)"

definition clear_payment_hold :: "scope \<Rightarrow> string \<Rightarrow> autonomy_db \<Rightarrow> autonomy_db store_result" where
  "clear_payment_hold sc grant db =
     (case find_grant sc grant db of
        None \<Rightarrow> Inl (PermissionError ''grant_not_found'')
      | Some _ \<Rightarrow> Inr (if grant_on_hold sc grant db then add_event sc grant HOLD_CLEARED db else db))"

definition assert_no_payment_hold ::
  "scope \<Rightarrow> string \<Rightarrow> web_operation \<Rightarrow> autonomy_db \<Rightarrow> unit store_result" where
  "assert_no_payment_hold sc grant w db =
     require (\<not> (payment_action (wo_action w) \<and> grant_on_hold sc grant db)) (PermissionError REFUSAL) (Inr ())"

definition policy_of :: "scope \<Rightarrow> string \<Rightarrow> autonomy_db \<Rightarrow> (delegation \<times> int) store_result" where
  "policy_of sc grant db =
     (case find_grant sc grant db of
        None \<Rightarrow> Inl (PermissionError ''grant_revoked'')
      | Some g \<Rightarrow> require (\<not> ag_revoked g) (PermissionError ''grant_revoked'') (Inr (ag_policy g, ag_version g)))"

definition create_grant ::
  "scope \<Rightarrow> delegation \<Rightarrow> string \<Rightarrow> autonomy_db \<Rightarrow> autonomy_db store_result" where
  "create_grant sc policy uuid db =
     require (uuid \<notin> ag_id ` set (ad_grants db)) StoreDbError
       (Inr (add_event sc uuid ''grant_created'' (db\<lparr>ad_grants := ad_grants db @
         [\<lparr>ag_id = uuid, ag_scope = sc, ag_policy = policy, ag_version = 1, ag_revoked = False\<rparr>]\<rparr>)))"

definition revoke_grant :: "scope \<Rightarrow> string \<Rightarrow> autonomy_db \<Rightarrow> autonomy_db store_result" where
  "revoke_grant sc grant db =
     require (find_grant sc grant db \<noteq> None) (PermissionError ''grant_not_found'')
       (Inr (add_event sc grant ''grant_revoked'' (db\<lparr>ad_grants := map (\<lambda>g.
         if ag_id g = grant \<and> ag_scope g = sc
         then g\<lparr>ag_revoked := True, ag_version := ag_version g + 1\<rparr> else g) (ad_grants db)\<rparr>)))"

section \<open>The budget\<close>

definition budget_rows :: "scope \<Rightarrow> string \<Rightarrow> string option \<Rightarrow> autonomy_db \<Rightarrow> projection_row list" where
  "budget_rows sc currency exclude db =
     map (\<lambda>r. (ao_proposal r, ao_state r, ao_updated r))
       (filter (\<lambda>r. ao_scope r = sc \<and> wo_currency (ao_proposal r) = currency \<and>
          exclude \<noteq> Some (ao_id r) \<and> live_state (ao_state r)) (ad_ops db))"

definition month_of :: "(int, int) dict \<Rightarrow> int \<Rightarrow> int" where
  "month_of months k = (case dict_get months k of None \<Rightarrow> 0 | Some v \<Rightarrow> v)"

definition budget_decision ::
  "scope \<Rightarrow> delegation \<Rightarrow> web_operation \<Rightarrow> string \<Rightarrow> string option \<Rightarrow> datetime \<Rightarrow> autonomy_db \<Rightarrow> string" where
  "budget_decision sc policy w agent exclude now db =
     (let today = fst now in
      if \<not> payment_action (wo_action w) then delegation_decision policy w agent 0 now
      else if wo_recurring w \<noteq> 0 \<and> wo_recurrence w = None then ''renewal_schedule_missing''
      else if exclude = None \<and> (case wo_recurrence w of None \<Rightarrow> False | Some r \<Rightarrow>
          \<not> (today \<le> next_charge_on r \<and> ordinal (next_charge_on r) \<le> ordinal today + 366))
        then ''renewal_date_out_of_range''
      else (case (monthly_projection (budget_rows sc (wo_currency w) exclude db) today,
                  monthly_projection [proposal_record w now] today) of
          (Inr before, Inr added) \<Rightarrow>
            (let month = month_index today;
                 decision = delegation_decision policy w agent
                   (month_of before month + month_of added month - wo_amount w) now
             in if decision \<noteq> ''allow'' then decision
                else if wo_recurring w \<noteq> 0 \<and> list_ex (\<lambda>(key, amount).
                    \<not> within_limit (AInt (month_of before key)) (AInt amount) (AInt (monthly_minor policy))) added
                  then ''monthly_commitment_limit''
                else ''allow'')
        | _ \<Rightarrow> ''renewal_schedule_missing''))"

fun action_text :: "action \<Rightarrow> string" where
  "action_text Account = ''account''"
| "action_text Login = ''login''"
| "action_text Application = ''application''"
| "action_text Purchase = ''purchase''"
| "action_text Subscription = ''subscription''"

definition recurrence_json :: "recurrence \<Rightarrow> json" where
  "recurrence_json r = JObj
     ((case ends_on r of None \<Rightarrow> [] | Some e \<Rightarrow> [(''ends_on'', JStr (iso_date e))]) @
      [(''interval_months'', JInt (interval_months (rec_interval r))),
       (''next_charge_on'', JStr (iso_date (next_charge_on r)))])"

definition proposal_json :: "web_operation \<Rightarrow> json" where
  "proposal_json w = JObj
     ([(''action'', JStr (action_text (wo_action w))), (''amount_minor'', JInt (wo_amount w)),
       (''annual_commitment_minor'', JInt (wo_annual w)), (''currency'', JStr (wo_currency w)),
       (''idempotency_key'', JStr (wo_key w)), (''origin'', JStr (wo_origin w)), (''purpose'', JStr (wo_purpose w))] @
      (case wo_recurrence w of None \<Rightarrow> [] | Some r \<Rightarrow> [(''recurrence'', recurrence_json r)]) @
      [(''recurring_minor'', JInt (wo_recurring w))])"

definition op_fingerprint :: "('a codec_scheme) \<Rightarrow> string \<Rightarrow> string \<Rightarrow> web_operation \<Rightarrow> string" where
  "op_fingerprint env grant agent w = hash_json env (JArr [JStr grant, JStr agent, proposal_json w])"

definition reserve ::
  "('a codec_scheme) \<Rightarrow> scope \<Rightarrow> string \<Rightarrow> string \<Rightarrow> web_operation \<Rightarrow> string \<Rightarrow> datetime \<Rightarrow>
   autonomy_db \<Rightarrow> ((string \<times> op_state) \<times> autonomy_db) store_result" where
  "reserve env sc grant agent w uuid now db =
     (case find (\<lambda>r. ao_scope r = sc \<and> ao_key r = wo_key w) (ad_ops db) of
        Some r \<Rightarrow>
          require (ao_fingerprint r = op_fingerprint env grant agent w) (PermissionError ''idempotency_conflict'')
            (Inr ((ao_id r, ao_state r), db))
      | None \<Rightarrow>
          bind_store (policy_of sc grant db) (\<lambda>(policy, version).
          bind_store (assert_no_payment_hold sc grant w db) (\<lambda>_.
          (let decision = budget_decision sc policy w agent None now db in
           require (decision = ''allow'') (PermissionError decision)
             (require (uuid \<notin> ao_id ` set (ad_ops db)) StoreDbError
               (Inr ((uuid, Reserved), add_event sc uuid ''reserved'' (db\<lparr>ad_ops := ad_ops db @
                 [\<lparr>ao_id = uuid, ao_scope = sc, ao_grant = grant, ao_grant_version = version, ao_agent = agent,
                  ao_key = wo_key w, ao_fingerprint = op_fingerprint env grant agent w, ao_proposal = w,
                  ao_state = Reserved, ao_evidence = None, ao_plan = None, ao_reason = None, ao_workflow = None,
                  ao_created = now, ao_updated = now\<rparr>]\<rparr>))))))))"

section \<open>The gates in front of a submission\<close>

definition live_policy :: "scope \<Rightarrow> op_row \<Rightarrow> datetime \<Rightarrow> autonomy_db \<Rightarrow> delegation store_result" where
  "live_policy sc row now db =
     bind_store (policy_of sc (ao_grant row) db) (\<lambda>(policy, version).
       require (version = ao_grant_version row) (PermissionError ''grant_changed'')
         (require (dg_enabled policy) (PermissionError ''grant_disabled'')
           (require (now < dg_expires_at policy) (PermissionError ''grant_expired'') (Inr policy))))"

definition read_settings :: "scope \<Rightarrow> autonomy_db \<Rightarrow> runtime_settings" where
  "read_settings sc db = (case dict_get (ad_settings db) sc of None \<Rightarrow> default_settings | Some s \<Rightarrow> s)"

definition check_settings :: "scope \<Rightarrow> web_operation \<Rightarrow> autonomy_db \<Rightarrow> unit store_result" where
  "check_settings sc w db =
     (let s = read_settings sc db in
      require (rs_enabled s) (PermissionError ''autonomous_execution_not_enabled'')
        (require (\<not> (payment_action (wo_action w) \<and> \<not> payment_processing s))
          (PermissionError ''payment_processing_not_enabled'') (Inr ())))"

text \<open>Settings, grant, hold and budget of a reserved operation, decided again.\<close>

definition payment_gate ::
  "scope \<Rightarrow> op_row \<Rightarrow> string \<Rightarrow> datetime \<Rightarrow> autonomy_db \<Rightarrow> delegation store_result" where
  "payment_gate sc row agent now db =
     (let w = ao_proposal row in
      bind_store (check_settings sc w db) (\<lambda>_.
      bind_store (live_policy sc row now db) (\<lambda>policy.
      bind_store (assert_no_payment_hold sc (ao_grant row) w db) (\<lambda>_.
        (let decision = budget_decision sc policy w agent (Some (ao_id row)) now db in
         require (decision = ''allow'') (PermissionError decision) (Inr policy))))))"

definition begin_submit ::
  "scope \<Rightarrow> string \<Rightarrow> string \<Rightarrow> string option \<Rightarrow> datetime \<Rightarrow> autonomy_db \<Rightarrow> autonomy_db store_result" where
  "begin_submit sc ident agent workflow now db =
     bind_store (find_op sc ident db) (\<lambda>row.
       require (ao_workflow row = workflow) (PermissionError ''workflow_required'')
       (require (ao_state row = Reserved) (PermissionError ''reconciliation_required'')
       (require (ao_agent row = agent) (PermissionError ''agent_not_allowed'')
       (bind_store (payment_gate sc row agent now db) (\<lambda>_.
         Inr (add_event sc ident ''submitting''
           (update_op ident (\<lambda>r. r\<lparr>ao_state := Submitting, ao_updated := now\<rparr>) db)))))))"

definition check_authority ::
  "scope \<Rightarrow> string \<Rightarrow> string \<Rightarrow> datetime \<Rightarrow> autonomy_db \<Rightarrow> delegation store_result" where
  "check_authority sc ident agent now db =
     bind_store (find_op sc ident db) (\<lambda>row.
       require (ao_agent row = agent \<and> ao_state row \<in> {Reserved, Submitting})
         (PermissionError ''operation_not_executable'')
         (payment_gate sc row agent now db))"

definition check_reconcile_authority ::
  "scope \<Rightarrow> string \<Rightarrow> string \<Rightarrow> datetime \<Rightarrow> autonomy_db \<Rightarrow> delegation store_result" where
  "check_reconcile_authority sc ident agent now db =
     bind_store (find_op sc ident db) (\<lambda>row.
       require (ao_agent row = agent) (PermissionError ''agent_not_allowed'')
       (require (ao_state row \<notin> {Completed, Failed, Cancelled}) (PermissionError ''operation_not_pending'')
       (bind_store (check_settings sc (ao_proposal row) db) (\<lambda>_. live_policy sc row now db))))"

definition configure :: "scope \<Rightarrow> runtime_settings \<Rightarrow> string \<Rightarrow> autonomy_db \<Rightarrow> autonomy_db" where
  "configure sc s uuid db =
     add_event sc uuid ''settings_changed'' (db\<lparr>ad_settings := dict_set sc s (ad_settings db)\<rparr>)"

section \<open>The plan and the code\<close>

definition observation_key :: "string \<Rightarrow> bool" where
  "observation_key k = (k = ''landed_urls'')"

definition declared_plan :: "json_obj option \<Rightarrow> json_obj option" where
  "declared_plan plan = map_option (filter (\<lambda>(k, _). \<not> observation_key k)) plan"

definition bind_plan ::
  "scope \<Rightarrow> string \<Rightarrow> string \<Rightarrow> json_obj \<Rightarrow> autonomy_db \<Rightarrow> autonomy_db store_result" where
  "bind_plan sc ident agent plan db =
     bind_store (find_op sc ident db) (\<lambda>row.
       require (ao_agent row = agent \<and> ao_state row = Reserved) (PermissionError ''operation_not_executable'')
       (require (declared_plan (ao_plan row) \<in> {None, Some plan}) (PermissionError ''execution_plan_changed'')
         (let observations = filter (\<lambda>(k, _). observation_key k)
               (case ao_plan row of None \<Rightarrow> [] | Some p \<Rightarrow> p)
          in Inr (update_op ident
               (\<lambda>r. r\<lparr>ao_plan := Some (foldl (\<lambda>d (k, v). dict_set k v d) plan observations)\<rparr>) db))))"

definition wait_for_code :: "scope \<Rightarrow> string \<Rightarrow> datetime \<Rightarrow> autonomy_db \<Rightarrow> autonomy_db store_result" where
  "wait_for_code sc ident now db =
     bind_store (find_op sc ident db) (\<lambda>row.
       require (ao_state row = Reserved \<and> ao_plan row \<notin> {None, Some []}) (PermissionError ''operation_not_prepared'')
         (Inr (add_event sc ident ''code_required_before_submit''
           (update_op ident (\<lambda>r. r\<lparr>ao_state := Awaiting_Input,
              ao_reason := Some ''code_before_submit'', ao_updated := now\<rparr>) db))))"

definition resume_with_code ::
  "scope \<Rightarrow> string \<Rightarrow> datetime \<Rightarrow> autonomy_db \<Rightarrow> (op_row \<times> autonomy_db) store_result" where
  "resume_with_code sc ident now db =
     bind_store (find_op sc ident db) (\<lambda>row.
       require (ao_state row = Awaiting_Input \<and> ao_reason row = Some ''code_before_submit'')
         (PermissionError ''operation_not_waiting_for_code'')
       (bind_store (policy_of sc (ao_grant row) db) (\<lambda>_.
         Inr (row, add_event sc ident ''code_resume_requested''
           (update_op ident (\<lambda>r. r\<lparr>ao_state := Reserved, ao_reason := None, ao_updated := now\<rparr>) db)))))"

end
