(* ===== verification/Delegated_Journal.thy ===== *)
theory Delegated_Journal
  imports Delegated_Store
begin

text \<open>
  What moves a delegated operation after it is reserved: payment evidence and the freeze it can
  cause (\<open>robothor/autonomy/payment_journal.py\<close>, \<open>payment_hold.py\<close>), the table of legal moves
  with the evidence a completion needs (\<open>_finish\<close> of \<open>store.py\<close>), and the durable workflows
  with their commands (\<open>workflows/store.py\<close>). An alert of a transaction that is rolled back
  later is not modelled, nor is a gap in the versions of the evidence rows.
\<close>

section \<open>Payment evidence\<close>

definition facts_for :: "scope \<Rightarrow> string \<Rightarrow> autonomy_db \<Rightarrow> payment_fact list" where
  "facts_for sc ident db = map (\<lambda>(_, _, f). f) (filter (\<lambda>(s, i, _). s = sc \<and> i = ident) (ad_facts db))"

fun join_with :: "string \<Rightarrow> string list \<Rightarrow> string" where
  "join_with sep [] = []"
| "join_with sep [x] = x"
| "join_with sep (x # y # rest) = x @ sep @ join_with sep (y # rest)"

definition alert_body :: "string \<Rightarrow> string \<Rightarrow> string list \<Rightarrow> string" where
  "alert_body ident grant reasons = join_with [CHR 0x0A]
     ([''Issuer evidence shows a delegated payment above the authority it was given.'', [],
       ''Operation: '' @ ident, ''Grant: '' @ grant, ''Signals: '' @ join_with '', '' reasons, [],
       ''Autonomous spending on this grant is now FROZEN. No further purchase or '' @
       ''subscription will be authorised against it until you clear the hold in '' @
       ''Account -> Personal automation. Evidence recording and reconciliation of '' @
       ''operations already in flight continue normally.''] @
      (if list_ex (\<lambda>r. take 8 r = ''renewal_'') reasons then
        [[], ''This is a recurring charge above its saved allowance. Revoking the grant '' @
         ''does not cancel a scheduled renewal -- the merchant holds the mandate, so '' @
         ''cancel it with the merchant directly.'']
       else []))"

definition flag_overspend :: "scope \<Rightarrow> op_row \<Rightarrow> payment_summary \<Rightarrow> autonomy_db \<Rightarrow> autonomy_db" where
  "flag_overspend sc row summary db =
     (let reasons = overspend_reasons summary in
      if reasons = [] then db
      else (case place_hold sc (ao_grant row) (ao_id row) reasons db of
          (False, db') \<Rightarrow> db'
        | (True, db') \<Rightarrow>
            db'\<lparr>ad_alerts := ad_alerts db' @ [(sc, alert_body (ao_id row) (ao_grant row) reasons)]\<rparr>))"

text \<open>The text of a Pydantic error is no reason token; a space stands for it.\<close>

definition append_fact ::
  "scope \<Rightarrow> op_row \<Rightarrow> payment_fact \<Rightarrow> autonomy_db \<Rightarrow> (payment_summary \<times> autonomy_db) store_result" where
  "append_fact sc row original db =
     bind_store (lift_result '' '' (validate_fact original)) (\<lambda>f.
       require (payment_action (wo_action (ao_proposal row))) (PermissionError ''payment_operation_required'')
       (require (\<not> (pf_source f = Merchant \<and> (pf_kind f \<noteq> FSubmitted \<or> pf_amount f \<noteq> 0)))
          (PermissionError ''issuer_evidence_required'')
       (let facts = facts_for sc (ao_id row) db in
        case find (\<lambda>g. pf_key g = pf_key f) facts of
          Some previous \<Rightarrow>
            require (previous = f) (StoreValueError ''payment_event_conflict'')
              (bind_store (lift_result '' '' (summarize_payments (ao_proposal row) facts)) (\<lambda>s.
                Inr (s, flag_overspend sc row s db)))
        | None \<Rightarrow>
            (let db1 = add_event sc (ao_id row) ''payment_evidence_recorded''
                   (db\<lparr>ad_facts := ad_facts db @ [(sc, ao_id row, f)]\<rparr>)
             in bind_store (lift_result '' '' (summarize_payments (ao_proposal row) (facts @ [f]))) (\<lambda>s.
                  Inr (s, flag_overspend sc row s db1))))))"

definition reason_token :: "string \<Rightarrow> bool" where
  "reason_token s = (case s of
       [] \<Rightarrow> False
     | c # rest \<Rightarrow> CHR ''a'' \<le> c \<and> c \<le> CHR ''z'' \<and> length rest \<le> 63 \<and>
         list_all (\<lambda>d. CHR ''a'' \<le> d \<and> d \<le> CHR ''z'' \<or> CHR ''0'' \<le> d \<and> d \<le> CHR ''9'' \<or> d = CHR ''_'') rest)"

definition record_refusal :: "scope \<Rightarrow> string \<Rightarrow> string \<Rightarrow> autonomy_db \<Rightarrow> autonomy_db" where
  "record_refusal sc ident why db =
     (let reason = (if reason_token why then why else ''unspecified'') in
      case find_op sc ident db of
        Inl _ \<Rightarrow> db
      | Inr _ \<Rightarrow> add_event sc ident (''payment_evidence_refused:'' @ reason) db)"

definition append_checked ::
  "scope \<Rightarrow> string \<Rightarrow> payment_fact \<Rightarrow> autonomy_db \<Rightarrow> (payment_summary \<times> autonomy_db) store_result" where
  "append_checked sc ident f db =
     bind_store (find_op sc ident db) (\<lambda>row.
       require (list_ex (\<lambda>(s, subject, event). s = sc \<and> subject = ident \<and>
           event \<in> {''submitting'', ''external_action_requested''}) (ad_events db))
         (PermissionError ''payment_submission_not_started'')
       (require (\<not> (pf_source f = Merchant \<and> ao_state row \<noteq> Completed))
         (PermissionError ''submission_confirmation_required'')
       (append_fact sc row f db)))"

text \<open>A refused append is rolled back and leaves the record of its refusal.\<close>

definition payment_append ::
  "scope \<Rightarrow> string \<Rightarrow> payment_fact \<Rightarrow> autonomy_db \<Rightarrow> payment_summary store_result \<times> autonomy_db" where
  "payment_append sc ident f db =
     (case append_checked sc ident f db of
        Inr (s, db') \<Rightarrow> (Inr s, db')
      | Inl e \<Rightarrow> (Inl e, (case e of
            PermissionError why \<Rightarrow> record_refusal sc ident why db
          | StoreValueError why \<Rightarrow> record_refusal sc ident why db
          | _ \<Rightarrow> db)))"

definition payment_read :: "scope \<Rightarrow> string \<Rightarrow> autonomy_db \<Rightarrow> payment_summary store_result" where
  "payment_read sc ident db =
     bind_store (find_op sc ident db) (\<lambda>row.
       lift_result '' '' (summarize_payments (ao_proposal row) (facts_for sc ident db)))"

definition record_submission :: "scope \<Rightarrow> op_row \<Rightarrow> autonomy_db \<Rightarrow> autonomy_db store_result" where
  "record_submission sc row db =
     (if payment_action (wo_action (ao_proposal row)) then
        bind_store (append_fact sc row
            \<lparr>pf_key = ''broker-submission'', pf_kind = FSubmitted, pf_amount = 0,
             pf_currency = wo_currency (ao_proposal row), pf_source = Merchant,
             pf_renewal_id = None, pf_renewal_on = None\<rparr> db)
          (\<lambda>(_, db'). Inr db')
      else Inr db)"

section \<open>Finishing\<close>

fun TRANSITIONS :: "op_state \<Rightarrow> op_state list" where
  "TRANSITIONS Reserved = [Cancelled, Failed, Awaiting_Input]"
| "TRANSITIONS Submitting = [Reconciling, Completed, Awaiting_Input]"
| "TRANSITIONS Reconciling = [Completed, Failed, Awaiting_Input]"
| "TRANSITIONS Awaiting_Input = [Reconciling, Cancelled, Failed]"
| "TRANSITIONS _ = []"

fun state_text :: "op_state \<Rightarrow> string" where
  "state_text Reserved = ''reserved''"
| "state_text Submitting = ''submitting''"
| "state_text Reconciling = ''reconciling''"
| "state_text Awaiting_Input = ''awaiting_input''"
| "state_text Completed = ''completed''"
| "state_text Failed = ''failed''"
| "state_text Cancelled = ''cancelled''"

definition evidence_keys :: "string list" where
  "evidence_keys = [''origin'', ''confirmation_sha256'', ''verified_at'', ''kind'', ''confirmation_rule'']"

definition confirmation_rules :: "json list" where
  "confirmation_rules = map JStr [''account_created'', ''application_received'', ''order_confirmed'',
     ''membership_active'', ''login_confirmed'']"

definition check_evidence :: "op_state \<Rightarrow> json_obj option \<Rightarrow> unit store_result" where
  "check_evidence st evidence =
     (let ev = (case evidence of None \<Rightarrow> [] | Some e \<Rightarrow> e) in
      require (\<not> (st = Completed \<and> ev = [])) (StoreValueError ''completion_requires_evidence'')
      (require (set (map fst ev) \<subseteq> set evidence_keys) (StoreValueError ''unsafe_evidence'')
      (case dict_get ev ''confirmation_rule'' of
         None \<Rightarrow> Inr ()
       | Some rule \<Rightarrow>
           require (hashable rule) StoreTypeError
           (require (rule \<in> set confirmation_rules) (StoreValueError ''unsafe_confirmation_rule'') (Inr ())))))"

definition resolve_handoffs :: "scope \<Rightarrow> string \<Rightarrow> autonomy_db \<Rightarrow> autonomy_db" where
  "resolve_handoffs sc ident db =
     db\<lparr>ad_handoffs := map (\<lambda>h. if ho_scope h = sc \<and> ho_operation h = ident \<and> ho_state h \<noteq> Resolved
        then h\<lparr>ho_state := Resolved\<rparr> else h) (ad_handoffs db)\<rparr>"

definition finish_op ::
  "scope \<Rightarrow> string \<Rightarrow> op_state \<Rightarrow> json_obj option \<Rightarrow> string option \<Rightarrow> datetime \<Rightarrow>
   autonomy_db \<Rightarrow> autonomy_db store_result" where
  "finish_op sc ident st evidence reason now db =
     bind_store (check_evidence st evidence) (\<lambda>_.
     bind_store (find_op sc ident db) (\<lambda>row.
       require (st \<in> set (TRANSITIONS (ao_state row))) (StoreValueError ''invalid_transition'')
       (let db1 = update_op ident (\<lambda>r. r\<lparr>ao_state := st, ao_evidence := evidence, ao_updated := now,
              ao_reason := (if reason \<noteq> None then reason else ao_reason r)\<rparr>) db
        in bind_store (if st = Completed
               then bind_store (record_submission sc row db1) (\<lambda>d. Inr (resolve_handoffs sc ident d))
               else Inr db1)
             (\<lambda>db2. Inr (add_event sc ident (state_text st) db2)))))"

definition store_finish ::
  "scope \<Rightarrow> string \<Rightarrow> op_state \<Rightarrow> json_obj option \<Rightarrow> datetime \<Rightarrow> autonomy_db \<Rightarrow> autonomy_db store_result" where
  "store_finish sc ident st evidence now db = finish_op sc ident st evidence None now db"

definition abandon ::
  "scope \<Rightarrow> string \<Rightarrow> string \<Rightarrow> datetime \<Rightarrow> autonomy_db \<Rightarrow> autonomy_db store_result" where
  "abandon sc ident reason now db =
     bind_store (find_op sc ident db) (\<lambda>row.
       require (ao_state row \<in> {Reconciling, Awaiting_Input}) (StoreValueError ''invalid_transition'')
       (bind_store (finish_op sc ident Failed None None now db) (\<lambda>db'.
         Inr (add_event sc ident reason db'))))"

text \<open>The spending panel: one projection per currency, in the order of the currencies.\<close>

definition payment_rows :: "scope \<Rightarrow> autonomy_db \<Rightarrow> op_row list" where
  "payment_rows sc db = filter (\<lambda>r. ao_scope r = sc \<and> payment_action (wo_action (ao_proposal r)) \<and>
     live_state (ao_state r)) (ad_ops db)"

definition spending_projection ::
  "scope \<Rightarrow> date \<Rightarrow> autonomy_db \<Rightarrow> (string \<times> (int, int) dict) list option" where
  "spending_projection sc today db =
     (let rows = payment_rows sc db;
          currencies = sorted_list_of_set (set (map (\<lambda>r. wo_currency (ao_proposal r)) rows))
      in those (map (\<lambda>c. case monthly_projection (map (\<lambda>r. (ao_proposal r, ao_state r, ao_updated r))
             (filter (\<lambda>r. wo_currency (ao_proposal r) = c) rows)) today of
           Inl _ \<Rightarrow> None | Inr months \<Rightarrow> Some (c, months)) currencies))"

end
