(* ===== verification/Delegated_Workflows.thy ===== *)
theory Delegated_Workflows
  imports Delegated_Journal
begin

text \<open>
  Durable workflows (\<open>robothor/autonomy/workflows/store.py\<close>): ownership, revisions, the results
  of duplicate commands, and what closing a workflow does to its operation.
\<close>

definition without_code :: "json_obj \<Rightarrow> json_obj" where
  "without_code request = filter (\<lambda>(k, _). k \<noteq> ''verification_code'') request"

definition workflow_fingerprint :: "('a codec_scheme) \<Rightarrow> json_obj \<Rightarrow> string" where
  "workflow_fingerprint env request = hash_json env (JObj (without_code request))"

definition get_workflow :: "scope \<Rightarrow> string \<Rightarrow> string \<Rightarrow> autonomy_db \<Rightarrow> workflow_row store_result" where
  "get_workflow sc agent ident db =
     (case find (\<lambda>x. wf_id x = ident \<and> wf_scope x = sc \<and> wf_agent x = agent) (ad_workflows db) of
        None \<Rightarrow> Inl (PermissionError ''workflow_not_found'')
      | Some x \<Rightarrow> Inr x)"

definition update_workflow :: "string \<Rightarrow> (workflow_row \<Rightarrow> workflow_row) \<Rightarrow> autonomy_db \<Rightarrow> autonomy_db" where
  "update_workflow ident f db =
     db\<lparr>ad_workflows := map (\<lambda>x. if wf_id x = ident then f x else x) (ad_workflows db)\<rparr>"

text \<open>
  The authority is checked in a transaction of its own before; both read the same state here, and
  \<open>revoke_grant\<close> between the two would be seen only by the submission.
\<close>

definition open_workflow ::
  "('a codec_scheme) \<Rightarrow> scope \<Rightarrow> string \<Rightarrow> string \<Rightarrow> string \<Rightarrow> json_obj \<Rightarrow> string \<Rightarrow> datetime \<Rightarrow>
   autonomy_db \<Rightarrow> (workflow_row \<times> autonomy_db) store_result" where
  "open_workflow env sc agent ident instance_id request uuid now db =
     bind_store (check_authority sc ident agent now db) (\<lambda>_.
     bind_store (find_op sc ident db) (\<lambda>row.
       require (ao_agent row = agent \<and> ao_state row = Reserved) (PermissionError ''operation_not_executable'')
       (case ao_workflow row of
          Some w \<Rightarrow>
            bind_store (get_workflow sc agent w db) (\<lambda>x.
              require (wf_fingerprint x = workflow_fingerprint env request)
                (PermissionError ''workflow_open_changed'') (Inr (x, db)))
        | None \<Rightarrow>
            require (uuid \<notin> wf_id ` set (ad_workflows db)) StoreDbError
            (let db1 = add_event sc uuid ''workflow_opened''
                   (update_op ident (\<lambda>r. r\<lparr>ao_workflow := Some uuid\<rparr>)
                     (db\<lparr>ad_workflows := ad_workflows db @
                       [\<lparr>wf_id = uuid, wf_scope = sc, wf_agent = agent, wf_operation = ident,
                        wf_instance = instance_id, wf_origin = wo_origin (ao_proposal row),
                        wf_fingerprint = workflow_fingerprint env request, wf_state = WOpen,
                        wf_revision = 0\<rparr>]\<rparr>))
             in bind_store (get_workflow sc agent uuid db1) (\<lambda>x. Inr (x, db1))))))"

datatype command_answer = Run | Replay json_obj

definition in_progress :: json_obj where
  "in_progress = [(''reason'', JStr ''command_in_progress''), (''state'', JStr ''reconciling'')]"

definition commands_of :: "string \<Rightarrow> autonomy_db \<Rightarrow> command_row list" where
  "commands_of w db = filter (\<lambda>c. wc_workflow c = w) (ad_commands db)"

definition begin_command ::
  "('a codec_scheme) \<Rightarrow> scope \<Rightarrow> string \<Rightarrow> string \<Rightarrow> string \<Rightarrow> string \<Rightarrow> json_obj \<Rightarrow>
   autonomy_db \<Rightarrow> (command_answer \<times> autonomy_db) store_result" where
  "begin_command env sc agent w instance_id command request db =
     (let safe = without_code request; digest = workflow_fingerprint env safe in
      bind_store (get_workflow sc agent w db) (\<lambda>row.
        case find (\<lambda>c. wc_command c = command) (commands_of w db) of
          Some prior \<Rightarrow>
            require (wc_fingerprint prior = digest) (PermissionError ''command_changed'')
              (Inr (Replay (case wc_result prior of Some r \<Rightarrow> r | None \<Rightarrow> in_progress), db))
        | None \<Rightarrow>
            require (wf_instance row = instance_id) (PermissionError ''workflow_lost'')
            (require (wf_state row = WOpen) (PermissionError ''workflow_not_open'')
            (require (json_eq_int (obj_get request ''revision'' JNull) (wf_revision row))
              (PermissionError ''workflow_revision_changed'')
            (require (\<not> list_ex (\<lambda>c. wc_result c = None) (commands_of w db))
              (PermissionError ''command_in_progress'')
            (Inr (Run, db\<lparr>ad_commands := ad_commands db @
               [\<lparr>wc_workflow = w, wc_command = command, wc_fingerprint = digest, wc_request = safe,
                wc_result = None\<rparr>]\<rparr>)))))))"

definition finish_command ::
  "scope \<Rightarrow> string \<Rightarrow> string \<Rightarrow> string \<Rightarrow> json_obj \<Rightarrow> bool \<Rightarrow> autonomy_db \<Rightarrow> autonomy_db store_result" where
  "finish_command sc agent w command result advance db =
     bind_store (get_workflow sc agent w db) (\<lambda>_.
       let mine = (\<lambda>c. wc_workflow c = w \<and> wc_command c = command \<and> wc_result c = None) in
       require (length (filter mine (ad_commands db)) = 1) (PermissionError ''command_not_running'')
       (Inr (add_event sc w ''workflow_command_completed''
         (update_workflow w (\<lambda>x. x\<lparr>wf_revision := wf_revision x + (if advance then 1 else 0)\<rparr>)
           (db\<lparr>ad_commands := map (\<lambda>c. if mine c then c\<lparr>wc_result := Some result\<rparr> else c) (ad_commands db)\<rparr>)))))"

text \<open>The last command, by creation, that ended waiting for input.\<close>

definition code_resume ::
  "scope \<Rightarrow> string \<Rightarrow> string \<Rightarrow> autonomy_db \<Rightarrow> (int \<times> bool) store_result" where
  "code_resume sc agent w db =
     bind_store (get_workflow sc agent w db) (\<lambda>row.
       require (wf_state row = WOpen) (PermissionError ''workflow_not_open'')
       (case rev (filter (\<lambda>c. case wc_result c of None \<Rightarrow> False
            | Some r \<Rightarrow> dict_get r ''state'' = Some (JStr ''awaiting_input'')) (commands_of w db)) of
          [] \<Rightarrow> Inl (PermissionError ''workflow_not_waiting_for_code'')
        | c # _ \<Rightarrow>
            require (json_eq_int (obj_get (wc_request c) ''revision'' JNull) (wf_revision row))
              (PermissionError ''workflow_not_waiting_for_code'')
              (case dict_get (wc_request c) ''kind'' of
                 None \<Rightarrow> Inl StoreKeyError
               | Some k \<Rightarrow> Inr (wf_revision row, k = JStr ''advance''))))"

definition checkpoint ::
  "scope \<Rightarrow> string \<Rightarrow> string \<Rightarrow> bool \<Rightarrow> datetime \<Rightarrow> autonomy_db \<Rightarrow> autonomy_db store_result" where
  "checkpoint sc agent w rejected now db =
     bind_store (get_workflow sc agent w db) (\<lambda>row.
     bind_store (find_op sc (wf_operation row) db) (\<lambda>r.
       let p = ao_proposal r in
       require (wf_state row = WOpen \<and> ao_state r = Submitting \<and>
           wo_action p \<in> {Account, Login, Application} \<and>
           \<not> (wo_amount p \<noteq> 0 \<or> wo_recurring p \<noteq> 0 \<or> wo_annual p \<noteq> 0))
         (PermissionError ''intermediate_step_not_allowed'')
       (Inr (add_event sc (wf_operation row)
         (if rejected then ''workflow_form_rejected'' else ''workflow_step_confirmed'')
         (update_op (wf_operation row)
           (\<lambda>r. r\<lparr>ao_state := Reserved, ao_plan := None, ao_updated := now\<rparr>) db)))))"

fun lost_state :: "op_state \<Rightarrow> op_state option" where
  "lost_state Reserved = Some Failed"
| "lost_state Submitting = Some Reconciling"
| "lost_state Awaiting_Input = Some Reconciling"
| "lost_state _ = None"

fun workflow_text :: "workflow_state \<Rightarrow> string" where
  "workflow_text WOpen = ''open''"
| "workflow_text WCompleted = ''completed''"
| "workflow_text WClosed = ''closed''"
| "workflow_text WLost = ''lost''"

definition close_workflow ::
  "scope \<Rightarrow> string \<Rightarrow> string \<Rightarrow> workflow_state \<Rightarrow> datetime \<Rightarrow> autonomy_db \<Rightarrow> autonomy_db store_result" where
  "close_workflow sc agent w st now db =
     require (st \<noteq> WOpen) (StoreValueError ''invalid_workflow_state'')
     (bind_store (get_workflow sc agent w db) (\<lambda>row.
       if wf_state row \<noteq> WOpen then Inr db
       else bind_store
         (if st = WCompleted
          then bind_store (find_op sc (wf_operation row) db) (\<lambda>r.
            require (ao_state r = Completed) (PermissionError ''operation_not_completed'') (Inr ()))
          else Inr ())
         (\<lambda>_.
         let db1 = update_workflow w (\<lambda>x. x\<lparr>wf_state := st\<rparr>) db in
         bind_store
           (if st = WLost then
              bind_store (find_op sc (wf_operation row) db1) (\<lambda>r.
                case lost_state (ao_state r) of
                  None \<Rightarrow> Inr db1
                | Some after \<Rightarrow> finish_op sc (wf_operation row) after None None now db1)
            else Inr db1)
           (\<lambda>db2. Inr (add_event sc w (''workflow_'' @ workflow_text st) db2)))))"

end
