(* ===== verification/Delegated_Handoffs.thy ===== *)
theory Delegated_Handoffs
  imports Delegated_Journal
begin

text \<open>
  Handoffs to the owner's devices (\<open>robothor/autonomy/handoffs.py\<close>), the leased checks of them
  (\<open>handoff_recovery.py\<close>), and the addresses both compare (\<open>origin\<close> of \<open>models.py\<close>,
  \<open>url_origin\<close> and \<open>same_page\<close> of \<open>broker.py\<close>). Splitting a URL and the IDNA form of a host are
  the standard library's, parameters here; \<open>None\<close> is the \<open>ValueError\<close> they raise.
\<close>

section \<open>Addresses\<close>

text \<open>What \<open>urlsplit\<close> gives; reading an ill-formed port raises, so its field is an option twice.\<close>

record url_parts =
  up_scheme :: string
  up_netloc :: string
  up_username :: "string option"
  up_password :: "string option"
  up_hostname :: "string option"
  up_port :: "int option option"
  up_path :: string
  up_query :: string
  up_fragment :: string

record web_lib = codec +
  urlsplit :: "string \<Rightarrow> url_parts option"
  idna :: "string \<Rightarrow> string option"

definition given :: "string option \<Rightarrow> bool" where
  "given x = (case x of None \<Rightarrow> False | Some s \<Rightarrow> s \<noteq> [])"

definition host_origin :: "string \<Rightarrow> int option \<Rightarrow> string" where
  "host_origin ascii port =
     (let low = py_lower ascii; host = (if CHR '':'' \<in> set low then ''['' @ low @ '']'' else low)
      in ''https://'' @ host @
         (case port of None \<Rightarrow> [] | Some p \<Rightarrow> if p \<noteq> 0 \<and> p \<noteq> 443 then '':'' @ show_int p else []))"

definition web_origin :: "('a web_lib_scheme) \<Rightarrow> string \<Rightarrow> string option" where
  "web_origin env value =
     (case urlsplit env value of
        None \<Rightarrow> None
      | Some p \<Rightarrow>
          if up_scheme p \<noteq> ''https'' \<or> \<not> given (up_hostname p) \<or> given (up_username p) \<or>
             given (up_password p) \<or> up_path p \<notin> {[], ''/''} \<or> up_query p \<noteq> [] \<or> up_fragment p \<noteq> []
            then None
          else (case (up_port p, idna env (the (up_hostname p))) of
              (Some port, Some ascii) \<Rightarrow> Some (host_origin ascii port)
            | _ \<Rightarrow> None))"

definition url_origin :: "('a web_lib_scheme) \<Rightarrow> string \<Rightarrow> string option" where
  "url_origin env url =
     (case urlsplit env url of
        None \<Rightarrow> None
      | Some p \<Rightarrow>
          if given (up_username p) \<or> given (up_password p) then None
          else web_origin env (up_scheme p @ ''://'' @ up_netloc p))"

definition same_page :: "('a web_lib_scheme) \<Rightarrow> string \<Rightarrow> string \<Rightarrow> bool" where
  "same_page env left right =
     (case (urlsplit env left, urlsplit env right) of
        (Some p, Some q) \<Rightarrow>
          if given (up_username p) \<or> given (up_password p) \<or> given (up_username q) \<or> given (up_password q)
            then False
          else (case (url_origin env left, url_origin env right) of
              (Some a, Some b) \<Rightarrow> a = b \<and>
                (if up_path p = [] then ''/'' else up_path p) = (if up_path q = [] then ''/'' else up_path q) \<and>
                up_query p = up_query q
            | _ \<Rightarrow> False)
      | _ \<Rightarrow> False)"

section \<open>Landed pages\<close>

definition MAX_LANDED_PAGES :: nat where "MAX_LANDED_PAGES = 10"

text \<open>\<open>landed_urls\<close> is written by \<open>record_landed_pages\<close> alone, always as a list.\<close>

definition landed_of :: "json_obj option \<Rightarrow> string list" where
  "landed_of plan =
     (case plan of
        None \<Rightarrow> []
      | Some p \<Rightarrow> (case dict_get p ''landed_urls'' of
          Some (JArr xs) \<Rightarrow> concat (map (\<lambda>x. case x of JStr s \<Rightarrow> [s] | _ \<Rightarrow> []) xs)
        | _ \<Rightarrow> []))"

fun add_landed :: "('a web_lib_scheme) \<Rightarrow> string \<Rightarrow> string list \<Rightarrow> string list \<Rightarrow> string list" where
  "add_landed env destination [] known = known"
| "add_landed env destination (url # urls) known =
     (if 2000 < length url \<or> url \<in> set known \<or> url_origin env url \<noteq> Some destination
      then add_landed env destination urls known
      else add_landed env destination urls (known @ [url]))"

definition keep_recent :: "string list \<Rightarrow> string list" where
  "keep_recent known =
     (if MAX_LANDED_PAGES < length known
      then hd known # drop (length known - (MAX_LANDED_PAGES - 1)) known else known)"

definition record_landed_pages ::
  "('a web_lib_scheme) \<Rightarrow> scope \<Rightarrow> string \<Rightarrow> string list \<Rightarrow> autonomy_db \<Rightarrow> autonomy_db store_result" where
  "record_landed_pages env sc ident urls db =
     bind_store (find_op sc ident db) (\<lambda>row.
       let known = keep_recent (add_landed env (wo_origin (ao_proposal row)) urls (landed_of (ao_plan row)));
           plan = (case ao_plan row of None \<Rightarrow> [] | Some p \<Rightarrow> p)
       in Inr (update_op ident
            (\<lambda>r. r\<lparr>ao_plan := Some (dict_set ''landed_urls'' (JArr (map JStr known)) plan)\<rparr>) db))"

section \<open>Handoffs\<close>

definition next_day :: "date \<Rightarrow> date" where
  "next_day dt = (case dt of (y, m, d) \<Rightarrow>
     if d < days_in_month y m then (y, m, d + 1)
     else if m < 12 then (y, m + 1, 1) else (y + 1, 1, 1))"

text \<open>At most a day is added: the longest lifetime is 86400 seconds.\<close>

definition add_seconds :: "int \<Rightarrow> datetime \<Rightarrow> datetime" where
  "add_seconds secs t =
     (let micro = snd t + secs * 1000000; day = 86400 * 1000000
      in if micro < day then (fst t, micro) else (next_day (fst t), micro - day))"

definition validate_request ::
  "('a web_lib_scheme) \<Rightarrow> handoff_request \<Rightarrow> handoff_request store_result" where
  "validate_request env h =
     require (hr_kind h \<in> {''sms'', ''push'', ''passkey'', ''biometric'', ''issuer'', ''captcha''} \<and>
         hr_url h \<noteq> [] \<and> length (hr_url h) \<le> 2000 \<and> url_origin env (hr_url h) \<noteq> None \<and>
         (case hr_selector h of None \<Rightarrow> True | Some s \<Rightarrow> s \<noteq> [] \<and> length s \<le> 500) \<and>
         (case hr_text h of None \<Rightarrow> True | Some s \<Rightarrow> 3 \<le> length s \<and> length s \<le> 300) \<and>
         (hr_selector h = None) = (hr_text h = None) \<and>
         60 \<le> hr_lifetime h \<and> hr_lifetime h \<le> 86400)
       (StoreValueError '' '') (Inr h)"

definition opt_json :: "string option \<Rightarrow> json" where
  "opt_json x = (case x of None \<Rightarrow> JNull | Some s \<Rightarrow> JStr s)"

definition request_json :: "handoff_request \<Rightarrow> json" where
  "request_json h = JObj
     [(''confirmation'', JObj [(''selector'', opt_json (hr_selector h)),
        (''session_resource_id'', opt_json (hr_session h)), (''text'', opt_json (hr_text h)),
        (''url'', JStr (hr_url h))]),
      (''kind'', JStr (hr_kind h)), (''lifetime_seconds'', JInt (hr_lifetime h)),
      (''request_id'', JStr (hr_request h))]"

definition handoff_fingerprint :: "('a codec_scheme) \<Rightarrow> string \<Rightarrow> string \<Rightarrow> handoff_request \<Rightarrow> string" where
  "handoff_fingerprint env ident agent h = hash_json env (JArr [JStr ident, JStr agent, request_json h])"

definition pending :: "handoff_row \<Rightarrow> bool" where
  "pending h = (ho_state h \<in> {Awaiting_External_Action, Checking})"

definition map_handoffs ::
  "(handoff_row \<Rightarrow> bool) \<Rightarrow> (handoff_row \<Rightarrow> handoff_row) \<Rightarrow> autonomy_db \<Rightarrow> autonomy_db" where
  "map_handoffs P f db = db\<lparr>ad_handoffs := map (\<lambda>h. if P h then f h else h) (ad_handoffs db)\<rparr>"

definition expire_row :: "handoff_row \<Rightarrow> handoff_row" where
  "expire_row h = h\<lparr>ho_state := Expired, ho_token := None, ho_lease := None\<rparr>"

definition release_expired_handoff ::
  "scope \<Rightarrow> handoff_row \<Rightarrow> datetime \<Rightarrow> autonomy_db \<Rightarrow> (bool \<times> autonomy_db) store_result" where
  "release_expired_handoff sc h now db =
     (let mine = (\<lambda>x. ho_scope x = sc \<and> ho_id x = ho_id h \<and> pending x) in
      if \<not> list_ex mine (ad_handoffs db) then Inr (False, db)
      else
        (let ident = ho_operation h;
             db1 = add_event sc ident ''external_action_expired'' (map_handoffs mine expire_row db)
         in if list_ex (\<lambda>x. ho_scope x = sc \<and> ho_operation x = ident \<and> pending x) (ad_handoffs db1)
            then Inr (True, db1)
            else bind_store (find_op sc ident db1) (\<lambda>row.
              if ao_state row = Reconciling
              then bind_store (finish_op sc ident Awaiting_Input None
                     (Some ''external_verification_expired'') now db1) (\<lambda>db2. Inr (True, db2))
              else Inr (True, db1))))"

datatype public_state = Public handoff_state | Unconfirmed

definition MAX_CHECK_ATTEMPTS :: nat where "MAX_CHECK_ATTEMPTS = 3"

definition public_state :: "handoff_row \<Rightarrow> datetime \<Rightarrow> public_state" where
  "public_state h now =
     (if ho_state h = Resolved then Public Resolved
      else if ho_expires h \<le> now then Public Expired
      else if ho_state h = Awaiting_External_Action \<and> MAX_CHECK_ATTEMPTS \<le> ho_attempts h then Unconfirmed
      else Public (ho_state h))"

definition too_broad :: "string option \<Rightarrow> bool" where
  "too_broad selector =
     (py_lower (py_strip (case selector of None \<Rightarrow> [] | Some s \<Rightarrow> s)) \<in> {''body'', ''html'', ''*'', '':root''})"

definition create_handoff ::
  "('a web_lib_scheme) \<Rightarrow> scope \<Rightarrow> string \<Rightarrow> string \<Rightarrow> handoff_request \<Rightarrow> string \<Rightarrow> datetime \<Rightarrow>
   autonomy_db \<Rightarrow> (handoff_row \<times> autonomy_db) store_result" where
  "create_handoff env sc ident agent spec uuid now db =
     bind_store (validate_request env spec) (\<lambda>h.
     bind_store (find_op sc ident db) (\<lambda>row.
       require (ao_agent row = agent) (PermissionError ''agent_not_allowed'')
       (let w = ao_proposal row in
       bind_store (check_settings sc w db) (\<lambda>_.
       bind_store (live_policy sc row now db) (\<lambda>policy.
       require (\<not> too_broad (hr_selector h)) (PermissionError ''use_automatic_or_specific_confirmation'')
       (require (\<not> (hr_selector h = None \<and> payment_action (wo_action w)))
         (PermissionError ''specific_confirmation_required_for_payment'')
       (require (ao_state row \<in> {Submitting, Reconciling}) (PermissionError ''operation_not_pending'')
       (require (url_origin env (hr_url h) = Some (wo_origin w)) (PermissionError ''destination_mismatch'')
       (require (list_ex (same_page env (hr_url h)) (landed_of (ao_plan row)))
         (PermissionError ''confirmation_page_not_observed'')
       (let decision = budget_decision sc policy w agent (Some ident) now db in
       require (decision = ''allow'') (PermissionError decision)
       (case find (\<lambda>x. ho_scope x = sc \<and> hr_request (ho_spec x) = hr_request h) (ad_handoffs db) of
          Some prior \<Rightarrow>
            require (ho_fingerprint prior = handoff_fingerprint env ident agent h)
              (PermissionError ''handoff_request_changed'') (Inr (prior, db))
        | None \<Rightarrow>
            (let db1 = map_handoffs (\<lambda>x. ho_scope x = sc \<and> ho_operation x = ident \<and> pending x \<and> ho_expires x \<le> now)
                   (\<lambda>x. x\<lparr>ho_state := Expired\<rparr>) db;
                 new = \<lparr>ho_id = uuid, ho_scope = sc, ho_operation = ident, ho_agent = agent,
                   ho_fingerprint = handoff_fingerprint env ident agent h, ho_spec = h,
                   ho_state = Awaiting_External_Action, ho_expires = add_seconds (hr_lifetime h) now,
                   ho_attempts = 0, ho_token = None, ho_lease = None\<rparr>
             in require (\<not> list_ex (\<lambda>x. ho_operation x = ident \<and> pending x) (ad_handoffs db1))
                  (PermissionError ''handoff_already_pending'')
                (require (uuid \<notin> ho_id ` set (ad_handoffs db1)) StoreDbError
                (bind_store (let db2 = db1\<lparr>ad_handoffs := ad_handoffs db1 @ [new]\<rparr> in
                    if ao_state row \<noteq> Reconciling
                    then finish_op sc ident Reconciling None None now db2 else Inr db2)
                  (\<lambda>db3. Inr (new, add_event sc ident ''external_action_requested'' db3))))))))))))))))"

definition release_expired ::
  "scope \<Rightarrow> string \<Rightarrow> datetime \<Rightarrow> autonomy_db \<Rightarrow> autonomy_db store_result" where
  "release_expired sc hid now db =
     (case find (\<lambda>x. ho_scope x = sc \<and> ho_id x = hid \<and> ho_expires x \<le> now \<and> pending x) (ad_handoffs db) of
        None \<Rightarrow> Inr db
      | Some h \<Rightarrow> bind_store (release_expired_handoff sc h now db) (\<lambda>(_, db'). Inr db'))"

definition find_handoff :: "scope \<Rightarrow> string \<Rightarrow> autonomy_db \<Rightarrow> handoff_row option" where
  "find_handoff sc hid db = find (\<lambda>x. ho_scope x = sc \<and> ho_id x = hid) (ad_handoffs db)"

text \<open>The part of \<open>acknowledge\<close> after its call of \<open>release_expired\<close>, which commits on its own.\<close>

definition acknowledge ::
  "scope \<Rightarrow> string \<Rightarrow> datetime \<Rightarrow> autonomy_db \<Rightarrow> (handoff_row \<times> autonomy_db) store_result" where
  "acknowledge sc hid now db =
     (case find_handoff sc hid db of
        None \<Rightarrow> Inl (PermissionError ''handoff_not_found'')
      | Some h \<Rightarrow>
          require (now < ho_expires h) (PermissionError ''handoff_expired'')
          (bind_store (find_op sc (ho_operation h) db) (\<lambda>row.
            require (pending h \<and> ao_state row = Reconciling) (PermissionError ''handoff_not_pending'')
            (bind_store (check_settings sc (ao_proposal row) db) (\<lambda>_.
             bind_store (live_policy sc row now db) (\<lambda>_.
               Inr (h, add_event sc (ho_operation h) ''external_status_check_requested''
                 (map_handoffs (\<lambda>x. ho_id x = hid)
                   (\<lambda>x. x\<lparr>ho_attempts := (if ho_state x = Checking then ho_attempts x else 0),
                      ho_lease := (if ho_state x = Checking then ho_lease x else None),
                      ho_state := Checking\<rparr>) db)))))))) "

section \<open>Leased checks\<close>

definition lease_free :: "handoff_row \<Rightarrow> datetime \<Rightarrow> bool" where
  "lease_free h now = (case ho_lease h of None \<Rightarrow> True | Some l \<Rightarrow> l \<le> now)"

definition still_authorized :: "scope \<Rightarrow> handoff_row \<Rightarrow> datetime \<Rightarrow> autonomy_db \<Rightarrow> bool" where
  "still_authorized sc h now db =
     (case find_op sc (ho_operation h) db of
        Inl _ \<Rightarrow> False
      | Inr row \<Rightarrow> check_settings sc (ao_proposal row) db = Inr () \<and>
          (case live_policy sc row now db of Inl _ \<Rightarrow> False | Inr _ \<Rightarrow> True))"

definition claim_row ::
  "scope \<Rightarrow> string \<Rightarrow> string \<Rightarrow> datetime \<Rightarrow> autonomy_db \<Rightarrow> (handoff_row option \<times> autonomy_db)" where
  "claim_row sc hid token now db =
     (let mine = (\<lambda>x. ho_scope x = sc \<and> ho_id x = hid \<and> ho_state x = Checking \<and> now < ho_expires x \<and>
        ho_attempts x < 3 \<and> lease_free x now \<and>
        list_ex (\<lambda>o'. ao_id o' = ho_operation x \<and> ao_scope o' = ho_scope x \<and> ao_state o' = Reconciling) (ad_ops db))
      in case find mine (ad_handoffs db) of
           None \<Rightarrow> (None, db)
         | Some h \<Rightarrow> (Some h, add_event sc (ho_operation h) ''external_status_check_started''
             (map_handoffs mine (\<lambda>x. x\<lparr>ho_token := Some token, ho_lease := Some (add_seconds 240 now),
                ho_attempts := ho_attempts x + 1\<rparr>) db)))"

definition exhaust :: "string \<Rightarrow> datetime \<Rightarrow> autonomy_db \<Rightarrow> autonomy_db" where
  "exhaust hid now db =
     map_handoffs (\<lambda>x. ho_id x = hid \<and> ho_state x = Checking \<and> lease_free x now)
       (\<lambda>x. x\<lparr>ho_state := Awaiting_External_Action, ho_token := None, ho_lease := None\<rparr>) db"

definition claim ::
  "scope \<Rightarrow> string \<Rightarrow> string \<Rightarrow> datetime \<Rightarrow> autonomy_db \<Rightarrow> (handoff_row option \<times> autonomy_db) store_result" where
  "claim sc hid token now db =
     (case find_handoff sc hid db of
        None \<Rightarrow> Inr (claim_row sc hid token now db)
      | Some h \<Rightarrow>
          if pending h \<and> ho_expires h \<le> now
          then bind_store (release_expired_handoff sc h now db) (\<lambda>(_, db'). Inr (None, db'))
          else
            (let db1 = (if ho_state h = Checking \<and> 3 \<le> ho_attempts h then exhaust hid now db else db)
             in if \<not> still_authorized sc h now db1
                then bind_store (release_expired_handoff sc h now db1) (\<lambda>(_, db'). Inr (None, db'))
                else Inr (claim_row sc hid token now db1)))"

definition read_confirmation ::
  "scope \<Rightarrow> string \<Rightarrow> string \<Rightarrow> datetime \<Rightarrow> autonomy_db \<Rightarrow> handoff_request store_result" where
  "read_confirmation sc hid token now db =
     (case find (\<lambda>x. ho_scope x = sc \<and> ho_id x = hid \<and> ho_token x = Some token \<and> ho_state x = Checking \<and>
         (case ho_lease x of None \<Rightarrow> False | Some l \<Rightarrow> now < l) \<and> now < ho_expires x) (ad_handoffs db) of
        None \<Rightarrow> Inl (PermissionError ''handoff_not_claimed'')
      | Some h \<Rightarrow> Inr (ho_spec h))"

definition finish_check ::
  "scope \<Rightarrow> string \<Rightarrow> string \<Rightarrow> bool \<Rightarrow> datetime \<Rightarrow> autonomy_db \<Rightarrow> autonomy_db" where
  "finish_check sc hid token retry now db =
     (let mine = (\<lambda>x. ho_scope x = sc \<and> ho_id x = hid \<and> ho_state x = Checking \<and> ho_token x = Some token)
      in case find mine (ad_handoffs db) of
           None \<Rightarrow> db
         | Some h \<Rightarrow> add_event sc (ho_operation h)
             (if retry then ''external_status_check_retry'' else ''external_status_check_finished'')
             (map_handoffs mine (\<lambda>x. x\<lparr>ho_state := (if ho_expires x \<le> now then Expired
                   else if retry \<and> ho_attempts x < 3 then Checking else Awaiting_External_Action),
                ho_token := None, ho_lease := (if retry then Some (add_seconds 20 now) else None)\<rparr>) db))"

fun release_rows :: "scope \<Rightarrow> datetime \<Rightarrow> handoff_row list \<Rightarrow> nat \<Rightarrow> autonomy_db \<Rightarrow> (nat \<times> autonomy_db) store_result" where
  "release_rows sc now [] n db = Inr (n, db)"
| "release_rows sc now (h # hs) n db =
     bind_store (release_expired_handoff sc h now db) (\<lambda>(ok, db').
       release_rows sc now hs (if ok then Suc n else n) db')"

definition release_all_expired :: "scope \<Rightarrow> datetime \<Rightarrow> autonomy_db \<Rightarrow> (nat \<times> autonomy_db) store_result" where
  "release_all_expired sc now db =
     release_rows sc now (filter (\<lambda>x. ho_scope x = sc \<and> ho_expires x \<le> now \<and> pending x) (ad_handoffs db)) 0 db"

end
