(* ===== verification/Delegated_Spending.thy ===== *)
theory Delegated_Spending
  imports Delegated_Workflows Delegated_Handoffs
begin

text \<open>
  Delegated spending as a whole: every operation of the store, the journal, the workflows and
  the handoffs as one command, what a command can do to the operations, and the properties
  that hold over all runs: the budget, the freeze, the gate in front of a submission and the
  evidence of a completion.
\<close>

section \<open>Commands\<close>

datatype command =
    CreateGrant scope delegation string
  | RevokeGrant scope string
  | ClearHold scope string
  | Configure scope runtime_settings string
  | Reserve scope string string web_operation string datetime
  | BeginSubmit scope string string "string option" datetime
  | BindPlan scope string string json_obj
  | LandedPages scope string "string list"
  | WaitForCode scope string datetime
  | ResumeWithCode scope string datetime
  | RecordEvent scope string string
  | Append scope string payment_fact
  | Finish scope string op_state "json_obj option" datetime
  | Abandon scope string string datetime
  | OpenWorkflow scope string string string json_obj string datetime
  | BeginCommand scope string string string string json_obj
  | FinishCommand scope string string string json_obj bool
  | Checkpoint scope string string bool datetime
  | CloseWorkflow scope string string workflow_state datetime
  | CreateHandoff scope string string handoff_request string datetime
  | ReleaseExpired scope string datetime
  | Acknowledge scope string datetime
  | Claim scope string string datetime
  | FinishCheck scope string string bool datetime
  | ReleaseAll scope datetime

definition state_of :: "('a \<times> autonomy_db) store_result \<Rightarrow> autonomy_db store_result" where
  "state_of r = bind_store r (\<lambda>(_, db). Inr db)"

fun delegated_step :: "('a web_lib_scheme) \<Rightarrow> autonomy_db \<Rightarrow> command \<Rightarrow> autonomy_db store_result" where
  "delegated_step env db (CreateGrant sc policy uuid) = create_grant sc policy uuid db"
| "delegated_step env db (RevokeGrant sc g) = revoke_grant sc g db"
| "delegated_step env db (ClearHold sc g) = clear_payment_hold sc g db"
| "delegated_step env db (Configure sc s uuid) = Inr (configure sc s uuid db)"
| "delegated_step env db (Reserve sc g agent w uuid now) = state_of (reserve env sc g agent w uuid now db)"
| "delegated_step env db (BeginSubmit sc i agent w now) = begin_submit sc i agent w now db"
| "delegated_step env db (BindPlan sc i agent plan) = bind_plan sc i agent plan db"
| "delegated_step env db (LandedPages sc i urls) = record_landed_pages env sc i urls db"
| "delegated_step env db (WaitForCode sc i now) = wait_for_code sc i now db"
| "delegated_step env db (ResumeWithCode sc i now) = state_of (resume_with_code sc i now db)"
| "delegated_step env db (RecordEvent sc i event) = record_operation_event sc i event db"
| "delegated_step env db (Append sc i f) = Inr (snd (payment_append sc i f db))"
| "delegated_step env db (Finish sc i st ev now) = store_finish sc i st ev now db"
| "delegated_step env db (Abandon sc i reason now) = abandon sc i reason now db"
| "delegated_step env db (OpenWorkflow sc agent i inst req uuid now) =
     state_of (open_workflow env sc agent i inst req uuid now db)"
| "delegated_step env db (BeginCommand sc agent w inst c req) =
     state_of (begin_command env sc agent w inst c req db)"
| "delegated_step env db (FinishCommand sc agent w c result advance) =
     finish_command sc agent w c result advance db"
| "delegated_step env db (Checkpoint sc agent w rejected now) = checkpoint sc agent w rejected now db"
| "delegated_step env db (CloseWorkflow sc agent w st now) = close_workflow sc agent w st now db"
| "delegated_step env db (CreateHandoff sc i agent spec uuid now) =
     state_of (create_handoff env sc i agent spec uuid now db)"
| "delegated_step env db (ReleaseExpired sc h now) = release_expired sc h now db"
| "delegated_step env db (Acknowledge sc h now) = state_of (acknowledge sc h now db)"
| "delegated_step env db (Claim sc h token now) = state_of (claim sc h token now db)"
| "delegated_step env db (FinishCheck sc h token retry now) = Inr (finish_check sc h token retry now db)"
| "delegated_step env db (ReleaseAll sc now) = state_of (release_all_expired sc now db)"

text \<open>The time of a command, where it has one.\<close>

fun command_time :: "command \<Rightarrow> datetime option" where
  "command_time (Reserve _ _ _ _ _ now) = Some now"
| "command_time (BeginSubmit _ _ _ _ now) = Some now"
| "command_time (WaitForCode _ _ now) = Some now"
| "command_time (ResumeWithCode _ _ now) = Some now"
| "command_time (Finish _ _ _ _ now) = Some now"
| "command_time (Abandon _ _ _ now) = Some now"
| "command_time (OpenWorkflow _ _ _ _ _ _ now) = Some now"
| "command_time (Checkpoint _ _ _ _ now) = Some now"
| "command_time (CloseWorkflow _ _ _ _ now) = Some now"
| "command_time (CreateHandoff _ _ _ _ _ now) = Some now"
| "command_time (ReleaseExpired _ _ now) = Some now"
| "command_time (Acknowledge _ _ now) = Some now"
| "command_time (Claim _ _ _ now) = Some now"
| "command_time (FinishCheck _ _ _ _ now) = Some now"
| "command_time (ReleaseAll _ now) = Some now"
| "command_time _ = None"

section \<open>What a command does to the operations\<close>

definition terminal :: "op_state \<Rightarrow> bool" where
  "terminal s = (s \<in> {Completed, Failed, Cancelled})"

definition same_operation :: "op_row \<Rightarrow> op_row \<Rightarrow> bool" where
  "same_operation r r' = (ao_id r' = ao_id r \<and> ao_scope r' = ao_scope r \<and> ao_grant r' = ao_grant r \<and>
     ao_grant_version r' = ao_grant_version r \<and> ao_agent r' = ao_agent r \<and> ao_key r' = ao_key r \<and>
     ao_fingerprint r' = ao_fingerprint r \<and> ao_proposal r' = ao_proposal r \<and>
     ao_created r' = ao_created r)"

definition good_evidence :: "json_obj option \<Rightarrow> bool" where
  "good_evidence e = (\<exists>ev. e = Some ev \<and> ev \<noteq> [] \<and> set (map fst ev) \<subseteq> set evidence_keys \<and>
     (\<forall>rule. dict_get ev ''confirmation_rule'' = Some rule \<longrightarrow> rule \<in> set confirmation_rules))"

definition row_moves :: "datetime option \<Rightarrow> op_row \<Rightarrow> op_row \<Rightarrow> bool" where
  "row_moves t r r' = (same_operation r r' \<and>
     (ao_state r' = ao_state r \<and> ao_evidence r' = ao_evidence r \<and> ao_updated r' = ao_updated r \<or>
      \<not> terminal (ao_state r) \<and> t = Some (ao_updated r') \<and>
      (ao_state r' = Completed \<longrightarrow> good_evidence (ao_evidence r'))))"

definition no_submission :: "op_row \<Rightarrow> op_row \<Rightarrow> bool" where
  "no_submission r r' = (ao_state r' = Submitting \<longrightarrow> ao_state r = Submitting)"

definition advances :: "datetime option \<Rightarrow> autonomy_db \<Rightarrow> autonomy_db \<Rightarrow> bool" where
  "advances t db db' = (ad_grants db' = ad_grants db \<and>
     list_all2 (\<lambda>r r'. row_moves t r r' \<and> no_submission r r') (ad_ops db) (ad_ops db') \<and>
     (\<forall>sc g. grant_on_hold sc g db \<longrightarrow> grant_on_hold sc g db'))"

definition ids_ok :: "autonomy_db \<Rightarrow> bool" where
  "ids_ok db = distinct (map ao_id (ad_ops db))"

lemma row_moves_refl [simp]: "row_moves t r r" "no_submission r r"
  by (simp_all add: row_moves_def same_operation_def no_submission_def)

lemma row_moves_trans: "row_moves t r r' \<Longrightarrow> row_moves t r' r'' \<Longrightarrow> row_moves t r r''"
  unfolding row_moves_def same_operation_def by (elim conjE disjE) simp_all

lemma db_advances_refl [simp]: "advances t db db"
  by (simp add: advances_def list_all2_same)

lemma db_advances_trans:
  assumes "advances t db db'" "advances t db' db''"
  shows "advances t db db''"
  using assms list_all2_trans [of _ _ _ "ad_ops db" "ad_ops db'" "ad_ops db''", rotated,
      of "\<lambda>r r'. row_moves t r r' \<and> no_submission r r'" "\<lambda>r r'. row_moves t r r' \<and> no_submission r r'"
         "\<lambda>r r'. row_moves t r r' \<and> no_submission r r'"]
  by (auto simp: advances_def no_submission_def intro: row_moves_trans)

lemma advances_ids: "advances t db db' \<Longrightarrow> ids_ok db \<Longrightarrow> ids_ok db'"
proof -
  assume a: "advances t db db'" and i: "ids_ok db"
  have "map ao_id (ad_ops db') = map ao_id (ad_ops db)"
    using a by (auto simp: advances_def row_moves_def same_operation_def list_all2_conv_all_nth
        intro!: nth_equalityI)
  then show ?thesis using i by (simp add: ids_ok_def)
qed

text \<open>A write that leaves grants, operations and events alone, and one more event.\<close>

lemma advances_frame:
  "ad_grants db' = ad_grants db \<Longrightarrow> ad_ops db' = ad_ops db \<Longrightarrow> ad_events db' = ad_events db \<Longrightarrow>
   advances t db db'"
  by (simp add: advances_def list_all2_same grant_on_hold_def)

lemma on_hold_add_event [simp]:
  "grant_on_hold sc g (add_event sc' subject event db) \<longleftrightarrow>
   (if sc' = sc \<and> subject = g \<and> event \<in> {HOLD_PLACED, HOLD_CLEARED} then event = HOLD_PLACED
    else grant_on_hold sc g db)"
  by (auto simp: grant_on_hold_def add_event_def)

lemma add_event_fields [simp]:
  "ad_grants (add_event sc i e db) = ad_grants db" "ad_ops (add_event sc i e db) = ad_ops db"
  "ad_settings (add_event sc i e db) = ad_settings db" "ad_facts (add_event sc i e db) = ad_facts db"
  "ad_handoffs (add_event sc i e db) = ad_handoffs db" "ad_alerts (add_event sc i e db) = ad_alerts db"
  by (simp_all add: add_event_def)

lemma advances_event:
  "event \<noteq> HOLD_CLEARED \<Longrightarrow> advances t db db' \<Longrightarrow> advances t db (add_event sc subject event db')"
  by (auto simp: advances_def)

lemma find_op_row:
  assumes "find_op sc ident db = Inr row"
  shows "row \<in> set (ad_ops db)" "ao_id row = ident" "ao_scope row = sc"
  using assms by (auto simp: find_op_def find_Some_iff split: option.splits)

lemma ids_ok_row:
  assumes "ids_ok db" "r \<in> set (ad_ops db)" "r' \<in> set (ad_ops db)" "ao_id r = ao_id r'"
  shows "r = r'"
  using assms by (auto simp: ids_ok_def distinct_map dest: inj_onD)

lemma update_op_advances:
  assumes "ids_ok db" "find_op sc ident db = Inr row" "row_moves t row (f row)" "no_submission row (f row)"
  shows "advances t db (update_op ident f db)"
proof -
  have "r = row" if "r \<in> set (ad_ops db)" "ao_id r = ident" for r
    using ids_ok_row [OF assms(1) that(1) find_op_row(1) [OF assms(2)]] that(2) find_op_row(2) [OF assms(2)] by simp
  then show ?thesis using assms(3,4)
    by (auto simp: advances_def update_op_def grant_on_hold_def list_all2_map2 list_all2_same)
qed

section \<open>Every operation advances\<close>

lemma name_not_cleared [simp]:
  "''reserved'' \<noteq> HOLD_CLEARED" "''submitting'' \<noteq> HOLD_CLEARED" "state_text st \<noteq> HOLD_CLEARED"
  "''payment_evidence_refused:'' @ x \<noteq> HOLD_CLEARED" "''workflow_'' @ x \<noteq> HOLD_CLEARED"
  "''payment_overspend:'' @ x \<noteq> HOLD_CLEARED" "HOLD_PLACED \<noteq> HOLD_CLEARED"
  "''payment_evidence_recorded'' \<noteq> HOLD_CLEARED" "''settings_changed'' \<noteq> HOLD_CLEARED"
  "''code_required_before_submit'' \<noteq> HOLD_CLEARED" "''code_resume_requested'' \<noteq> HOLD_CLEARED"
  "''workflow_opened'' \<noteq> HOLD_CLEARED" "''workflow_command_completed'' \<noteq> HOLD_CLEARED"
  "''workflow_form_rejected'' \<noteq> HOLD_CLEARED" "''workflow_step_confirmed'' \<noteq> HOLD_CLEARED"
  "''external_action_expired'' \<noteq> HOLD_CLEARED" "''external_action_requested'' \<noteq> HOLD_CLEARED"
  "''external_status_check_requested'' \<noteq> HOLD_CLEARED" "''external_status_check_started'' \<noteq> HOLD_CLEARED"
  "''external_status_check_retry'' \<noteq> HOLD_CLEARED" "''external_status_check_finished'' \<noteq> HOLD_CLEARED"
  by (cases st; simp add: HOLD_CLEARED_def HOLD_PLACED_def)+

lemma state_text_not_cleared [simp]: "state_text st \<noteq> ''grant_payment_hold_cleared''"
  by (cases st) simp_all

lemma foldl_events_advances:
  "advances t db db' \<Longrightarrow>
   advances t db (foldl (\<lambda>d reason. add_event sc i (''payment_overspend:'' @ reason) d) db' reasons)"
  by (induction reasons arbitrary: db') (simp_all add: advances_event HOLD_CLEARED_def)

lemma place_hold_advances: "advances t db (snd (place_hold sc g i reasons db))"
  unfolding place_hold_def
  by (cases "grant_on_hold sc g db") (simp_all only: if_True if_False snd_conv db_advances_refl
    foldl_events_advances advances_event name_not_cleared simp_thms)

lemma flag_overspend_advances: "advances t db (flag_overspend sc row s db)"
proof -
  obtain b db' where p: "place_hold sc (ao_grant row) (ao_id row) (overspend_reasons s) db = (b, db')" by fastforce
  have a: "advances t db db'" using place_hold_advances [of t db sc] p by (metis snd_conv)
  have "advances t db (db'\<lparr>ad_alerts := x\<rparr>)" for x
    by (rule db_advances_trans [OF a]) (rule advances_frame; simp)
  then show ?thesis using p a by (cases b) (simp_all add: flag_overspend_def Let_def)
qed

lemma append_fact_advances:
  assumes "append_fact sc row f db = Inr (s, db')"
  shows "advances t db db'"
proof -
  have 1: "advances t db (flag_overspend sc row s (add_event sc i ''payment_evidence_recorded'' (db\<lparr>ad_facts := x\<rparr>)))"
    for i x s
    by (rule db_advances_trans [OF _ flag_overspend_advances]) (rule advances_event, simp, rule advances_frame; simp)
  show ?thesis using assms
    by (auto simp: append_fact_def Let_def flag_overspend_advances 1 split: option.splits)
qed

lemma append_checked_advances: "append_checked sc i f db = Inr (s, db') \<Longrightarrow> advances t db db'"
  by (auto simp: append_checked_def dest: append_fact_advances)

lemma record_refusal_advances: "advances t db (record_refusal sc i why db)"
  by (auto simp: record_refusal_def Let_def HOLD_CLEARED_def intro!: advances_event split: sum.splits)

lemma payment_append_advances: "advances t db (snd (payment_append sc i f db))"
  using record_refusal_advances
  by (auto simp: payment_append_def dest: append_checked_advances split: sum.splits store_error.splits)

lemma record_submission_advances: "record_submission sc row db = Inr db' \<Longrightarrow> advances t db db'"
  by (auto simp: record_submission_def dest: append_fact_advances split: if_splits)

lemma check_evidence_good: "check_evidence Completed e = Inr () \<Longrightarrow> good_evidence e"
  by (cases e) (auto simp: check_evidence_def good_evidence_def Let_def split: option.splits)

lemma transitions_target:
  "st \<in> set (TRANSITIONS s) \<Longrightarrow> \<not> terminal s \<and> st \<noteq> Submitting"
  by (cases s) (auto simp: terminal_def)

lemma resolve_handoffs_fields [simp]:
  "ad_grants (resolve_handoffs sc i db) = ad_grants db" "ad_ops (resolve_handoffs sc i db) = ad_ops db"
  "ad_events (resolve_handoffs sc i db) = ad_events db"
  by (simp_all add: resolve_handoffs_def)

lemma finish_op_advances:
  assumes "ids_ok db" "finish_op sc ident st ev reason now db = Inr db'"
  shows "advances (Some now) db db'"
proof -
  obtain row where f: "find_op sc ident db = Inr row" and e: "check_evidence st ev = Inr ()"
    and t: "st \<in> set (TRANSITIONS (ao_state row))"
    using assms(2) by (auto simp: finish_op_def)
  let ?f = "\<lambda>r. r\<lparr>ao_state := st, ao_evidence := ev, ao_updated := now,
              ao_reason := (if reason \<noteq> None then reason else ao_reason r)\<rparr>"
  have "row_moves (Some now) row (?f row)" "no_submission row (?f row)"
    using transitions_target [OF t] e check_evidence_good
    by (auto simp: row_moves_def same_operation_def no_submission_def)
  then have u: "advances (Some now) db (update_op ident ?f db)"
    by (rule update_op_advances [OF assms(1) f])
  have r: "advances (Some now) db (resolve_handoffs sc ident d)"
    if "record_submission sc row (update_op ident ?f db) = Inr d" for d
    by (rule db_advances_trans [OF u], rule db_advances_trans [OF record_submission_advances [OF that]],
        rule advances_frame) simp_all
  show ?thesis using assms(2) f e t u r
    by (auto simp: finish_op_def Let_def HOLD_CLEARED_def intro!: advances_event split: if_splits)
qed

text \<open>Writes to one operation that keep its state, or move it to a state that submits nothing.\<close>

lemma update_state_advances:
  assumes "ids_ok db" "find_op sc ident db = Inr row" "same_operation row (f row)"
    "\<not> terminal (ao_state row)" "ao_updated (f row) = now" "ao_state (f row) \<notin> {Submitting, Completed}"
  shows "advances (Some now) db (update_op ident f db)"
  using assms(3-6) by (intro update_op_advances [OF assms(1,2)]) (auto simp: row_moves_def no_submission_def)

lemma update_field_advances:
  assumes "ids_ok db" "find_op sc ident db = Inr row" "same_operation row (f row)"
    "ao_state (f row) = ao_state row" "ao_evidence (f row) = ao_evidence row" "ao_updated (f row) = ao_updated row"
  shows "advances t db (update_op ident f db)"
  using assms(3-6) by (intro update_op_advances [OF assms(1,2)]) (auto simp: row_moves_def no_submission_def)

lemmas advance_intros = advances_event update_state_advances update_field_advances advances_frame

lemma bind_plan_advances:
  "ids_ok db \<Longrightarrow> bind_plan sc i agent plan db = Inr db' \<Longrightarrow> advances t db db'"
  by (auto simp: bind_plan_def Let_def same_operation_def intro!: update_field_advances)

lemma landed_pages_advances:
  "ids_ok db \<Longrightarrow> record_landed_pages env sc i urls db = Inr db' \<Longrightarrow> advances t db db'"
  by (auto simp: record_landed_pages_def Let_def same_operation_def intro!: update_field_advances)

lemma wait_for_code_advances:
  "ids_ok db \<Longrightarrow> wait_for_code sc i now db = Inr db' \<Longrightarrow> advances (Some now) db db'"
  by (auto simp: wait_for_code_def same_operation_def terminal_def HOLD_CLEARED_def
      intro!: advances_event update_state_advances)

lemma resume_with_code_advances:
  "ids_ok db \<Longrightarrow> resume_with_code sc i now db = Inr (row, db') \<Longrightarrow> advances (Some now) db db'"
  by (auto simp: resume_with_code_def same_operation_def terminal_def HOLD_CLEARED_def
      intro!: advances_event update_state_advances)

lemma checkpoint_advances:
  "ids_ok db \<Longrightarrow> checkpoint sc agent w rejected now db = Inr db' \<Longrightarrow> advances (Some now) db db'"
  by (auto simp: checkpoint_def Let_def same_operation_def terminal_def HOLD_CLEARED_def
      intro!: advances_event update_state_advances split: if_splits)

lemma abandon_advances:
  "ids_ok db \<Longrightarrow> reason \<noteq> HOLD_CLEARED \<Longrightarrow> abandon sc i reason now db = Inr db' \<Longrightarrow>
   advances (Some now) db db'"
  by (auto simp: abandon_def intro!: advances_event dest: finish_op_advances)

lemma open_workflow_advances:
  assumes "ids_ok db" "open_workflow env sc agent i inst req uuid now db = Inr (x, db')"
  shows "advances t db db'"
proof -
  let ?d = "\<lambda>w. db\<lparr>ad_workflows := w\<rparr>"
  have "advances t db (add_event sc uuid ''workflow_opened''
      (update_op i (\<lambda>r. r\<lparr>ao_workflow := Some uuid\<rparr>) (?d w)))"
    if f: "find_op sc i db = Inr row" for w row
  proof (rule advances_event [OF name_not_cleared(12)], rule db_advances_trans)
    show "advances t db (?d w)" by (rule advances_frame) simp_all
    have "ids_ok (?d w)" "find_op sc i (?d w) = Inr row" using assms(1) f by (simp_all add: ids_ok_def find_op_def)
    then show "advances t (?d w) (update_op i (\<lambda>r. r\<lparr>ao_workflow := Some uuid\<rparr>) (?d w))"
      by (rule update_field_advances) (simp_all add: same_operation_def)
  qed
  then show ?thesis using assms(2) by (auto simp: open_workflow_def Let_def split: option.splits)
qed

lemma begin_command_advances:
  "begin_command env sc agent w inst c req db = Inr (x, db') \<Longrightarrow> advances t db db'"
  by (auto simp: begin_command_def Let_def intro!: advances_frame split: option.splits)

lemma finish_command_advances:
  "finish_command sc agent w c result advance db = Inr db' \<Longrightarrow> advances t db db'"
  by (auto simp: finish_command_def update_workflow_def Let_def HOLD_CLEARED_def
      intro!: advances_event advances_frame)

lemma update_workflow_advances: "advances t db (update_workflow w f db)"
  by (rule advances_frame) (simp_all add: update_workflow_def)

lemma close_workflow_advances:
  assumes "ids_ok db" "close_workflow sc agent w st now db = Inr db'"
  shows "advances (Some now) db db'"
proof -
  let ?u = "update_workflow w (\<lambda>x. x\<lparr>wf_state := st\<rparr>) db"
  have u: "advances (Some now) db ?u" by (rule update_workflow_advances)
  have "advances (Some now) db d" if "finish_op sc i after None None now ?u = Inr d" for i after d
    by (rule db_advances_trans [OF u finish_op_advances [OF advances_ids [OF u assms(1)] that]])
  then show ?thesis using assms(2) u
    by (auto simp: close_workflow_def Let_def HOLD_CLEARED_def intro!: advances_event
        split: if_splits option.splits)
qed

lemma map_handoffs_advances: "advances t db (map_handoffs P f db)"
  by (rule advances_frame) (simp_all add: map_handoffs_def)

lemma release_handoff_advances:
  assumes "ids_ok db" "release_expired_handoff sc h now db = Inr (b, db')"
  shows "advances (Some now) db db'"
proof -
  let ?m = "\<lambda>x. ho_scope x = sc \<and> ho_id x = ho_id h \<and> pending x"
  let ?e = "add_event sc (ho_operation h) ''external_action_expired'' (map_handoffs ?m expire_row db)"
  have e: "advances (Some now) db ?e" by (intro advances_event map_handoffs_advances) simp
  have "advances (Some now) db d" if "finish_op sc i st None r now ?e = Inr d" for i st r d
    by (rule db_advances_trans [OF e finish_op_advances [OF advances_ids [OF e assms(1)] that]])
  then show ?thesis using assms(2) e
    by (auto simp: release_expired_handoff_def Let_def split: if_splits)
qed

lemma release_expired_advances:
  "ids_ok db \<Longrightarrow> release_expired sc h now db = Inr db' \<Longrightarrow> advances (Some now) db db'"
  by (auto simp: release_expired_def dest: release_handoff_advances split: option.splits)

lemma release_rows_advances:
  "ids_ok db \<Longrightarrow> release_rows sc now hs n db = Inr (m, db') \<Longrightarrow> advances (Some now) db db'"
proof (induction hs arbitrary: n db)
  case (Cons h hs)
  then obtain b d where d: "release_expired_handoff sc h now db = Inr (b, d)"
    "release_rows sc now hs (if b then Suc n else n) d = Inr (m, db')" by auto
  have a: "advances (Some now) db d" by (rule release_handoff_advances [OF Cons.prems(1) d(1)])
  then show ?case using Cons.IH [OF advances_ids [OF a Cons.prems(1)] d(2)] by (rule db_advances_trans)
qed simp

lemma acknowledge_advances: "acknowledge sc h now db = Inr (x, db') \<Longrightarrow> advances t db db'"
  by (auto simp: acknowledge_def HOLD_CLEARED_def intro!: advances_event map_handoffs_advances split: option.splits)

lemma claim_row_advances: "advances t db (snd (claim_row sc h token now db))"
  by (auto simp: claim_row_def Let_def HOLD_CLEARED_def intro!: advances_event map_handoffs_advances
      split: option.splits)

lemma claim_advances:
  assumes "ids_ok db" "claim sc h token now db = Inr (x, db')"
  shows "advances (Some now) db db'"
proof -
  have e: "advances (Some now) db (exhaust h now db)" by (simp add: exhaust_def map_handoffs_advances)
  have c: "advances (Some now) d db'" if "claim_row sc h token now d = (x, db')" for d
    using claim_row_advances [of "Some now" d sc h token now] that by simp
  have r: "advances (Some now) d db'" if "release_expired_handoff sc y now d = Inr (b, db')" "ids_ok d" for d y b
    by (rule release_handoff_advances [OF that(2,1)])
  show ?thesis using assms(2) c r [OF _ assms(1)] r [OF _ advances_ids [OF e assms(1)]] db_advances_trans [OF e]
    by (auto simp: claim_def Let_def split: option.splits if_splits)
qed

lemma finish_check_advances: "advances t db (finish_check sc h token retry now db)"
  by (auto simp: finish_check_def Let_def HOLD_CLEARED_def intro!: advances_event map_handoffs_advances
      split: option.splits)

lemma create_handoff_advances:
  assumes "ids_ok db" "create_handoff env sc i agent spec uuid now db = Inr (x, db')"
  shows "advances (Some now) db db'"
proof -
  have d: "advances (Some now) db ((map_handoffs P f db)\<lparr>ad_handoffs := hs\<rparr>)" for P f hs
    by (rule db_advances_trans [OF map_handoffs_advances]) (rule advances_frame; simp)
  have e: "advances (Some now) db db3"
    if "finish_op sc i Reconciling None None now ((map_handoffs P f db)\<lparr>ad_handoffs := hs\<rparr>) = Inr db3" for P f hs db3
    by (rule db_advances_trans [OF d finish_op_advances [OF advances_ids [OF d assms(1)] that]])
  show ?thesis using assms(2) d e
    by (auto simp: create_handoff_def Let_def HOLD_CLEARED_def intro!: advances_event
        split: option.splits if_splits)
qed

section \<open>The budget decision\<close>

lemma within_limit_int [simp]:
  "within_limit (AInt a) (AInt b) (AInt c) \<longleftrightarrow> 0 \<le> a \<and> 0 \<le> b \<and> 0 \<le> c \<and> a + b \<le> c"
  by (auto simp: within_limit_def amount_le_def num_le_def scale_to_def)

lemma delegation_allow:
  assumes "delegation_decision p w agent used now = ''allow''"
  shows "dg_enabled p" "now < dg_expires_at p" "agent \<in> dg_agent_ids p"
    "dg_any_website p \<or> wo_origin w \<in> dg_origins p" "wo_action w \<in> dg_actions p" "wo_currency w = dg_currency p"
    "wo_amount w \<le> per_purchase_minor p"
    "payment_action (wo_action w) \<Longrightarrow> used + wo_amount w \<le> monthly_minor p"
proof -
  have f: "find (\<lambda>c. \<not> fst c) (delegation_checks p w agent now) = None"
    using assms by (auto simp: delegation_decision_def delegation_checks_def split: option.splits if_splits)
  then have c: "\<forall>x \<in> set (delegation_checks p w agent now). fst x" by (auto simp: find_None_iff)
  then show "dg_enabled p" "now < dg_expires_at p" "agent \<in> dg_agent_ids p"
    "dg_any_website p \<or> wo_origin w \<in> dg_origins p" "wo_action w \<in> dg_actions p" "wo_currency w = dg_currency p"
    by (simp_all add: delegation_checks_def)
  have "fst (decide_limits (AInt (wo_amount w)) (AInt (per_purchase_minor p)) (AInt (monthly_minor p))
      (AInt (if payment_action (wo_action w) then used else 0)) ANone ANone True ANone) = ALLOW"
    using assms f by (auto simp: delegation_decision_def split: prod.splits if_splits)
  then show "wo_amount w \<le> per_purchase_minor p"
    "payment_action (wo_action w) \<Longrightarrow> used + wo_amount w \<le> monthly_minor p"
    by (auto simp: decide_limits_def split: if_splits)
qed

text \<open>What an allowed payment commits, in every month, stays within the grant's monthly limit.\<close>

definition fits_budget :: "int \<Rightarrow> date \<Rightarrow> projection_row list \<Rightarrow> projection_row \<Rightarrow> bool" where
  "fits_budget limit today rows new =
     (\<forall>k. month_index today \<le> k \<and> k < month_index today + 25 \<longrightarrow>
        (total_committed today k rows + committed today k new \<le> limit \<or>
         k \<noteq> month_index today \<and> committed today k new = 0))"

lemma budget_allow:
  assumes "budget_decision sc p w agent exclude now db = ''allow''" "payment_action (wo_action w)"
  shows "fits_budget (monthly_minor p) (fst now) (budget_rows sc (wo_currency w) exclude db) (proposal_record w now)"
    "wo_currency w = dg_currency p" "wo_amount w \<le> per_purchase_minor p" "agent \<in> dg_agent_ids p"
    "dg_any_website p \<or> wo_origin w \<in> dg_origins p" "wo_action w \<in> dg_actions p"
proof -
  let ?rows = "budget_rows sc (wo_currency w) exclude db"
  let ?M = "month_index (fst now)"
  obtain before added where b: "monthly_projection ?rows (fst now) = Inr before"
    "monthly_projection [proposal_record w now] (fst now) = Inr added"
    using assms by (auto simp: budget_decision_def Let_def split: sum.splits if_splits)
  let ?u = "month_of before ?M + month_of added ?M - wo_amount w"
  have d: "delegation_decision p w agent ?u now = ''allow''"
    and l: "wo_recurring w = 0 \<or> (\<forall>(key, amount) \<in> set added.
      within_limit (AInt (month_of before key)) (AInt amount) (AInt (monthly_minor p)))"
    using assms b by (auto simp: budget_decision_def Let_def list_ex_iff split: sum.splits if_splits)
  show "wo_currency w = dg_currency p" "wo_amount w \<le> per_purchase_minor p" "agent \<in> dg_agent_ids p"
    "dg_any_website p \<or> wo_origin w \<in> dg_origins p" "wo_action w \<in> dg_actions p"
    using delegation_allow [OF d] by simp_all
  show "fits_budget (monthly_minor p) (fst now) ?rows (proposal_record w now)"
    unfolding fits_budget_def
  proof (intro allI impI)
    fix k
    assume k: "?M \<le> k \<and> k < ?M + 25"
    have g: "dict_get before j = Some (total_committed (fst now) j ?rows)"
      "dict_get added j = Some (committed (fst now) j (proposal_record w now))" if "?M \<le> j" "j < ?M + 25" for j
      using monthly_projection_get [OF b(1) that] monthly_projection_get [OF b(2) that]
      by (simp_all add: total_committed_def)
    show "total_committed (fst now) k ?rows + committed (fst now) k (proposal_record w now) \<le> monthly_minor p \<or>
        k \<noteq> ?M \<and> committed (fst now) k (proposal_record w now) = 0"
    proof (cases "k = ?M")
      case True
      then show ?thesis using delegation_allow(8) [OF d assms(2)] g [of k] k by (simp add: month_of_def)
    next
      case False
      show ?thesis
      proof (cases "wo_recurring w = 0")
        case True
        then show ?thesis using False by (simp add: committed_def proposal_record_def)
      next
        case rec: False
        have "(k, committed (fst now) k (proposal_record w now)) \<in> set added"
          using g(2) [of k] k by (simp add: map_of_SomeD)
        then have "within_limit (AInt (month_of before k)) (AInt (committed (fst now) k (proposal_record w now)))
            (AInt (monthly_minor p))" using l rec by blast
        then show ?thesis using g(1) [of k] k by (simp add: month_of_def)
      qed
    qed
  qed
qed

section \<open>One command\<close>

text \<open>The commands that do more than advance, and those that name an event of their own.\<close>

fun ordinary :: "command \<Rightarrow> bool" where
  "ordinary (CreateGrant _ _ _) = False"
| "ordinary (RevokeGrant _ _) = False"
| "ordinary (ClearHold _ _) = False"
| "ordinary (Reserve _ _ _ _ _ _) = False"
| "ordinary (BeginSubmit _ _ _ _ _) = False"
| "ordinary _ = True"

text \<open>Event names are literals of the code; none of them is the name of a cleared hold.\<close>

fun well_named :: "command \<Rightarrow> bool" where
  "well_named (RecordEvent _ _ event) = (event \<noteq> HOLD_CLEARED)"
| "well_named (Abandon _ _ reason _) = (reason \<noteq> HOLD_CLEARED)"
| "well_named _ = True"

lemma state_of_Inr [simp]: "state_of r = Inr db \<longleftrightarrow> (\<exists>a. r = Inr (a, db))"
  by (auto simp: state_of_def)

lemma step_advances:
  assumes "delegated_step env db c = Inr db'" "ids_ok db" "ordinary c" "well_named c"
  shows "advances (command_time c) db db'"
proof (cases c)
  case (Configure sc st uuid)
  then show ?thesis using assms(1)
    by (auto simp: configure_def HOLD_CLEARED_def intro!: advances_event advances_frame)
next
  case (RecordEvent sc i e)
  then show ?thesis using assms by (auto simp: record_operation_event_def intro!: advances_event)
next
  case (Append sc i f)
  then show ?thesis using assms by (auto simp: payment_append_advances)
next
  case (Finish sc i st ev now)
  then show ?thesis using assms by (auto simp: store_finish_def dest: finish_op_advances)
next
  case (FinishCheck sc h token retry now)
  then show ?thesis using assms by (auto simp: finish_check_advances)
next
  case (ReleaseAll sc now)
  then show ?thesis using assms by (auto simp: release_all_expired_def dest: release_rows_advances)
qed (use assms in \<open>auto dest: bind_plan_advances landed_pages_advances wait_for_code_advances
  resume_with_code_advances abandon_advances open_workflow_advances begin_command_advances
  finish_command_advances checkpoint_advances close_workflow_advances release_expired_advances
  acknowledge_advances claim_advances create_handoff_advances\<close>)

end
