(* ===== verification/Delegated_Budget.thy ===== *)
theory Delegated_Budget
  imports Delegated_Spending
begin

text \<open>
  The budget of delegated spending over all runs of commands, and what a submission passes.
\<close>

section \<open>The budget over all runs\<close>

text \<open>
  What an operation costs the owner in a month: its amount in the month it was reserved in, and a
  renewal in every month its schedule charges in, as long as the operation is open or completed.
\<close>

definition renewal_in :: "web_operation \<Rightarrow> int \<Rightarrow> int" where
  "renewal_in w k =
     (case wo_recurrence w of None \<Rightarrow> 0 | Some r \<Rightarrow> if charges_in r k then wo_recurring w else 0)"

definition op_month :: "scope \<Rightarrow> string \<Rightarrow> int \<Rightarrow> op_row \<Rightarrow> int" where
  "op_month sc cur k r =
     (if ao_scope r = sc \<and> wo_currency (ao_proposal r) = cur \<and> live_state (ao_state r)
      then (if month_index (fst (ao_created r)) = k then wo_amount (ao_proposal r) else 0) + renewal_in (ao_proposal r) k
      else 0)"

definition month_total :: "scope \<Rightarrow> string \<Rightarrow> int \<Rightarrow> autonomy_db \<Rightarrow> int" where
  "month_total sc cur k db = sum_list (map (op_month sc cur k) (ad_ops db))"

text \<open>What the code's projection counts of an operation, seen on a day.\<close>

definition op_committed :: "scope \<Rightarrow> string \<Rightarrow> date \<Rightarrow> int \<Rightarrow> op_row \<Rightarrow> int" where
  "op_committed sc cur today k r =
     (if ao_scope r = sc \<and> wo_currency (ao_proposal r) = cur \<and> live_state (ao_state r)
      then committed today k (ao_proposal r, ao_state r, ao_updated r) else 0)"

text \<open>All that an owner has committed of a currency in a month.\<close>

definition owner_total :: "scope \<Rightarrow> string \<Rightarrow> date \<Rightarrow> int \<Rightarrow> autonomy_db \<Rightarrow> int" where
  "owner_total sc cur today k db = total_committed today k (budget_rows sc cur None db)"

lemma owner_total_ops: "owner_total sc cur today k db = sum_list (map (op_committed sc cur today k) (ad_ops db))"
  by (simp add: owner_total_def total_committed_def budget_rows_def o_def sum_list_filter_if
      op_committed_def [abs_def])

lemma renewal_nonneg: "web_operation_ok w \<Longrightarrow> 0 \<le> renewal_in w k"
  by (auto simp: renewal_in_def web_operation_ok_def valid_minor_def split: option.split)

lemma op_month_nonneg: "web_operation_ok (ao_proposal r) \<Longrightarrow> 0 \<le> op_month sc cur k r"
  using renewal_nonneg [of "ao_proposal r" k] by (auto simp: op_month_def web_operation_ok_def valid_minor_def)

lemma row_moves_month:
  assumes "row_moves t r r'" "web_operation_ok (ao_proposal r)"
  shows "op_month sc cur k r' \<le> op_month sc cur k r"
proof (cases "ao_state r' = ao_state r")
  case True
  then show ?thesis using assms(1) by (auto simp: row_moves_def same_operation_def op_month_def)
next
  case False
  then have "live_state (ao_state r)" "same_operation r r'"
    using assms(1) by (auto simp: row_moves_def terminal_def live_state_def)
  then show ?thesis using op_month_nonneg [OF assms(2), of sc cur k] by (auto simp: same_operation_def op_month_def)
qed

text \<open>
  A row of a clock that has reached month \<open>m\<close>: it was reserved before it was last updated, and
  its first renewal is at most thirteen months after the reservation.
\<close>

definition row_dated :: "int \<Rightarrow> op_row \<Rightarrow> bool" where
  "row_dated m r =
     (web_operation_ok (ao_proposal r) \<and> month_index (fst (ao_created r)) \<le> month_index (fst (ao_updated r)) \<and>
      month_index (fst (ao_updated r)) \<le> m \<and>
      (\<forall>rc. wo_recurrence (ao_proposal r) = Some rc \<longrightarrow>
         month_index (next_charge_on rc) \<le> month_index (fst (ao_created r)) + 13))"

definition budget_inv :: "scope \<Rightarrow> string \<Rightarrow> int \<Rightarrow> int \<Rightarrow> autonomy_db \<Rightarrow> bool" where
  "budget_inv sc cur B m db =
     (ids_ok db \<and> (\<forall>r \<in> set (ad_ops db). row_dated m r) \<and>
      (\<forall>g \<in> set (ad_grants db). ag_scope g = sc \<and> dg_currency (ag_policy g) = cur \<longrightarrow> monthly_minor (ag_policy g) \<le> B) \<and>
      (\<forall>k. month_total sc cur k db \<le> B))"

lemma budget_inv_later: "budget_inv sc cur B m db \<Longrightarrow> m \<le> m' \<Longrightarrow> budget_inv sc cur B m' db"
  by (auto simp: budget_inv_def row_dated_def)

text \<open>The month the clock shows after a command.\<close>

definition clock_after :: "int \<Rightarrow> datetime option \<Rightarrow> int" where
  "clock_after m t = (case t of None \<Rightarrow> m | Some now \<Rightarrow> month_index (fst now))"

lemma row_moves_dated:
  assumes "row_moves t r r'" "row_dated m r" "m \<le> clock_after m t"
  shows "row_dated (clock_after m t) r'"
  using assms by (auto simp: row_moves_def same_operation_def row_dated_def clock_after_def)

lemma advances_moves: "advances t db db' \<Longrightarrow> list_all2 (row_moves t) (ad_ops db) (ad_ops db')"
  by (auto simp: advances_def elim: list_all2_mono)

lemma begin_submit_moves:
  assumes "ids_ok db" "begin_submit sc i agent w now db = Inr db'"
  shows "ad_grants db' = ad_grants db" "list_all2 (row_moves (Some now)) (ad_ops db) (ad_ops db')"
proof -
  obtain row where f: "find_op sc i db = Inr row" "ao_state row = Reserved"
    and d: "db' = add_event sc i ''submitting''
      (update_op i (\<lambda>r. r\<lparr>ao_state := Submitting, ao_updated := now\<rparr>) db)"
    using assms(2) by (auto simp: begin_submit_def)
  show "ad_grants db' = ad_grants db" by (simp add: d update_op_def)
  have "r = row" if "r \<in> set (ad_ops db)" "ao_id r = i" for r
    using ids_ok_row [OF assms(1) that(1) find_op_row(1) [OF f(1)]] that(2) find_op_row(2) [OF f(1)] by simp
  then show "list_all2 (row_moves (Some now)) (ad_ops db) (ad_ops db')"
    using f(2) by (auto simp: d update_op_def list_all2_map2 list_all2_same row_moves_def same_operation_def
        terminal_def)
qed

lemma moves_ids: "list_all2 (row_moves t) (ad_ops db) (ad_ops db') \<Longrightarrow> ids_ok db \<Longrightarrow> ids_ok db'"
proof -
  assume a: "list_all2 (row_moves t) (ad_ops db) (ad_ops db')" and i: "ids_ok db"
  have "map ao_id (ad_ops db') = map ao_id (ad_ops db)"
    using a by (auto simp: row_moves_def same_operation_def list_all2_conv_all_nth intro!: nth_equalityI)
  then show ?thesis using i by (simp add: ids_ok_def)
qed

lemma moves_budget:
  assumes inv: "budget_inv sc cur B m db" and m: "list_all2 (row_moves t) (ad_ops db) (ad_ops db')"
    and g: "ad_grants db' = ad_grants db" and t: "m \<le> clock_after m t"
  shows "budget_inv sc cur B (clock_after m t) db'"
proof -
  have "sum_list (map (op_month sc cur k) ys) \<le> sum_list (map (op_month sc cur k) xs) \<and>
      (\<forall>r \<in> set ys. row_dated (clock_after m t) r)"
    if "list_all2 (row_moves t) xs ys" "\<forall>r \<in> set xs. row_dated m r" for xs ys k
    using that
  proof (induction rule: list_all2_induct)
    case (Cons x xs y ys)
    then have d: "row_dated m x" by simp
    then have "op_month sc cur k y \<le> op_month sc cur k x" "row_dated (clock_after m t) y"
      using row_moves_month [OF Cons.hyps(1), of sc cur k] row_moves_dated [OF Cons.hyps(1) d t]
      by (simp_all add: row_dated_def)
    then show ?case using Cons by simp
  qed simp
  from this [OF m] have less: "month_total sc cur k db' \<le> month_total sc cur k db"
    and dated: "\<forall>r \<in> set (ad_ops db'). row_dated (clock_after m t) r" for k
    using inv by (simp_all add: month_total_def budget_inv_def)
  have "month_total sc cur k db' \<le> B" for k
    using order_trans [OF less] inv by (simp add: budget_inv_def)
  then show ?thesis using inv g moves_ids [OF m] dated by (simp add: budget_inv_def)
qed

lemma budget_inv_same_ops:
  assumes "budget_inv sc cur B m db" "ad_ops db' = ad_ops db"
    "\<forall>g \<in> set (ad_grants db'). ag_scope g = sc \<and> dg_currency (ag_policy g) = cur \<longrightarrow> monthly_minor (ag_policy g) \<le> B"
  shows "budget_inv sc cur B m db'"
  using assms by (simp add: budget_inv_def ids_ok_def month_total_def)

lemma reserve_Inr:
  assumes "reserve env sc g agent w uuid now db = Inr (x, db')"
  shows "db' = db \<or>
    (\<exists>p v. policy_of sc g db = Inr (p, v) \<and> \<not> (payment_action (wo_action w) \<and> grant_on_hold sc g db) \<and>
      budget_decision sc p w agent None now db = ''allow'' \<and> uuid \<notin> ao_id ` set (ad_ops db) \<and>
      db' = add_event sc uuid ''reserved'' (db\<lparr>ad_ops := ad_ops db @
        [\<lparr>ao_id = uuid, ao_scope = sc, ao_grant = g, ao_grant_version = v, ao_agent = agent,
          ao_key = wo_key w, ao_fingerprint = op_fingerprint env g agent w, ao_proposal = w,
          ao_state = Reserved, ao_evidence = None, ao_plan = None, ao_reason = None, ao_workflow = None,
          ao_created = now, ao_updated = now\<rparr>]\<rparr>))"
  using assms by (auto simp: reserve_def Let_def assert_no_payment_hold_def split: option.splits)

lemma policy_of_grant:
  assumes "policy_of sc g db = Inr (p, v)"
  obtains row where "find_grant sc g db = Some row" "row \<in> set (ad_grants db)" "ag_scope row = sc"
    "ag_policy row = p" "ag_version row = v" "\<not> ag_revoked row"
proof -
  obtain row where f: "find_grant sc g db = Some row" "ag_policy row = p" "ag_version row = v" "\<not> ag_revoked row"
    using assms by (auto simp: policy_of_def split: option.splits)
  moreover from f(1) have "row \<in> set (ad_grants db)" "ag_scope row = sc"
    unfolding find_grant_def find_Some_iff by auto
  ultimately show thesis using that by blast
qed

lemma budget_dates:
  assumes "budget_decision sc p w agent None now db = ''allow''" "payment_action (wo_action w)" "wo_recurrence w = Some r"
  shows "fst now \<le> next_charge_on r" "ordinal (next_charge_on r) \<le> ordinal (fst now) + 366"
  using assms by (auto simp: budget_decision_def Let_def split: if_splits)

lemma no_recurrence: "web_operation_ok w \<Longrightarrow> \<not> payment_action (wo_action w) \<Longrightarrow> wo_recurrence w = None \<and> wo_amount w = 0"
  by (auto simp: web_operation_ok_def commitment_consistent_def split: if_splits)

lemma month_order: "real_date d \<Longrightarrow> real_date e \<Longrightarrow> d \<le> e \<Longrightarrow> month_index d \<le> month_index e"
  by (cases d; cases e) (auto simp: real_date_def month_index_def less_eq_prod_def)

definition real_dates :: "web_operation \<Rightarrow> datetime \<Rightarrow> bool" where
  "real_dates w now =
     (real_date (fst now) \<and> (case wo_recurrence w of None \<Rightarrow> True | Some r \<Rightarrow> real_date (next_charge_on r)))"

text \<open>The projection of a month still to come counts at least what was reserved in it.\<close>

lemma committed_parts:
  "live_state st \<Longrightarrow> committed today k (w, st, t) =
     (if k = month_index today \<and> (st \<noteq> Completed \<or> month_index (fst t) = month_index today) then wo_amount w else 0) +
     renewal_in w k"
  by (cases "wo_recurrence w") (simp_all add: committed_def renewal_in_def)

lemma seen_month:
  assumes "row_dated (month_index today) r" "month_index today \<le> k"
  shows "op_month sc cur k r \<le> op_committed sc cur today k r"
  using assms
  by (auto simp: row_dated_def op_month_def op_committed_def committed_parts web_operation_ok_def valid_minor_def)

lemma seen_total:
  assumes "\<forall>r \<in> set (ad_ops db). row_dated (month_index today) r" "month_index today \<le> k"
  shows "month_total sc cur k db \<le> total_committed today k (budget_rows sc cur None db)"
  unfolding month_total_def owner_total_def [symmetric] owner_total_ops
  by (rule sum_list_mono) (use assms seen_month in blast)

text \<open>Beyond two years every charge repeats one of the year before.\<close>

lemma charges_year_before:
  assumes "charges_in r k" "month_index (next_charge_on r) \<le> k - 12"
  shows "charges_in r (k - 12)"
proof -
  let ?n = "interval_months (rec_interval r)" and ?a = "month_index (next_charge_on r)"
  have "(k - 12 - ?a) mod ?n = (k - ?a - 12) mod ?n" by (simp add: algebra_simps)
  also have "12 mod ?n = 0" by (cases "rec_interval r") simp_all
  then have "(k - ?a - 12) mod ?n = (k - ?a) mod ?n" by (metis diff_zero mod_diff_right_eq)
  finally have "(k - 12 - ?a) mod ?n = 0" using assms(1) by (simp add: charges_in_def)
  then show ?thesis using assms past_end_mono [of r "k - 12" k] by (auto simp: charges_in_def)
qed

lemma month_year_before:
  assumes "row_dated m r" "m + 25 \<le> k"
  shows "op_month sc cur k r \<le> op_month sc cur (k - 12) r"
proof -
  have "renewal_in (ao_proposal r) k \<le> renewal_in (ao_proposal r) (k - 12)"
  proof (cases "wo_recurrence (ao_proposal r)")
    case (Some rc)
    have "month_index (next_charge_on rc) \<le> k - 12" using assms Some by (auto simp: row_dated_def)
    then show ?thesis using Some charges_year_before [of rc k] assms(1)
      by (auto simp: renewal_in_def row_dated_def web_operation_ok_def valid_minor_def)
  qed (simp add: renewal_in_def)
  moreover have "month_index (fst (ao_created r)) \<noteq> k" using assms by (auto simp: row_dated_def)
  ultimately show ?thesis using assms(1)
    by (auto simp: op_month_def row_dated_def web_operation_ok_def valid_minor_def)
qed

lemma total_from_window:
  assumes d: "\<forall>r \<in> set (ad_ops db). row_dated m r" and w: "\<And>k. k < m + 25 \<Longrightarrow> month_total sc cur k db \<le> B"
  shows "month_total sc cur k db \<le> B"
proof (induction "nat (k - m)" arbitrary: k rule: less_induct)
  case less
  show ?case
  proof (cases "k < m + 25")
    case False
    then have "month_total sc cur (k - 12) db \<le> B" by (intro less) simp
    moreover have "month_total sc cur k db \<le> month_total sc cur (k - 12) db"
      unfolding month_total_def by (rule sum_list_mono) (use d month_year_before [of m _ k sc cur] False in auto)
    ultimately show ?thesis by linarith
  qed (rule w)
qed

lemma reserve_budget:
  assumes inv0: "budget_inv sc cur B m db" and r: "reserve env sc' g agent w uuid now db = Inr (x, db')"
    and w: "web_operation_ok w" "real_dates w now" and m: "m \<le> month_index (fst now)"
  shows "budget_inv sc cur B (month_index (fst now)) db'"
proof -
  let ?M = "month_index (fst now)"
  have inv: "budget_inv sc cur B ?M db" by (rule budget_inv_later [OF inv0 m])
  consider "db' = db" | p v row where "policy_of sc' g db = Inr (p, v)"
      "budget_decision sc' p w agent None now db = ''allow''" "uuid \<notin> ao_id ` set (ad_ops db)"
      "ad_grants db' = ad_grants db" "ad_ops db' = ad_ops db @ [row]" "ao_id row = uuid" "ao_scope row = sc'"
      "ao_proposal row = w" "ao_state row = Reserved" "ao_updated row = now" "ao_created row = now"
    using reserve_Inr [OF r] by fastforce
  then show ?thesis
  proof cases
    case 2
    have anchor: "?M \<le> month_index (next_charge_on rc) \<and> month_index (next_charge_on rc) \<le> ?M + 13"
      if "wo_recurrence w = Some rc" for rc
    proof -
      have "payment_action (wo_action w)" using no_recurrence [OF w(1)] that by auto
      note d = budget_dates [OF 2(2) this that]
      show ?thesis using year_ahead month_order w(2) that d by (simp add: real_dates_def)
    qed
    have dated: "\<forall>r \<in> set (ad_ops db'). row_dated ?M r"
      using inv w(1) anchor 2 by (auto simp: budget_inv_def row_dated_def)
    have total: "month_total sc cur k db' = month_total sc cur k db + op_month sc cur k row" for k
      by (simp add: month_total_def 2)
    have window: "month_total sc cur k db' \<le> B" if k: "k < ?M + 25" for k
    proof (cases "sc' = sc \<and> wo_currency w = cur \<and> payment_action (wo_action w) \<and> ?M \<le> k")
      case True
      obtain grant where gr: "grant \<in> set (ad_grants db)" "ag_scope grant = sc" "ag_policy grant = p"
        using policy_of_grant [OF 2(1)] True by metis
      note b = budget_allow [OF 2(2)]
      have lim: "monthly_minor p \<le> B" using inv gr b(2) True by (auto simp: budget_inv_def)
      have "op_month sc cur k row = committed (fst now) k (proposal_record w now)"
        using True 2 by (auto simp: op_month_def committed_def proposal_record_def live_state_def renewal_in_def split: option.split)
      then have "total_committed (fst now) k (budget_rows sc cur None db) + op_month sc cur k row \<le> monthly_minor p \<or>
          op_month sc cur k row = 0"
        using b(1) True k by (auto simp: fits_budget_def)
      moreover have "month_total sc cur k db \<le> total_committed (fst now) k (budget_rows sc cur None db)"
        by (rule seen_total) (use inv True in \<open>auto simp: budget_inv_def\<close>)
      moreover have "month_total sc cur k db \<le> B" using inv by (simp add: budget_inv_def)
      ultimately show ?thesis using lim unfolding total by linarith
    next
      case False
      have "op_month sc cur k row = 0"
        using False no_recurrence [OF w(1)] anchor 2
        by (auto simp: op_month_def renewal_in_def charges_in_def split: option.split)
      then show ?thesis unfolding total using inv by (simp add: budget_inv_def)
    qed
    show ?thesis using inv 2 dated total_from_window [OF dated window] by (auto simp: budget_inv_def ids_ok_def)
  qed (use inv in simp)
qed

text \<open>
  What the commands are: proposals are validated, dates exist, events carry the names the code
  gives them, and no grant of the owner in the currency allows more than \<open>B\<close>.
\<close>

fun budget_command :: "scope \<Rightarrow> string \<Rightarrow> int \<Rightarrow> command \<Rightarrow> bool" where
  "budget_command sc cur B (Reserve _ _ _ w _ now) = (web_operation_ok w \<and> real_dates w now)"
| "budget_command sc cur B (CreateGrant sc' policy _) =
     (sc' = sc \<and> dg_currency policy = cur \<longrightarrow> monthly_minor policy \<le> B)"
| "budget_command sc cur B c = well_named c"

lemma budget_step:
  assumes inv: "budget_inv sc cur B m db" and c: "budget_command sc cur B c"
    and t: "m \<le> clock_after m (command_time c)" and s: "delegated_step env db c = Inr db'"
  shows "budget_inv sc cur B (clock_after m (command_time c)) db'"
proof (cases "ordinary c")
  case True
  then have "well_named c" "ids_ok db" using c inv by (cases c; simp add: budget_inv_def)+
  then have a: "advances (command_time c) db db'" using step_advances [OF s] True by blast
  show ?thesis by (rule moves_budget [OF inv advances_moves [OF a] _ t]) (use a in \<open>simp add: advances_def\<close>)
next
  case False
  then show ?thesis
  proof (cases c)
    case (Reserve sc' g agent w uuid now)
    then obtain x where r: "reserve env sc' g agent w uuid now db = Inr (x, db')" using s by auto
    show ?thesis using reserve_budget [OF inv r] c t Reserve by (simp add: clock_after_def)
  next
    case (BeginSubmit sc' i agent w now)
    have "ids_ok db" using inv by (simp add: budget_inv_def)
    then show ?thesis using begin_submit_moves [of db sc' i agent w now db'] moves_budget [OF inv] s t BeginSubmit by simp
  next
    case (CreateGrant sc' policy uuid)
    then have "ad_ops db' = ad_ops db" "\<forall>g \<in> set (ad_grants db'). ag_scope g = sc \<and> dg_currency (ag_policy g) = cur \<longrightarrow>
        monthly_minor (ag_policy g) \<le> B"
      using inv c s by (auto simp: create_grant_def budget_inv_def)
    from budget_inv_same_ops [OF inv this] show ?thesis using CreateGrant by (simp add: clock_after_def)
  next
    case (RevokeGrant sc' g)
    then have "ad_ops db' = ad_ops db" "\<forall>g \<in> set (ad_grants db'). ag_scope g = sc \<and> dg_currency (ag_policy g) = cur \<longrightarrow>
        monthly_minor (ag_policy g) \<le> B"
      using inv s by (auto simp: revoke_grant_def budget_inv_def)
    from budget_inv_same_ops [OF inv this] show ?thesis using RevokeGrant by (simp add: clock_after_def)
  next
    case (ClearHold sc' g)
    then have "ad_ops db' = ad_ops db" "\<forall>g \<in> set (ad_grants db'). ag_scope g = sc \<and> dg_currency (ag_policy g) = cur \<longrightarrow>
        monthly_minor (ag_policy g) \<le> B"
      using inv s by (auto simp: clear_payment_hold_def budget_inv_def split: option.splits if_splits)
    from budget_inv_same_ops [OF inv this] show ?thesis using ClearHold by (simp add: clock_after_def)
  qed simp_all
qed

text \<open>The months of the commands that read the clock, in their order.\<close>

definition command_months :: "command list \<Rightarrow> int list" where
  "command_months cs = map (\<lambda>t. month_index (fst t)) (List.map_filter command_time cs)"

lemma budget_history:
  assumes "budget_inv sc cur B m db" "\<forall>c \<in> set cs. budget_command sc cur B c" "sorted (m # command_months cs)"
  shows "\<exists>m'. budget_inv sc cur B m' (exec_all (delegated_step env) db cs)"
  using assms
proof (induction cs arbitrary: m db)
  case (Cons c cs)
  let ?m = "clock_after m (command_time c)"
  have t: "m \<le> ?m" "sorted (?m # command_months cs)"
    using Cons.prems(3) by (auto simp: command_months_def map_filter_simps clock_after_def split: option.splits)
  show ?case
  proof (cases "delegated_step env db c")
    case (Inl e)
    show ?thesis using Cons.IH [OF budget_inv_later [OF Cons.prems(1) t(1)] _ t(2)] Cons.prems(2) Inl by simp
  next
    case (Inr db')
    have "budget_inv sc cur B ?m db'" by (rule budget_step [OF Cons.prems(1) _ t(1) Inr]) (use Cons.prems(2) in simp)
    then show ?thesis using Cons.IH [OF _ _ t(2)] Cons.prems(2) Inr by simp
  qed
qed auto

definition empty_autonomy :: autonomy_db where
  "empty_autonomy = \<lparr>ad_grants = [], ad_ops = [], ad_settings = [], ad_events = [], ad_facts = [],
     ad_handoffs = [], ad_workflows = [], ad_commands = [], ad_alerts = []\<rparr>"

text \<open>
  C26: parallel grants cannot spend a month twice. Let every grant of an owner in a currency allow at
  most \<open>B\<close> per month. Whatever commands run, in any order, over any number of grants and any number
  of months, what the owner reserved of the currency in a month, as far as it is still open or
  was completed, and the renewals of its operations due in that month together stay within \<open>B\<close>, in
  every month, past, present or to come. The clock does not run backwards over a month.
\<close>

theorem budget_never_exceeded:
  assumes "\<forall>c \<in> set cs. budget_command sc cur B c" "sorted (command_months cs)" "0 \<le> B"
  shows "month_total sc cur k (exec_all (delegated_step env) empty_autonomy cs) \<le> B"
proof -
  obtain m where m: "sorted (m # command_months cs)"
    using assms(2) by (cases "command_months cs") (auto intro: that [of 0] that)
  have "budget_inv sc cur B m empty_autonomy"
    using assms(3) by (simp add: budget_inv_def empty_autonomy_def ids_ok_def month_total_def)
  from budget_history [OF this assms(1) m, of env] show ?thesis by (auto simp: budget_inv_def)
qed

definition sample_web :: web_lib where
  "sample_web = \<lparr>json_loads = (\<lambda>_. None), json_dumps = (\<lambda>_. []), sha256_hex = (\<lambda>s. s), uuid5_url = (\<lambda>s. s),
     urlsplit = (\<lambda>_. None), idna = Some\<rparr>"

definition sample_owner :: scope where "sample_owner = (''t'', ''o'')"

definition sample_delegation :: delegation where
  "sample_delegation = \<lparr>dg_enabled = True, dg_agent_ids = {''a''}, dg_origins = {}, dg_any_website = True,
     dg_actions = {Purchase, Subscription}, dg_expires_at = ((2027, 1, 1), 0), dg_currency = ''USD'',
     per_purchase_minor = 800, monthly_minor = 1000, recurring_minor = 300, annual_minor = 3600,
     allowed_purposes = {}\<rparr>"

definition sample_purchase :: web_operation where
  "sample_purchase = \<lparr>wo_origin = ''https://a'', wo_action = Purchase, wo_purpose = ''book'',
     wo_key = ''key-0001'', wo_amount = 700, wo_currency = ''USD'', wo_recurring = 0, wo_annual = 0,
     wo_recurrence = None\<rparr>"

text \<open>
  Two grants of one owner, a thousand a month each. In March 700 and 300 are reserved and a second
  700 is refused; in April the open thousand still counts and a further reservation is refused.
\<close>

definition sample_spending :: "command list" where
  "sample_spending =
     [CreateGrant sample_owner sample_delegation ''g1'', CreateGrant sample_owner sample_delegation ''g2'',
      Reserve sample_owner ''g1'' ''a'' sample_purchase ''op1'' ((2026, 3, 1), 0),
      Reserve sample_owner ''g2'' ''a'' (sample_purchase\<lparr>wo_key := ''key-0002''\<rparr>) ''op2'' ((2026, 3, 2), 0),
      Reserve sample_owner ''g2'' ''a'' (sample_purchase\<lparr>wo_key := ''key-0003'', wo_amount := 300\<rparr>) ''op3''
        ((2026, 3, 2), 0),
      Reserve sample_owner ''g1'' ''a'' (sample_purchase\<lparr>wo_key := ''key-0004'', wo_amount := 300\<rparr>) ''op4''
        ((2026, 4, 2), 0)]"

theorem budget_never_exceeded_witness:
  "month_total sample_owner ''USD'' (2026 * 12 + 2) (exec_all (delegated_step sample_web) empty_autonomy sample_spending) = 1000 \<and>
   month_total sample_owner ''USD'' (2026 * 12 + 3) (exec_all (delegated_step sample_web) empty_autonomy sample_spending) \<le> 1000"
proof
  have c: "\<forall>c \<in> set sample_spending. budget_command sample_owner ''USD'' 1000 c"
    by (simp add: sample_spending_def sample_delegation_def sample_purchase_def web_operation_ok_def valid_minor_def
        commitment_consistent_def payment_action_def real_dates_def real_date_def days_in_month_def)
  have s: "sorted (command_months sample_spending)" by code_simp
  show "month_total sample_owner ''USD'' (2026 * 12 + 3) (exec_all (delegated_step sample_web) empty_autonomy sample_spending) \<le> 1000"
    by (rule budget_never_exceeded [OF c s]) simp
qed code_simp

text \<open>
  The bound is on what is reserved in a month, not on what the projection shows later: an
  operation still open at the end of a month counts again in the next. Under a limit of 800, 700 and a
  renewal of 300 from April 15 are both accepted on March 30, and on April 1 the projection of
  April stands at 1000; the check in front of the submission then refuses.
\<close>

definition carried_over :: "command list" where
  "carried_over =
     [CreateGrant sample_owner (sample_delegation\<lparr>monthly_minor := 800\<rparr>) ''g1'',
      Reserve sample_owner ''g1'' ''a'' sample_purchase ''op1'' ((2026, 3, 30), 0),
      Reserve sample_owner ''g1'' ''a'' (sample_purchase\<lparr>wo_key := ''key-0002'', wo_action := Subscription,
          wo_amount := 0, wo_recurring := 300, wo_annual := 3600,
          wo_recurrence := Some \<lparr>rec_interval = Every1, next_charge_on = (2026, 4, 15), ends_on = None\<rparr>\<rparr>)
        ''op2'' ((2026, 3, 30), 0)]"

lemma carried_over_counts_again:
  "let db = exec_all (delegated_step sample_web) empty_autonomy carried_over
   in map ao_id (ad_ops db) = [''op1'', ''op2''] \<and>
      map (\<lambda>k. month_total sample_owner ''USD'' k db) [2026 * 12 + 2, 2026 * 12 + 3] = [700, 300] \<and>
      map_sum id (\<lambda>months. dict_get months (2026 * 12 + 3))
        (monthly_projection (budget_rows sample_owner ''USD'' None db) (2026, 4, 1)) = Inr (Some 1000)"
  by code_simp

section \<open>The gate in front of a submission\<close>

lemma check_settings_Inr:
  "check_settings sc w db = Inr u \<longleftrightarrow>
   rs_enabled (read_settings sc db) \<and> (payment_action (wo_action w) \<longrightarrow> payment_processing (read_settings sc db))"
  by (auto simp: check_settings_def Let_def)

lemma live_policy_grant:
  assumes "live_policy sc row now db = Inr p"
  obtains g where "find_grant sc (ao_grant row) db = Some g" "ag_policy g = p"
    "ag_version g = ao_grant_version row" "\<not> ag_revoked g" "dg_enabled p" "now < dg_expires_at p"
proof -
  obtain v where v: "policy_of sc (ao_grant row) db = Inr (p, v)" and "v = ao_grant_version row"
    "dg_enabled p" "now < dg_expires_at p" using assms by (auto simp: live_policy_def)
  then show thesis by (auto intro: policy_of_grant [OF v] that)
qed

text \<open>The total with one operation set apart.\<close>

lemma exclude_total:
  assumes i: "ids_ok db" and r: "row \<in> set (ad_ops db)" "ao_scope row = sc" "wo_currency (ao_proposal row) = cur"
    "live_state (ao_state row)" "live_state st"
  shows "total_committed today k (budget_rows sc cur None
      (update_op (ao_id row) (\<lambda>r. r\<lparr>ao_state := st, ao_updated := now\<rparr>) db)) =
    total_committed today k (budget_rows sc cur (Some (ao_id row)) db) + committed today k (ao_proposal row, st, now)"
proof -
  let ?f = "\<lambda>r. if ao_id r = ao_id row then r\<lparr>ao_state := st, ao_updated := now\<rparr> else r"
  let ?h = "\<lambda>r. if ao_scope r = sc \<and> wo_currency (ao_proposal r) = cur \<and> ao_id r \<noteq> ao_id row \<and> live_state (ao_state r)
    then committed today k (ao_proposal r, ao_state r, ao_updated r) else 0"
  obtain us vs where o: "ad_ops db = us @ row # vs" using r(1) by (meson split_list)
  have other: "ao_id x \<noteq> ao_id row" if "x \<in> set us \<union> set vs" for x
    using i that by (auto simp: ids_ok_def o image_iff)
  have same: "map (\<lambda>r. op_committed sc cur today k (?f r)) xs = map ?h xs" if "set xs \<subseteq> set us \<union> set vs" for xs
    using other that by (intro map_cong) (auto simp: op_committed_def)
  have su: "map (\<lambda>r. op_committed sc cur today k (?f r)) us = map ?h us"
    and sv: "map (\<lambda>r. op_committed sc cur today k (?f r)) vs = map ?h vs" by (rule same; blast)+
  have new: "op_committed sc cur today k (?f row) = committed today k (ao_proposal row, st, now)"
    using r by (simp add: op_committed_def)
  have 1: "total_committed today k (budget_rows sc cur None
      (update_op (ao_id row) (\<lambda>r. r\<lparr>ao_state := st, ao_updated := now\<rparr>) db)) =
    sum_list (map (\<lambda>r. op_committed sc cur today k (?f r)) (ad_ops db))"
    using owner_total_ops [of sc cur today k "update_op (ao_id row) (\<lambda>r. r\<lparr>ao_state := st, ao_updated := now\<rparr>) db"]
    by (simp add: owner_total_def update_op_def o_def)
  have 2: "total_committed today k (budget_rows sc cur (Some (ao_id row)) db) = sum_list (map ?h (ad_ops db))"
    by (simp add: total_committed_def budget_rows_def o_def sum_list_filter_if conj_commute conj_left_commute
        eq_commute [of "ao_id row"])
  have 3: "?h row = 0" by simp
  show ?thesis
    unfolding 1 2 o map_append list.map sum_list_append sum_list.Cons su sv new 3 by simp
qed

text \<open>
  C27: what a payment has passed when it enters \<open>submitting\<close>. The operation was reserved and is
  this agent's; the owner's switches for execution and for payments are on; its grant exists at
  the version of the reservation, is neither revoked nor disabled nor expired nor on hold, names
  the agent, the site and the action, and allows the amount; and with it everything the owner has
  committed this month is within the grant's monthly limit.
\<close>

theorem submit_gate_sound:
  assumes ids: "ids_ok db" and s: "begin_submit sc i agent w now db = Inr db'"
    and f: "find_op sc i db = Inr row" and pay: "payment_action (wo_action (ao_proposal row))"
  shows "ao_state row = Reserved \<and> ao_agent row = agent \<and> ao_workflow row = w \<and>
    rs_enabled (read_settings sc db) \<and> payment_processing (read_settings sc db) \<and>
    \<not> grant_on_hold sc (ao_grant row) db \<and>
    (\<exists>g. find_grant sc (ao_grant row) db = Some g \<and> ag_version g = ao_grant_version row \<and> \<not> ag_revoked g \<and>
      dg_enabled (ag_policy g) \<and> now < dg_expires_at (ag_policy g) \<and> agent \<in> dg_agent_ids (ag_policy g) \<and>
      (dg_any_website (ag_policy g) \<or> wo_origin (ao_proposal row) \<in> dg_origins (ag_policy g)) \<and>
      wo_action (ao_proposal row) \<in> dg_actions (ag_policy g) \<and>
      wo_currency (ao_proposal row) = dg_currency (ag_policy g) \<and>
      wo_amount (ao_proposal row) \<le> per_purchase_minor (ag_policy g) \<and>
      total_committed (fst now) (month_index (fst now))
        (budget_rows sc (wo_currency (ao_proposal row)) None db') \<le> monthly_minor (ag_policy g))"
proof -
  have a: "ao_state row = Reserved" "ao_agent row = agent" "ao_workflow row = w"
    and d: "db' = add_event sc i ''submitting''
      (update_op i (\<lambda>r. r\<lparr>ao_state := Submitting, ao_updated := now\<rparr>) db)"
    using s f by (auto simp: begin_submit_def)
  obtain p where st: "check_settings sc (ao_proposal row) db = Inr ()" and l: "live_policy sc row now db = Inr p"
    and h: "\<not> grant_on_hold sc (ao_grant row) db"
    and b: "budget_decision sc p (ao_proposal row) agent (Some i) now db = ''allow''"
    using s f pay find_op_row(2) [OF f] by (auto simp: begin_submit_def payment_gate_def Let_def assert_no_payment_hold_def)
  obtain g where g: "find_grant sc (ao_grant row) db = Some g" "ag_policy g = p"
    "ag_version g = ao_grant_version row" "\<not> ag_revoked g" "dg_enabled p" "now < dg_expires_at p"
    by (rule live_policy_grant [OF l])
  let ?M = "month_index (fst now)" and ?w = "ao_proposal row"
  have t: "total_committed (fst now) ?M (budget_rows sc (wo_currency ?w) None db') =
      total_committed (fst now) ?M (budget_rows sc (wo_currency ?w) (Some i) db) + committed (fst now) ?M (?w, Submitting, now)"
    using exclude_total [OF ids find_op_row(1) [OF f] find_op_row(3) [OF f], of _ Submitting "fst now" ?M now] a
      find_op_row(2) [OF f] by (simp add: d live_state_def budget_rows_def)
  have "committed (fst now) ?M (?w, Submitting, now) = committed (fst now) ?M (proposal_record ?w now)"
    by (simp add: committed_def proposal_record_def live_state_def)
  then have "total_committed (fst now) ?M (budget_rows sc (wo_currency ?w) None db') \<le> monthly_minor p"
    using budget_allow(1) [OF b pay] unfolding t fits_budget_def by auto
  then show ?thesis using a st h g budget_allow(2-6) [OF b pay] pay unfolding check_settings_Inr by blast
qed

definition sample_ready :: "command list" where
  "sample_ready = [Configure sample_owner \<lparr>rs_enabled = True, managed_browser = True, payment_processing = True,
       payment_assessment_reference = ''ref''\<rparr> ''u1'',
     CreateGrant sample_owner sample_delegation ''g1'',
     Reserve sample_owner ''g1'' ''a'' sample_purchase ''op1'' ((2026, 3, 1), 0)]"

definition sample_db :: autonomy_db where
  "sample_db = exec_all (delegated_step sample_web) empty_autonomy sample_ready"

lemma sample_db_ids: "ids_ok sample_db"
  by code_simp

lemma sample_db_submit:
  "case begin_submit sample_owner ''op1'' ''a'' None ((2026, 3, 2), 0) sample_db of Inl _ \<Rightarrow> False | Inr _ \<Rightarrow> True"
  "case find_op sample_owner ''op1'' sample_db of Inl _ \<Rightarrow> False
   | Inr row \<Rightarrow> payment_action (wo_action (ao_proposal row)) \<and> wo_amount (ao_proposal row) = 700 \<and> ao_grant row = ''g1''"
  by code_simp+

theorem submit_gate_sound_witness:
  "\<not> grant_on_hold sample_owner ''g1'' sample_db \<and>
   (\<exists>db' g. begin_submit sample_owner ''op1'' ''a'' None ((2026, 3, 2), 0) sample_db = Inr db' \<and>
      find_grant sample_owner ''g1'' sample_db = Some g \<and> 700 \<le> per_purchase_minor (ag_policy g))"
proof -
  obtain db' where s: "begin_submit sample_owner ''op1'' ''a'' None ((2026, 3, 2), 0) sample_db = Inr db'"
    using sample_db_submit(1) by (auto split: sum.splits)
  obtain row where f: "find_op sample_owner ''op1'' sample_db = Inr row"
    "payment_action (wo_action (ao_proposal row))" "wo_amount (ao_proposal row) = 700" "ao_grant row = ''g1''"
    using sample_db_submit(2) by (auto split: sum.splits)
  show ?thesis using submit_gate_sound [OF sample_db_ids s f(1,2)] f(3,4) s by auto
qed

end
