(* ===== verification/Delegated_Freeze.thy ===== *)
theory Delegated_Freeze
  imports Delegated_Budget
begin

text \<open>
  What holds over all runs besides the budget: a grant on hold authorizes no payment, evidence of
  an overspend freezes its grant, a terminal operation never changes again and is completed only
  on safe evidence.
\<close>

section \<open>A grant on hold\<close>

definition held_inv :: "scope \<Rightarrow> string \<Rightarrow> autonomy_db \<Rightarrow> bool" where
  "held_inv sc g db = (ids_ok db \<and> grant_on_hold sc g db)"

definition payment_of :: "scope \<Rightarrow> string \<Rightarrow> op_row \<Rightarrow> bool" where
  "payment_of sc g r = (ao_scope r = sc \<and> ao_grant r = g \<and> payment_action (wo_action (ao_proposal r)))"

text \<open>No payment of the grant is new, and none has entered \<open>submitting\<close>.\<close>

definition nothing_spent :: "scope \<Rightarrow> string \<Rightarrow> autonomy_db \<Rightarrow> autonomy_db \<Rightarrow> bool" where
  "nothing_spent sc g db db' =
     (\<forall>r' \<in> set (ad_ops db'). payment_of sc g r' \<longrightarrow>
        (\<exists>r \<in> set (ad_ops db). same_operation r r' \<and> no_submission r r'))"

fun keeps_hold :: "scope \<Rightarrow> string \<Rightarrow> command \<Rightarrow> bool" where
  "keeps_hold sc g (ClearHold sc' g') = (\<not> (sc' = sc \<and> g' = g))"
| "keeps_hold sc g c = well_named c"

lemma nothing_spent_refl: "nothing_spent sc g db db"
  by (auto simp: nothing_spent_def same_operation_def no_submission_def)

lemma nothing_spent_trans: "nothing_spent sc g a b \<Longrightarrow> nothing_spent sc g b c \<Longrightarrow> nothing_spent sc g a c"
  unfolding nothing_spent_def payment_of_def same_operation_def no_submission_def by (metis (no_types, lifting))

lemma nothing_spent_same: "ad_ops db' = ad_ops db \<Longrightarrow> nothing_spent sc g db db'"
  by (auto simp: nothing_spent_def same_operation_def no_submission_def)

lemma advances_spent: "advances t db db' \<Longrightarrow> nothing_spent sc g db db'"
  by (fastforce simp: advances_def nothing_spent_def list_all2_conv_all_nth in_set_conv_nth row_moves_def)

lemma same_events_hold: "ad_events db' = ad_events db \<Longrightarrow> grant_on_hold sc g db' = grant_on_hold sc g db"
  by (simp add: grant_on_hold_def)

lemma reserve_held:
  assumes h: "held_inv sc g db" and r: "reserve env sc' g' agent w uuid now db = Inr (x, db')"
  shows "held_inv sc g db' \<and> nothing_spent sc g db db'"
proof -
  from reserve_Inr [OF r] show ?thesis
  proof (elim disjE exE conjE)
    assume "db' = db"
    then show ?thesis using h by (simp add: nothing_spent_refl)
  next
    fix p v
    let ?row = "\<lparr>ao_id = uuid, ao_scope = sc', ao_grant = g', ao_grant_version = v, ao_agent = agent,
          ao_key = wo_key w, ao_fingerprint = op_fingerprint env g' agent w, ao_proposal = w,
          ao_state = Reserved, ao_evidence = None, ao_plan = None, ao_reason = None, ao_workflow = None,
          ao_created = now, ao_updated = now\<rparr>"
    assume a: "\<not> (payment_action (wo_action w) \<and> grant_on_hold sc' g' db)" "uuid \<notin> ao_id ` set (ad_ops db)"
      and d: "db' = add_event sc' uuid ''reserved'' (db\<lparr>ad_ops := ad_ops db @ [?row]\<rparr>)"
    have "ids_ok db'" using h a(2) by (auto simp: held_inv_def ids_ok_def d)
    moreover have "grant_on_hold sc g (db\<lparr>ad_ops := ad_ops db @ [?row]\<rparr>)"
      using h same_events_hold [of "db\<lparr>ad_ops := ad_ops db @ [?row]\<rparr>" db] by (simp add: held_inv_def)
    then have "grant_on_hold sc g db'" by (simp add: d HOLD_PLACED_def HOLD_CLEARED_def)
    moreover have "nothing_spent sc g db db'"
      using h a(1) by (auto simp: d nothing_spent_def payment_of_def held_inv_def same_operation_def no_submission_def)
    ultimately show ?thesis by (simp add: held_inv_def)
  qed
qed

lemma begin_submit_held:
  assumes h: "held_inv sc g db" and s: "begin_submit sc' i agent w now db = Inr db'"
  shows "held_inv sc g db' \<and> nothing_spent sc g db db'"
proof -
  have ids: "ids_ok db" using h by (simp add: held_inv_def)
  let ?f = "\<lambda>r. r\<lparr>ao_state := Submitting, ao_updated := now\<rparr>"
  obtain row where f: "find_op sc' i db = Inr row"
    and a: "\<not> (payment_action (wo_action (ao_proposal row)) \<and> grant_on_hold sc' (ao_grant row) db)"
    and d: "db' = add_event sc' i ''submitting'' (update_op i ?f db)"
    using s by (auto simp: begin_submit_def payment_gate_def Let_def assert_no_payment_hold_def)
  have "ids_ok db'" by (rule moves_ids [OF begin_submit_moves(2) [OF ids s] ids])
  moreover have "grant_on_hold sc g (update_op i ?f db)"
    using h same_events_hold [of "update_op i ?f db" db] by (simp add: held_inv_def update_op_def)
  then have "grant_on_hold sc g db'" by (simp add: d HOLD_PLACED_def HOLD_CLEARED_def)
  moreover have "nothing_spent sc g db db'"
    unfolding nothing_spent_def
  proof (intro ballI impI)
    fix r'
    assume r': "r' \<in> set (ad_ops db')" "payment_of sc g r'"
    then obtain r where r: "r \<in> set (ad_ops db)" "r' = (if ao_id r = i then ?f r else r)"
      by (auto simp: d update_op_def)
    have "ao_id r \<noteq> i"
    proof
      assume e: "ao_id r = i"
      then have "r = row" using ids_ok_row [OF ids r(1) find_op_row(1) [OF f]] find_op_row(2) [OF f] by simp
      then show False using r'(2) r(2) e a find_op_row(3) [OF f] h by (auto simp: payment_of_def held_inv_def)
    qed
    then show "\<exists>r \<in> set (ad_ops db). same_operation r r' \<and> no_submission r r'"
      using r by (auto simp: same_operation_def no_submission_def)
  qed
  ultimately show ?thesis by (simp add: held_inv_def)
qed

lemma held_grant_step:
  assumes h: "held_inv sc g db" and c: "keeps_hold sc g c" and s: "delegated_step env db c = Inr db'"
  shows "held_inv sc g db' \<and> nothing_spent sc g db db'"
proof (cases "ordinary c")
  case True
  then have w: "well_named c" "ids_ok db" using c h by (cases c; simp add: held_inv_def)+
  then have a: "advances (command_time c) db db'" using step_advances [OF s] True by blast
  then have "grant_on_hold sc g db'" using h unfolding advances_def held_inv_def by blast
  then show ?thesis using advances_ids [OF a w(2)] advances_spent [OF a] by (simp add: held_inv_def)
next
  case False
  have same: "held_inv sc g db' \<and> nothing_spent sc g db db'"
    if "ad_ops db' = ad_ops db" "grant_on_hold sc g db'"
    using that h nothing_spent_same by (simp add: held_inv_def ids_ok_def)
  from False show ?thesis
  proof (cases c)
    case (Reserve sc' g' agent w uuid now)
    then obtain x where r: "reserve env sc' g' agent w uuid now db = Inr (x, db')" using s by auto
    show ?thesis by (rule reserve_held [OF h r])
  next
    case (BeginSubmit sc' i agent w now)
    then show ?thesis using s begin_submit_held [OF h] by simp
  next
    case (CreateGrant sc' p uuid)
    then show ?thesis using s h
      by (intro same) (auto simp: create_grant_def held_inv_def HOLD_CLEARED_def HOLD_PLACED_def grant_on_hold_def
          add_event_def)
  next
    case (RevokeGrant sc' g')
    then show ?thesis using s h
      by (intro same) (auto simp: revoke_grant_def held_inv_def HOLD_CLEARED_def HOLD_PLACED_def grant_on_hold_def
          add_event_def)
  next
    case (ClearHold sc' g')
    then show ?thesis using s h c
      by (intro same) (auto simp: clear_payment_hold_def held_inv_def split: option.splits if_splits)
  qed simp_all
qed

interpretation held_run: guarded_machine "delegated_step env" "held_inv sc g" "nothing_spent sc g" "keeps_hold sc g"
  by unfold_locales (auto intro: nothing_spent_refl nothing_spent_trans dest: held_grant_step)

text \<open>
  C28: a grant on hold spends nothing. From a state where the grant is on hold, whatever commands
  run, as long as the owner does not clear this hold, the grant stays on hold, every purchase or
  subscription of it was there before, and those that are submitting were submitting before.
\<close>

theorem held_grant_spends_nothing:
  assumes "ids_ok db" "grant_on_hold sc g db" "\<forall>c \<in> set cs. keeps_hold sc g c"
  shows "grant_on_hold sc g (exec_all (delegated_step env) db cs) \<and>
    (\<forall>r' \<in> set (ad_ops (exec_all (delegated_step env) db cs)).
       ao_scope r' = sc \<and> ao_grant r' = g \<and> payment_action (wo_action (ao_proposal r')) \<longrightarrow>
       (\<exists>r \<in> set (ad_ops db). ao_id r = ao_id r' \<and> ao_proposal r = ao_proposal r' \<and>
          (ao_state r' = Submitting \<longrightarrow> ao_state r = Submitting)))"
proof -
  have h: "held_inv sc g db" using assms(1,2) by (simp add: held_inv_def)
  note inv = held_run.run_inv [OF h assms(3), where env = env]
  note rel = held_run.run_rel [OF h assms(3), where env = env]
  show ?thesis using inv rel unfolding held_inv_def nothing_spent_def payment_of_def same_operation_def no_submission_def
    by metis
qed

section \<open>Evidence of an overspend\<close>

lemma facts_for_add [simp]:
  "facts_for sc i (add_event sc' j e db) = facts_for sc i db"
  "facts_for sc i (db\<lparr>ad_facts := ad_facts db @ [(sc, i, f)]\<rparr>) = facts_for sc i db @ [f]"
  by (simp_all add: facts_for_def)

lemma fold_events_fields:
  "ad_facts (foldl (\<lambda>d reason. add_event sc i (e reason) d) db rs) = ad_facts db"
  "ad_alerts (foldl (\<lambda>d reason. add_event sc i (e reason) d) db rs) = ad_alerts db"
  by (induction rs arbitrary: db) simp_all

lemma place_hold_fields:
  assumes "place_hold sc g i reasons db = (placed, db')"
  shows "ad_facts db' = ad_facts db" "ad_alerts db' = ad_alerts db" "grant_on_hold sc g db'"
    "placed \<longleftrightarrow> \<not> grant_on_hold sc g db"
proof -
  have f: "grant_on_hold sc g (foldl (\<lambda>d reason. add_event sc i (''payment_overspend:'' @ reason) d) d rs)"
    if "grant_on_hold sc g d" for d rs
    using that by (induction rs arbitrary: d) (simp_all add: HOLD_CLEARED_def HOLD_PLACED_def)
  show "ad_facts db' = ad_facts db" "ad_alerts db' = ad_alerts db" "grant_on_hold sc g db'"
    "placed \<longleftrightarrow> \<not> grant_on_hold sc g db"
    using assms f [of "add_event sc g HOLD_PLACED db" reasons]
    by (auto simp: place_hold_def fold_events_fields split: if_splits)
qed

lemma flag_overspend_effect:
  fixes sc row s db
  defines "db' \<equiv> flag_overspend sc row s db" and "g \<equiv> ao_grant row"
  shows "ad_facts db' = ad_facts db"
    "overspend_reasons s = [] \<Longrightarrow> db' = db"
    "overspend_reasons s \<noteq> [] \<Longrightarrow> grant_on_hold sc g db'"
    "length (ad_alerts db') = length (ad_alerts db) + (if grant_on_hold sc g db' \<and> \<not> grant_on_hold sc g db then 1 else 0)"
proof -
  obtain placed d where p: "place_hold sc g (ao_id row) (overspend_reasons s) db = (placed, d)" by fastforce
  note e = place_hold_fields [OF p]
  have d: "db' = (if overspend_reasons s = [] then db else if placed
      then d\<lparr>ad_alerts := ad_alerts d @ [(sc, alert_body (ao_id row) g (overspend_reasons s))]\<rparr> else d)"
    using p by (cases placed) (simp_all add: db'_def g_def flag_overspend_def)
  show "ad_facts db' = ad_facts db" "overspend_reasons s = [] \<Longrightarrow> db' = db"
    "overspend_reasons s \<noteq> [] \<Longrightarrow> grant_on_hold sc g db'"
    "length (ad_alerts db') = length (ad_alerts db) + (if grant_on_hold sc g db' \<and> \<not> grant_on_hold sc g db then 1 else 0)"
    using e by (auto simp: d same_events_hold [of "d\<lparr>ad_alerts := x\<rparr>" d for x])
qed

lemma append_fact_effect:
  assumes "append_fact sc row f db = Inr (s, db')"
  obtains db1 where "db' = flag_overspend sc row s db1" "ad_alerts db1 = ad_alerts db"
    "grant_on_hold sc (ao_grant row) db1 = grant_on_hold sc (ao_grant row) db"
    "summarize_payments (ao_proposal row) (facts_for sc (ao_id row) db1) = Inr s"
proof -
  obtain g where v: "validate_fact f = Inr g" using assms by (auto simp: append_fact_def)
  show thesis
  proof (cases "find (\<lambda>h. pf_key h = pf_key g) (facts_for sc (ao_id row) db)")
    case None
    let ?d = "add_event sc (ao_id row) ''payment_evidence_recorded'' (db\<lparr>ad_facts := ad_facts db @ [(sc, ao_id row, g)]\<rparr>)"
    have "grant_on_hold sc (ao_grant row) ?d = grant_on_hold sc (ao_grant row) db"
      by (auto simp: HOLD_PLACED_def HOLD_CLEARED_def
          same_events_hold [of "db\<lparr>ad_facts := ad_facts db @ [(sc, ao_id row, g)]\<rparr>" db])
    then show thesis using that [of ?d] assms v None by (auto simp: append_fact_def Let_def)
  next
    case (Some h)
    then show thesis using that [of db] assms v by (auto simp: append_fact_def Let_def)
  qed
qed

text \<open>
  C29: evidence of an overspend freezes its grant and pages the owner once. When the journal accepts
  a fact, the grant of the operation is on hold afterwards exactly if it was before or the facts
  of the operation now show an overspend: more authorized or charged than its amount, or than
  the recurring amount for a renewal, more charged than was authorized, or the renewals of one
  date together above the recurring amount. Groups of facts that cannot be projected count for
  nothing. An alert is sent exactly when this fact placed the hold.
\<close>

theorem overspend_freezes:
  assumes "payment_append sc i f db = (Inr s, db')" and "find_op sc i db = Inr row"
    and "web_operation_ok (ao_proposal row)"
  shows "(grant_on_hold sc (ao_grant row) db' \<longleftrightarrow>
      grant_on_hold sc (ao_grant row) db \<or> overspent (ao_proposal row) (facts_for sc i db')) \<and>
    length (ad_alerts db') = length (ad_alerts db) +
      (if grant_on_hold sc (ao_grant row) db' \<and> \<not> grant_on_hold sc (ao_grant row) db then 1 else 0)"
proof -
  have a: "append_fact sc row f db = Inr (s, db')"
    using assms(1,2) by (auto simp: payment_append_def append_checked_def split: sum.splits)
  obtain db1 where d: "db' = flag_overspend sc row s db1" "ad_alerts db1 = ad_alerts db"
    "grant_on_hold sc (ao_grant row) db1 = grant_on_hold sc (ao_grant row) db"
    "summarize_payments (ao_proposal row) (facts_for sc (ao_id row) db1) = Inr s"
    by (rule append_fact_effect [OF a])
  note e = flag_overspend_effect [where sc = sc and row = row and s = s and db = db1, folded d(1)]
  have "facts_for sc i db' = facts_for sc (ao_id row) db1"
    using e(1) find_op_row(2) [OF assms(2)] by (simp add: facts_for_def)
  moreover have "0 \<le> wo_recurring (ao_proposal row)" using assms(3) by (simp add: web_operation_ok_def valid_minor_def)
  ultimately have "overspend_reasons s \<noteq> [] \<longleftrightarrow> overspent (ao_proposal row) (facts_for sc i db')"
    using overspend_reasons_exact [OF d(4)] by simp
  then show ?thesis using e(2-4) unfolding d(2,3) by (cases "overspend_reasons s = []") (auto simp: d(3))
qed

section \<open>Terminal operations\<close>

definition evidence_inv :: "autonomy_db \<Rightarrow> bool" where
  "evidence_inv db = (ids_ok db \<and>
     (\<forall>r \<in> set (ad_ops db). ao_state r = Completed \<longrightarrow> good_evidence (ao_evidence r)))"

definition final_kept :: "autonomy_db \<Rightarrow> autonomy_db \<Rightarrow> bool" where
  "final_kept db db' = (\<forall>r \<in> set (ad_ops db). \<exists>r' \<in> set (ad_ops db'). same_operation r r' \<and>
     (terminal (ao_state r) \<longrightarrow> ao_state r' = ao_state r \<and> ao_evidence r' = ao_evidence r \<and>
        ao_updated r' = ao_updated r))"

lemma final_kept_refl: "final_kept db db"
  by (auto simp: final_kept_def same_operation_def)

lemma final_kept_trans: "final_kept a b \<Longrightarrow> final_kept b c \<Longrightarrow> final_kept a c"
  unfolding final_kept_def same_operation_def by (metis (no_types, lifting))

lemma final_kept_sub: "set (ad_ops db) \<subseteq> set (ad_ops db') \<Longrightarrow> final_kept db db'"
  by (auto simp: final_kept_def same_operation_def)

lemma moves_evidence:
  assumes m: "list_all2 (row_moves t) (ad_ops db) (ad_ops db')" and i: "evidence_inv db"
  shows "evidence_inv db' \<and> final_kept db db'"
proof
  have e: "good_evidence (ao_evidence r')" if a: "r' \<in> set (ad_ops db')" "ao_state r' = Completed" for r'
  proof -
    obtain n where n: "n < length (ad_ops db')" "r' = ad_ops db' ! n" using a(1) by (metis in_set_conv_nth)
    then have "row_moves t (ad_ops db ! n) r'" "ad_ops db ! n \<in> set (ad_ops db)"
      using m by (auto simp: list_all2_conv_all_nth)
    then show ?thesis using i a(2) by (auto simp: row_moves_def evidence_inv_def)
  qed
  then show "evidence_inv db'" using i moves_ids [OF m] by (simp add: evidence_inv_def)
  show "final_kept db db'"
    unfolding final_kept_def
  proof
    fix r
    assume "r \<in> set (ad_ops db)"
    then obtain n where n: "n < length (ad_ops db)" "r = ad_ops db ! n" by (metis in_set_conv_nth)
    then have "row_moves t r (ad_ops db' ! n)" "ad_ops db' ! n \<in> set (ad_ops db')"
      using m by (auto simp: list_all2_conv_all_nth)
    then show "\<exists>r' \<in> set (ad_ops db'). same_operation r r' \<and>
       (terminal (ao_state r) \<longrightarrow> ao_state r' = ao_state r \<and> ao_evidence r' = ao_evidence r \<and> ao_updated r' = ao_updated r)"
      by (intro bexI [of _ "ad_ops db' ! n"]) (auto simp: row_moves_def)
  qed
qed

lemma evidence_step:
  assumes i: "evidence_inv db" and w: "well_named c" and s: "delegated_step env db c = Inr db'"
  shows "evidence_inv db' \<and> final_kept db db'"
proof (cases "ordinary c")
  case True
  have "ids_ok db" using i by (simp add: evidence_inv_def)
  then show ?thesis using moves_evidence [OF advances_moves i] step_advances [OF s _ True w] by blast
next
  case False
  have same: "evidence_inv db' \<and> final_kept db db'" if "ad_ops db' = ad_ops db"
    using that i final_kept_sub by (simp add: evidence_inv_def ids_ok_def)
  from False show ?thesis
  proof (cases c)
    case (Reserve sc' g' agent w uuid now)
    then obtain x where r: "reserve env sc' g' agent w uuid now db = Inr (x, db')" using s by auto
    have "final_kept db db'" using reserve_Inr [OF r] by (intro final_kept_sub) auto
    then show ?thesis using reserve_Inr [OF r] i by (auto simp: evidence_inv_def ids_ok_def)
  next
    case (BeginSubmit sc' j agent w now)
    have "ids_ok db" using i by (simp add: evidence_inv_def)
    then show ?thesis using begin_submit_moves(2) moves_evidence i s BeginSubmit by (metis delegated_step.simps(6))
  next
    case (CreateGrant sc' p uuid)
    then show ?thesis using s by (intro same) (auto simp: create_grant_def)
  next
    case (RevokeGrant sc' g')
    then show ?thesis using s by (intro same) (auto simp: revoke_grant_def)
  next
    case (ClearHold sc' g')
    then show ?thesis using s by (intro same) (auto simp: clear_payment_hold_def split: option.splits if_splits)
  qed simp_all
qed

interpretation evidence_run: guarded_machine "delegated_step env" evidence_inv final_kept well_named
  by unfold_locales (auto intro: final_kept_refl final_kept_trans dest: evidence_step)

text \<open>
  C30: completion is evidence and endings are final. Over all runs an operation is completed only
  with evidence, whose keys are among the five safe ones and whose rule is among the five known
  ones; and an operation that is completed, failed or cancelled keeps its state, its evidence and
  its time whatever commands follow.
\<close>

theorem completion_final:
  assumes "evidence_inv db" and "\<forall>c \<in> set cs. well_named c"
  shows "(\<forall>r \<in> set (ad_ops (exec_all (delegated_step env) db cs)). ao_state r = Completed \<longrightarrow>
      (\<exists>ev. ao_evidence r = Some ev \<and> ev \<noteq> [] \<and> set (map fst ev) \<subseteq> set evidence_keys \<and>
        (\<forall>rule. dict_get ev ''confirmation_rule'' = Some rule \<longrightarrow> rule \<in> set confirmation_rules))) \<and>
    (\<forall>r \<in> set (ad_ops db). ao_state r \<in> {Completed, Failed, Cancelled} \<longrightarrow>
      (\<exists>r' \<in> set (ad_ops (exec_all (delegated_step env) db cs)). ao_id r' = ao_id r \<and>
        ao_state r' = ao_state r \<and> ao_evidence r' = ao_evidence r \<and> ao_updated r' = ao_updated r))"
  using evidence_run.run_inv [OF assms, where env = env] evidence_run.run_rel [OF assms, where env = env]
  unfolding evidence_inv_def good_evidence_def final_kept_def terminal_def same_operation_def by metis

section \<open>A concrete run\<close>

definition sample_charge :: payment_fact where
  "sample_charge = \<lparr>pf_key = ''charge-1'', pf_kind = FCharged, pf_amount = 900, pf_currency = ''USD'',
     pf_source = Issuer, pf_renewal_id = None, pf_renewal_on = None\<rparr>"

text \<open>An operation of 700 is submitted, completed and then charged 900.\<close>

definition sample_completed :: "command list" where
  "sample_completed =
     [BeginSubmit sample_owner ''op1'' ''a'' None ((2026, 3, 2), 0),
      Finish sample_owner ''op1'' Completed (Some [(''kind'', JStr ''visible_outcome'')]) ((2026, 3, 2), 60000000)]"

definition sample_done :: autonomy_db where
  "sample_done = exec_all (delegated_step sample_web) sample_db sample_completed"

definition sample_frozen :: autonomy_db where
  "sample_frozen = snd (payment_append sample_owner ''op1'' sample_charge sample_done)"

lemma sample_done_facts:
  "case find_op sample_owner ''op1'' sample_done of Inl _ \<Rightarrow> False
   | Inr row \<Rightarrow> ao_grant row = ''g1'' \<and> ao_state row = Completed \<and> ao_proposal row = sample_purchase"
  "case payment_append sample_owner ''op1'' sample_charge sample_done of (Inl _, _) \<Rightarrow> False | (Inr _, _) \<Rightarrow> True"
  "grant_on_hold sample_owner ''g1'' sample_frozen" "length (ad_alerts sample_frozen) = 1"
  "\<not> grant_on_hold sample_owner ''g1'' sample_done" "ids_ok sample_frozen"
  by code_simp+

theorem overspend_freezes_witness:
  "\<exists>s db'. payment_append sample_owner ''op1'' sample_charge sample_done = (Inr s, db') \<and>
     overspent sample_purchase (facts_for sample_owner ''op1'' db') \<and>
     grant_on_hold sample_owner ''g1'' db' \<and> length (ad_alerts db') = length (ad_alerts sample_done) + 1"
proof -
  obtain row where r: "find_op sample_owner ''op1'' sample_done = Inr row" "ao_grant row = ''g1''" "ao_proposal row = sample_purchase"
    using sample_done_facts(1) by (auto split: sum.splits)
  obtain s db' where j: "payment_append sample_owner ''op1'' sample_charge sample_done = (Inr s, db')"
    using sample_done_facts(2) by (auto split: sum.splits prod.splits)
  have "db' = sample_frozen" by (simp add: sample_frozen_def j)
  moreover have "web_operation_ok (ao_proposal row)"
    by (simp add: r(3) sample_purchase_def web_operation_ok_def valid_minor_def commitment_consistent_def payment_action_def)
  ultimately show ?thesis using overspend_freezes [OF j r(1)] j r(2,3) sample_done_facts(3,5) by auto
qed

text \<open>
  Evidence that contradicts itself freezes nothing: 700 are authorized and reversed and 900 charged
  all the same. The last fact is accepted, the position cannot be projected any more, and the
  grant stays free.
\<close>

definition sample_contradiction :: "command list" where
  "sample_contradiction =
     [Append sample_owner ''op1'' (sample_charge\<lparr>pf_key := ''auth-1'', pf_kind := FAuthorized, pf_amount := 700\<rparr>),
      Append sample_owner ''op1'' (sample_charge\<lparr>pf_key := ''reversal-1'', pf_kind := FReversed, pf_amount := 700\<rparr>)]"

lemma contradiction_not_frozen:
  "let db = exec_all (delegated_step sample_web) sample_done sample_contradiction;
       (r, db') = payment_append sample_owner ''op1'' sample_charge db
   in \<not> isl r \<and> length (facts_for sample_owner ''op1'' db') = 4 \<and> \<not> grant_on_hold sample_owner ''g1'' db'"
  by code_simp

definition sample_more :: "command list" where
  "sample_more =
     [Reserve sample_owner ''g1'' ''a'' (sample_purchase\<lparr>wo_key := ''key-0009'', wo_amount := 1\<rparr>) ''op9''
        ((2026, 3, 3), 0), ClearHold sample_owner ''g2'']"

theorem held_grant_spends_nothing_witness:
  "grant_on_hold sample_owner ''g1'' (exec_all (delegated_step sample_web) sample_frozen sample_more)"
proof -
  have "\<forall>c \<in> set sample_more. keeps_hold sample_owner ''g1'' c" by (simp add: sample_more_def)
  then show ?thesis using held_grant_spends_nothing [OF sample_done_facts(6,3)] by blast
qed

theorem completion_final_witness:
  "\<exists>r \<in> set (ad_ops sample_done). ao_state r = Completed \<and>
     (\<exists>r' \<in> set (ad_ops (exec_all (delegated_step sample_web) sample_done
         [Abandon sample_owner ''op1'' ''owner_abandoned'' ((2026, 3, 4), 0)])).
       ao_id r' = ao_id r \<and> ao_state r' = Completed \<and> ao_evidence r' = ao_evidence r)"
proof -
  obtain r where f: "find_op sample_owner ''op1'' sample_done = Inr r" and c: "ao_state r = Completed"
    using sample_done_facts(1) by (auto split: sum.splits)
  note r = find_op_row(1) [OF f] c
  have "case ad_ops sample_done of [x] \<Rightarrow> ao_evidence x = Some [(''kind'', JStr ''visible_outcome'')] | _ \<Rightarrow> False"
    by code_simp
  then have "evidence_inv sample_done"
    by (auto simp: evidence_inv_def ids_ok_def good_evidence_def evidence_keys_def split: list.splits)
  then have inv: "evidence_inv sample_done" .
  have w: "\<forall>c \<in> set [Abandon sample_owner ''op1'' ''owner_abandoned'' ((2026, 3, 4), 0)]. well_named c"
    by (simp add: HOLD_CLEARED_def)
  show ?thesis using conjunct2 [OF completion_final [OF inv w, of sample_web]] r by fastforce
qed

end
