(* ===== verification/Delegated_Leases.thy ===== *)
theory Delegated_Leases
  imports Delegated_Budget
begin

text \<open>
  The lease of a leased check (\<open>handoff_recovery.py\<close>): while it runs, only the token that took it
  reads the confirmation, whatever the other workers, the owner and the agents do meanwhile.
\<close>

text \<open>The handoff is leased to the token until \<open>L\<close>, or is over for good.\<close>

definition leased_row :: "string \<Rightarrow> datetime \<Rightarrow> handoff_row \<Rightarrow> bool" where
  "leased_row token L h = (ho_state h = Checking \<and> ho_token h = Some token \<and> ho_lease h = Some L \<or>
     ho_state h \<in> {Resolved, Expired})"

definition leased :: "string \<Rightarrow> string \<Rightarrow> datetime \<Rightarrow> autonomy_db \<Rightarrow> bool" where
  "leased hid token L db = (hid \<in> ho_id ` set (ad_handoffs db) \<and> distinct (map ho_id (ad_handoffs db)) \<and>
     (\<forall>h \<in> set (ad_handoffs db). ho_id h = hid \<longrightarrow> leased_row token L h))"

lemma find_SomeD: "find P xs = Some x \<Longrightarrow> x \<in> set xs \<and> P x"
  by (auto simp: find_Some_iff)

lemma leased_same: "leased hid token L db \<Longrightarrow> ad_handoffs db' = ad_handoffs db \<Longrightarrow> leased hid token L db'"
  by (simp add: leased_def)

lemma leased_of_map:
  assumes "hid \<in> ho_id ` set hs" "distinct (map ho_id hs)" "\<And>h. ho_id (f h) = ho_id h"
    "\<And>y. y \<in> set hs \<Longrightarrow> ho_id y = hid \<Longrightarrow> leased_row token L (f y)" "ad_handoffs db' = map f hs"
  shows "leased hid token L db'"
proof -
  have "map ho_id (ad_handoffs db') = map ho_id hs" by (simp add: assms(3,5))
  moreover from this have "hid \<in> ho_id ` set (ad_handoffs db')"
    using assms(1) by (metis list.set_map)
  moreover have "\<forall>h \<in> set (ad_handoffs db'). ho_id h = hid \<longrightarrow> leased_row token L h"
    using assms(3,4) by (auto simp: assms(5))
  ultimately show ?thesis using assms(2) unfolding leased_def by (simp only: simp_thms)
qed

lemma leased_map:
  assumes "leased hid token L db" "ad_handoffs db' = map f (ad_handoffs db)" "\<And>h. ho_id (f h) = ho_id h"
    "\<And>h. leased_row token L h \<Longrightarrow> leased_row token L (f h)"
  shows "leased hid token L db'"
proof -
  have "map ho_id (ad_handoffs db') = map ho_id (ad_handoffs db)" by (simp add: assms(2,3))
  then show ?thesis using assms unfolding leased_def by (auto simp: image_iff o_def)
qed

lemma leased_map_handoffs:
  assumes "leased hid token L db" "\<And>h. ho_id (f h) = ho_id h"
    "\<And>h. leased_row token L h \<Longrightarrow> P h \<Longrightarrow> leased_row token L (f h)"
  shows "leased hid token L (map_handoffs P f db)"
  by (rule leased_map [OF assms(1), where f = "\<lambda>h. if P h then f h else h"])
    (auto simp: map_handoffs_def assms(2,3))

lemma leased_event [simp]: "leased hid token L (add_event sc i e db) = leased hid token L db"
  by (simp add: leased_def)

lemma update_handoffs [simp]:
  "ad_handoffs (update_op i f db) = ad_handoffs db" "ad_handoffs (update_workflow w g db) = ad_handoffs db"
  by (simp_all add: update_op_def update_workflow_def)

lemma fold_events_handoffs:
  "ad_handoffs (foldl (\<lambda>d reason. add_event sc i (e reason) d) db rs) = ad_handoffs db"
  by (induction rs arbitrary: db) simp_all

lemma place_hold_handoffs: "place_hold sc g i rs db = (b, db') \<Longrightarrow> ad_handoffs db' = ad_handoffs db"
  by (auto simp: place_hold_def fold_events_handoffs split: if_splits)

lemma flag_overspend_handoffs [simp]: "ad_handoffs (flag_overspend sc row s db) = ad_handoffs db"
  by (auto simp: flag_overspend_def Let_def dest: place_hold_handoffs split: prod.splits bool.splits)

lemma append_fact_handoffs: "append_fact sc row f db = Inr (s, db') \<Longrightarrow> ad_handoffs db' = ad_handoffs db"
  by (auto simp: append_fact_def Let_def split: option.splits)

lemma record_submission_handoffs: "record_submission sc row db = Inr db' \<Longrightarrow> ad_handoffs db' = ad_handoffs db"
  by (auto simp: record_submission_def dest: append_fact_handoffs split: if_splits)

lemma payment_append_handoffs: "ad_handoffs (snd (payment_append sc i f db)) = ad_handoffs db"
  by (auto simp: payment_append_def append_checked_def record_refusal_def Let_def dest: append_fact_handoffs
      split: sum.splits store_error.splits)

lemma finish_op_leased:
  assumes "leased hid token L db" "finish_op sc i st ev reason now db = Inr db'"
  shows "leased hid token L db'"
proof -
  have r: "leased hid token L (resolve_handoffs sc i d)" if "ad_handoffs d = ad_handoffs db" for d
    by (rule leased_map [OF leased_same [OF assms(1) that], where f = "\<lambda>h. if ho_scope h = sc \<and>
        ho_operation h = i \<and> ho_state h \<noteq> Resolved then h\<lparr>ho_state := Resolved\<rparr> else h"])
      (auto simp: resolve_handoffs_def leased_row_def)
  have r2: "leased hid token L (resolve_handoffs sc i d)"
    if "record_submission sc row (update_op i f db) = Inr d" for row f d
    using r record_submission_handoffs [OF that] by simp
  show ?thesis using assms(2) leased_same [OF assms(1)] r2
    by (auto simp: finish_op_def Let_def split: if_splits)
qed

lemma expire_leased: "leased_row token L h \<Longrightarrow> leased_row token L (expire_row h)" "ho_id (expire_row h) = ho_id h"
  by (auto simp: leased_row_def expire_row_def)

lemma release_handoff_leased:
  assumes "leased hid token L db" "release_expired_handoff sc h now db = Inr (b, db')"
  shows "leased hid token L db'"
proof -
  let ?m = "\<lambda>x. ho_scope x = sc \<and> ho_id x = ho_id h \<and> pending x"
  let ?e = "add_event sc (ho_operation h) ''external_action_expired'' (map_handoffs ?m expire_row db)"
  have e: "leased hid token L ?e" using leased_map_handoffs [OF assms(1)] expire_leased by simp
  show ?thesis
  proof (cases "list_ex ?m (ad_handoffs db)")
    case True
    then show ?thesis using assms(2) e finish_op_leased [OF e]
      unfolding release_expired_handoff_def Let_def
      by (cases b) (fastforce split: if_splits)+
  qed (use assms in \<open>simp add: release_expired_handoff_def Let_def\<close>)
qed

lemma release_rows_leased:
  "leased hid token L db \<Longrightarrow> release_rows sc now hs n db = Inr (m, db') \<Longrightarrow> leased hid token L db'"
proof (induction hs arbitrary: n db)
  case (Cons h hs)
  then obtain b d where d: "release_expired_handoff sc h now db = Inr (b, d)"
    "release_rows sc now hs (if b then Suc n else n) d = Inr (m, db')" by auto
  then show ?case using Cons.IH [OF release_handoff_leased [OF Cons.prems(1) d(1)] d(2)] by simp
qed simp

lemma claim_row_leased:
  assumes "leased hid token L db" "now < L"
  shows "leased hid token L (snd (claim_row sc h tok now db))"
proof -
  have "leased_row token L x \<Longrightarrow> ho_state x = Checking \<Longrightarrow> \<not> lease_free x now" for x
    using assms(2) by (auto simp: leased_row_def lease_free_def)
  then show ?thesis using assms(1)
    by (auto simp: claim_row_def Let_def intro!: leased_map_handoffs split: option.splits)
qed

lemma exhaust_leased:
  assumes "leased hid token L db" "now < L"
  shows "leased hid token L (exhaust h now db)"
  unfolding exhaust_def using assms by (intro leased_map_handoffs) (auto simp: leased_row_def lease_free_def)

lemma claim_leased:
  assumes l: "leased hid token L db" "now < L" and c: "claim sc h tok now db = Inr (x, db')"
  shows "leased hid token L db'"
proof -
  have r: "leased hid token L db'" if "claim_row sc h tok now d = (x, db')" "leased hid token L d" for d
    using claim_row_leased [OF that(2) l(2), of sc h tok] that(1) by simp
  have e: "leased hid token L db'" if "release_expired_handoff sc y now d = Inr (b, db')" "leased hid token L d" for d y b
    by (rule release_handoff_leased [OF that(2,1)])
  show ?thesis using c r l exhaust_leased [OF l, of h] e
    by (auto simp: claim_def Let_def split: option.splits if_splits)
qed

lemma acknowledge_leased:
  assumes l: "leased hid token L db" and a: "acknowledge sc h now db = Inr (x, db')"
  shows "leased hid token L db'"
proof -
  let ?f = "\<lambda>x. x\<lparr>ho_attempts := (if ho_state x = Checking then ho_attempts x else 0),
                    ho_lease := (if ho_state x = Checking then ho_lease x else None), ho_state := Checking\<rparr>"
  obtain r where r: "find_handoff sc h db = Some r" "pending r"
    and d: "db' = add_event sc (ho_operation r) ''external_status_check_requested''
      (map_handoffs (\<lambda>x. ho_id x = h) ?f db)"
    using a by (auto simp: acknowledge_def split: option.splits)
  have rh: "r \<in> set (ad_handoffs db)" "ho_id r = h"
    using r(1) by (auto simp: find_handoff_def find_Some_iff)
  have "leased_row token L (if ho_id y = h then ?f y else y)" if y: "y \<in> set (ad_handoffs db)" "ho_id y = hid" for y
  proof (cases "h = hid")
    case True
    have "y = r" using l y rh True by (auto simp: leased_def distinct_map dest: inj_onD)
    then have "leased_row token L y" "pending y" using l y r(2) by (simp_all add: leased_def)
    then show ?thesis by (auto simp: leased_row_def pending_def)
  qed (use l y in \<open>simp add: leased_def\<close>)
  moreover have "map ho_id (ad_handoffs (map_handoffs (\<lambda>x. ho_id x = h) ?f db)) = map ho_id (ad_handoffs db)"
    by (simp add: map_handoffs_def)
  then have "distinct (map ho_id (ad_handoffs (map_handoffs (\<lambda>x. ho_id x = h) ?f db)))"
    "hid \<in> ho_id ` set (ad_handoffs (map_handoffs (\<lambda>x. ho_id x = h) ?f db))"
    using l unfolding leased_def set_map [symmetric] by simp_all
  ultimately show ?thesis
    unfolding d leased_event leased_def by (auto simp: map_handoffs_def split: if_splits)
qed

lemma create_handoff_leased:
  assumes l: "leased hid token L db" and c: "create_handoff env sc i agent spec uuid now db = Inr (x, db')"
  shows "leased hid token L db'"
proof -
  let ?P = "\<lambda>x. ho_scope x = sc \<and> ho_operation x = i \<and> pending x \<and> ho_expires x \<le> now"
  let ?d = "map_handoffs ?P (\<lambda>x. x\<lparr>ho_state := Expired\<rparr>) db"
  have d: "leased hid token L ?d" by (rule leased_map_handoffs [OF l]) (auto simp: leased_row_def)
  have n: "leased hid token L (?d\<lparr>ad_handoffs := ad_handoffs ?d @ [new]\<rparr>)" if "ho_id new \<notin> ho_id ` set (ad_handoffs ?d)" for new
    using d that by (auto simp: leased_def)
  have f: "leased hid token L db3"
    if "finish_op sc i Reconciling None None now (?d\<lparr>ad_handoffs := ad_handoffs ?d @ [new]\<rparr>) = Inr db3"
      "ho_id new \<notin> ho_id ` set (ad_handoffs ?d)" for new db3
    by (rule finish_op_leased [OF n [OF that(2)] that(1)])
  show ?thesis using c l n f unfolding create_handoff_def Let_def
    by (auto split: option.splits if_splits)
qed

lemma finish_check_leased:
  assumes l: "leased hid token L db" and o: "\<not> (h = hid \<and> tok = token)"
  shows "leased hid token L (finish_check sc h tok retry now db)"
proof -
  let ?m = "\<lambda>x. ho_scope x = sc \<and> ho_id x = h \<and> ho_state x = Checking \<and> ho_token x = Some tok"
  let ?f = "\<lambda>x. x\<lparr>ho_state := (if ho_expires x \<le> now then Expired
                   else if retry \<and> ho_attempts x < 3 then Checking else Awaiting_External_Action),
                ho_token := None, ho_lease := (if retry then Some (add_seconds 20 now) else None)\<rparr>"
  have "leased hid token L (map_handoffs ?m ?f db)"
  proof (cases "h = hid")
    case True
    show ?thesis by (rule leased_map_handoffs [OF l]) (use o True in \<open>auto simp: leased_row_def\<close>)
  next
    case False
    have "map ho_id (ad_handoffs (map_handoffs ?m ?f db)) = map ho_id (ad_handoffs db)" by (simp add: map_handoffs_def)
    then have "distinct (map ho_id (ad_handoffs (map_handoffs ?m ?f db)))"
      "hid \<in> ho_id ` set (ad_handoffs (map_handoffs ?m ?f db))"
      using l unfolding leased_def set_map [symmetric] by simp_all
    then show ?thesis using l False unfolding leased_def by (auto simp: map_handoffs_def split: if_splits)
  qed
  then show ?thesis using l by (auto simp: finish_check_def Let_def split: option.splits)
qed

text \<open>The commands of the time the lease runs, without its holder's own end of the check.\<close>

fun within_lease :: "string \<Rightarrow> string \<Rightarrow> datetime \<Rightarrow> command \<Rightarrow> bool" where
  "within_lease hid token L (FinishCheck _ h tok _ _) = (\<not> (h = hid \<and> tok = token))"
| "within_lease hid token L (Claim _ _ _ now) = (now < L)"
| "within_lease hid token L _ = True"

lemma leased_step:
  assumes l: "leased hid token L db" and w: "within_lease hid token L c" and s: "delegated_step env db c = Inr db'"
  shows "leased hid token L db'"
proof -
  note same = leased_same [OF l]
  show ?thesis
  proof (cases c)
    case (CreateGrant sc p u)
    then show ?thesis using s by (intro same) (auto simp: create_grant_def)
  next
    case (RevokeGrant sc g)
    then show ?thesis using s by (intro same) (auto simp: revoke_grant_def)
  next
    case (ClearHold sc g)
    then show ?thesis using s by (intro same) (auto simp: clear_payment_hold_def split: option.splits if_splits)
  next
    case (Configure sc st u)
    then show ?thesis using s by (intro same) (auto simp: configure_def)
  next
    case (Reserve sc g agent w u now)
    then show ?thesis using s by (intro same) (auto dest: reserve_Inr)
  next
    case (BeginSubmit sc i agent w now)
    then show ?thesis using s by (intro same) (auto simp: begin_submit_def)
  next
    case (BindPlan sc i agent plan)
    then show ?thesis using s by (intro same) (auto simp: bind_plan_def Let_def)
  next
    case (LandedPages sc i urls)
    then show ?thesis using s by (intro same) (auto simp: record_landed_pages_def Let_def)
  next
    case (WaitForCode sc i now)
    then show ?thesis using s by (intro same) (auto simp: wait_for_code_def)
  next
    case (ResumeWithCode sc i now)
    then show ?thesis using s by (intro same) (auto simp: resume_with_code_def)
  next
    case (RecordEvent sc i e)
    then show ?thesis using s by (intro same) (auto simp: record_operation_event_def)
  next
    case (Append sc i f)
    then show ?thesis using s by (intro same) (auto simp: payment_append_handoffs)
  next
    case (Finish sc i st ev now)
    then show ?thesis using s finish_op_leased [OF l] by (simp add: store_finish_def)
  next
    case (Abandon sc i reason now)
    then obtain d where "finish_op sc i Failed None None now db = Inr d" "db' = add_event sc i reason d"
      using s by (auto simp: abandon_def)
    then show ?thesis using finish_op_leased [OF l] by simp
  next
    case (OpenWorkflow sc agent i inst req u now)
    then show ?thesis using s by (intro same) (auto simp: open_workflow_def Let_def split: option.splits)
  next
    case (BeginCommand sc agent w inst c req)
    then show ?thesis using s by (intro same) (auto simp: begin_command_def Let_def split: option.splits)
  next
    case (FinishCommand sc agent w c r adv)
    then show ?thesis using s by (intro same) (auto simp: finish_command_def Let_def)
  next
    case (Checkpoint sc agent w rej now)
    then show ?thesis using s by (intro same) (auto simp: checkpoint_def Let_def)
  next
    case (CloseWorkflow sc agent w st now)
    let ?u = "update_workflow w (\<lambda>x. x\<lparr>wf_state := st\<rparr>) db"
    have "leased hid token L ?u" by (rule same) simp
    then have "leased hid token L d" if "finish_op sc i after None None now ?u = Inr d" for i after d
      using finish_op_leased that by blast
    then show ?thesis using s CloseWorkflow l same [of ?u]
      by (auto simp: close_workflow_def Let_def split: if_splits option.splits)
  next
    case (CreateHandoff sc i agent spec u now)
    then obtain x where "create_handoff env sc i agent spec u now db = Inr (x, db')" using s by auto
    then show ?thesis by (rule create_handoff_leased [OF l])
  next
    case (ReleaseExpired sc h now)
    have e: "leased hid token L db'" if "release_expired_handoff sc y now db = Inr (b, db')" for y b
      by (rule release_handoff_leased [OF l that])
    show ?thesis using s ReleaseExpired l e by (auto simp: release_expired_def split: option.splits)
  next
    case (Acknowledge sc h now)
    then obtain x where "acknowledge sc h now db = Inr (x, db')" using s by auto
    then show ?thesis by (rule acknowledge_leased [OF l])
  next
    case (Claim sc h tok now)
    then obtain x where "claim sc h tok now db = Inr (x, db')" using s by auto
    then show ?thesis using claim_leased [OF l] w Claim by simp
  next
    case (FinishCheck sc h tok retry now)
    then show ?thesis using s w
        finish_check_leased [OF l, where h = h and tok = tok and sc = sc and retry = retry and now = now] by simp
  next
    case (ReleaseAll sc now)
    then obtain n where "release_all_expired sc now db = Inr (n, db')" using s by auto
    then show ?thesis unfolding release_all_expired_def by (rule release_rows_leased [OF l])
  qed
qed

interpretation lease_run: guarded_machine "delegated_step env" "leased hid token L" "\<lambda>_ _. True" "within_lease hid token L"
  by unfold_locales (auto intro: leased_step)

lemma claim_takes_lease:
  assumes c: "claim sc hid token now db = Inr (Some h, db')" and d: "distinct (map ho_id (ad_handoffs db))"
  shows "leased hid token (add_seconds 240 now) db'"
proof -
  have r: "leased hid token (add_seconds 240 now) db'"
    if a: "claim_row sc hid token now e = (Some h, db')" and di: "distinct (map ho_id (ad_handoffs e))" for e
  proof -
    let ?m = "\<lambda>x. ho_scope x = sc \<and> ho_id x = hid \<and> ho_state x = Checking \<and> now < ho_expires x \<and>
        ho_attempts x < 3 \<and> lease_free x now \<and>
        list_ex (\<lambda>o'. ao_id o' = ho_operation x \<and> ao_scope o' = ho_scope x \<and> ao_state o' = Reconciling) (ad_ops e)"
    let ?f = "\<lambda>x. x\<lparr>ho_token := Some token, ho_lease := Some (add_seconds 240 now), ho_attempts := ho_attempts x + 1\<rparr>"
    obtain x where x: "find ?m (ad_handoffs e) = Some x" and
      d': "db' = add_event sc (ho_operation x) ''external_status_check_started'' (map_handoffs ?m ?f e)"
      using a unfolding claim_row_def Let_def by (auto split: option.splits)
    have xm: "x \<in> set (ad_handoffs e)" "?m x" using x by (auto simp: find_Some_iff)
    have only: "y = x" if "y \<in> set (ad_handoffs e)" "ho_id y = hid" for y
      using that xm di by (auto simp: distinct_map dest: inj_onD)
    have row: "leased_row token (add_seconds 240 now) (if ?m y then ?f y else y)"
      if "y \<in> set (ad_handoffs e)" "ho_id y = hid" for y
    proof -
      have "?m y" using only [OF that] xm(2) by blast
      then show ?thesis by (subst if_P) (assumption, simp add: leased_row_def)
    qed
    show ?thesis
      unfolding d' leased_event
      by (rule leased_of_map [where f = "\<lambda>y. if ?m y then ?f y else y", OF _ di _ row])
        (use xm in \<open>auto simp: map_handoffs_def\<close>)
  qed
  have e: "distinct (map ho_id (ad_handoffs (exhaust hid now db)))"
  proof -
    have "map ho_id (ad_handoffs (exhaust hid now db)) = map ho_id (ad_handoffs db)"
      by (simp add: exhaust_def map_handoffs_def)
    then show ?thesis using d by simp
  qed
  show ?thesis using c r r [OF _ e] d by (auto simp: claim_def Let_def split: option.splits if_splits)
qed

text \<open>
  C31: a leased check has one checker. When a worker claims a check at some time, then whatever the
  other workers, the owner, the agents and the recovery sweep do during the 240 seconds of the
  lease, short of the worker ending its own check, a read of the confirmation with any other token
  is refused.
\<close>

theorem check_lease_exclusive:
  assumes "claim sc hid token now db = Inr (Some h, db')" and "distinct (map ho_id (ad_handoffs db))"
    and "\<forall>c \<in> set cs. within_lease hid token (add_seconds 240 now) c"
    and "read_confirmation sc' hid token' later (exec_all (delegated_step env) db' cs) = Inr spec"
  shows "token' = token"
proof -
  have l: "leased hid token (add_seconds 240 now) (exec_all (delegated_step env) db' cs)"
    by (rule lease_run.run_inv [OF claim_takes_lease [OF assms(1,2)] assms(3)])
  obtain x where "x \<in> set (ad_handoffs (exec_all (delegated_step env) db' cs))" "ho_id x = hid"
    "ho_token x = Some token'" "ho_state x = Checking"
    using assms(4) by (auto simp: read_confirmation_def dest!: find_SomeD split: option.splits)
  then show ?thesis using l by (auto simp: leased_def leased_row_def)
qed

definition sample_host :: web_lib where
  "sample_host = sample_web\<lparr>urlsplit := (\<lambda>_. Some \<lparr>up_scheme = ''https'', up_netloc = ''a'', up_username = None,
     up_password = None, up_hostname = Some ''a'', up_port = Some None, up_path = [], up_query = [],
     up_fragment = []\<rparr>)\<rparr>"

definition sample_request :: handoff_request where
  "sample_request = \<lparr>hr_request = ''r1'', hr_kind = ''sms'', hr_url = ''https://a'', hr_selector = Some ''h1'',
     hr_text = Some ''done'', hr_session = None, hr_lifetime = 900\<rparr>"

definition sample_checking :: autonomy_db where
  "sample_checking = exec_all (delegated_step sample_host) sample_db
     [BeginSubmit sample_owner ''op1'' ''a'' None ((2026, 3, 2), 0),
      LandedPages sample_owner ''op1'' [''https://a''],
      CreateHandoff sample_owner ''op1'' ''a'' sample_request ''h1'' ((2026, 3, 2), 60000000),
      Acknowledge sample_owner ''h1'' ((2026, 3, 2), 120000000)]"

definition sample_claimed :: autonomy_db where
  "sample_claimed = (case claim sample_owner ''h1'' ''tok1'' ((2026, 3, 2), 130000000) sample_checking of
     Inl _ \<Rightarrow> sample_checking | Inr (_, db) \<Rightarrow> db)"

definition sample_rivals :: "command list" where
  "sample_rivals = [Claim sample_owner ''h1'' ''tok2'' ((2026, 3, 2), 140000000),
     Acknowledge sample_owner ''h1'' ((2026, 3, 2), 150000000)]"

lemma sample_claim:
  "case claim sample_owner ''h1'' ''tok1'' ((2026, 3, 2), 130000000) sample_checking of
     Inl _ \<Rightarrow> False | Inr (x, _) \<Rightarrow> x \<noteq> None"
  "case read_confirmation sample_owner ''h1'' ''tok1'' ((2026, 3, 2), 160000000)
     (exec_all (delegated_step sample_host) sample_claimed sample_rivals) of Inl _ \<Rightarrow> False | Inr _ \<Rightarrow> True"
  "distinct (map ho_id (ad_handoffs sample_checking))"
  "list_all (within_lease ''h1'' ''tok1'' (add_seconds 240 ((2026, 3, 2), 130000000))) sample_rivals"
  by code_simp+

theorem check_lease_exclusive_witness:
  "(\<exists>spec. read_confirmation sample_owner ''h1'' ''tok1'' ((2026, 3, 2), 160000000)
      (exec_all (delegated_step sample_host) sample_claimed sample_rivals) = Inr spec) \<and>
   (\<forall>spec. read_confirmation sample_owner ''h1'' ''tok2'' ((2026, 3, 2), 160000000)
      (exec_all (delegated_step sample_host) sample_claimed sample_rivals) \<noteq> Inr spec)"
proof -
  obtain h db' where c: "claim sample_owner ''h1'' ''tok1'' ((2026, 3, 2), 130000000) sample_checking = Inr (Some h, db')"
    using sample_claim(1) by (auto split: sum.splits)
  have d: "db' = sample_claimed" by (simp add: sample_claimed_def c)
  have w: "\<forall>c \<in> set sample_rivals. within_lease ''h1'' ''tok1'' (add_seconds 240 ((2026, 3, 2), 130000000)) c"
    using sample_claim(4) by (simp add: list_all_iff)
  have "token' = ''tok1''"
    if "read_confirmation sample_owner ''h1'' token' ((2026, 3, 2), 160000000)
      (exec_all (delegated_step sample_host) sample_claimed sample_rivals) = Inr spec" for token' spec
    using check_lease_exclusive [OF c sample_claim(3) w] that unfolding d by blast
  then show ?thesis using sample_claim(2) by (fastforce split: sum.splits)
qed

end
