(* ===== verification/Totp.thy ===== *)
theory Totp
  imports Prelude "HOL-Library.Word"
begin

text \<open>
  Time-based one-time passwords (\<open>robothor/auth/totp.py\<close>): the base32 secret, the HOTP code of a
  counter, and the step a presented code matches. HMAC-SHA-1 is the parameter \<open>mac\<close> (key, then
  message); the base32 codec of the standard library is written out. The clock is an integer of
  microseconds.
\<close>

unbundle bit_operations_syntax

type_synonym byte = "8 word"
type_synonym mac = "byte list \<Rightarrow> byte list \<Rightarrow> byte list"

section \<open>Digits in a base, most significant first\<close>

fun to_base :: "nat \<Rightarrow> nat \<Rightarrow> nat \<Rightarrow> nat list" where
  "to_base b 0 v = []"
| "to_base b (Suc n) v = to_base b n (v div b) @ [v mod b]"

definition from_base :: "nat \<Rightarrow> nat list \<Rightarrow> nat" where
  "from_base b ds = foldl (\<lambda>acc d. acc * b + d) 0 ds"

lemma length_to_base [simp]: "length (to_base b n v) = n"
  by (induction n arbitrary: v) auto

lemma from_base_snoc [simp]: "from_base b (ds @ [d]) = from_base b ds * b + d"
  by (simp add: from_base_def)

lemma from_base_Nil [simp]: "from_base b [] = 0"
  by (simp add: from_base_def)

lemma to_base_less: "0 < b \<Longrightarrow> d \<in> set (to_base b n v) \<Longrightarrow> d < b"
  by (induction n arbitrary: v) auto

lemma from_base_bound:
  assumes "\<forall>d \<in> set ds. d < b"
  shows "from_base b ds < b ^ length ds"
  using assms
proof (induction ds rule: rev_induct)
  case Nil
  then show ?case by simp
next
  case (snoc d ds)
  then have "from_base b ds + 1 \<le> b ^ length ds" and d: "d < b" by auto
  then have "(from_base b ds + 1) * b \<le> b ^ length ds * b" by (intro mult_le_mono1)
  then show ?case using d by (simp add: algebra_simps)
qed

lemma from_to_base: "0 < b \<Longrightarrow> v < b ^ n \<Longrightarrow> from_base b (to_base b n v) = v"
proof (induction n arbitrary: v)
  case 0
  then show ?case by simp
next
  case (Suc n)
  then have "v div b < b ^ n" by (simp add: less_mult_imp_div_less mult.commute)
  then show ?case using Suc by simp
qed

lemma to_from_base: "\<forall>d \<in> set ds. d < b \<Longrightarrow> to_base b (length ds) (from_base b ds) = ds"
  by (induction ds rule: rev_induct) auto

section \<open>Base32 of the standard library\<close>

definition b32_alphabet :: string where
  "b32_alphabet = ''ABCDEFGHIJKLMNOPQRSTUVWXYZ234567''"

definition b32_char :: "nat \<Rightarrow> char" where
  "b32_char d = b32_alphabet ! d"

text \<open>\<open>_b32rev\<close>: the value of a character of the alphabet.\<close>

definition b32_rev :: "char \<Rightarrow> nat option" where
  "b32_rev c = (let n = (of_char c :: nat) in
     if 65 \<le> n \<and> n \<le> 90 then Some (n - 65)
     else if 50 \<le> n \<and> n \<le> 55 then Some (n - 24) else None)"

definition bytes_nat :: "byte list \<Rightarrow> nat" where
  "bytes_nat bs = from_base 256 (map unat bs)"

definition nat_bytes :: "nat \<Rightarrow> nat \<Rightarrow> byte list" where
  "nat_bytes n v = map of_nat (to_base 256 n v)"

text \<open>Five bytes at a time, the last group filled up with zero bytes.\<close>

fun quanta :: "nat \<Rightarrow> 'a list \<Rightarrow> 'a list list" where
  "quanta k xs = (if xs = [] \<or> k = 0 then [] else take k xs # quanta k (drop k xs))"

declare quanta.simps [simp del]

definition encode_quantum :: "byte list \<Rightarrow> string" where
  "encode_quantum q = map b32_char (to_base 32 8 (bytes_nat q))"

definition pad_count :: "nat \<Rightarrow> nat" where
  "pad_count leftover =
     (if leftover = 1 then 6 else if leftover = 2 then 4 else if leftover = 3 then 3
      else if leftover = 4 then 1 else 0)"

definition b32encode :: "byte list \<Rightarrow> string" where
  "b32encode s =
     (let leftover = length s mod 5;
          padded = (if leftover = 0 then s else s @ replicate (5 - leftover) 0);
          encoded = concat (map encode_quantum (quanta 5 padded));
          n = pad_count leftover
      in take (length encoded - n) encoded @ replicate n CHR ''='')"

fun decode_digits :: "string \<Rightarrow> nat list option" where
  "decode_digits [] = Some []"
| "decode_digits (c # cs) =
     (case b32_rev c of None \<Rightarrow> None | Some d \<Rightarrow> map_option ((#) d) (decode_digits cs))"

fun decode_quanta :: "string list \<Rightarrow> byte list option" where
  "decode_quanta [] = Some []"
| "decode_quanta (q # qs) =
     (case decode_digits q of
        None \<Rightarrow> None
      | Some ds \<Rightarrow> map_option ((@) (nat_bytes 5 (from_base 32 ds))) (decode_quanta qs))"

definition strip_padding :: "string \<Rightarrow> string" where
  "strip_padding s = rev (dropWhile (\<lambda>c. c = CHR ''='') (rev s))"

text \<open>
  \<open>binascii.Error\<close> is a ValueError, and the input is in capitals already. The last group, which is short by the padding, is shifted up
  and its last bytes are dropped.
\<close>

definition b32decode :: "string \<Rightarrow> byte list result" where
  "b32decode s =
     (if \<not> is_ascii s then Inl ValueError
      else if length s mod 8 \<noteq> 0 then Inl ValueError
      else let body = strip_padding s; padchars = length s - length body in
        (case decode_quanta (quanta 8 body) of
           None \<Rightarrow> Inl ValueError
         | Some decoded \<Rightarrow>
             if padchars \<notin> {0, 1, 3, 4, 6} then Inl ValueError
             else if padchars \<noteq> 0 \<and> decoded \<noteq> [] then
               (let v = bytes_nat (drop (length decoded - 5) decoded) * 2 ^ (5 * padchars)
                in Inr (take (length decoded - 5) decoded @
                        take ((43 - 5 * padchars) div 8) (nat_bytes 5 v)))
             else Inr decoded))"

section \<open>Secrets and codes\<close>

definition DIGITS :: nat where "DIGITS = 6"
definition PERIOD :: int where "PERIOD = 30"
definition SECRET_BYTES :: nat where "SECRET_BYTES = 20"

text \<open>The random bytes are an argument.\<close>

definition new_secret :: "byte list \<Rightarrow> string" where
  "new_secret random = b32encode (take SECRET_BYTES random)"

text \<open>
  \<open>str.upper()\<close>: the sharp s becomes two letters. The micro sign and the y with diaeresis, whose
  capitals are not among these code points, stay: neither form is ASCII.
\<close>

definition py_upper :: "string \<Rightarrow> string" where
  "py_upper s = concat (map (\<lambda>c. let n = (of_char c :: nat) in
     if (97 \<le> n \<and> n \<le> 122) \<or> (224 \<le> n \<and> n \<le> 254 \<and> n \<noteq> 247) then [char_of (n - 32)]
     else if n = 223 then ''SS'' else [c]) s)"

definition clean_secret :: "string \<Rightarrow> string" where
  "clean_secret secret =
     py_upper (filter (\<lambda>c. c \<noteq> CHR '' '' \<and> c \<noteq> CHR ''-'') (py_strip secret))"

definition decode_secret :: "string \<Rightarrow> byte list result" where
  "decode_secret secret =
     (let cleaned = clean_secret secret in
      if cleaned = [] then Inl ValueError
      else b32decode (cleaned @ replicate (nat (- int (length cleaned) mod 8)) CHR ''=''))"

text \<open>\<open>struct.pack(">Q", counter)\<close> and \<open>struct.unpack(">I", four_bytes)\<close>.\<close>

definition pack_u64 :: "int \<Rightarrow> byte list result" where
  "pack_u64 counter =
     (if counter < 0 \<or> 2 ^ 64 \<le> counter then Inl StructError else Inr (nat_bytes 8 (nat counter)))"

definition unpack_u32 :: "byte list \<Rightarrow> 32 word result" where
  "unpack_u32 bs = (if length bs \<noteq> 4 then Inl StructError else Inr (of_nat (bytes_nat bs)))"

definition hotp_of_digest :: "byte list \<Rightarrow> nat \<Rightarrow> string result" where
  "hotp_of_digest digest digits =
     (let offset = unat (digest ! (length digest - 1) AND 0x0F) in
      bind_result (unpack_u32 (take 4 (drop offset digest))) (\<lambda>w.
        let truncated = unat (w AND 0x7FFFFFFF)
        in Inr (pad_zeros digits (show_nat (truncated mod 10 ^ digits)))))"

definition hotp :: "mac \<Rightarrow> byte list \<Rightarrow> int \<Rightarrow> nat \<Rightarrow> string result" where
  "hotp mac key counter digits =
     bind_result (pack_u64 counter) (\<lambda>msg. hotp_of_digest (mac key msg) digits)"

text \<open>\<open>int(moment) // period\<close>: truncated to whole seconds, then divided rounding down.\<close>

definition whole_seconds :: "int \<Rightarrow> int" where
  "whole_seconds t = sgn t * (\<bar>t\<bar> div 1000000)"

definition time_counter :: "int \<Rightarrow> int \<Rightarrow> int result" where
  "time_counter t period =
     (if period = 0 then Inl ZeroDivisionError else Inr (whole_seconds t div period))"

definition generate :: "mac \<Rightarrow> string \<Rightarrow> int \<Rightarrow> nat \<Rightarrow> int \<Rightarrow> string result" where
  "generate mac secret t digits period =
     bind_result (decode_secret secret) (\<lambda>key.
       bind_result (time_counter t period) (\<lambda>counter. hotp mac key counter digits))"

text \<open>\<open>str.isdigit()\<close> on these code points: it also holds of the superscripts one, two and three.\<close>

definition py_isdigit :: "string \<Rightarrow> bool" where
  "py_isdigit s = (s \<noteq> [] \<and>
     list_all (\<lambda>c. is_digit c \<or> (of_char c :: nat) \<in> {178, 179, 185}) s)"

text \<open>\<open>hmac.compare_digest\<close> of two texts raises on a non-ASCII one.\<close>

definition compare_digest :: "string \<Rightarrow> string \<Rightarrow> bool result" where
  "compare_digest a b =
     (if is_ascii a \<and> is_ascii b then Inr (a = b) else Inl TypeError)"

definition compare_step ::
  "mac \<Rightarrow> byte list \<Rightarrow> nat \<Rightarrow> string \<Rightarrow> int \<Rightarrow> int option \<Rightarrow> int option result" where
  "compare_step mac key digits candidate step found =
     (if step < 0 then Inr found
      else bind_result (hotp mac key step digits) (\<lambda>code.
        bind_result (compare_digest code candidate) (\<lambda>same.
          Inr (if same then Some step else found))))"

fun scan_steps ::
  "mac \<Rightarrow> byte list \<Rightarrow> nat \<Rightarrow> string \<Rightarrow> int list \<Rightarrow> int option \<Rightarrow> int option result" where
  "scan_steps mac key digits candidate [] found = Inr found"
| "scan_steps mac key digits candidate (step # steps) found =
     bind_result (compare_step mac key digits candidate step found)
       (scan_steps mac key digits candidate steps)"

definition matching_step ::
  "mac \<Rightarrow> string \<Rightarrow> string option \<Rightarrow> int \<Rightarrow> int \<Rightarrow> nat \<Rightarrow> int \<Rightarrow> int option result" where
  "matching_step mac secret code window t digits period =
     (let candidate = py_strip (case code of None \<Rightarrow> [] | Some c \<Rightarrow> c) in
      if length candidate \<noteq> digits \<or> \<not> py_isdigit candidate then Inr None
      else (case decode_secret secret of
              Inl _ \<Rightarrow> Inr None
            | Inr key \<Rightarrow>
                bind_result (time_counter t period) (\<lambda>counter.
                  scan_steps mac key digits candidate
                    (map (\<lambda>drift. counter + drift) [- window..window]) None)))"

definition verify ::
  "mac \<Rightarrow> string \<Rightarrow> string option \<Rightarrow> int \<Rightarrow> int \<Rightarrow> nat \<Rightarrow> int \<Rightarrow> bool result" where
  "verify mac secret code window t digits period =
     bind_result (matching_step mac secret code window t digits period)
       (\<lambda>found. Inr (found \<noteq> None))"

section \<open>The provisioning URI\<close>

text \<open>\<open>urllib.parse.quote\<close> of UTF-8, and \<open>urlencode\<close>, which writes a space as a plus sign.\<close>

definition url_safe :: "char \<Rightarrow> bool" where
  "url_safe c = (let n = (of_char c :: nat) in
     is_digit c \<or> (65 \<le> n \<and> n \<le> 90) \<or> (97 \<le> n \<and> n \<le> 122) \<or> c \<in> set ''_.-~'')"

definition hex_digit :: "nat \<Rightarrow> char" where
  "hex_digit d = (if d < 10 then char_of (48 + d) else char_of (55 + d))"

definition percent :: "nat \<Rightarrow> string" where
  "percent b = [CHR ''%'', hex_digit (b div 16 mod 16), hex_digit (b mod 16)]"

definition utf8_percent :: "char \<Rightarrow> string" where
  "utf8_percent c = (let n = (of_char c :: nat) in
     if n < 128 then percent n else percent (192 + n div 64) @ percent (128 + n mod 64))"

definition url_quote :: "string \<Rightarrow> string \<Rightarrow> string" where
  "url_quote safe s = concat (map (\<lambda>c. if url_safe c \<or> c \<in> set safe then [c] else utf8_percent c) s)"

definition quote_plus :: "string \<Rightarrow> string" where
  "quote_plus s = concat (map (\<lambda>c. if c = CHR '' '' then ''+'' else url_quote [] [c]) s)"

definition provisioning_uri :: "string \<Rightarrow> string \<Rightarrow> string \<Rightarrow> string" where
  "provisioning_uri secret email issuer =
     (let label = url_quote [] issuer @ '':'' @ url_quote ''@'' email;
          query = ''secret='' @ quote_plus secret @ ''&issuer='' @ quote_plus issuer
            @ ''&algorithm=SHA1&digits='' @ show_nat DIGITS @ ''&period='' @ show_int PERIOD
      in ''otpauth://totp/'' @ label @ ''?'' @ query)"

text \<open>An address cannot smuggle a parameter: the label ends at the only question mark before the query.\<close>

lemma hex_digit_safe: "d < 16 \<Longrightarrow> url_safe (hex_digit d)"
  by (auto simp: url_safe_def hex_digit_def is_digit_def Let_def of_char_of take_bit_nat_def)

lemma url_quote_chars:
  assumes "c \<in> set (url_quote safe s)"
  shows "url_safe c \<or> c \<in> set safe \<or> c = CHR ''%''"
  using assms
  by (auto simp: url_quote_def utf8_percent_def percent_def Let_def hex_digit_safe split: if_splits)

lemma label_not_escaped:
  "CHR ''?'' \<notin> set (url_quote ''@'' email)" "CHR ''&'' \<notin> set (url_quote ''@'' email)"
  "CHR '':'' \<notin> set (url_quote ''@'' email)"
  using url_quote_chars [of "CHR ''?''" "''@''" email] url_quote_chars [of "CHR ''&''" "''@''" email]
    url_quote_chars [of "CHR '':''" "''@''" email]
  by (auto simp: url_safe_def is_digit_def Let_def)

section \<open>The secret comes back\<close>

lemma b32_table:
  "list_all (\<lambda>d. b32_rev (b32_char d) = Some d \<and> is_ascii [b32_char d] \<and> \<not> is_space (b32_char d)
     \<and> b32_char d \<noteq> CHR ''='' \<and> b32_char d \<noteq> CHR '' '' \<and> b32_char d \<noteq> CHR ''-''
     \<and> py_upper [b32_char d] = [b32_char d]) [0..<32]"
  by code_simp

definition b32_clean :: "char \<Rightarrow> bool" where
  "b32_clean c = (is_ascii [c] \<and> \<not> is_space c \<and> c \<noteq> CHR ''='' \<and> c \<noteq> CHR '' '' \<and> c \<noteq> CHR ''-''
     \<and> py_upper [c] = [c])"

lemma b32_char_facts:
  assumes "d < 32"
  shows "b32_rev (b32_char d) = Some d" "b32_clean (b32_char d)"
  using b32_table assms by (auto simp: list_all_iff b32_clean_def)

lemma b32_clean_text:
  assumes "\<forall>c \<in> set s. b32_clean c"
  shows "is_ascii s" "clean_secret s = s" "strip_padding s = s"
proof -
  show "is_ascii s" using assms by (auto simp: is_ascii_def b32_clean_def list_all_iff)
  have "py_upper s = s"
    using assms by (induction s) (auto simp: py_upper_def b32_clean_def Let_def)
  moreover have "py_strip s = s" by (rule strip_no_space) (use assms in \<open>auto simp: b32_clean_def\<close>)
  moreover have "filter (\<lambda>c. c \<noteq> CHR '' '' \<and> c \<noteq> CHR ''-'') s = s"
    using assms by (auto simp: b32_clean_def filter_id_conv)
  ultimately show "clean_secret s = s" by (simp add: clean_secret_def)
  have "dropWhile (\<lambda>c. c = CHR ''='') t = t" if t: "\<forall>c \<in> set t. b32_clean c" for t
    using t by (cases t) (auto simp: b32_clean_def)
  then show "strip_padding s = s" using assms by (simp add: strip_padding_def)
qed

lemma quanta_concat:
  assumes "0 < k" "\<forall>q \<in> set qs. length q = k"
  shows "quanta k (concat qs) = qs"
  using assms(2)
proof (induction qs)
  case Nil
  then show ?case by (simp add: quanta.simps)
next
  case (Cons q qs)
  then have "q \<noteq> []" using assms(1) by auto
  then show ?case using Cons assms(1) by (subst quanta.simps) simp
qed

lemma quanta_split:
  assumes "0 < k" "k dvd length xs"
  shows "concat (quanta k xs) = xs" "\<forall>q \<in> set (quanta k xs). length q = k"
proof -
  have "concat (quanta k xs) = xs \<and> (\<forall>q \<in> set (quanta k xs). length q = k)"
    using assms
  proof (induction k xs rule: quanta.induct)
    case (1 k xs)
    show ?case
    proof (cases "xs = []")
      case True
      then show ?thesis by (simp add: quanta.simps)
    next
      case False
      then have le: "k \<le> length xs" using 1(3) by (simp add: dvd_imp_le)
      then have "k dvd length (drop k xs)" using 1(3) by simp
      then have IH: "concat (quanta k (drop k xs)) = drop k xs"
          "\<forall>q \<in> set (quanta k (drop k xs)). length q = k" using 1 False by blast+
      have eq: "quanta k xs = take k xs # quanta k (drop k xs)"
        using False 1(2) by (subst quanta.simps) simp
      have "length (take k xs) = k" using le by simp
      then show ?thesis unfolding eq list.set using IH by (auto simp only: concat.simps append_take_drop_id)
    qed
  qed
  then show "concat (quanta k xs) = xs" "\<forall>q \<in> set (quanta k xs). length q = k" by auto
qed

lemma decode_digits_chars:
  "\<forall>d \<in> set ds. d < 32 \<Longrightarrow> decode_digits (map b32_char ds) = Some ds"
  by (induction ds) (auto simp: b32_char_facts)

lemma unat_byte: "unat (b :: byte) < 256"
  using unsigned_less [of b] by simp

lemma nat_bytes_nat: "nat_bytes (length bs) (bytes_nat bs) = bs"
proof -
  have b: "\<forall>d \<in> set (map unat bs). d < 256" by (auto intro: unat_byte)
  have "to_base 256 (length bs) (from_base 256 (map unat bs)) = map unat bs"
    using to_from_base [OF b] by simp
  then show ?thesis by (simp add: nat_bytes_def bytes_nat_def comp_def)
qed

lemma bytes_nat_bound: "bytes_nat bs < 256 ^ length bs"
proof -
  have "\<forall>d \<in> set (map unat bs). d < 256" by (auto intro: unat_byte)
  then show ?thesis using from_base_bound [of "map unat bs" 256] by (simp add: bytes_nat_def)
qed

lemma decode_encode_quanta:
  "\<forall>q \<in> set qs. length q = 5 \<Longrightarrow> decode_quanta (map encode_quantum qs) = Some (concat qs)"
proof (induction qs)
  case Nil
  then show ?case by simp
next
  case (Cons q qs)
  have "bytes_nat q < 32 ^ 8" using bytes_nat_bound [of q] Cons.prems by simp
  then have "from_base 32 (to_base 32 8 (bytes_nat q)) = bytes_nat q" by (simp add: from_to_base)
  moreover have "nat_bytes 5 (bytes_nat q) = q" using nat_bytes_nat [of q] Cons.prems by simp
  moreover have "\<forall>d \<in> set (to_base 32 8 (bytes_nat q)). d < 32"
    using to_base_less [of 32 _ 8 "bytes_nat q"] by auto
  ultimately show ?case
    using Cons by (simp add: encode_quantum_def decode_digits_chars)
qed

lemma encode_quantum_facts:
  "length (encode_quantum q) = 8" "\<forall>c \<in> set (encode_quantum q). b32_clean c"
  using to_base_less [of 32 _ 8 "bytes_nat q"] by (auto simp: encode_quantum_def b32_char_facts)

lemma secret_roundtrip:
  assumes "bs \<noteq> []" "5 dvd length bs"
  shows "decode_secret (b32encode bs) = Inr bs"
proof -
  define qs where "qs = quanta 5 bs"
  define s where "s = concat (map encode_quantum qs)"
  have qs: "concat qs = bs" "\<forall>q \<in> set qs. length q = 5"
    unfolding qs_def by (rule quanta_split; use assms in simp)+
  have enc: "b32encode bs = s" using assms(2) by (simp add: b32encode_def pad_count_def s_def qs_def)
  have clean: "\<forall>c \<in> set s. b32_clean c" using encode_quantum_facts(2) by (auto simp: s_def)
  note facts = b32_clean_text [OF clean]
  have len: "length s = 8 * length qs"
    by (simp add: s_def length_concat comp_def encode_quantum_facts(1) sum_list_triv)
  have "qs \<noteq> []" using qs assms by auto
  then have ne: "s \<noteq> []" using len by auto
  have "quanta 8 s = map encode_quantum qs"
    unfolding s_def by (rule quanta_concat) (auto simp: encode_quantum_facts)
  then have dec: "decode_quanta (quanta 8 s) = Some bs"
    using decode_encode_quanta [OF qs(2)] qs(1) by simp
  have "b32decode s = Inr bs" using facts len dec by (simp add: b32decode_def Let_def)
  moreover have "- int (length s) mod 8 = 0" using len by simp
  ultimately show ?thesis using ne facts enc by (simp add: decode_secret_def Let_def)
qed

section \<open>The shape of a code\<close>

lemma length_show_nat: "v < 10 ^ d \<Longrightarrow> 0 < d \<Longrightarrow> length (show_nat v) \<le> d"
proof (induction d arbitrary: v)
  case 0
  then show ?case by simp
next
  case (Suc d)
  show ?case
  proof (cases "v < 10")
    case True
    then show ?thesis by (subst show_nat.simps) simp
  next
    case False
    then have "0 < d" using Suc.prems by (cases d) auto
    moreover have "v div 10 < 10 ^ d" using Suc.prems by (simp add: less_mult_imp_div_less mult.commute)
    ultimately have "length (show_nat (v div 10)) \<le> d" using Suc.IH by blast
    then show ?thesis using False by (subst show_nat.simps) simp
  qed
qed

definition code_text :: "nat \<Rightarrow> string \<Rightarrow> bool" where
  "code_text d c = (length c = d \<and> list_all is_digit c)"

lemma pad_zeros_code:
  assumes "v < 10 ^ d" "0 < d"
  shows "code_text d (pad_zeros d (show_nat v))"
proof -
  have "list_all is_digit (show_nat v)" using show_nat_digits by (auto simp: list_all_iff)
  moreover have "is_digit CHR ''0''" by (simp add: is_digit_def)
  ultimately show ?thesis
    using length_show_nat [OF assms] by (auto simp: code_text_def pad_zeros_def list_all_iff)
qed

lemma hotp_of_digest_total:
  assumes "length digest = 20" "0 < d"
  shows "\<exists>c. hotp_of_digest digest d = Inr c \<and> code_text d c"
proof -
  define off where "off = unat (digest ! 19 AND 0x0F)"
  have "digest ! 19 AND 0x0F \<le> 0x0F" by (rule word_and_le1)
  then have "off \<le> 15" by (simp add: off_def word_le_nat_alt)
  then have "length (take 4 (drop off digest)) = 4" using assms by simp
  then show ?thesis
    using assms by (simp add: hotp_of_digest_def unpack_u32_def pad_zeros_code flip: off_def)
qed

lemma hotp_total:
  assumes "\<And>k m. length (mac k m) = 20" "0 < d" "0 \<le> n" "n < 2 ^ 64"
  obtains c where "hotp mac key n d = Inr c" "code_text d c"
  using hotp_of_digest_total [of "mac key (nat_bytes 8 (nat n))" d] assms
  by (auto simp: hotp_def pack_u64_def)

lemma code_text_facts:
  assumes "code_text d c"
  shows "is_ascii c" "py_strip c = c" "0 < d \<Longrightarrow> py_isdigit c" "length c = d"
proof -
  show "is_ascii c" using assms by (auto simp: code_text_def is_ascii_def list_all_iff is_digit_def)
  show "py_strip c = c"
    by (rule strip_no_space) (use assms in \<open>auto simp: code_text_def list_all_iff is_digit_not_space\<close>)
  show "0 < d \<Longrightarrow> py_isdigit c" "length c = d"
    using assms by (auto simp: code_text_def py_isdigit_def list_all_iff)
qed

section \<open>The step a code matches\<close>

definition step_matches :: "mac \<Rightarrow> byte list \<Rightarrow> nat \<Rightarrow> string \<Rightarrow> int \<Rightarrow> bool" where
  "step_matches mac key digits candidate step =
     (0 \<le> step \<and> hotp mac key step digits = Inr candidate)"

lemma scan_steps_ascii:
  assumes "\<And>k m. length (mac k m) = 20" "0 < d" "is_ascii candidate" "\<forall>s \<in> set steps. s < 2 ^ 64"
  shows "scan_steps mac key d candidate steps found =
           Inr (foldl (\<lambda>f s. if step_matches mac key d candidate s then Some s else f) found steps)"
  using assms(4)
proof (induction steps arbitrary: found)
  case Nil
  then show ?case by simp
next
  case (Cons s steps)
  show ?case
  proof (cases "s < 0")
    case True
    then show ?thesis using Cons by (simp add: compare_step_def step_matches_def)
  next
    case False
    obtain c where c: "hotp mac key s d = Inr c" "code_text d c"
      using hotp_total [where mac = mac and d = d and n = s and key = key, OF assms(1,2)] False Cons.prems by force
    then have "compare_step mac key d candidate s found =
        Inr (if step_matches mac key d candidate s then Some s else found)"
      using False assms(3) code_text_facts(1) [OF c(2)]
      by (simp add: compare_step_def compare_digest_def step_matches_def)
    then show ?thesis using Cons by simp
  qed
qed

lemma foldl_last_match:
  "foldl (\<lambda>f s. if P s then Some s else f) found xs =
     (case filter P xs of [] \<Rightarrow> found | ys \<Rightarrow> Some (List.last ys))"
  by (induction xs arbitrary: found) (auto split: list.splits)

lemma last_filter_upto:
  fixes c w :: int
  defines "xs \<equiv> map (\<lambda>drift. c + drift) [- w..w]"
  shows "(case filter P xs of [] \<Rightarrow> None | ys \<Rightarrow> Some (List.last ys)) = Some n \<longleftrightarrow>
           P n \<and> \<bar>n - c\<bar> \<le> w \<and> (\<forall>m. P m \<and> \<bar>m - c\<bar> \<le> w \<longrightarrow> m \<le> n)"
proof -
  have set: "set (filter P xs) = {m. P m \<and> \<bar>m - c\<bar> \<le> w}"
    by (auto simp: xs_def image_iff intro!: bexI [of _ "m - c" for m])
  have "sorted xs" unfolding xs_def
    by (rule sorted_map [THEN iffD2], rule sorted_wrt_mono_rel [OF _ sorted_upto]) auto
  then have sorted: "sorted (filter P xs)" by (simp add: sorted_wrt_filter)
  have max: "m \<le> List.last ys" if "sorted ys" "m \<in> set ys" for ys :: "int list" and m
    using that by (induction ys) auto
  show ?thesis
  proof (cases "filter P xs = []")
    case True
    then have "{m. P m \<and> \<bar>m - c\<bar> \<le> w} = {}" using set by simp
    then show ?thesis using True by auto
  next
    case False
    define l where "l = List.last (filter P xs)"
    have l: "l \<in> set (filter P xs)" "\<And>m. m \<in> set (filter P xs) \<Longrightarrow> m \<le> l"
      using last_in_set [OF False] max [OF sorted] by (simp_all only: l_def)
    have "(case filter P xs of [] \<Rightarrow> None | ys \<Rightarrow> Some (List.last ys)) = Some l"
      using False by (auto simp: l_def split: list.splits)
    moreover have "l = n \<longleftrightarrow> n \<in> set (filter P xs) \<and> (\<forall>m \<in> set (filter P xs). m \<le> n)"
      using l by (meson order_antisym)
    ultimately show ?thesis unfolding set by auto
  qed
qed

text \<open>
  On a plain (ASCII) code \<open>matching_step\<close> does not raise, and it returns a step exactly when
  the step is not negative, at most \<open>window\<close> steps from the clock, has this code under the secret,
  and is the latest such step; an unusable secret or a malformed code gives no step.
\<close>

lemma totp_latest:
  assumes mac: "\<And>k m. length (mac k m) = 20"
    and d: "0 < digits" and p: "period \<noteq> 0"
    and ascii: "is_ascii code"
    and range: "whole_seconds t div period + window < 2 ^ 64"
  shows "\<exists>found. matching_step mac secret (Some code) window t digits period = Inr found \<and>
    (\<forall>n. found = Some n \<longleftrightarrow>
       (\<exists>key. decode_secret secret = Inr key \<and>
          step_matches mac key digits (py_strip code) n \<and>
          \<bar>n - whole_seconds t div period\<bar> \<le> window \<and>
          (\<forall>m. step_matches mac key digits (py_strip code) m \<and>
                \<bar>m - whole_seconds t div period\<bar> \<le> window \<longrightarrow> m \<le> n)))"
proof -
  define cand where "cand = py_strip code"
  define c where "c = whole_seconds t div period"
  have cand: "is_ascii cand" using ascii
    by (auto simp: cand_def py_strip_def is_ascii_def list_all_iff dest!: set_dropWhileD)
  have digits: "length cand = digits \<and> py_isdigit cand" if m: "step_matches mac key digits cand n" "n < 2 ^ 64" for key n
  proof -
    obtain x where x: "hotp mac key n digits = Inr x" "code_text digits x"
      using hotp_total [where mac = mac and d = digits and n = n and key = key, OF mac d] m by (auto simp: step_matches_def)
    then have "x = cand" using m by (simp add: step_matches_def)
    then show ?thesis using code_text_facts(3,4) [OF x(2)] d by simp
  qed
  show ?thesis
  proof (cases "length cand = digits \<and> py_isdigit cand")
    case False
    have "\<not> step_matches mac key digits cand n" if r: "\<bar>n - c\<bar> \<le> window" for key n
    proof -
      have "n \<le> c + window" using r by linarith
      then have "n < 2 ^ 64" using range unfolding c_def by linarith
      then show ?thesis using digits [of key n] False by blast
    qed
    then show ?thesis using False
      by (auto simp: matching_step_def cand_def c_def)
  next
    case True
    show ?thesis
    proof (cases "decode_secret secret")
      case (Inl e)
      then show ?thesis using True by (auto simp: matching_step_def cand_def)
    next
      case (Inr key)
      define xs where "xs = map (\<lambda>drift. c + drift) [- window..window]"
      have "\<forall>s \<in> set xs. s < 2 ^ 64" using range by (auto simp: xs_def c_def)
      note scan = scan_steps_ascii [where mac = mac and key = key and found = None, OF mac d cand this]
      have "matching_step mac secret (Some code) window t digits period =
          Inr (case filter (step_matches mac key digits cand) xs of [] \<Rightarrow> None | ys \<Rightarrow> Some (List.last ys))"
        using True Inr scan p
        by (simp add: matching_step_def time_counter_def Let_def foldl_last_match
                 flip: cand_def c_def xs_def)
      then show ?thesis
        using Inr last_filter_upto [of "step_matches mac key digits cand" c window]
        by (simp flip: cand_def c_def xs_def)
    qed
  qed
qed

text \<open>A toy in place of HMAC, for concrete runs: the low byte of the message in a zero digest.\<close>

definition toy_mac :: mac where
  "toy_mac key msg = [0, 0, 0, case rev msg of [] \<Rightarrow> 0 | b # _ \<Rightarrow> b] @ replicate 16 0"

definition toy_secret :: string where
  "toy_secret = ''AAAAAAAAAAAAAAAAAAAAAAAAAAAAAAAA''"

lemma toy_mac_length: "length (toy_mac k m) = 20"
  by (simp add: toy_mac_def)

lemma toy_secret: "decode_secret toy_secret = Inr (replicate 20 0)"
  by code_simp

lemma to_base_zero: "to_base b n 0 = replicate n 0"
  by (induction n) (auto simp: replicate_append_same)

lemma to_base_small: "v < b \<Longrightarrow> to_base b (Suc n) v = replicate n 0 @ [v]"
  by (simp add: to_base_zero)

lemma toy_code:
  assumes "b < 256"
  shows "hotp toy_mac key (int b) 6 = Inr (pad_zeros 6 (show_nat b))"
proof -
  have "nat_bytes (Suc 7) b = replicate 7 0 @ [of_nat b]"
    unfolding nat_bytes_def to_base_small [OF assms] by simp
  then have mac: "toy_mac key (nat_bytes 8 b) = [0, 0, 0, of_nat b] @ replicate 16 0"
    by (simp add: toy_mac_def)
  have "unat (of_nat b :: byte) = b" using assms by (simp add: unat_of_nat)
  then have "bytes_nat [0, 0, 0, of_nat b] = b" by (simp add: bytes_nat_def from_base_def)
  then have u: "unpack_u32 [0, 0, 0, of_nat b] = Inr (of_nat b)" by (simp add: unpack_u32_def)
  have m: "(0x7FFFFFFF :: 32 word) = mask 31" by (simp add: mask_eq_decr_exp)
  have "unat (take_bit 31 (of_nat b :: 32 word)) = b"
    using assms by (simp add: unsigned_take_bit_eq unat_of_nat take_bit_nat_def)
  then have "unat (of_nat b AND 0x7FFFFFFF :: 32 word) = b" by (simp only: m take_bit_eq_mask)
  moreover have "b mod 10 ^ 6 = b" using assms by simp
  ultimately have "hotp_of_digest ([0, 0, 0, of_nat b] @ replicate 16 0) 6 = Inr (pad_zeros 6 (show_nat b))"
    using u by (simp add: hotp_of_digest_def Let_def del: power_numeral)
  then show ?thesis using assms mac by (simp add: hotp_def pack_u64_def)
qed

lemma toy_matches:
  assumes "0 \<le> n" "n < 256"
  shows "step_matches toy_mac key 6 c n \<longleftrightarrow> c = pad_zeros 6 (show_nat (nat n))"
  using toy_code [of "nat n" key] assms by (auto simp: step_matches_def)

text \<open>
  On a plain (ASCII) code \<open>matching_step\<close> does not raise, and it returns a step exactly when
  the step is not negative, at most \<open>window\<close> steps from the clock, has this code under the secret,
  and is the latest such step; an unusable secret or a malformed code gives no step.
\<close>

theorem totp_latest_match:
  assumes "\<And>k m. length (mac k m) = 20" "0 < digits" "period \<noteq> 0" "is_ascii code"
    "whole_seconds t div period + window < 2 ^ 64"
  shows "\<exists>found. matching_step mac secret (Some code) window t digits period = Inr found \<and>
    (\<forall>n. found = Some n \<longleftrightarrow>
       (\<exists>key. decode_secret secret = Inr key \<and>
          step_matches mac key digits (py_strip code) n \<and>
          \<bar>n - whole_seconds t div period\<bar> \<le> window \<and>
          (\<forall>m. step_matches mac key digits (py_strip code) m \<and>
                \<bar>m - whole_seconds t div period\<bar> \<le> window \<longrightarrow> m \<le> n)))"
  by (rule totp_latest [OF assms])

theorem totp_latest_match_witness:
  "matching_step toy_mac toy_secret (Some '' 000003 '') 1 95000000 6 30 = Inr (Some 3)"
proof -
  have ws: "whole_seconds 95000000 = 95" by (simp add: whole_seconds_def)
  have p: "py_strip '' 000003 '' = ''000003''" "pad_zeros 6 (show_nat 3) = ''000003''" by code_simp+
  have "step_matches toy_mac (replicate 20 0) 6 ''000003'' 3"
    using toy_matches [of 3 "replicate 20 0" "''000003''"] p by simp
  moreover have "m \<le> 3" if m: "step_matches toy_mac (replicate 20 0) 6 ''000003'' m" "\<bar>m - 3\<bar> \<le> 1" for m
  proof -
    have "m \<in> {2, 3, 4}" using m(2) by auto
    moreover have "pad_zeros 6 (show_nat 4) \<noteq> ''000003''" by code_simp
    ultimately show ?thesis using toy_matches [of 4 "replicate 20 0" "''000003''"] m(1) by auto
  qed
  ultimately show ?thesis
    using totp_latest_match [where mac = toy_mac and digits = 6 and period = 30 and code = "'' 000003 ''"
          and t = 95000000 and window = 1 and secret = toy_secret, OF toy_mac_length]
    by (auto simp: ws p toy_secret is_ascii_def)
qed

lemma generated_code_matches:
  assumes mac: "\<And>k m. length (mac k m) = 20"
    and random: "20 \<le> length random"
    and clock: "0 \<le> whole_seconds t div 30" "whole_seconds t div 30 < 2 ^ 64"
      "whole_seconds t' div 30 + window < 2 ^ 64"
    and near: "\<bar>whole_seconds t div 30 - whole_seconds t' div 30\<bar> \<le> window"
  obtains code n where "generate mac (new_secret random) t 6 30 = Inr code" "code_text 6 code"
    "matching_step mac (new_secret random) (Some code) window t' 6 30 = Inr (Some n)"
    "whole_seconds t div 30 \<le> n"
proof -
  define key where "key = take 20 random"
  have "length key = 20" using random by (simp add: key_def)
  then have "key \<noteq> []" "5 dvd length key" by auto
  then have dec: "decode_secret (new_secret random) = Inr key"
    using secret_roundtrip [of key] by (simp add: new_secret_def SECRET_BYTES_def key_def)
  obtain code where c: "hotp mac key (whole_seconds t div 30) 6 = Inr code" "code_text 6 code"
    using hotp_total [where mac = mac and d = 6 and key = key, OF mac _ clock(1,2)] by auto
  note f = code_text_facts [OF c(2)]
  define M where "M n = (step_matches mac key 6 code n \<and> \<bar>n - whole_seconds t' div 30\<bar> \<le> window)" for n
  have "M (whole_seconds t div 30)" using c clock near by (simp add: M_def step_matches_def)
  moreover have "finite {n. M n}"
    by (rule finite_subset [of _ "{whole_seconds t' div 30 - window..whole_seconds t' div 30 + window}"])
       (auto simp: M_def)
  ultimately have max: "M (Max {n. M n})" "\<forall>m. M m \<longrightarrow> m \<le> Max {n. M n}"
      "whole_seconds t div 30 \<le> Max {n. M n}"
    using Max_in [of "{n. M n}"] by (auto intro: Max_ge)
  obtain found where "matching_step mac (new_secret random) (Some code) window t' 6 30 = Inr found"
    "\<forall>n. found = Some n \<longleftrightarrow> M n \<and> (\<forall>m. M m \<longrightarrow> m \<le> n)"
    using totp_latest [where mac = mac and digits = 6 and secret = "new_secret random", OF mac _ _ f(1) clock(3)]
      dec f(2) by (auto simp: M_def)
  with max have "matching_step mac (new_secret random) (Some code) window t' 6 30 = Inr (Some (Max {n. M n}))"
    by auto
  moreover have "generate mac (new_secret random) t 6 30 = Inr code"
    using dec c by (simp add: generate_def time_counter_def)
  ultimately show thesis using that c(2) max(3) by blast
qed

text \<open>
  C39: The code generated from a new secret is six decimal digits, and verifying it under the same
  secret succeeds whenever the two clocks are at most \<open>window\<close> steps apart.
\<close>

theorem totp_accepts_generated:
  assumes mac: "\<And>k m. length (mac k m) = 20"
    and random: "20 \<le> length random"
    and clock: "0 \<le> whole_seconds t div 30" "whole_seconds t div 30 < 2 ^ 64"
      "whole_seconds t' div 30 + window < 2 ^ 64"
    and near: "\<bar>whole_seconds t div 30 - whole_seconds t' div 30\<bar> \<le> window"
  shows "\<exists>code. generate mac (new_secret random) t DIGITS PERIOD = Inr code \<and> code_text 6 code \<and>
    verify mac (new_secret random) (Some code) window t' DIGITS PERIOD = Inr True"
proof -
  obtain code n where "generate mac (new_secret random) t 6 30 = Inr code" "code_text 6 code"
    "matching_step mac (new_secret random) (Some code) window t' 6 30 = Inr (Some n)"
    by (rule generated_code_matches [where mac = mac, OF mac random clock near])
  then show ?thesis by (auto simp: DIGITS_def PERIOD_def verify_def)
qed

theorem totp_accepts_generated_witness:
  "\<exists>code. generate toy_mac (new_secret (replicate 20 7)) 95000000 DIGITS PERIOD = Inr code \<and>
     code_text 6 code \<and>
     verify toy_mac (new_secret (replicate 20 7)) (Some code) 1 121000000 DIGITS PERIOD = Inr True"
  by (rule totp_accepts_generated [OF toy_mac_length]) (simp_all add: whole_seconds_def)

section \<open>A code that makes it raise\<close>

text \<open>
  The documentation says \<open>matching_step\<close> never raises. A code with a superscript digit passes
  \<open>isdigit\<close> and its length check, and \<open>compare_digest\<close> raises TypeError on it.
\<close>

lemma scan_steps_raises:
  assumes "\<And>k m. length (mac k m) = 20" "0 < d" "\<not> is_ascii candidate"
    "\<forall>s \<in> set steps. s < 2 ^ 64" "\<exists>s \<in> set steps. 0 \<le> s"
  shows "scan_steps mac key d candidate steps found = Inl TypeError"
  using assms(4,5)
proof (induction steps arbitrary: found)
  case Nil
  then show ?case by simp
next
  case (Cons s steps)
  show ?case
  proof (cases "s < 0")
    case True
    then show ?thesis using Cons by (auto simp: compare_step_def)
  next
    case False
    obtain c where "hotp mac key s d = Inr c"
      using hotp_total [where mac = mac and d = d and n = s and key = key, OF assms(1,2)] False Cons.prems
      by force
    then show ?thesis using False assms(3) by (simp add: compare_step_def compare_digest_def)
  qed
qed

lemma superscript_code_raises:
  assumes mac: "\<And>k m. length (mac k m) = 20" and key: "decode_secret secret = Inr key"
    and clock: "0 \<le> whole_seconds t div 30" "whole_seconds t div 30 + 1 < 2 ^ 64"
  shows "matching_step mac secret (Some (replicate 6 (char_of (178 :: nat)))) 1 t 6 30 = Inl TypeError"
proof -
  have c: "py_strip (replicate 6 (char_of (178 :: nat))) = replicate 6 (char_of (178 :: nat))"
    "py_isdigit (replicate 6 (char_of (178 :: nat)))" "\<not> is_ascii (replicate 6 (char_of (178 :: nat)))"
    by code_simp+
  have "scan_steps mac key 6 (replicate 6 (char_of (178 :: nat)))
      (map (\<lambda>drift. whole_seconds t div 30 + drift) [- 1..1]) None = Inl TypeError"
    by (rule scan_steps_raises [OF mac]) (use c clock in \<open>auto simp: image_iff intro: bexI [of _ 0]\<close>)
  then show ?thesis using key c by (simp add: matching_step_def time_counter_def)
qed

end
