(* ===== verification/Auth_Tokens.thy ===== *)
theory Auth_Tokens
  imports Totp
begin

text \<open>
  Minting of access tokens and the derived successors of refresh tokens
  (\<open>robothor/auth/tokens.py\<close>), and the password primitives (\<open>passwords.py\<close>). The environment
  holds what comes from libraries: argon2, AES-GCM under the derived key, keyed and plain hashes,
  the JWT encoder with the signing key. Random values are arguments.
\<close>

record auth_env =
  totp_mac :: mac
  argon_hash :: "string \<Rightarrow> string \<Rightarrow> string"
  argon_verify :: "string \<Rightarrow> string \<Rightarrow> bool"
  argon_needs_rehash :: "string \<Rightarrow> bool"
  gcm_seal :: "string \<Rightarrow> string \<Rightarrow> string \<Rightarrow> string"
  gcm_open :: "string \<Rightarrow> string \<Rightarrow> string option"
  keyed_hash :: "string \<Rightarrow> string \<Rightarrow> nat \<Rightarrow> string"
  token_sha256 :: "string \<Rightarrow> string"
  jwt_encode :: "json \<Rightarrow> string"

section \<open>Passwords\<close>

definition hash_password :: "auth_env \<Rightarrow> string \<Rightarrow> string \<Rightarrow> string result" where
  "hash_password env salt password =
     (if password = [] then Inl ValueError else Inr (argon_hash env salt password))"

definition verify_password :: "auth_env \<Rightarrow> string \<Rightarrow> string option \<Rightarrow> bool" where
  "verify_password env password stored =
     (case stored of None \<Rightarrow> False | Some h \<Rightarrow> h \<noteq> [] \<and> argon_verify env h password)"

definition needs_rehash :: "auth_env \<Rightarrow> string \<Rightarrow> bool" where
  "needs_rehash env h = argon_needs_rehash env h"

section \<open>Sealed TOTP secrets\<close>

definition encrypt_secret :: "auth_env \<Rightarrow> string \<Rightarrow> string \<Rightarrow> string \<Rightarrow> string result" where
  "encrypt_secret env nonce plaintext user_id =
     (if plaintext = [] \<or> user_id = [] then Inl ValueError
      else Inr (gcm_seal env nonce (''genus-mfa-user:'' @ user_id) plaintext))"

definition decrypt_secret :: "auth_env \<Rightarrow> string option \<Rightarrow> string \<Rightarrow> string option" where
  "decrypt_secret env blob user_id =
     (case blob of
        None \<Rightarrow> None
      | Some b \<Rightarrow> if py_strip b = [] \<or> user_id = [] then None
                 else gcm_open env (''genus-mfa-user:'' @ user_id) (py_strip b))"

section \<open>Refresh tokens\<close>

definition ACCESS_TTL_SECONDS :: int where "ACCESS_TTL_SECONDS = 15 * 60"
definition REFRESH_TTL_SECONDS :: int where "REFRESH_TTL_SECONDS = 30 * 24 * 60 * 60"
definition REFRESH_REUSE_GRACE_SECONDS :: int where "REFRESH_REUSE_GRACE_SECONDS = 30"
definition ROTATION_CLOCK_SKEW_SECONDS :: int where "ROTATION_CLOCK_SKEW_SECONDS = 5"

definition hash_refresh_token :: "auth_env \<Rightarrow> string \<Rightarrow> string" where
  "hash_refresh_token env raw = token_sha256 env raw"

definition successor_refresh_token :: "auth_env \<Rightarrow> string \<Rightarrow> string \<times> string" where
  "successor_refresh_token env raw =
     (let successor = keyed_hash env ''genus-refresh-successor'' raw 48
      in (successor, hash_refresh_token env successor))"

definition successor_jti :: "auth_env \<Rightarrow> string \<Rightarrow> string" where
  "successor_jti env raw = keyed_hash env ''genus-refresh-successor-jti'' raw 24"

section \<open>Access tokens\<close>

definition DEFAULT_AUDIENCE :: string where "DEFAULT_AUDIENCE = ''genus-bridge''"
definition ISSUER :: string where "ISSUER = ''genus-os''"

definition HUMAN_ROLES :: "string list" where
  "HUMAN_ROLES = [''owner'', ''admin'', ''member'', ''user'', ''viewer'', ''auditor'']"

definition human_scopes :: "string \<Rightarrow> string list" where
  "human_scopes role =
     (if role = ''viewer'' then [''bridge:read'', ''engine:chat'', ''engine:read'']
      else if role = ''auditor'' then [''audit:read'', ''bridge:read'', ''engine:read'']
      else if role = ''member'' \<or> role = ''user'' then
        [''bridge:read'', ''bridge:write'', ''engine:chat'', ''engine:read'', ''engine:write'']
      else [''audit:read'', ''bridge:*'', ''engine:*'', ''tenant:admin''])"

definition default_scopes :: "string \<Rightarrow> string \<Rightarrow> string list result" where
  "default_scopes typ role =
     (if typ = ''service'' then Inr [''bridge:read'', ''bridge:write'']
      else if role \<notin> set HUMAN_ROLES then Inl ValueError
      else Inr (human_scopes role))"

definition normalize_scopes :: "string list \<Rightarrow> string list result" where
  "normalize_scopes scopes =
     (let normalized = remdups (filter (\<lambda>s. s \<noteq> []) (map py_strip scopes)) in
      if list_ex (\<lambda>s. CHR '' '' \<in> set s) normalized then Inl ValueError
      else Inr (sort normalized))"

fun join_space :: "string list \<Rightarrow> string" where
  "join_space [] = []"
| "join_space [s] = s"
| "join_space (s # t # rest) = s @ '' '' @ join_space (t # rest)"

record token_request =
  tr_user :: string
  tr_tenant :: string
  tr_role :: string
  tr_ttl :: int
  tr_typ :: string
  tr_audience :: string
  tr_scopes :: "string list"
  tr_agent :: "string option"
  tr_home :: "string option"
  tr_issued_at :: "int option"
  tr_jti :: "string option"

text \<open>\<open>x or y\<close> of an optional text.\<close>

definition or_text :: "string option \<Rightarrow> string \<Rightarrow> string" where
  "or_text x y = (case x of None \<Rightarrow> y | Some s \<Rightarrow> if s = [] then y else s)"

definition access_claims :: "token_request \<Rightarrow> int \<Rightarrow> string \<Rightarrow> json result" where
  "access_claims r now random_jti =
     (let service = (tr_typ r = ''service'');
          agent = (if service then Some (or_text (tr_agent r) (tr_user r)) else tr_agent r);
          role = (if service then or_text (Some (tr_role r)) ''service'' else tr_role r);
          home = or_text (tr_home r) (tr_tenant r);
          issued = (case tr_issued_at r of None \<Rightarrow> now | Some t \<Rightarrow> t)
      in guard (tr_typ r = ''user'' \<or> service) ValueError
        (guard (tr_user r \<noteq> [] \<and> tr_tenant r \<noteq> [] \<and> tr_audience r \<noteq> []) ValueError
        (guard (service \<or> tr_agent r = None) ValueError
        (guard (\<not> (service \<and> home \<noteq> tr_tenant r)) ValueError
        (bind_result (if tr_scopes r = [] then default_scopes (tr_typ r) role else Inr (tr_scopes r))
          (\<lambda>scopes. bind_result (normalize_scopes scopes)
          (\<lambda>normalized. guard (normalized \<noteq> []) ValueError
            (Inr (JObj ([(''sub'', JStr (tr_user r)), (''tid'', JStr (tr_tenant r)),
               (''tenant'', JStr (tr_tenant r)), (''role'', JStr role), (''typ'', JStr (tr_typ r)),
               (''type'', JStr (tr_typ r)), (''aud'', JStr (tr_audience r)),
               (''scope'', JStr (join_space normalized)), (''iss'', JStr ISSUER),
               (''jti'', JStr (or_text (tr_jti r) random_jti)), (''iat'', JInt issued),
               (''exp'', JInt (issued + tr_ttl r)), (''home_tid'', JStr home)]
               @ (if home \<noteq> tr_tenant r then [(''act'', JBool True)] else [])
               @ (case agent of None \<Rightarrow> [] | Some a \<Rightarrow> [(''agent_id'', JStr a)])))))))))))"

definition issue_access_token :: "auth_env \<Rightarrow> token_request \<Rightarrow> int \<Rightarrow> string \<Rightarrow> string result" where
  "issue_access_token env r now random_jti =
     bind_result (access_claims r now random_jti) (\<lambda>claims. Inr (jwt_encode env claims))"

definition user_token :: "string \<Rightarrow> string \<Rightarrow> string \<Rightarrow> token_request" where
  "user_token user tenant role =
     \<lparr> tr_user = user, tr_tenant = tenant, tr_role = role, tr_ttl = ACCESS_TTL_SECONDS,
       tr_typ = ''user'', tr_audience = DEFAULT_AUDIENCE, tr_scopes = [], tr_agent = None,
       tr_home = None, tr_issued_at = None, tr_jti = None \<rparr>"

definition SERVICE_TTL_SECONDS :: int where "SERVICE_TTL_SECONDS = 5 * 60"

definition service_token :: "string \<Rightarrow> string \<Rightarrow> string option \<Rightarrow> string list \<Rightarrow> token_request" where
  "service_token service_id tenant agent scopes =
     (user_token service_id tenant ''service'')
       \<lparr> tr_ttl := SERVICE_TTL_SECONDS, tr_typ := ''service'', tr_scopes := scopes,
         tr_agent := Some (or_text agent service_id) \<rparr>"

section \<open>What a user token carries\<close>

lemma scopes_table:
  "list_all (\<lambda>role. human_scopes role \<noteq> [] \<and>
     list_all (\<lambda>s. s \<noteq> [] \<and> CHR '' '' \<notin> set s \<and> py_strip s = s) (human_scopes role)) HUMAN_ROLES"
  by code_simp

lemma human_scopes_facts:
  assumes "role \<in> set HUMAN_ROLES"
  shows "human_scopes role \<noteq> []"
    "\<forall>s \<in> set (human_scopes role). s \<noteq> [] \<and> CHR '' '' \<notin> set s \<and> py_strip s = s"
  using scopes_table assms by (auto simp: list_all_iff)

text \<open>A human token of a known role is always minted.\<close>

lemma human_token_minted:
  assumes "role \<in> set HUMAN_ROLES" "user \<noteq> []" "tenant \<noteq> []"
  shows "\<exists>claims. access_claims ((user_token user tenant role) \<lparr> tr_issued_at := at, tr_ttl := ttl, tr_jti := jti \<rparr>)
            now random = Inr claims"
proof -
  have d: "default_scopes ''user'' role = Inr (human_scopes role)"
    using assms(1) by (simp add: default_scopes_def)
  note f = human_scopes_facts [OF assms(1)]
  have "normalize_scopes (human_scopes role) = Inr (sort (remdups (human_scopes role)))"
  proof -
    have "map py_strip (human_scopes role) = human_scopes role" by (rule map_idI) (use f in auto)
    moreover have "filter (\<lambda>s. s \<noteq> []) (human_scopes role) = human_scopes role"
      using f by (auto simp: filter_id_conv)
    ultimately show ?thesis using f(2) by (auto simp: normalize_scopes_def Let_def list_ex_iff)
  qed
  moreover have "sort (remdups (human_scopes role)) \<noteq> []"
    using f(1) by (metis set_empty set_remdups set_sort)
  ultimately show ?thesis
    using assms d by (simp add: access_claims_def user_token_def DEFAULT_AUDIENCE_def or_text_def Let_def)
qed

end
