(* ===== verification/Accounts.thy ===== *)
theory Accounts
  imports Auth_Tokens
begin

text \<open>
  Accounts and refresh sessions (\<open>robothor/auth/accounts.py\<close>): the two tables, the lookups of
  sign-in, session creation, rotation with its grace window, revocation, the token pair every
  sign-in path returns, and the refresh and logout routes (\<open>crm/bridge/routers/auth.py\<close>). Each
  transaction is one function; \<open>now\<close> is its clock in microseconds. Ids are texts, and fresh ones
  are arguments.
\<close>

section \<open>Tables\<close>

record account =
  a_id :: string
  a_tenant :: string
  a_email :: string
  a_display_name :: "string option"
  a_role :: string
  a_status :: string
  a_password_hash :: "string option"
  a_failed :: int
  a_locked :: "int option"
  a_mfa_enabled :: bool
  a_mfa_secret :: "string option"
  a_mfa_step :: "int option"

record session =
  s_id :: string
  s_user :: string
  s_hash :: string
  s_expires :: int
  s_revoked :: "int option"
  s_rotated_at :: "int option"
  s_rotated_to :: "string option"

record auth_db =
  accounts :: "account list"
  sessions :: "session list"

definition seconds :: "int \<Rightarrow> int" where
  "seconds n = n * 1000000"

section \<open>Lookups\<close>

text \<open>The platform tenant when the environment does not name another.\<close>

definition PLATFORM_TENANT :: string where "PLATFORM_TENANT = ''default''"

definition canonical_email :: "string option \<Rightarrow> string" where
  "canonical_email email = py_lower (py_strip (case email of None \<Rightarrow> [] | Some e \<Rightarrow> e))"

definition get_account_by_id :: "auth_db \<Rightarrow> string \<Rightarrow> account option" where
  "get_account_by_id db user = find (\<lambda>a. a_id a = user) (accounts db)"

text \<open>The column is CITEXT, so it compares without case; tenant and address are unique together.\<close>

definition get_account_by_email :: "auth_db \<Rightarrow> string \<Rightarrow> string \<Rightarrow> account option" where
  "get_account_by_email db tenant email =
     find (\<lambda>a. a_tenant a = tenant \<and> py_lower (a_email a) = py_lower (canonical_email (Some email)))
       (accounts db)"

definition has_password :: "account \<Rightarrow> bool" where
  "has_password a = (case a_password_hash a of None \<Rightarrow> False | Some h \<Rightarrow> h \<noteq> [])"

definition login_account_for_email :: "auth_db \<Rightarrow> string \<Rightarrow> account option" where
  "login_account_for_email db email =
     (let address = canonical_email (Some email);
          rows = sort_key a_tenant
            (filter (\<lambda>a. py_lower (a_email a) = py_lower address) (accounts db));
          active = filter (\<lambda>a. a_status a = ''active'') rows;
          candidates = filter has_password active
      in case candidates of
           [c] \<Rightarrow> Some c
         | _ # _ # _ \<Rightarrow> find (\<lambda>a. a_tenant a = PLATFORM_TENANT) candidates
         | [] \<Rightarrow> (case active of
             [a] \<Rightarrow> Some a
           | _ \<Rightarrow> (case rows of [r] \<Rightarrow> Some r | _ \<Rightarrow> None)))"

section \<open>Sessions\<close>

definition live :: "int \<Rightarrow> session \<Rightarrow> bool" where
  "live now s = (s_revoked s = None \<and> now < s_expires s)"

text \<open>An insert meets the foreign key to the account and the unique index on the hash.\<close>

definition insert_session :: "auth_db \<Rightarrow> session \<Rightarrow> auth_db result" where
  "insert_session db s =
     (if get_account_by_id db (s_user s) = None then Inl DbError
      else if \<exists>o' \<in> set (sessions db). s_hash o' = s_hash s \<or> s_id o' = s_id s then Inl DbError
      else Inr (db \<lparr> sessions := sessions db @ [s] \<rparr>))"

definition new_session :: "string \<Rightarrow> string \<Rightarrow> string \<Rightarrow> int \<Rightarrow> session" where
  "new_session sid user h expires =
     \<lparr> s_id = sid, s_user = user, s_hash = h, s_expires = expires, s_revoked = None,
       s_rotated_at = None, s_rotated_to = None \<rparr>"

definition create_session ::
  "auth_db \<Rightarrow> string \<Rightarrow> string \<Rightarrow> string \<Rightarrow> int \<Rightarrow> int \<Rightarrow> auth_db result" where
  "create_session db sid user h ttl now = insert_session db (new_session sid user h (now + seconds ttl))"

definition get_active_session :: "auth_db \<Rightarrow> string \<Rightarrow> int \<Rightarrow> session option" where
  "get_active_session db h now = find (\<lambda>s. s_hash s = h \<and> live now s) (sessions db)"

definition map_sessions :: "(session \<Rightarrow> bool) \<Rightarrow> (session \<Rightarrow> session) \<Rightarrow> auth_db \<Rightarrow> auth_db" where
  "map_sessions P f db = db \<lparr> sessions := map (\<lambda>s. if P s then f s else s) (sessions db) \<rparr>"

record rotation =
  rot_user :: string
  rot_at :: int
  rot_replayed :: bool

text \<open>The row a replay is answered from.\<close>

definition replay_row :: "auth_db \<Rightarrow> string \<Rightarrow> string \<Rightarrow> int \<Rightarrow> int \<Rightarrow> session option" where
  "replay_row db h successor grace now =
     find (\<lambda>old. s_hash old = h
        \<and> (case s_rotated_at old of None \<Rightarrow> False | Some t \<Rightarrow> now - seconds grace < t)
        \<and> list_ex (\<lambda>new. s_rotated_to old = Some (s_id new) \<and> s_hash new = successor
              \<and> s_user new = s_user old \<and> live now new) (sessions db))
      (sessions db)"

definition rotate_session ::
  "auth_db \<Rightarrow> string \<Rightarrow> string \<Rightarrow> string \<Rightarrow> int \<Rightarrow> int \<Rightarrow> int \<Rightarrow> (rotation option \<times> auth_db) result" where
  "rotate_session db sid h successor ttl grace now =
     (case get_active_session db h now of
        Some spent \<Rightarrow>
          (let db1 = map_sessions (\<lambda>s. s_hash s = h \<and> live now s)
                 (\<lambda>s. s \<lparr> s_revoked := Some now, s_rotated_at := Some now \<rparr>) db in
           case get_account_by_id db1 (s_user spent) of
             None \<Rightarrow> Inr (None, db1)
           | Some a \<Rightarrow>
               if a_status a \<noteq> ''active'' then Inr (None, db1)
               else (case insert_session db1 (new_session sid (a_id a) successor (now + seconds ttl)) of
                       Inl e \<Rightarrow> Inl e
                     | Inr db2 \<Rightarrow>
                         Inr (Some \<lparr> rot_user = s_user spent, rot_at = now, rot_replayed = False \<rparr>,
                              map_sessions (\<lambda>s. s_id s = s_id spent)
                                (\<lambda>s. s \<lparr> s_rotated_to := Some sid \<rparr>) db2)))
      | None \<Rightarrow>
          (case replay_row db h successor grace now of
             None \<Rightarrow> Inr (None, db)
           | Some old \<Rightarrow>
               Inr (Some \<lparr> rot_user = s_user old,
                      rot_at = (case s_rotated_at old of None \<Rightarrow> now | Some t \<Rightarrow> t),
                      rot_replayed = True \<rparr>, db)))"

text \<open>The answers are how many rows were revoked.\<close>

definition revoke_where :: "(session \<Rightarrow> bool) \<Rightarrow> int \<Rightarrow> auth_db \<Rightarrow> int \<times> auth_db" where
  "revoke_where P now db =
     (int (length (filter (\<lambda>s. P s \<and> s_revoked s = None) (sessions db))),
      map_sessions (\<lambda>s. P s \<and> s_revoked s = None) (\<lambda>s. s \<lparr> s_revoked := Some now \<rparr>) db)"

definition revoke_user_sessions ::
  "auth_db \<Rightarrow> string \<Rightarrow> string option \<Rightarrow> int \<Rightarrow> int \<times> auth_db" where
  "revoke_user_sessions db user except_hash now =
     revoke_where (\<lambda>s. s_user s = user \<and>
       (case except_hash of None \<Rightarrow> True | Some h \<Rightarrow> h = [] \<or> s_hash s \<noteq> h)) now db"

definition revoke_session :: "auth_db \<Rightarrow> string \<Rightarrow> int \<Rightarrow> bool \<times> auth_db" where
  "revoke_session db h now =
     (let r = revoke_where (\<lambda>s. s_hash s = h) now db in (0 < fst r, snd r))"

section \<open>Token pairs\<close>

record token_pair =
  tp_access :: string
  tp_refresh :: string
  tp_account :: "string \<times> string \<times> string option \<times> string \<times> string"

text \<open>\<open>AccountInactiveError\<close> is a RuntimeError. \<open>rotated_at\<close> is in whole seconds.\<close>

definition make_token_pair ::
  "auth_env \<Rightarrow> account \<Rightarrow> string \<Rightarrow> int option \<Rightarrow> string option \<Rightarrow> int \<Rightarrow> string \<Rightarrow> token_pair result" where
  "make_token_pair env a refresh rotated_at jti now random_jti =
     guard (a_status a = ''active'') RuntimeError
       (let request = (user_token (a_id a) (a_tenant a) (a_role a))
              \<lparr> tr_issued_at := map_option (\<lambda>t. t - ROTATION_CLOCK_SKEW_SECONDS) rotated_at,
                tr_ttl := (case rotated_at of None \<Rightarrow> ACCESS_TTL_SECONDS
                           | Some _ \<Rightarrow> ACCESS_TTL_SECONDS + ROTATION_CLOCK_SKEW_SECONDS),
                tr_jti := jti \<rparr>
        in bind_result (issue_access_token env request (whole_seconds now) random_jti) (\<lambda>access.
             Inr \<lparr> tp_access = access, tp_refresh = refresh,
                   tp_account = (a_id a, a_email a, a_display_name a, a_role a, a_tenant a) \<rparr>))"

text \<open>The pair is minted before the session is stored.\<close>

definition issue_for_account ::
  "auth_env \<Rightarrow> auth_db \<Rightarrow> account \<Rightarrow> string \<Rightarrow> string \<Rightarrow> string \<Rightarrow> int \<Rightarrow> (token_pair \<times> auth_db) result" where
  "issue_for_account env db a raw sid random_jti now =
     bind_result (make_token_pair env a raw None None now random_jti) (\<lambda>pair.
       bind_result (create_session db sid (a_id a) (hash_refresh_token env raw) REFRESH_TTL_SECONDS now)
         (\<lambda>db'. Inr (pair, db')))"

text \<open>
  The refresh route: \<open>None\<close> is the 401. The rotation commits before the account is read, so an
  exception after it leaves the token spent; the state is returned beside the answer. A keyed
  hash is never empty, so no random identifier is drawn here.
\<close>

definition refresh_route ::
  "auth_env \<Rightarrow> auth_db \<Rightarrow> string \<Rightarrow> string \<Rightarrow> int \<Rightarrow> token_pair option result \<times> auth_db" where
  "refresh_route env db raw sid now =
     (let successor = successor_refresh_token env raw in
      case rotate_session db sid (hash_refresh_token env raw) (snd successor)
             REFRESH_TTL_SECONDS REFRESH_REUSE_GRACE_SECONDS now of
        Inl e \<Rightarrow> (Inl e, db)
      | Inr (None, db') \<Rightarrow> (Inr None, db')
      | Inr (Some r, db') \<Rightarrow>
          (case get_account_by_id db' (rot_user r) of
             None \<Rightarrow> (Inr None, db')
           | Some a \<Rightarrow>
               if a_status a \<noteq> ''active'' then (Inr None, db')
               else (bind_result (make_token_pair env a (fst successor) (Some (whole_seconds (rot_at r)))
                       (Some (successor_jti env raw)) now []) (\<lambda>pair. Inr (Some pair)), db')))"

definition logout_route :: "auth_env \<Rightarrow> auth_db \<Rightarrow> string \<Rightarrow> int \<Rightarrow> bool \<times> auth_db" where
  "logout_route env db raw now = revoke_session db (hash_refresh_token env raw) now"

section \<open>Runs of session commands\<close>

datatype session_cmd =
    Refresh string string int
  | Logout string int
  | RevokeUser string "string option" int
  | SignedIn string string string string int
  | SetAccount account

text \<open>\<open>SignedIn\<close> is a sign-in path that issues for the account of the given id.\<close>

fun session_step :: "auth_env \<Rightarrow> auth_db \<Rightarrow> session_cmd \<Rightarrow> auth_db result" where
  "session_step env db (Refresh raw sid now) = Inr (snd (refresh_route env db raw sid now))"
| "session_step env db (Logout raw now) = Inr (snd (logout_route env db raw now))"
| "session_step env db (RevokeUser user exc now) = Inr (snd (revoke_user_sessions db user exc now))"
| "session_step env db (SignedIn user raw sid jti now) =
     (case get_account_by_id db user of
        None \<Rightarrow> Inl RuntimeError
      | Some a \<Rightarrow> map_sum id snd (issue_for_account env db a raw sid jti now))"
| "session_step env db (SetAccount a) =
     Inr (db \<lparr> accounts := map (\<lambda>o'. if a_id o' = a_id a then a else o') (accounts db) \<rparr>)"

definition sessions_ok :: "auth_db \<Rightarrow> bool" where
  "sessions_ok db \<longleftrightarrow> distinct (map s_hash (sessions db)) \<and> distinct (map s_id (sessions db)) \<and>
     (\<forall>s \<in> set (sessions db). s_rotated_at s \<noteq> None \<longrightarrow> s_revoked s \<noteq> None)"

text \<open>
  Rows stay in place with their identity, and a revoked row never changes again.
\<close>

definition row_kept :: "session \<Rightarrow> session \<Rightarrow> bool" where
  "row_kept s t \<longleftrightarrow> s_id t = s_id s \<and> s_hash t = s_hash s \<and> s_user t = s_user s \<and>
     s_expires t = s_expires s \<and> (s_revoked s \<noteq> None \<longrightarrow> t = s)"

definition rows_kept :: "auth_db \<Rightarrow> auth_db \<Rightarrow> bool" where
  "rows_kept db db' \<longleftrightarrow>
     (\<exists>ts rest. sessions db' = ts @ rest \<and> list_all2 row_kept (sessions db) ts)"

definition unrevoked :: "string \<Rightarrow> auth_db \<Rightarrow> nat" where
  "unrevoked user db = length (filter (\<lambda>s. s_user s = user \<and> s_revoked s = None) (sessions db))"

lemma row_kept_refl [simp]: "row_kept s s"
  by (simp add: row_kept_def)

lemma row_kept_trans: "row_kept s t \<Longrightarrow> row_kept t u \<Longrightarrow> row_kept s u"
  by (auto simp: row_kept_def)

lemma rows_keptI: "sessions db' = map f (sessions db) @ rest \<Longrightarrow> (\<And>s. s \<in> set (sessions db) \<Longrightarrow> row_kept s (f s)) \<Longrightarrow> rows_kept db db'"
  unfolding rows_kept_def
  by (rule exI [of _ "map f (sessions db)"], rule exI [of _ rest]) (auto simp: list_all2_conv_all_nth)

lemma rows_kept_refl [simp]: "rows_kept db db"
  using rows_keptI [of db "\<lambda>s. s" db "[]"] by simp

lemma rows_kept_same: "sessions db' = sessions db \<Longrightarrow> rows_kept db db'"
  using rows_keptI [of db' "\<lambda>s. s" db "[]"] by simp

lemma rows_kept_trans:
  assumes "rows_kept db db'" "rows_kept db' db''"
  shows "rows_kept db db''"
proof -
  obtain ts rest where t: "sessions db' = ts @ rest" "list_all2 row_kept (sessions db) ts"
    using assms(1) by (auto simp: rows_kept_def)
  obtain us rest' where u: "sessions db'' = us @ rest'" "list_all2 row_kept (ts @ rest) us"
    using assms(2) t(1) by (auto simp: rows_kept_def)
  obtain us1 us2 where us: "us = us1 @ us2" "list_all2 row_kept ts us1"
    using u(2) by (auto simp: list_all2_append1)
  have "list_all2 row_kept (sessions db) us1"
    by (rule list_all2_trans [OF _ t(2) us(2)]) (rule row_kept_trans)
  then show ?thesis using u(1) us(1) by (auto simp: rows_kept_def)
qed

lemma rows_kept_row:
  assumes "rows_kept db db'" "s \<in> set (sessions db)"
  obtains t where "t \<in> set (sessions db')" "row_kept s t"
proof -
  obtain ts rest where t: "sessions db' = ts @ rest" "list_all2 row_kept (sessions db) ts"
    using assms(1) by (auto simp: rows_kept_def)
  obtain i where i: "i < length (sessions db)" "sessions db ! i = s"
    using assms(2) by (auto simp: in_set_conv_nth)
  then have "row_kept s (ts ! i)" "ts ! i \<in> set ts"
    using t(2) by (auto simp: list_all2_conv_all_nth)
  then show thesis using that t(1) by auto
qed

lemma sessions_ok_hash:
  assumes "sessions_ok db" "s \<in> set (sessions db)" "t \<in> set (sessions db)"
  shows "s_hash s = s_hash t \<Longrightarrow> s = t" "s_id s = s_id t \<Longrightarrow> s = t"
  using assms by (auto simp: sessions_ok_def distinct_map inj_on_def)

lemma insert_session_ok:
  assumes "insert_session db n = Inr db'"
  shows "sessions db' = sessions db @ [n]" "accounts db' = accounts db"
    "sessions_ok db \<Longrightarrow> s_rotated_at n = None \<Longrightarrow> sessions_ok db'" "s_id n \<notin> s_id ` set (sessions db)"
    "s_hash n \<notin> s_hash ` set (sessions db)"
  using assms by (auto simp: insert_session_def sessions_ok_def image_iff split: if_splits) metis+

text \<open>What a rotation does to the table.\<close>

definition spend :: "session \<Rightarrow> int \<Rightarrow> string option \<Rightarrow> session list \<Rightarrow> session list" where
  "spend spent now successor ss =
     map (\<lambda>s. if s = spent
        then spent \<lparr> s_revoked := Some now, s_rotated_at := Some now, s_rotated_to := successor \<rparr> else s) ss"

lemma spend_keys [simp]:
  "map s_id (spend spent now successor ss) = map s_id ss"
  "map s_hash (spend spent now successor ss) = map s_hash ss"
  by (auto simp: spend_def)

lemma rotate_fresh:
  assumes ok: "sessions_ok db" and spent: "get_active_session db h now = Some spent"
    and rot: "rotate_session db sid h successor ttl grace now = Inr (r, db')"
  shows "spent \<in> set (sessions db)" "s_hash spent = h" "live now spent" "accounts db' = accounts db"
    "(r = None \<and> sessions db' = spend spent now (s_rotated_to spent) (sessions db)) \<or>
     (r = Some \<lparr> rot_user = s_user spent, rot_at = now, rot_replayed = False \<rparr> \<and>
      sessions db' = spend spent now (Some sid) (sessions db) @
        [new_session sid (s_user spent) successor (now + seconds ttl)] \<and>
      successor \<notin> s_hash ` set (sessions db) \<and> sid \<notin> s_id ` set (sessions db))"
proof -
  show sp: "spent \<in> set (sessions db)" "s_hash spent = h" "live now spent"
    using spent by (auto simp: get_active_session_def find_Some_iff)
  have eq: "s_hash s = h \<and> live now s \<longleftrightarrow> s = spent" if "s \<in> set (sessions db)" for s
    using sessions_ok_hash(1) [OF ok that sp(1)] sp by auto
  define db1 where "db1 = map_sessions (\<lambda>s. s_hash s = h \<and> live now s)
      (\<lambda>s. s \<lparr> s_revoked := Some now, s_rotated_at := Some now \<rparr>) db"
  have one: "sessions db1 = spend spent now (s_rotated_to spent) (sessions db)" "accounts db1 = accounts db"
    unfolding db1_def map_sessions_def spend_def using eq by (auto intro!: map_cong)
  have ids: "s_id ` set (sessions db1) = s_id ` set (sessions db)"
      "s_hash ` set (sessions db1) = s_hash ` set (sessions db)"
    unfolding one(1) by (metis list.set_map spend_keys)+
  have link: "map (\<lambda>s. if s_id s = s_id spent then s \<lparr> s_rotated_to := Some sid \<rparr> else s) (sessions db1) =
      spend spent now (Some sid) (sessions db)"
    unfolding one(1) spend_def map_map comp_def
    by (rule map_cong) (use sessions_ok_hash(2) [OF ok _ sp(1)] in auto)
  show "accounts db' = accounts db" "(r = None \<and> sessions db' = spend spent now (s_rotated_to spent) (sessions db)) \<or>
     (r = Some \<lparr> rot_user = s_user spent, rot_at = now, rot_replayed = False \<rparr> \<and>
      sessions db' = spend spent now (Some sid) (sessions db) @
        [new_session sid (s_user spent) successor (now + seconds ttl)] \<and>
      successor \<notin> s_hash ` set (sessions db) \<and> sid \<notin> s_id ` set (sessions db))"
  proof -
    consider (refused) "r = None" "db' = db1"
      | (ok) a db2 where "get_account_by_id db1 (s_user spent) = Some a"
          "insert_session db1 (new_session sid (a_id a) successor (now + seconds ttl)) = Inr db2"
          "r = Some \<lparr> rot_user = s_user spent, rot_at = now, rot_replayed = False \<rparr>"
          "db' = map_sessions (\<lambda>s. s_id s = s_id spent) (\<lambda>s. s \<lparr> s_rotated_to := Some sid \<rparr>) db2"
      using rot spent by (auto simp: rotate_session_def Let_def split: option.splits if_splits sum.splits
          simp flip: db1_def)
    note cases = this
    show "accounts db' = accounts db"
      using cases
    proof cases
      case refused
      then show ?thesis by (simp add: one(2))
    next
      case (ok a db2)
      then show ?thesis using insert_session_ok(2) [OF ok(2)] one(2) by (simp add: map_sessions_def)
    qed
    show "(r = None \<and> sessions db' = spend spent now (s_rotated_to spent) (sessions db)) \<or>
     (r = Some \<lparr> rot_user = s_user spent, rot_at = now, rot_replayed = False \<rparr> \<and>
      sessions db' = spend spent now (Some sid) (sessions db) @
        [new_session sid (s_user spent) successor (now + seconds ttl)] \<and>
      successor \<notin> s_hash ` set (sessions db) \<and> sid \<notin> s_id ` set (sessions db))"
      using cases
    proof cases
      case refused
      then show ?thesis by (simp add: one(1))
    next
      case (ok a db2)
      have a: "a_id a = s_user spent"
        using ok(1) by (auto simp: get_account_by_id_def find_Some_iff)
      have fresh: "sid \<notin> s_id ` set (sessions db)" "successor \<notin> s_hash ` set (sessions db)"
        using insert_session_ok(4,5) [OF ok(2)] unfolding ids by (simp_all add: new_session_def)
      then have "sid \<noteq> s_id spent" using sp(1) by auto
      then show ?thesis
        using ok(3,4) insert_session_ok(1) [OF ok(2)] link a fresh
        by (simp add: map_sessions_def new_session_def)
    qed
  qed
qed

lemma rotate_replay:
  assumes "get_active_session db h now = None"
    and "rotate_session db sid h successor ttl grace now = Inr (r, db')"
  shows "db' = db" "r = (case replay_row db h successor grace now of None \<Rightarrow> None
     | Some old \<Rightarrow> Some \<lparr> rot_user = s_user old,
         rot_at = (case s_rotated_at old of None \<Rightarrow> now | Some t \<Rightarrow> t), rot_replayed = True \<rparr>)"
  using assms by (auto simp: rotate_session_def split: option.splits)

lemma rotate_laws:
  assumes ok: "sessions_ok db"
    and rot: "rotate_session db sid h successor ttl grace now = Inr (r, db')"
  shows "sessions_ok db'" "rows_kept db db'" "unrevoked user db' \<le> unrevoked user db"
    "accounts db' = accounts db"
proof -
  have "sessions_ok db' \<and> rows_kept db db' \<and> unrevoked user db' \<le> unrevoked user db \<and> accounts db' = accounts db"
  proof (cases "get_active_session db h now")
    case None
    then show ?thesis using rotate_replay(1) [OF None rot] ok by simp
  next
    case (Some spent)
    note f = rotate_fresh [OF ok Some rot]
    have kept: "row_kept s (if s = spent then spent \<lparr> s_revoked := Some now, s_rotated_at := Some now, s_rotated_to := x \<rparr> else s)" for s x
      using f(3) by (auto simp: row_kept_def live_def)
    have less: "length (filter (\<lambda>s. s_user s = user \<and> s_revoked s = None) (spend spent now x ss)) +
        (if s_user spent = user then length (filter (\<lambda>s. s = spent) ss) else 0) =
        length (filter (\<lambda>s. s_user s = user \<and> s_revoked s = None) ss)" for x ss
      using f(3) by (induction ss) (auto simp: spend_def live_def)
    have "filter (\<lambda>s. s = spent) (sessions db) \<noteq> []"
      using f(1) by (auto simp: filter_empty_conv)
    then have pos: "1 \<le> length (filter (\<lambda>s. s = spent) (sessions db))"
      by (cases "filter (\<lambda>s. s = spent) (sessions db)") auto
    have "unrevoked user db' \<le> unrevoked user db"
      using f(5)
    proof
      assume "r = None \<and> sessions db' = spend spent now (s_rotated_to spent) (sessions db)"
      then have "unrevoked user db' = length (filter (\<lambda>s. s_user s = user \<and> s_revoked s = None)
          (spend spent now (s_rotated_to spent) (sessions db)))" by (simp add: unrevoked_def)
      then show ?thesis
        using less [of "s_rotated_to spent" "sessions db"] unfolding unrevoked_def by linarith
    next
      assume "r = Some \<lparr> rot_user = s_user spent, rot_at = now, rot_replayed = False \<rparr> \<and>
        sessions db' = spend spent now (Some sid) (sessions db) @
          [new_session sid (s_user spent) successor (now + seconds ttl)] \<and>
        successor \<notin> s_hash ` set (sessions db) \<and> sid \<notin> s_id ` set (sessions db)"
      then have "unrevoked user db' = length (filter (\<lambda>s. s_user s = user \<and> s_revoked s = None)
          (spend spent now (Some sid) (sessions db))) + (if s_user spent = user then 1 else 0)"
        by (simp add: unrevoked_def new_session_def)
      then show ?thesis
        using less [of "Some sid" "sessions db"] pos unfolding unrevoked_def by (simp split: if_splits)
    qed
    moreover have "\<forall>s \<in> set (spend spent now x (sessions db)). s_rotated_at s \<noteq> None \<longrightarrow> s_revoked s \<noteq> None" for x
      using ok by (auto simp: sessions_ok_def spend_def)
    then have "sessions_ok db'"
      using f(5) ok by (auto simp: sessions_ok_def new_session_def)
    moreover have "rows_kept db db'"
    proof -
      obtain x rest where "sessions db' = spend spent now x (sessions db) @ rest" using f(5) by (metis append_Nil2)
      then show ?thesis unfolding spend_def by (rule rows_keptI) (rule kept)
    qed
    ultimately show ?thesis using f(4) by simp
  qed
  then show "sessions_ok db'" "rows_kept db db'" "unrevoked user db' \<le> unrevoked user db"
    "accounts db' = accounts db" by auto
qed

lemma revoke_where_laws:
  "sessions_ok db \<Longrightarrow> sessions_ok (snd (revoke_where P now db))"
  "rows_kept db (snd (revoke_where P now db))"
  "unrevoked user (snd (revoke_where P now db)) \<le> unrevoked user db"
  "accounts (snd (revoke_where P now db)) = accounts db"
proof -
  define f where "f s = (if P s \<and> s_revoked s = None then s \<lparr> s_revoked := Some now \<rparr> else s)" for s
  have ss: "sessions (snd (revoke_where P now db)) = map f (sessions db)"
    by (simp add: revoke_where_def map_sessions_def f_def)
  have keys: "s_id \<circ> f = s_id" "s_hash \<circ> f = s_hash" by (auto simp: f_def)
  show "sessions_ok db \<Longrightarrow> sessions_ok (snd (revoke_where P now db))"
    by (auto simp: sessions_ok_def ss keys f_def)
  show "rows_kept db (snd (revoke_where P now db))"
    by (rule rows_keptI [of _ f _ "[]"]) (auto simp: ss f_def row_kept_def)
  have "length (filter (\<lambda>s. s_user s = user \<and> s_revoked s = None) (map f xs)) \<le>
      length (filter (\<lambda>s. s_user s = user \<and> s_revoked s = None) xs)" for xs
    by (induction xs) (auto simp: f_def)
  then show "unrevoked user (snd (revoke_where P now db)) \<le> unrevoked user db"
    by (simp add: unrevoked_def ss)
  show "accounts (snd (revoke_where P now db)) = accounts db"
    by (simp add: revoke_where_def map_sessions_def)
qed

definition is_sign_in :: "session_cmd \<Rightarrow> bool" where
  "is_sign_in c = (case c of SignedIn _ _ _ _ _ \<Rightarrow> True | _ \<Rightarrow> False)"

lemma refresh_db:
  "snd (refresh_route env db raw sid now) = db \<or>
   (\<exists>r. rotate_session db sid (hash_refresh_token env raw) (snd (successor_refresh_token env raw))
      REFRESH_TTL_SECONDS REFRESH_REUSE_GRACE_SECONDS now = Inr (r, snd (refresh_route env db raw sid now)))"
proof (cases "rotate_session db sid (hash_refresh_token env raw) (snd (successor_refresh_token env raw))
      REFRESH_TTL_SECONDS REFRESH_REUSE_GRACE_SECONDS now")
  case (Inl e)
  then show ?thesis by (simp add: refresh_route_def Let_def)
next
  case (Inr p)
  obtain r db' where p: "p = (r, db')" by (cases p)
  have "snd (refresh_route env db raw sid now) = db'"
    using Inr p by (cases r) (auto simp: refresh_route_def Let_def split: option.splits)
  then show ?thesis using Inr p by simp
qed

lemma session_step_laws:
  assumes ok: "sessions_ok db" and step: "session_step env db c = Inr db'"
  shows "sessions_ok db'" "rows_kept db db'" "\<not> is_sign_in c \<Longrightarrow> unrevoked user db' \<le> unrevoked user db"
proof -
  have "sessions_ok db' \<and> rows_kept db db' \<and> (\<not> is_sign_in c \<longrightarrow> unrevoked user db' \<le> unrevoked user db)"
  proof (cases c)
    case (Refresh raw sid now)
    then have db': "db' = snd (refresh_route env db raw sid now)" using step by simp
    show ?thesis
      using refresh_db [of env db raw sid now] rotate_laws [OF ok] ok unfolding db' by (metis order_refl rows_kept_refl)
  next
    case (Logout raw now)
    then show ?thesis using step revoke_where_laws ok
      by (auto simp: logout_route_def revoke_session_def Let_def)
  next
    case (RevokeUser u exc now)
    then show ?thesis using step revoke_where_laws ok by (auto simp: revoke_user_sessions_def)
  next
    case (SignedIn u raw sid jti now)
    then obtain a pair where a: "issue_for_account env db a raw sid jti now = Inr (pair, db')"
      using step by (auto split: option.splits)
    obtain n where n: "insert_session db n = Inr db'" "s_rotated_at n = None"
      using a by (auto simp: issue_for_account_def create_session_def new_session_def)
    show ?thesis
      using insert_session_ok [OF n(1)] n(2) ok SignedIn rows_keptI [of db' "\<lambda>s. s" db "[n]"] by (simp add: is_sign_in_def)
  next
    case (SetAccount a)
    then have "sessions db' = sessions db" using step by auto
    then show ?thesis using ok by (simp add: sessions_ok_def unrevoked_def rows_kept_same)
  qed
  then show "sessions_ok db'" "rows_kept db db'" "\<not> is_sign_in c \<Longrightarrow> unrevoked user db' \<le> unrevoked user db"
    by auto
qed

interpretation session_run: guarded_machine "session_step env" sessions_ok rows_kept "\<lambda>_. True" for env
  by unfold_locales (auto dest: session_step_laws intro: rows_kept_trans)

interpretation session_count: guarded_machine "session_step env" sessions_ok
    "\<lambda>db db'. unrevoked user db' \<le> unrevoked user db" "\<lambda>c. \<not> is_sign_in c" for env user
  by unfold_locales (auto dest: session_step_laws)

section \<open>Signed out stays out\<close>

text \<open>A pair is handed out only together with a live session of its account.\<close>

lemma make_token_pair_account:
  assumes "make_token_pair env a raw at jti now random = Inr pair"
  shows "fst (tp_account pair) = a_id a" "tp_refresh pair = raw" "a_status a = ''active''"
  using assms by (auto simp: make_token_pair_def Let_def)

lemma refresh_pair_cases:
  assumes "fst (refresh_route env db raw sid now) = Inr (Some pair)"
  obtains r a where
    "rotate_session db sid (hash_refresh_token env raw) (snd (successor_refresh_token env raw))
       REFRESH_TTL_SECONDS REFRESH_REUSE_GRACE_SECONDS now = Inr (Some r, snd (refresh_route env db raw sid now))"
    "get_account_by_id (snd (refresh_route env db raw sid now)) (rot_user r) = Some a"
    "make_token_pair env a (fst (successor_refresh_token env raw)) (Some (whole_seconds (rot_at r)))
       (Some (successor_jti env raw)) now [] = Inr pair"
proof (cases "rotate_session db sid (hash_refresh_token env raw) (snd (successor_refresh_token env raw))
      REFRESH_TTL_SECONDS REFRESH_REUSE_GRACE_SECONDS now")
  case (Inl e)
  then show thesis using assms by (simp add: refresh_route_def Let_def)
next
  case (Inr p)
  obtain r db' where p: "p = (r, db')" by (cases p)
  with assms Inr obtain r' where r: "r = Some r'"
    by (cases r) (auto simp: refresh_route_def Let_def)
  have "snd (refresh_route env db raw sid now) = db'"
    using Inr p r by (auto simp: refresh_route_def Let_def split: option.splits)
  then show thesis using that assms Inr p r
    by (auto simp: refresh_route_def Let_def split: option.splits if_splits)
qed

lemma rotation_leaves_live:
  assumes ok: "sessions_ok db"
    and rot: "rotate_session db sid h successor ttl grace now = Inr (Some r, db')"
  shows "0 < unrevoked (rot_user r) db'"
proof -
  have "\<exists>s \<in> set (sessions db'). s_user s = rot_user r \<and> s_revoked s = None"
  proof (cases "get_active_session db h now")
    case None
    then obtain old where old: "replay_row db h successor grace now = Some old" "rot_user r = s_user old" "db' = db"
      using rotate_replay [OF None rot] by (auto split: option.splits)
    then show ?thesis
      by (auto simp: replay_row_def find_Some_iff list_ex_iff live_def)
  next
    case (Some spent)
    then show ?thesis using rotate_fresh(5) [OF ok Some rot] by (auto simp: new_session_def)
  qed
  then show ?thesis by (auto simp: unrevoked_def filter_empty_conv)
qed

lemma revoke_user_all: "unrevoked user (snd (revoke_user_sessions db user None now)) = 0"
proof -
  have "filter (\<lambda>s. s_user s = user \<and> s_revoked s = None)
      (map (\<lambda>s. if s_user s = user \<and> s_revoked s = None then s \<lparr> s_revoked := Some now \<rparr> else s) xs) = []" for xs
    by (induction xs) auto
  then show ?thesis
    by (simp add: unrevoked_def revoke_user_sessions_def revoke_where_def map_sessions_def)
qed

text \<open>
  C36: After every session of an account is revoked, no refresh token yields a pair for that account,
  replays inside the grace window included, whatever commands run, until a sign-in path issues a
  session again.
\<close>

theorem revoked_user_stays_out:
  assumes ok: "sessions_ok db"
    and no_sign_in: "\<forall>c \<in> set cs. \<not> is_sign_in c"
    and run: "db' = exec_all (session_step env) (snd (revoke_user_sessions db user None t)) cs"
    and pair: "fst (refresh_route env db' raw sid now) = Inr (Some pair)"
  shows "fst (tp_account pair) \<noteq> user"
proof
  assume user: "fst (tp_account pair) = user"
  define db0 where "db0 = snd (revoke_user_sessions db user None t)"
  have ok0: "sessions_ok db0"
    using revoke_where_laws(1) [OF ok] by (simp add: db0_def revoke_user_sessions_def)
  have ok': "sessions_ok db'"
    using session_run.run_inv [OF ok0] by (simp add: run db0_def)
  have none: "unrevoked user db' = 0"
    using session_count.run_rel [OF ok0 no_sign_in, of user env] revoke_user_all by (simp add: run db0_def)
  obtain r a where r: "rotate_session db' sid (hash_refresh_token env raw) (snd (successor_refresh_token env raw))
       REFRESH_TTL_SECONDS REFRESH_REUSE_GRACE_SECONDS now = Inr (Some r, snd (refresh_route env db' raw sid now))"
     and a: "get_account_by_id (snd (refresh_route env db' raw sid now)) (rot_user r) = Some a"
     and m: "make_token_pair env a (fst (successor_refresh_token env raw)) (Some (whole_seconds (rot_at r)))
       (Some (successor_jti env raw)) now [] = Inr pair"
    using refresh_pair_cases [OF pair] by blast
  have "rot_user r = user"
    using a make_token_pair_account(1) [OF m] user by (auto simp: get_account_by_id_def find_Some_iff)
  then show False
    using rotation_leaves_live [OF ok' r] rotate_laws(3) [OF ok' r, of user] none by simp
qed

section \<open>A replay gives the same pair\<close>

lemma replay_row_hash:
  assumes "sessions_ok db" "replay_row db h successor grace now = Some old"
    "row \<in> set (sessions db)" "s_hash row = h"
  shows "old = row"
  using assms sessions_ok_hash(1) [OF assms(1), of old row]
  by (auto simp: replay_row_def find_Some_iff)

lemma rotation_row:
  assumes ok: "sessions_ok db"
    and rot: "rotate_session db sid h successor ttl grace now = Inr (Some r, db')"
  shows "\<exists>row \<in> set (sessions db'). s_hash row = h \<and> s_revoked row \<noteq> None \<and>
    s_user row = rot_user r \<and> s_rotated_at row = Some (rot_at r)"
proof (cases "get_active_session db h now")
  case None
  then obtain old where old: "replay_row db h successor grace now = Some old" "rot_user r = s_user old"
    "rot_at r = (case s_rotated_at old of None \<Rightarrow> now | Some t \<Rightarrow> t)" "db' = db"
    using rotate_replay [OF None rot] by (auto split: option.splits)
  then have "old \<in> set (sessions db)" "s_hash old = h" "s_rotated_at old \<noteq> None"
    by (auto simp: replay_row_def find_Some_iff split: option.splits)
  then show ?thesis using old ok by (auto simp: sessions_ok_def)
next
  case (Some spent)
  note f = rotate_fresh [OF ok Some rot]
  define row where "row = spent \<lparr> s_revoked := Some now, s_rotated_at := Some now, s_rotated_to := Some sid \<rparr>"
  have "row \<in> set (sessions db')" using f(1,5) by (auto simp: spend_def row_def)
  then show ?thesis using f(2,5) by (intro bexI [of _ row]) (auto simp: row_def)
qed

text \<open>
  Once a refresh token was answered with a pair, presenting it again changes no session, and it
  is refused or answered with the same refresh token; the whole pair is the same one as long as the
  account row is unchanged. No second session is minted by a replay, whatever happened in between.
\<close>

theorem refresh_replay_same:
  assumes ok: "sessions_ok db"
    and first: "refresh_route env db raw sid t = (Inr (Some pair), db1)"
    and run: "db2 = exec_all (session_step env) db1 cs"
    and again: "refresh_route env db2 raw sid' t' = (answer, db3)"
    and account: "get_account_by_id db2 (fst (tp_account pair)) = get_account_by_id db1 (fst (tp_account pair))"
  shows "db3 = db2 \<and> answer \<in> {Inr None, Inr (Some pair)}"
proof -
  let ?h = "hash_refresh_token env raw"
  let ?succ = "successor_refresh_token env raw"
  obtain r a where r: "rotate_session db sid ?h (snd ?succ) REFRESH_TTL_SECONDS REFRESH_REUSE_GRACE_SECONDS t = Inr (Some r, db1)"
    and a: "get_account_by_id db1 (rot_user r) = Some a"
    and m: "make_token_pair env a (fst ?succ) (Some (whole_seconds (rot_at r))) (Some (successor_jti env raw)) t [] = Inr pair"
    using refresh_pair_cases [of env db raw sid t pair] first by auto
  obtain row where row: "row \<in> set (sessions db1)" "s_hash row = ?h" "s_revoked row \<noteq> None"
    "s_user row = rot_user r" "s_rotated_at row = Some (rot_at r)"
    using rotation_row [OF ok r] by blast
  have ok1: "sessions_ok db1" using rotate_laws(1) [OF ok r] .
  have ok2: "sessions_ok db2" using session_run.run_inv [OF ok1] by (simp add: run)
  have "rows_kept db1 db2" using session_run.run_rel [OF ok1] by (simp add: run)
  then obtain row2 where "row2 \<in> set (sessions db2)" "row_kept row row2"
    using rows_kept_row [OF _ row(1)] by blast
  then have row2: "row \<in> set (sessions db2)" using row(3) by (simp add: row_kept_def)
  have none: "get_active_session db2 ?h t' = None"
    using sessions_ok_hash(1) [OF ok2 _ row2] row(2,3)
    by (auto simp: get_active_session_def find_None_iff live_def)
  have user: "fst (tp_account pair) = rot_user r"
    using a make_token_pair_account(1) [OF m] by (auto simp: get_account_by_id_def find_Some_iff)
  have same: "make_token_pair env a (fst ?succ) (Some (whole_seconds (rot_at r))) (Some (successor_jti env raw)) t' [] = Inr pair"
    using m by (auto simp: make_token_pair_def issue_access_token_def access_claims_def Let_def)
  show ?thesis
  proof (cases "replay_row db2 ?h (snd ?succ) REFRESH_REUSE_GRACE_SECONDS t'")
    case None
    then have "refresh_route env db2 raw sid' t' = (Inr None, db2)"
      using none by (simp add: refresh_route_def rotate_session_def Let_def)
    then show ?thesis using again by simp
  next
    case (Some old)
    have "old = row" by (rule replay_row_hash [OF ok2 Some row2 row(2)])
    then have rot: "rotate_session db2 sid' ?h (snd ?succ) REFRESH_TTL_SECONDS REFRESH_REUSE_GRACE_SECONDS t' =
        Inr (Some \<lparr> rot_user = rot_user r, rot_at = rot_at r, rot_replayed = True \<rparr>, db2)"
      using none Some row(4,5) by (simp add: rotate_session_def)
    have "get_account_by_id db2 (rot_user r) = Some a" using account a user by simp
    then have "refresh_route env db2 raw sid' t' = (Inr (Some pair), db2)"
      using rot same make_token_pair_account(3) [OF m]
      by (simp add: refresh_route_def Let_def)
    then show ?thesis using again by simp
  qed
qed

section \<open>A concrete run\<close>

definition demo_env :: auth_env where
  "demo_env = \<lparr> totp_mac = toy_mac, argon_hash = (\<lambda>salt p. ''$'' @ salt @ ''$'' @ p),
     argon_verify = (\<lambda>h p. drop 3 h = p), argon_needs_rehash = (\<lambda>h. take 3 h = ''$o$''),
     gcm_seal = (\<lambda>nonce aad text. nonce @ text), gcm_open = (\<lambda>aad b. Some (drop 1 b)),
     keyed_hash = (\<lambda>label raw n. drop 14 label @ raw @ ''+''), token_sha256 = (\<lambda>raw. raw @ ''#''),
     jwt_encode = (\<lambda>j. case j of JObj kvs \<Rightarrow> (case map_of kvs ''jti'' of Some (JStr s) \<Rightarrow> s | _ \<Rightarrow> []) | _ \<Rightarrow> []) \<rparr>"

definition demo_account :: account where
  "demo_account = \<lparr> a_id = ''u1'', a_tenant = ''default'', a_email = ''o@x'', a_display_name = None,
     a_role = ''owner'', a_status = ''active'', a_password_hash = Some ''$s$long password'', a_failed = 0,
     a_locked = None, a_mfa_enabled = True, a_mfa_secret = Some (CHR ''n'' # toy_secret),
     a_mfa_step = None \<rparr>"

definition demo_db :: auth_db where
  "demo_db = \<lparr> accounts = [demo_account, demo_account \<lparr> a_id := ''u2'', a_email := ''m@x'' \<rparr>],
     sessions = [new_session ''s1'' ''u1'' ''r#'' 100000000, new_session ''s2'' ''u2'' ''q#'' 100000000] \<rparr>"

lemma demo_ok: "sessions_ok demo_db"
  by (simp add: sessions_ok_def demo_db_def new_session_def)

definition demo_pair :: token_pair where
  "demo_pair = \<lparr> tp_access = ''successor-jtir+'', tp_refresh = ''successorr+'',
     tp_account = (''u1'', ''o@x'', None, ''owner'', ''default'') \<rparr>"

lemma demo_refresh: "fst (refresh_route demo_env demo_db ''r'' ''s3'' 5000000) = Inr (Some demo_pair)"
  by code_simp

theorem revoked_user_stays_out_witness: "fst (tp_account demo_pair) \<noteq> ''u2''"
proof (rule revoked_user_stays_out [OF demo_ok _ refl])
  show "\<forall>c \<in> set [Logout ''zz'' 4000000]. \<not> is_sign_in c" by (simp add: is_sign_in_def)
  show "fst (refresh_route demo_env (exec_all (session_step demo_env)
      (snd (revoke_user_sessions demo_db ''u2'' None 3000000)) [Logout ''zz'' 4000000])
      ''r'' ''s3'' 5000000) = Inr (Some demo_pair)"
    by code_simp
qed

theorem refresh_replay_same_witness:
  "fst (refresh_route demo_env
     (exec_all (session_step demo_env) (snd (refresh_route demo_env demo_db ''r'' ''s3'' 5000000))
        [RevokeUser ''u2'' None 7000000]) ''r'' ''s4'' 9000000) \<in> {Inr None, Inr (Some demo_pair)}"
proof -
  have first: "refresh_route demo_env demo_db ''r'' ''s3'' 5000000 =
      (Inr (Some demo_pair), snd (refresh_route demo_env demo_db ''r'' ''s3'' 5000000))"
    using demo_refresh by (metis prod.collapse)
  have "get_account_by_id (exec_all (session_step demo_env) (snd (refresh_route demo_env demo_db ''r'' ''s3'' 5000000))
        [RevokeUser ''u2'' None 7000000]) (fst (tp_account demo_pair)) =
      get_account_by_id (snd (refresh_route demo_env demo_db ''r'' ''s3'' 5000000)) (fst (tp_account demo_pair))"
    by code_simp
  from refresh_replay_same [OF demo_ok first refl _ this] show ?thesis
    by (metis prod.collapse)
qed

end
