(* ===== verification/Attempt_Limits.thy ===== *)
theory Attempt_Limits
  imports Prelude "HOL-Library.Option_ord" "HOL-Library.Multiset"
begin

text \<open>
  The two limiters in front of local sign-in (\<open>robothor/auth/local_login.py\<close>): five attempts a
  minute for each pair of address and IP (\<open>_rate_limited\<close>), and the ceilings of 30 a minute for
  each peer and 300 for the process (\<open>flood_limited\<close>). Each runs under its lock, so it is one step.
  Both refine a limiter that remembers every admitted attempt. The monotonic clock is an integer
  of microseconds.
\<close>

section \<open>Windows of attempts\<close>

definition RATE_LIMIT_ATTEMPTS :: nat where "RATE_LIMIT_ATTEMPTS = 5"
definition RATE_LIMIT_WINDOW :: int where "RATE_LIMIT_WINDOW = 60 * 1000000"
definition RATE_LIMIT_MAX_KEYS :: nat where "RATE_LIMIT_MAX_KEYS = 10000"
definition FLOOD_WINDOW :: int where "FLOOD_WINDOW = 60 * 1000000"
definition FLOOD_PEER_ATTEMPTS :: nat where "FLOOD_PEER_ATTEMPTS = 30"
definition FLOOD_GLOBAL_ATTEMPTS :: nat where "FLOOD_GLOBAL_ATTEMPTS = 300"
definition FLOOD_MAX_PEERS :: nat where "FLOOD_MAX_PEERS = 10000"

text \<open>A deque of times, oldest first; the loop that pops the old ones off its left end.\<close>

type_synonym window = "int list"

definition drop_old :: "int \<Rightarrow> window \<Rightarrow> window" where
  "drop_old cutoff w = dropWhile (\<lambda>t. t < cutoff) w"

text \<open>The most recent attempt; an empty window is infinitely old.\<close>

definition last_attempt :: "('k, window) dict \<Rightarrow> 'k \<Rightarrow> int option" where
  "last_attempt d k =
     (case dict_get d k of None \<Rightarrow> None | Some w \<Rightarrow> if w = [] then None else Some (List.last w))"

text \<open>
  \<open>_prune\<close> and \<open>_prune_peers\<close>: drop the keys with no attempt inside the window, then, if the map is
  still at its cap, the tenth of the cap with the oldest attempts.
\<close>

definition drop_idle :: "int \<Rightarrow> ('k, window) dict \<Rightarrow> ('k, window) dict" where
  "drop_idle cutoff d = filter (\<lambda>(k, w). w \<noteq> [] \<and> \<not> List.last w < cutoff) d"

definition drop_oldest :: "nat \<Rightarrow> ('k, window) dict \<Rightarrow> ('k, window) dict" where
  "drop_oldest cap d =
     (let victims = take (cap div 10) (sort_key (last_attempt d) (map fst d))
      in filter (\<lambda>(k, w). k \<notin> set victims) d)"

definition prune_windows :: "nat \<Rightarrow> int \<Rightarrow> ('k, window) dict \<Rightarrow> ('k, window) dict" where
  "prune_windows cap cutoff d =
     (let d' = drop_idle cutoff d in if cap \<le> length d' then drop_oldest cap d' else d')"

definition prune_peers :: "int \<Rightarrow> (string, window) dict \<Rightarrow> (string, window) dict" where
  "prune_peers = prune_windows FLOOD_MAX_PEERS"

definition prune_attempts ::
  "int \<Rightarrow> (string \<times> string, window) dict \<Rightarrow> (string \<times> string, window) dict" where
  "prune_attempts = prune_windows RATE_LIMIT_MAX_KEYS"

text \<open>The window of a key, opened if there is none, with its old attempts popped.\<close>

definition open_window ::
  "nat \<Rightarrow> (int \<Rightarrow> ('k, window) dict \<Rightarrow> ('k, window) dict) \<Rightarrow> int \<Rightarrow> 'k \<Rightarrow> ('k, window) dict \<Rightarrow>
     window \<times> ('k, window) dict" where
  "open_window cap prune cutoff key d =
     (case dict_get d key of
        None \<Rightarrow> ([], dict_set key [] (if cap \<le> length d then prune cutoff d else d))
      | Some w \<Rightarrow> (drop_old cutoff w, dict_set key (drop_old cutoff w) d))"

section \<open>The limiters\<close>

text \<open>\<open>ip or "-"\<close>.\<close>

definition or_dash :: "string option \<Rightarrow> string" where
  "or_dash ip = (case ip of None \<Rightarrow> ''-'' | Some s \<Rightarrow> if s = [] then ''-'' else s)"

type_synonym attempts = "(string \<times> string, window) dict"

definition rate_limited :: "attempts \<Rightarrow> string \<Rightarrow> string option \<Rightarrow> int \<Rightarrow> bool \<times> attempts" where
  "rate_limited st email ip now =
     (let key = (email, or_dash ip); cutoff = now - RATE_LIMIT_WINDOW;
          (w, d) = open_window RATE_LIMIT_MAX_KEYS prune_attempts cutoff key st
      in if RATE_LIMIT_ATTEMPTS \<le> length w then (True, d)
         else (False, dict_set key (w @ [now]) d))"

record flood_state =
  peer_attempts :: "(string, window) dict"
  global_attempts :: window
  flood_alarm_at :: int

definition flood_start :: flood_state where
  "flood_start = \<lparr> peer_attempts = [], global_attempts = [], flood_alarm_at = 0 \<rparr>"

text \<open>The answer, whether the refusal is logged, and the next state.\<close>

definition flood_limited ::
  "flood_state \<Rightarrow> string option \<Rightarrow> int \<Rightarrow> bool \<times> bool \<times> flood_state" where
  "flood_limited st peer now =
     (let cutoff = now - FLOOD_WINDOW; key = or_dash peer;
          g = drop_old cutoff (global_attempts st);
          (w, d) = open_window FLOOD_MAX_PEERS prune_peers cutoff key (peer_attempts st);
          over_peer = (FLOOD_PEER_ATTEMPTS \<le> length w)
      in if over_peer \<or> FLOOD_GLOBAL_ATTEMPTS \<le> length g then
           (let alarm = (FLOOD_WINDOW \<le> now - flood_alarm_at st) in
            (True, alarm, \<lparr> peer_attempts = d, global_attempts = g,
               flood_alarm_at = (if alarm then now else flood_alarm_at st) \<rparr>))
         else
           (False, False, \<lparr> peer_attempts = dict_set key (w @ [now]) d,
              global_attempts = g @ [now], flood_alarm_at = flood_alarm_at st \<rparr>))"

section \<open>Refinement over runs with a clock\<close>

text \<open>
  Attempts arrive one after the other with a clock that does not go back. A limiter simulates
  another when each step keeps the relation, which may depend on the last reading, and gives the
  same answer; which attempts may come next can depend on the state.
\<close>

fun answers :: "('s \<Rightarrow> 'i \<Rightarrow> 'o \<times> 's) \<Rightarrow> 's \<Rightarrow> 'i list \<Rightarrow> 'o list \<times> 's" where
  "answers step s [] = ([], s)"
| "answers step s (i # is) =
     (let r = step s i; rest = answers step (snd r) is in (fst r # fst rest, snd rest))"

lemma length_answers [simp]: "length (fst (answers step s is)) = length is"
  by (induction "is" arbitrary: s) (auto simp: Let_def)

fun each_allowed :: "('s \<Rightarrow> 'i \<Rightarrow> bool) \<Rightarrow> ('s \<Rightarrow> 'i \<Rightarrow> 'o \<times> 's) \<Rightarrow> 's \<Rightarrow> 'i list \<Rightarrow> bool" where
  "each_allowed allow step s [] \<longleftrightarrow> True"
| "each_allowed allow step s (i # is) \<longleftrightarrow> allow s i \<and> each_allowed allow step (snd (step s i)) is"

locale simulation =
  fixes cstep :: "'s \<Rightarrow> 'i \<Rightarrow> 'o \<times> 's"
    and astep :: "'a \<Rightarrow> 'i \<Rightarrow> 'o \<times> 'a"
    and R :: "int \<Rightarrow> 's \<Rightarrow> 'a \<Rightarrow> bool"
    and clock :: "'i \<Rightarrow> int"
    and allow :: "'s \<Rightarrow> 'i \<Rightarrow> bool"
  assumes sim: "R now s a \<Longrightarrow> now \<le> clock i \<Longrightarrow> allow s i \<Longrightarrow>
      fst (cstep s i) = fst (astep a i) \<and> R (clock i) (snd (cstep s i)) (snd (astep a i))"
begin

lemma run_sim:
  assumes "R now s a" "sorted (now # map clock is)" "each_allowed allow cstep s is"
  shows "fst (answers cstep s is) = fst (answers astep a is) \<and>
    R (List.last (now # map clock is)) (snd (answers cstep s is)) (snd (answers astep a is))"
  using assms
proof (induction "is" arbitrary: now s a)
  case Nil
  then show ?case by simp
next
  case (Cons i "is")
  have step: "fst (cstep s i) = fst (astep a i)"
      "R (clock i) (snd (cstep s i)) (snd (astep a i))"
    using sim [of now s a i] Cons.prems by auto
  have "sorted (clock i # map clock is)" "each_allowed allow cstep (snd (cstep s i)) is" using Cons.prems by auto
  from Cons.IH [OF step(2) this] step(1) show ?case by (simp add: Let_def)
qed

end

text \<open>The attempts a limiter let through.\<close>

definition admitted :: "'i list \<Rightarrow> bool list \<Rightarrow> 'i list" where
  "admitted is refused = map fst (filter (\<lambda>(i, r). \<not> r) (zip is refused))"

section \<open>The limiters that remember everything\<close>

type_synonym 'k log = "('k \<times> int) list"

definition since :: "int \<Rightarrow> 'k log \<Rightarrow> 'k log" where
  "since c l = filter (\<lambda>(k, t). c \<le> t) l"

definition times_of :: "'k \<Rightarrow> 'k log \<Rightarrow> int list" where
  "times_of key l = map snd (filter (\<lambda>(k, t). k = key) l)"

definition rate_key :: "string \<times> string option \<Rightarrow> string \<times> string" where
  "rate_key i = (fst i, or_dash (snd i))"

definition rate_spec ::
  "(string \<times> string) log \<Rightarrow> (string \<times> string option) \<times> int \<Rightarrow> bool \<times> (string \<times> string) log" where
  "rate_spec l i =
     (let key = rate_key (fst i); now = snd i in
      if RATE_LIMIT_ATTEMPTS \<le> length (times_of key (since (now - RATE_LIMIT_WINDOW) l))
      then (True, l) else (False, l @ [(key, now)]))"

definition flood_spec :: "string log \<Rightarrow> string option \<times> int \<Rightarrow> bool \<times> string log" where
  "flood_spec l i =
     (let key = or_dash (fst i); now = snd i in
      if FLOOD_PEER_ATTEMPTS \<le> length (times_of key (since (now - FLOOD_WINDOW) l))
        \<or> FLOOD_GLOBAL_ATTEMPTS \<le> length (since (now - FLOOD_WINDOW) l)
      then (True, l) else (False, l @ [(key, now)]))"

text \<open>The limiters as steps on the caller's values and the clock.\<close>

definition rate_step ::
  "attempts \<Rightarrow> (string \<times> string option) \<times> int \<Rightarrow> bool \<times> attempts" where
  "rate_step st i = rate_limited st (fst (fst i)) (snd (fst i)) (snd i)"

definition flood_step :: "flood_state \<Rightarrow> string option \<times> int \<Rightarrow> bool \<times> flood_state" where
  "flood_step st i = (let r = flood_limited st (fst i) (snd i) in (fst r, snd (snd r)))"

section \<open>What the windows hold\<close>

text \<open>Every window is sorted, and from \<open>W\<close> before the last reading on it is the log of its key.\<close>

definition window_of :: "'k \<Rightarrow> ('k, window) dict \<Rightarrow> window" where
  "window_of k d = (case dict_get d k of None \<Rightarrow> [] | Some w \<Rightarrow> w)"

definition windows_hold :: "int \<Rightarrow> int \<Rightarrow> ('k, window) dict \<Rightarrow> 'k log \<Rightarrow> bool" where
  "windows_hold W now d l \<longleftrightarrow>
     dict_ok d \<and> (\<forall>k. sorted (window_of k d)) \<and>
     (\<forall>c k. now - W \<le> c \<longrightarrow> filter (\<lambda>t. c \<le> t) (window_of k d) = times_of k (since c l))"

lemma drop_old_sorted: "sorted w \<Longrightarrow> drop_old c w = filter (\<lambda>t. c \<le> t) w"
proof (induction w)
  case Nil
  then show ?case by (simp add: drop_old_def)
next
  case (Cons t w)
  then have "filter (\<lambda>t. c \<le> t) w = w" if "c \<le> t" using that by (auto simp: filter_id_conv)
  then show ?case using Cons by (auto simp: drop_old_def)
qed

lemma last_below:
  assumes "sorted w" "w = [] \<or> List.last w < c"
  shows "filter (\<lambda>t. c \<le> t) w = []"
proof -
  have "t < c" if t: "t \<in> set w" for t
    using assms t by (cases w rule: rev_cases) (auto simp: sorted_append)
  then show ?thesis by (fastforce simp: filter_empty_conv)
qed

lemma filter_filter_ge:
  "c \<le> c' \<Longrightarrow> filter (\<lambda>t. c' \<le> t) (filter (\<lambda>t. c \<le> t) w) = filter (\<lambda>t :: int. c' \<le> t) w"
  by (auto simp: filter_filter intro: filter_cong)

lemma since_append: "since c (l @ l') = since c l @ since c l'"
  by (simp add: since_def)

lemma times_of_append: "times_of k (l @ l') = times_of k l @ times_of k l'"
  by (simp add: times_of_def)

lemma windows_hold_later: "windows_hold W now d l \<Longrightarrow> now \<le> now' \<Longrightarrow> windows_hold W now' d l"
  by (auto simp: windows_hold_def)

lemma dict_get_filter:
  assumes "dict_ok d"
  shows "dict_get (filter P d) k =
    (case dict_get d k of None \<Rightarrow> None | Some w \<Rightarrow> if P (k, w) then Some w else None)"
  using assms
proof (induction d)
  case Nil
  then show ?case by simp
next
  case (Cons x d)
  obtain k' w' where x: "x = (k', w')" by (cases x)
  have ok: "dict_ok d" and new: "k' \<notin> fst ` set d" using Cons.prems x by (auto simp: dict_ok_def)
  then have "dict_get d k' = None" by (simp add: map_of_eq_None_iff)
  then show ?case using Cons.IH [OF ok] x by (auto split: option.splits)
qed

lemma windows_hold_idle:
  assumes "windows_hold W now d l" "now - W \<le> c"
  shows "windows_hold W (c + W) (drop_idle c d) l"
proof -
  have ok: "dict_ok d" and sorted: "\<And>k. sorted (window_of k d)"
    and holds: "\<And>c k. now - W \<le> c \<Longrightarrow> filter (\<lambda>t. c \<le> t) (window_of k d) = times_of k (since c l)"
    using assms(1) by (auto simp: windows_hold_def)
  have win: "window_of k (drop_idle c d) =
      (if window_of k d \<noteq> [] \<and> \<not> List.last (window_of k d) < c then window_of k d else [])" for k
    by (simp add: window_of_def drop_idle_def dict_get_filter [OF ok] split: option.splits)
  have "filter (\<lambda>t. c' \<le> t) (window_of k (drop_idle c d)) = times_of k (since c' l)" if c': "c \<le> c'" for c' k
  proof -
    have "filter (\<lambda>t. c' \<le> t) (window_of k (drop_idle c d)) = filter (\<lambda>t. c' \<le> t) (window_of k d)"
    proof (cases "window_of k d \<noteq> [] \<and> \<not> List.last (window_of k d) < c")
      case True
      then show ?thesis by (simp add: win)
    next
      case False
      then have "filter (\<lambda>t. c \<le> t) (window_of k d) = []" using last_below [OF sorted] by blast
      then have "filter (\<lambda>t. c' \<le> t) (window_of k d) = []"
        using filter_filter_ge [OF c', of "window_of k d"] by (metis filter.simps(1))
      then show ?thesis using False by (simp add: win)
    qed
    then show ?thesis using holds [of c' k] c' assms(2) by simp
  qed
  moreover have "dict_ok (drop_idle c d)"
    using ok by (auto simp: dict_ok_def drop_idle_def distinct_map_filter)
  ultimately show ?thesis using sorted by (auto simp: windows_hold_def win)
qed

lemma windows_hold_empty: "windows_hold W now [] []"
  by (simp add: windows_hold_def window_of_def times_of_def since_def)

lemma window_of_set: "window_of k (dict_set k' w d) = (if k = k' then w else window_of k d)"
  by (simp add: window_of_def)

text \<open>Opening a window yields the recent log of its key, provided pruning drops idle keys only.\<close>

lemma open_window_holds:
  assumes hold: "windows_hold W now d l" and le: "now \<le> now'"
    and prune: "dict_get d key = None \<Longrightarrow> cap \<le> length d \<Longrightarrow> prune (now' - W) d = drop_idle (now' - W) d"
  obtains d' where "open_window cap prune (now' - W) key d = (times_of key (since (now' - W) l), d')"
    "windows_hold W now' d' l"
proof -
  have c: "now - W \<le> now' - W" using le by simp
  note later = windows_hold_later [OF hold le]
  have set: "windows_hold W now' (dict_set key (times_of key (since (now' - W) l)) d') l"
    if d': "windows_hold W now' d' l" for d'
  proof -
    have s: "sorted (window_of key d')" and f: "filter (\<lambda>t. now' - W \<le> t) (window_of key d') = times_of key (since (now' - W) l)"
      using d' by (auto simp: windows_hold_def)
    then have "sorted (times_of key (since (now' - W) l))" by (metis sorted_wrt_filter)
    moreover have "filter (\<lambda>t. c' \<le> t) (times_of key (since (now' - W) l)) = times_of key (since c' l)"
      if "now' - W \<le> c'" for c'
      using that d' f filter_filter_ge [OF that, of "window_of key d'"] by (simp add: windows_hold_def)
    ultimately show ?thesis using d' by (auto simp: windows_hold_def window_of_set)
  qed
  show thesis
  proof (cases "dict_get d key")
    case None
    define d' where "d' = (if cap \<le> length d then prune (now' - W) d else d)"
    have d': "windows_hold W now' d' l"
      using later windows_hold_idle [OF hold c] prune [OF None] by (auto simp: d'_def)
    have "times_of key (since (now' - W) l) = []"
      using hold c None unfolding windows_hold_def by (metis filter.simps(1) option.simps(4) window_of_def)
    then show thesis using that set [OF d'] None by (simp add: open_window_def d'_def)
  next
    case (Some w)
    then have w: "window_of key d = w" by (simp add: window_of_def)
    have "sorted (window_of key d)"
        "filter (\<lambda>t. now' - W \<le> t) (window_of key d) = times_of key (since (now' - W) l)"
      using later by (auto simp: windows_hold_def)
    then have "sorted w" "filter (\<lambda>t. now' - W \<le> t) w = times_of key (since (now' - W) l)"
      unfolding w .
    then have "drop_old (now' - W) w = times_of key (since (now' - W) l)" by (simp add: drop_old_sorted)
    then show thesis using that set [OF later] Some by (simp add: open_window_def)
  qed
qed

lemma windows_hold_append:
  assumes hold: "windows_hold W now d l" and l: "\<forall>(k, t) \<in> set l. t \<le> now"
    and W: "0 \<le> W"
  shows "windows_hold W now (dict_set key (times_of key (since (now - W) l) @ [now]) d) (l @ [(key, now)])"
proof -
  define w where "w = times_of key (since (now - W) l)"
  have f: "filter (\<lambda>t. now - W \<le> t) (window_of key d) = w" and s: "sorted (window_of key d)"
    using hold by (auto simp: windows_hold_def w_def)
  have "sorted w" using s f by (metis sorted_wrt_filter)
  moreover have "\<forall>t \<in> set w. t \<le> now" using l by (auto simp: w_def times_of_def since_def)
  ultimately have "sorted (w @ [now])" by (simp add: sorted_append)
  moreover have "filter (\<lambda>t. c \<le> t) w = times_of key (since c l)" if "now - W \<le> c" for c
    using that hold f filter_filter_ge [OF that, of "window_of key d"] by (simp add: windows_hold_def)
  moreover have "times_of k (since c (l @ [(key, now)])) =
      times_of k (since c l) @ (if k = key \<and> c \<le> now then [now] else [])" for k c
    by (simp add: since_append times_of_append) (simp add: since_def times_of_def)
  moreover have "filter (\<lambda>t. c \<le> t) [now] = (if c \<le> now then [now] else [])" for c by simp
  ultimately show ?thesis
    using hold unfolding windows_hold_def window_of_set w_def [symmetric]
    by (simp del: filter.simps)
qed

section \<open>The per-peer and process ceilings\<close>

definition log_before :: "int \<Rightarrow> 'k log \<Rightarrow> bool" where
  "log_before now l \<longleftrightarrow> (\<forall>(k, t) \<in> set l. t \<le> now)"

lemma log_before_append [simp]:
  "log_before now (l @ [(k, t)]) \<longleftrightarrow> log_before now l \<and> t \<le> now"
  by (auto simp: log_before_def)

lemma log_before_later: "log_before now l \<Longrightarrow> now \<le> now' \<Longrightarrow> log_before now' l"
  by (fastforce simp: log_before_def)

lemma log_before_Nil [simp]: "log_before now []"
  by (simp add: log_before_def)

lemma length_since_later: "c \<le> c' \<Longrightarrow> length (since c' l) \<le> length (since c l)"
  unfolding since_def by (induction l) auto

definition flood_hold :: "int \<Rightarrow> flood_state \<Rightarrow> string log \<Rightarrow> bool" where
  "flood_hold now st l \<longleftrightarrow>
     windows_hold FLOOD_WINDOW now (peer_attempts st) l \<and> sorted (global_attempts st) \<and>
     (\<forall>c. now - FLOOD_WINDOW \<le> c \<longrightarrow>
        filter (\<lambda>t. c \<le> t) (global_attempts st) = map snd (since c l)) \<and>
     log_before now l \<and> length (since (now - FLOOD_WINDOW) l) \<le> FLOOD_GLOBAL_ATTEMPTS"

text \<open>
  The second pass of \<open>_prune_peers\<close> never runs: a peer that survives the first has an admitted
  attempt in the last minute, and there are at most 300 of those.
\<close>

lemma length_drop_idle:
  assumes "windows_hold W now d l" "now - W \<le> c"
  shows "length (drop_idle c d) \<le> length (since c l)"
proof -
  have ok: "dict_ok d" using assms(1) by (simp add: windows_hold_def)
  have "k \<in> fst ` set (since c l)" if k: "k \<in> fst ` set (drop_idle c d)" for k
  proof -
    obtain w where w: "(k, w) \<in> set d" "w \<noteq> []" "\<not> List.last w < c"
      using k by (auto simp: drop_idle_def)
    then have win: "window_of k d = w" using ok by (simp add: dict_ok_def window_of_def)
    have "filter (\<lambda>t. c \<le> t) (window_of k d) = times_of k (since c l)"
      using assms by (simp add: windows_hold_def)
    then have "filter (\<lambda>t. c \<le> t) w = times_of k (since c l)" unfolding win .
    moreover have "List.last w \<in> set (filter (\<lambda>t. c \<le> t) w)" using w by auto
    ultimately have "times_of k (since c l) \<noteq> []" by force
    then show ?thesis by (force simp: times_of_def filter_empty_conv)
  qed
  then have "card (fst ` set (drop_idle c d)) \<le> card (fst ` set (since c l))"
    by (intro card_mono) auto
  also have "\<dots> \<le> length (since c l)"
    by (rule order_trans [OF card_image_le card_length]) simp
  finally have "card (fst ` set (drop_idle c d)) \<le> length (since c l)" .
  moreover have "distinct (map fst (drop_idle c d))"
    using ok by (simp add: dict_ok_def drop_idle_def distinct_map_filter)
  ultimately show ?thesis using distinct_card [of "map fst (drop_idle c d)"] by simp
qed

lemma flood_sim:
  assumes "flood_hold now st l" "now \<le> snd i"
  shows "fst (flood_step st i) = fst (flood_spec l i) \<and>
    flood_hold (snd i) (snd (flood_step st i)) (snd (flood_spec l i))"
proof -
  define key where "key = or_dash (fst i)"
  define now' where "now' = snd i"
  define c where "c = now' - FLOOD_WINDOW"
  have hold: "windows_hold FLOOD_WINDOW now (peer_attempts st) l" and g: "sorted (global_attempts st)"
    and gl: "\<And>c. now - FLOOD_WINDOW \<le> c \<Longrightarrow> filter (\<lambda>t. c \<le> t) (global_attempts st) = map snd (since c l)"
    and lb: "log_before now l" and few: "length (since (now - FLOOD_WINDOW) l) \<le> FLOOD_GLOBAL_ATTEMPTS"
    using assms(1) by (auto simp: flood_hold_def)
  have le: "now \<le> now'" "now - FLOOD_WINDOW \<le> c" using assms(2) by (auto simp: now'_def c_def)
  have few': "length (since c l) \<le> FLOOD_GLOBAL_ATTEMPTS"
    using few length_since_later [OF le(2), of l] by linarith
  have lb': "log_before now' l" using lb le(1) by (rule log_before_later)
  have "prune_peers c (peer_attempts st) = drop_idle c (peer_attempts st)"
    using length_drop_idle [OF hold le(2)] few'
    by (simp add: prune_peers_def prune_windows_def FLOOD_MAX_PEERS_def FLOOD_GLOBAL_ATTEMPTS_def Let_def)
  then obtain d' where d': "open_window FLOOD_MAX_PEERS prune_peers c key (peer_attempts st) = (times_of key (since c l), d')"
      "windows_hold FLOOD_WINDOW now' d' l"
    using open_window_holds [OF hold le(1), where key = key and prune = prune_peers and cap = FLOOD_MAX_PEERS]
    unfolding c_def by blast
  have dg: "drop_old c (global_attempts st) = map snd (since c l)"
    using drop_old_sorted [OF g] gl [OF le(2)] by simp
  have sg: "sorted (map snd (since c l))" using g dg by (metis drop_old_sorted sorted_wrt_filter)
  have gl': "filter (\<lambda>t. c' \<le> t) (map snd (since c l)) = map snd (since c' l)" if "c \<le> c'" for c'
    using that gl [of c'] gl [OF le(2)] filter_filter_ge [OF that] le(2) by (metis order_trans)
  define refuse where "refuse = (FLOOD_PEER_ATTEMPTS \<le> length (times_of key (since c l)) \<or>
      FLOOD_GLOBAL_ATTEMPTS \<le> length (since c l))"
  show ?thesis
  proof (cases refuse)
    case True
    have "fst (flood_step st i)" "peer_attempts (snd (flood_step st i)) = d'"
        "global_attempts (snd (flood_step st i)) = map snd (since c l)"
      using True d'(1) dg
      by (simp_all add: flood_step_def flood_limited_def Let_def refuse_def flip: key_def now'_def c_def)
    moreover have "flood_spec l i = (True, l)"
      using True by (simp add: flood_spec_def Let_def refuse_def flip: key_def now'_def c_def)
    ultimately show ?thesis
      using d'(2) sg gl' lb' few' by (simp add: flood_hold_def flip: now'_def c_def)
  next
    case False
    have "flood_step st i = (False, \<lparr> peer_attempts = dict_set key (times_of key (since c l) @ [now']) d',
        global_attempts = map snd (since c l) @ [now'], flood_alarm_at = flood_alarm_at st \<rparr>)"
      using False d'(1) dg
      by (simp add: flood_step_def flood_limited_def Let_def refuse_def flip: key_def now'_def c_def)
    moreover have "flood_spec l i = (False, l @ [(key, now')])"
      using False by (simp add: flood_spec_def Let_def refuse_def flip: key_def now'_def c_def)
    moreover have "windows_hold FLOOD_WINDOW now'
        (dict_set key (times_of key (since c l) @ [now']) d') (l @ [(key, now')])"
      unfolding c_def
      by (rule windows_hold_append [OF d'(2)]) (use lb' in \<open>auto simp: log_before_def FLOOD_WINDOW_def\<close>)
    moreover have "sorted (map snd (since c l) @ [now'])"
      using sg lb' by (auto simp: sorted_append log_before_def since_def)
    moreover have "length (since c (l @ [(key, now')])) \<le> FLOOD_GLOBAL_ATTEMPTS"
      using False by (auto simp: refuse_def since_append) (simp add: since_def)
    moreover have "filter (\<lambda>t. c' \<le> t) (map snd (since c l) @ [now']) = map snd (since c' (l @ [(key, now')]))"
      if "c \<le> c'" for c'
      using gl' [OF that] by (simp add: since_append) (simp add: since_def)
    ultimately show ?thesis
      using lb' by (simp add: flood_hold_def flip: now'_def c_def)
  qed
qed

interpretation flood: simulation flood_step flood_spec flood_hold snd "\<lambda>s i. True"
  by unfold_locales (rule flood_sim)

lemma all_allowed [simp]: "each_allowed (\<lambda>s i. True) step s is"
  by (induction "is" arbitrary: s) simp_all

section \<open>The limiter of one address and IP\<close>

text \<open>It refines its specification while fewer attempts are recent than the map may hold keys.\<close>

definition rate_hold :: "int \<Rightarrow> attempts \<Rightarrow> (string \<times> string) log \<Rightarrow> bool" where
  "rate_hold now st l \<longleftrightarrow> windows_hold RATE_LIMIT_WINDOW now st l \<and> log_before now l"

lemma rate_sim:
  assumes "rate_hold now st l" "now \<le> snd i" "length (since (snd i - RATE_LIMIT_WINDOW) l) < RATE_LIMIT_MAX_KEYS"
  shows "fst (rate_step st i) = fst (rate_spec l i) \<and>
    rate_hold (snd i) (snd (rate_step st i)) (snd (rate_spec l i))"
proof -
  define key where "key = (fst (fst i), or_dash (snd (fst i)))"
  define now' where "now' = snd i"
  define c where "c = now' - RATE_LIMIT_WINDOW"
  have hold: "windows_hold RATE_LIMIT_WINDOW now st l" and lb: "log_before now l"
    using assms(1) by (auto simp: rate_hold_def)
  have key: "rate_key (fst i) = key" by (auto simp: key_def rate_key_def)
  have le: "now \<le> now'" "now - RATE_LIMIT_WINDOW \<le> c" using assms(2) by (simp_all add: now'_def c_def)
  have lb': "log_before now' l" using lb le(1) by (rule log_before_later)
  have "length (drop_idle c st) < RATE_LIMIT_MAX_KEYS"
    using length_drop_idle [OF hold le(2)] assms(3) by (simp add: c_def now'_def)
  then have idle: "prune_attempts (now' - RATE_LIMIT_WINDOW) st = drop_idle (now' - RATE_LIMIT_WINDOW) st"
    by (simp add: prune_attempts_def prune_windows_def Let_def c_def)
  obtain d' where d': "open_window RATE_LIMIT_MAX_KEYS prune_attempts c key st = (times_of key (since c l), d')"
      "windows_hold RATE_LIMIT_WINDOW now' d' l"
    using open_window_holds [where key = key and prune = prune_attempts and cap = RATE_LIMIT_MAX_KEYS, OF hold le(1) idle]
    unfolding c_def by blast
  define refuse where "refuse = (RATE_LIMIT_ATTEMPTS \<le> length (times_of key (since c l)))"
  show ?thesis
  proof (cases refuse)
    case True
    have "rate_step st i = (True, d')"
      using True d'(1) by (simp add: rate_step_def rate_limited_def Let_def refuse_def flip: key_def now'_def c_def)
    moreover have "rate_spec l i = (True, l)"
      using True by (simp add: rate_spec_def Let_def refuse_def key flip: now'_def c_def)
    ultimately show ?thesis using d'(2) lb' by (simp add: rate_hold_def flip: now'_def)
  next
    case False
    have "rate_step st i = (False, dict_set key (times_of key (since c l) @ [now']) d')"
      using False d'(1) by (simp add: rate_step_def rate_limited_def Let_def refuse_def flip: key_def now'_def c_def)
    moreover have "rate_spec l i = (False, l @ [(key, now')])"
      using False by (simp add: rate_spec_def Let_def refuse_def key flip: now'_def c_def)
    moreover have "windows_hold RATE_LIMIT_WINDOW now'
        (dict_set key (times_of key (since c l) @ [now']) d') (l @ [(key, now')])"
      unfolding c_def
      by (rule windows_hold_append [OF d'(2)]) (use lb' in \<open>auto simp: log_before_def RATE_LIMIT_WINDOW_def\<close>)
    ultimately show ?thesis using lb' by (simp add: rate_hold_def flip: now'_def)
  qed
qed

section \<open>The credential routes\<close>

text \<open>
  Every credential route calls \<open>flood_limited\<close> first and \<open>_rate_limited\<close> later, from one of the worker
  threads; in between it may end for another reason. Only the setup wizard signs the owner it has
  just created in without the first call, once per installation. The state holds both limiters,
  how many admitted requests have not come to their second call yet, and whether the wizard's
  sign-in is still to come.
\<close>

record front =
  fr_flood :: flood_state
  fr_attempts :: attempts
  fr_waiting :: nat
  fr_setup :: bool

datatype front_event =
    Arrive "string option" int
  | Check string "string option" int
  | Leave int
  | OwnerSetup string "string option" int

fun event_time :: "front_event \<Rightarrow> int" where
  "event_time (Arrive _ t) = t"
| "event_time (Check _ _ t) = t"
| "event_time (Leave t) = t"
| "event_time (OwnerSetup _ _ t) = t"

definition front_start :: front where
  "front_start = \<lparr> fr_flood = flood_start, fr_attempts = [], fr_waiting = 0, fr_setup = True \<rparr>"

text \<open>One call of a limiter, or the end of a request between the two; the answer is whether it is refused.\<close>

fun front_step :: "front \<Rightarrow> front_event \<Rightarrow> bool \<times> front" where
  "front_step st (Arrive peer now) =
     (let (refused, _, fl) = flood_limited (fr_flood st) peer now
      in (refused, st\<lparr> fr_flood := fl, fr_waiting := (if refused then fr_waiting st else Suc (fr_waiting st)) \<rparr>))"
| "front_step st (Check email ip now) =
     (let (refused, d) = rate_limited (fr_attempts st) email ip now
      in (refused, st\<lparr> fr_attempts := d, fr_waiting := fr_waiting st - 1 \<rparr>))"
| "front_step st (Leave now) = (True, st\<lparr> fr_waiting := fr_waiting st - 1 \<rparr>)"
| "front_step st (OwnerSetup email ip now) =
     (let (refused, d) = rate_limited (fr_attempts st) email ip now
      in (refused, st\<lparr> fr_attempts := d, fr_setup := False \<rparr>))"

text \<open>A request comes to its second call once, and at most \<open>n\<close> are between the two.\<close>

fun front_allows :: "nat \<Rightarrow> front \<Rightarrow> front_event \<Rightarrow> bool" where
  "front_allows n st (Arrive _ _) \<longleftrightarrow> fr_waiting st < n"
| "front_allows n st (OwnerSetup _ _ _) \<longleftrightarrow> fr_setup st"
| "front_allows n st _ \<longleftrightarrow> 0 < fr_waiting st"

type_synonym front_log = "string log \<times> (string \<times> string) log"

fun front_spec :: "front_log \<Rightarrow> front_event \<Rightarrow> bool \<times> front_log" where
  "front_spec (lf, lr) (Arrive peer now) = (let r = flood_spec lf (peer, now) in (fst r, (snd r, lr)))"
| "front_spec (lf, lr) (Check email ip now) = (let r = rate_spec lr ((email, ip), now) in (fst r, (lf, snd r)))"
| "front_spec (lf, lr) (Leave now) = (True, (lf, lr))"
| "front_spec (lf, lr) (OwnerSetup email ip now) = (let r = rate_spec lr ((email, ip), now) in (fst r, (lf, snd r)))"

text \<open>
  Since any moment there were no more checks than arrivals, but for the requests in flight at
  that moment and the wizard's one.
\<close>

definition in_step :: "nat \<Rightarrow> front \<Rightarrow> front_log \<Rightarrow> bool" where
  "in_step n st l \<longleftrightarrow> fr_waiting st \<le> n \<and>
     (\<forall>c. length (since c (snd l)) + fr_waiting st + (if fr_setup st then 1 else 0) \<le>
        length (since c (fst l)) + n + 1)"

definition front_hold :: "nat \<Rightarrow> int \<Rightarrow> front \<Rightarrow> front_log \<Rightarrow> bool" where
  "front_hold n now st l \<longleftrightarrow> flood_hold now (fr_flood st) (fst l) \<and> rate_hold now (fr_attempts st) (snd l) \<and> in_step n st l"

lemma rate_hold_later: "rate_hold now st l \<Longrightarrow> now \<le> now' \<Longrightarrow> rate_hold now' st l"
  using windows_hold_later log_before_later unfolding rate_hold_def by blast

lemma flood_hold_later: "flood_hold now st l \<Longrightarrow> now \<le> now' \<Longrightarrow> flood_hold now' st l"
  using windows_hold_later log_before_later length_since_later [of "now - FLOOD_WINDOW" "now' - FLOOD_WINDOW" l]
  unfolding flood_hold_def by (auto intro: order_trans)

lemma since_after: "log_before now l \<Longrightarrow> now < c \<Longrightarrow> since c l = []"
  by (auto simp: since_def log_before_def filter_empty_conv)

lemma length_since_snoc: "length (since c (l @ [(k, t)])) = length (since c l) + (if c \<le> t then 1 else 0)"
  by (simp add: since_append) (simp add: since_def)

lemma recent_checks:
  assumes "front_hold n now st l" "now \<le> now'" "n \<le> 9000"
  shows "length (since (now' - RATE_LIMIT_WINDOW) (snd l)) < RATE_LIMIT_MAX_KEYS"
proof -
  have "length (since (now - FLOOD_WINDOW) (fst l)) \<le> 300"
    using assms(1) by (simp add: front_hold_def flood_hold_def FLOOD_GLOBAL_ATTEMPTS_def)
  moreover have "length (since (now' - FLOOD_WINDOW) (fst l)) \<le> length (since (now - FLOOD_WINDOW) (fst l))"
    by (rule length_since_later) (use assms(2) in simp)
  moreover have "length (since (now' - FLOOD_WINDOW) (snd l)) \<le> length (since (now' - FLOOD_WINDOW) (fst l)) + n + 1"
    using assms(1) unfolding front_hold_def in_step_def by (meson add_leD1)
  ultimately show ?thesis using assms(3)
    by (simp add: RATE_LIMIT_MAX_KEYS_def RATE_LIMIT_WINDOW_def FLOOD_WINDOW_def)
qed

text \<open>A check adds at most one to the log of the checks, at its own time.\<close>

lemma rate_spec_length:
  "length (since c (snd (rate_spec l i))) \<le> length (since c l) + (if c \<le> snd i then 1 else 0)"
  by (simp add: rate_spec_def Let_def length_since_snoc)

lemma check_in_step:
  assumes "in_step n st (lf, lr)" "log_before now lr" "now \<le> snd i"
    and "fr_waiting st' + (if fr_setup st' then 1 else 0) + 1 = fr_waiting st + (if fr_setup st then 1 else 0)"
    "fr_waiting st' \<le> fr_waiting st"
  shows "in_step n st' (lf, snd (rate_spec lr i))"
proof -
  have "length (since c (snd (rate_spec lr i))) + fr_waiting st' + (if fr_setup st' then 1 else 0) \<le>
      length (since c lf) + n + 1" for c
  proof (cases "c \<le> snd i")
    case True
    have "length (since c lr) + fr_waiting st + (if fr_setup st then 1 else 0) \<le> length (since c lf) + n + 1"
      using assms(1) by (simp only: in_step_def fst_conv snd_conv)
    moreover have "length (since c (snd (rate_spec lr i))) \<le> length (since c lr) + 1"
      using rate_spec_length [of c lr i] True by simp
    ultimately show ?thesis using assms(4) by linarith
  next
    case False
    then have "since c lr = []" using since_after [OF assms(2)] assms(3) by simp
    then show ?thesis using False rate_spec_length [of c lr i] assms(1,5) by (auto simp: in_step_def)
  qed
  then show ?thesis using assms(1,5) by (simp add: in_step_def)
qed

lemma leave_in_step: "in_step n st l \<Longrightarrow> in_step n (st\<lparr> fr_waiting := fr_waiting st - 1 \<rparr>) l"
proof -
  assume st: "in_step n st l"
  have "length (since c (snd l)) + (fr_waiting st - 1) + (if fr_setup st then 1 else 0) \<le> length (since c (fst l)) + n + 1" for c
    using st [unfolded in_step_def, THEN conjunct2, rule_format, of c] by linarith
  moreover have "fr_waiting st - 1 \<le> n" using st unfolding in_step_def by linarith
  ultimately show ?thesis by (simp add: in_step_def)
qed

lemma front_sim:
  assumes h: "front_hold n now st l" and le: "now \<le> event_time e" and a: "front_allows n st e \<and> n \<le> 9000"
  shows "fst (front_step st e) = fst (front_spec l e) \<and>
    front_hold n (event_time e) (snd (front_step st e)) (snd (front_spec l e))"
proof -
  obtain lf lr where l: "l = (lf, lr)" by (cases l)
  have fl: "flood_hold now (fr_flood st) lf" and rt: "rate_hold now (fr_attempts st) lr" and st: "in_step n st (lf, lr)"
    using h by (simp_all add: front_hold_def l)
  have lb: "log_before now lr" "log_before now lf" using rt fl by (simp_all add: rate_hold_def flood_hold_def)
  note recent = recent_checks [OF h le, unfolded l, simplified]
  show ?thesis
  proof (cases e)
    case (Arrive peer t)
    have t: "now \<le> t" using le Arrive by simp
    note f = flood_sim [OF fl, of "(peer, t)", simplified, OF t]
    obtain refused al d where d: "flood_limited (fr_flood st) peer t = (refused, al, d)" by (metis surj_pair)
    have r: "fst (flood_spec lf (peer, t)) = refused" "flood_hold t d (snd (flood_spec lf (peer, t)))"
      using f by (simp_all add: flood_step_def d)
    have "in_step n (st\<lparr> fr_flood := d, fr_waiting := (if refused then fr_waiting st else Suc (fr_waiting st)) \<rparr>)
        (snd (flood_spec lf (peer, t)), lr)"
    proof (cases refused)
      case True
      then have "snd (flood_spec lf (peer, t)) = lf" using r(1) by (auto simp: flood_spec_def Let_def split: if_splits)
      then show ?thesis using st True by (simp add: in_step_def)
    next
      case False
      then have s: "snd (flood_spec lf (peer, t)) = lf @ [(or_dash peer, t)]"
        using r(1) by (auto simp: flood_spec_def Let_def split: if_splits)
      have "length (since c lr) + Suc (fr_waiting st) + (if fr_setup st then 1 else 0) \<le>
          length (since c (lf @ [(or_dash peer, t)])) + n + 1" for c
      proof (cases "c \<le> t")
        case True
        then show ?thesis using st by (simp add: in_step_def length_since_snoc)
      next
        case False
        then have "since c lr = []" using since_after [OF lb(1), of c] t by simp
        then show ?thesis using a Arrive by simp
      qed
      then show ?thesis using False a Arrive by (simp add: in_step_def s)
    qed
    then show ?thesis using r rate_hold_later [OF rt t] by (simp add: Arrive l d front_hold_def Let_def)
  next
    case (Check email ip t)
    have t: "now \<le> t" using le Check by simp
    have w: "0 < fr_waiting st" using a Check by simp
    note f = rate_sim [OF rt, of "((email, ip), t)", simplified, OF t]
    obtain refused d where d: "rate_limited (fr_attempts st) email ip t = (refused, d)" by (metis surj_pair)
    have "in_step n (st\<lparr> fr_attempts := d, fr_waiting := fr_waiting st - 1 \<rparr>) (lf, snd (rate_spec lr ((email, ip), t)))"
      by (rule check_in_step [OF st lb(1)]) (use t w in simp_all)
    then show ?thesis using f recent a flood_hold_later [OF fl t] Check
      by (simp add: l d front_hold_def rate_step_def Let_def)
  next
    case (Leave t)
    have "in_step n (st\<lparr> fr_waiting := fr_waiting st - 1 \<rparr>) (lf, lr)" by (rule leave_in_step [OF st])
    then show ?thesis using le flood_hold_later [OF fl] rate_hold_later [OF rt] Leave
      by (simp add: l front_hold_def)
  next
    case (OwnerSetup email ip t)
    have t: "now \<le> t" using le OwnerSetup by simp
    note f = rate_sim [OF rt, of "((email, ip), t)", simplified, OF t]
    obtain refused d where d: "rate_limited (fr_attempts st) email ip t = (refused, d)" by (metis surj_pair)
    have "in_step n (st\<lparr> fr_attempts := d, fr_setup := False \<rparr>) (lf, snd (rate_spec lr ((email, ip), t)))"
      by (rule check_in_step [OF st lb(1)]) (use t a OwnerSetup in simp_all)
    then show ?thesis using f recent a flood_hold_later [OF fl t] OwnerSetup
      by (simp add: l d front_hold_def rate_step_def Let_def)
  qed
qed

interpretation front: simulation front_step front_spec "front_hold n" event_time "\<lambda>st e. front_allows n st e \<and> n \<le> 9000" for n
  by unfold_locales (rule front_sim)

section \<open>How many attempts get through\<close>

definition within :: "int \<Rightarrow> nat \<Rightarrow> int list \<Rightarrow> bool" where
  "within W n ts \<longleftrightarrow> (\<forall>x. length (filter (\<lambda>t. x \<le> t \<and> t \<le> x + W) ts) \<le> n)"

lemma within_Nil [simp]: "within W n []"
  by (simp add: within_def)

lemma within_append:
  assumes "within W n ts" "length (filter (\<lambda>t. now - W \<le> t) ts) < n"
  shows "within W n (ts @ [now])"
  unfolding within_def
proof
  fix x
  show "length (filter (\<lambda>t. x \<le> t \<and> t \<le> x + W) (ts @ [now])) \<le> n"
  proof (cases "x \<le> now \<and> now \<le> x + W")
    case True
    have "length (filter (\<lambda>t. x \<le> t \<and> t \<le> x + W) ts) \<le> length (filter (\<lambda>t. now - W \<le> t) ts)"
      using True by (induction ts) auto
    then show ?thesis using True assms(2) by simp
  next
    case False
    then show ?thesis using assms(1) by (auto simp: within_def)
  qed
qed

lemma times_of_since: "times_of k (since c l) = filter (\<lambda>t. c \<le> t) (times_of k l)"
  by (induction l) (auto simp: times_of_def since_def)

lemma snd_since: "map snd (since c l) = filter (\<lambda>t. c \<le> t) (map snd l)"
  by (induction l) (auto simp: since_def)

definition rate_within :: "(string \<times> string) log \<Rightarrow> bool" where
  "rate_within l \<longleftrightarrow> (\<forall>key. within RATE_LIMIT_WINDOW RATE_LIMIT_ATTEMPTS (times_of key l))"

definition flood_within :: "string log \<Rightarrow> bool" where
  "flood_within l \<longleftrightarrow> within FLOOD_WINDOW FLOOD_GLOBAL_ATTEMPTS (map snd l) \<and>
     (\<forall>key. within FLOOD_WINDOW FLOOD_PEER_ATTEMPTS (times_of key l))"

lemma rate_spec_within:
  assumes "rate_within l" shows "rate_within (snd (rate_spec l i))"
  using assms within_append [of RATE_LIMIT_WINDOW RATE_LIMIT_ATTEMPTS _ "snd i"]
  by (auto simp: rate_within_def rate_spec_def Let_def times_of_append times_of_since)
     (auto simp: times_of_def)

lemma flood_spec_within:
  assumes "flood_within l" shows "flood_within (snd (flood_spec l i))"
proof -
  have len: "length (since c l) = length (filter (\<lambda>t. c \<le> t) (map snd l))" for c
    by (metis length_map snd_since)
  show ?thesis
    using assms within_append [of FLOOD_WINDOW FLOOD_PEER_ATTEMPTS _ "snd i"]
      within_append [of FLOOD_WINDOW FLOOD_GLOBAL_ATTEMPTS "map snd l" "snd i"]
    by (auto simp: flood_within_def flood_spec_def Let_def times_of_append times_of_since len)
       (auto simp: times_of_def)
qed

lemma answers_invariant:
  assumes "\<And>s i. P s \<Longrightarrow> P (snd (step s i))" "P s"
  shows "P (snd (answers step s is))"
  using assms(2) by (induction "is" arbitrary: s) (auto simp: Let_def assms(1))

lemma flood_hold_start: "flood_hold now flood_start []"
  by (simp add: flood_hold_def flood_start_def windows_hold_empty since_def)

lemma flood_answers:
  assumes "sorted (map snd attempts)"
  shows "fst (answers flood_step flood_start attempts) = fst (answers flood_spec [] attempts)"
proof (cases attempts)
  case (Cons i "is")
  then have "sorted (snd i # map snd attempts)" using assms by simp
  from flood.run_sim [OF flood_hold_start this] show ?thesis by simp
qed simp

lemma front_hold_start: "front_hold n now front_start ([], [])"
  by (simp add: front_hold_def front_start_def flood_hold_start rate_hold_def windows_hold_empty in_step_def since_def)

lemma front_answers:
  assumes "sorted (map event_time es)" "each_allowed (front_allows n) front_step front_start es" "n \<le> 9000"
  shows "fst (answers front_step front_start es) = fst (answers front_spec ([], []) es)"
proof (cases es)
  case (Cons e es')
  then have s: "sorted (event_time e # map event_time es)" using assms by simp
  have "each_allowed (\<lambda>st e. front_allows n st e \<and> n \<le> 9000) front_step st es" if
    "each_allowed (front_allows n) front_step st es" for st es
    using that assms(3) by (induction es arbitrary: st) auto
  then show ?thesis using front.run_sim [OF front_hold_start s] assms(2) by blast
qed simp

text \<open>The arrivals, and the checks, among events.\<close>

fun arrival :: "front_event \<Rightarrow> (string \<times> int) option" where
  "arrival (Arrive peer t) = Some (or_dash peer, t)"
| "arrival e = None"

fun check_of :: "front_event \<Rightarrow> ((string \<times> string) \<times> int) option" where
  "check_of (Check email ip t) = Some (rate_key (email, ip), t)"
| "check_of (OwnerSetup email ip t) = Some (rate_key (email, ip), t)"
| "check_of e = None"

lemma admitted_Cons: "admitted (e # es) (r # rs) = (if r then admitted es rs else e # admitted es rs)"
  by (simp add: admitted_def)

lemma front_log:
  "snd (answers front_spec (lf, lr) es) =
    (lf @ List.map_filter arrival (admitted es (fst (answers front_spec (lf, lr) es))),
     lr @ List.map_filter check_of (admitted es (fst (answers front_spec (lf, lr) es))))"
proof (induction es arbitrary: lf lr)
  case Nil
  then show ?case by (simp add: admitted_def map_filter_simps)
next
  case (Cons e es)
  show ?case
  proof (cases e)
    case (Arrive peer t)
    show ?thesis
      using Cons.IH [of lf lr] Cons.IH [of "lf @ [(or_dash peer, t)]" lr]
      by (simp add: Arrive Let_def flood_spec_def admitted_Cons map_filter_simps)
  next
    case (Check email ip t)
    show ?thesis
      using Cons.IH [of lf lr] Cons.IH [of lf "lr @ [(rate_key (email, ip), t)]"]
      by (simp add: Check Let_def rate_spec_def admitted_Cons map_filter_simps)
  next
    case (Leave t)
    show ?thesis using Cons.IH [of lf lr] by (simp add: Leave Let_def admitted_Cons)
  next
    case (OwnerSetup email ip t)
    show ?thesis
      using Cons.IH [of lf lr] Cons.IH [of lf "lr @ [(rate_key (email, ip), t)]"]
      by (simp add: OwnerSetup Let_def rate_spec_def admitted_Cons map_filter_simps)
  qed
qed

lemma front_within:
  "flood_within (fst l) \<and> rate_within (snd l) \<Longrightarrow>
   flood_within (fst (snd (front_spec l e))) \<and> rate_within (snd (snd (front_spec l e)))"
  by (cases l; cases e) (simp_all add: Let_def flood_spec_within rate_spec_within)

section \<open>Properties\<close>

text \<open>
  C37: Whatever peers call and however the peer map is pruned, \<open>flood_limited\<close> answers as a limiter
  that remembers every admitted attempt and counts those of the last minute.
\<close>

theorem flood_limiter_refines:
  assumes "sorted (map snd attempts)"
  shows "fst (answers flood_step flood_start attempts) = fst (answers flood_spec [] attempts)"
  by (rule flood_answers [OF assms])

theorem flood_limiter_refines_witness:
  "fst (answers flood_step flood_start [(Some ''p'', 0), (None, 5), (Some [], 6)]) = [False, False, False]"
proof -
  have "sorted (map snd [(Some ''p'', 0 :: int), (None, 5), (Some [], 6)])" by simp
  from flood_limiter_refines [OF this] show ?thesis by (simp only:) code_simp
qed

text \<open>
  C38: In every closed interval of one minute the credential routes let at most 300 requests through
  \<open>flood_limited\<close>, at most 30 of them from one peer, and at most five of one pair of address and IP
  through \<open>_rate_limited\<close>, however many pairs are used and however the two maps are pruned. The
  clock does not go back, and no more than 9,000 requests are between their two calls at a time.
\<close>

theorem attempts_bounded:
  assumes "sorted (map event_time es)" "each_allowed (front_allows n) front_step front_start es" "n \<le> 9000"
  defines "through \<equiv> admitted es (fst (answers front_step front_start es))"
  shows "within FLOOD_WINDOW 300 (map snd (List.map_filter arrival through)) \<and>
    within FLOOD_WINDOW 30 (times_of peer (List.map_filter arrival through)) \<and>
    within RATE_LIMIT_WINDOW 5 (times_of pair (List.map_filter check_of through))"
proof -
  have "flood_within (fst (snd (answers front_spec ([], []) es))) \<and> rate_within (snd (snd (answers front_spec ([], []) es)))"
    by (rule answers_invariant [of "\<lambda>l. flood_within (fst l) \<and> rate_within (snd l)", OF front_within])
      (simp_all add: flood_within_def rate_within_def times_of_def)
  then show ?thesis
    unfolding through_def front_answers [OF assms(1-3)] front_log
    by (cases pair) (simp add: flood_within_def rate_within_def FLOOD_GLOBAL_ATTEMPTS_def FLOOD_PEER_ATTEMPTS_def RATE_LIMIT_ATTEMPTS_def)
qed

text \<open>Six sign-ins of one pair within a minute: the sixth comes through the first limiter only.\<close>

definition six_sign_ins :: "front_event list" where
  "six_sign_ins = concat (map (\<lambda>t. [Arrive (Some ''p'') t, Check ''login:a'' (Some ''ip'') (t + 1)]) [0, 10, 20, 30, 40, 50])"

lemmas limiter_simps = flood_limited_def rate_limited_def front_start_def flood_start_def open_window_def
  drop_old_def or_dash_def FLOOD_MAX_PEERS_def RATE_LIMIT_MAX_KEYS_def FLOOD_PEER_ATTEMPTS_def
  FLOOD_GLOBAL_ATTEMPTS_def RATE_LIMIT_ATTEMPTS_def FLOOD_WINDOW_def RATE_LIMIT_WINDOW_def

lemma answers_first: "fst (answers step s (i # is)) = fst (step s i) # fst (answers step (snd (step s i)) is)"
  by (simp add: Let_def)

definition six_state :: "window \<Rightarrow> window \<Rightarrow> nat \<Rightarrow> front" where
  "six_state ts us w = \<lparr> fr_flood = \<lparr> peer_attempts = [(''p'', ts)], global_attempts = ts, flood_alarm_at = 0 \<rparr>,
     fr_attempts = [((''login:a'', ''ip''), us)], fr_waiting = w, fr_setup = True \<rparr>"

definition first_state :: front where
  "first_state = \<lparr> fr_flood = \<lparr> peer_attempts = [(''p'', [0])], global_attempts = [0], flood_alarm_at = 0 \<rparr>,
     fr_attempts = [], fr_waiting = 1, fr_setup = True \<rparr>"

lemma six_steps:
  "front_step front_start (Arrive (Some ''p'') 0) = (False, first_state)"
  "front_step first_state (Check ''login:a'' (Some ''ip'') 1) = (False, six_state [0] [1] 0)"
  "0 \<le> a \<Longrightarrow> t < 100 \<Longrightarrow> length ts < 9 \<Longrightarrow>
   front_step (six_state (a # ts) us w) (Arrive (Some ''p'') t) = (False, six_state (a # ts @ [t]) us (Suc w))"
  "0 \<le> b \<Longrightarrow> t < 100 \<Longrightarrow> front_step (six_state ts (b # us) w) (Check ''login:a'' (Some ''ip'') t) =
   (if length us < 4 then (False, six_state ts (b # us @ [t]) (w - 1)) else (True, six_state ts (b # us) (w - 1)))"
  "fr_waiting front_start = 0" "fr_waiting first_state = 1" "fr_waiting (six_state ts us w) = w"
  by (simp_all add: six_state_def first_state_def limiter_simps)

lemma six_sign_ins_run:
  "each_allowed (front_allows 40) front_step front_start six_sign_ins"
  "fst (answers front_step front_start six_sign_ins) =
    [False, False, False, False, False, False, False, False, False, False, False, True]"
  by (simp_all add: six_sign_ins_def answers_first six_steps del: answers.simps(2) front_step.simps)

theorem attempts_bounded_witness:
  "(let through = admitted six_sign_ins (fst (answers front_step front_start six_sign_ins))
    in length (times_of ''p'' (List.map_filter arrival through)) = 6 \<and>
      times_of (''login:a'', ''ip'') (List.map_filter check_of through) = [1, 11, 21, 31, 41] \<and>
      within RATE_LIMIT_WINDOW 5 (times_of (''login:a'', ''ip'') (List.map_filter check_of through)))"
proof -
  have "sorted (map event_time six_sign_ins)" by (simp add: six_sign_ins_def)
  from attempts_bounded [OF this six_sign_ins_run(1)]
  have "within RATE_LIMIT_WINDOW 5 (times_of (''login:a'', ''ip'') (List.map_filter check_of
     (admitted six_sign_ins (fst (answers front_step front_start six_sign_ins)))))" by simp
  moreover have "length (times_of ''p'' (List.map_filter arrival
      (admitted six_sign_ins (fst (answers front_step front_start six_sign_ins))))) = 6"
    "times_of (''login:a'', ''ip'') (List.map_filter check_of
      (admitted six_sign_ins (fst (answers front_step front_start six_sign_ins)))) = [1, 11, 21, 31, 41]"
    unfolding six_sign_ins_run(2)
    by (simp_all add: six_sign_ins_def admitted_def map_filter_simps times_of_def rate_key_def or_dash_def)
  ultimately show ?thesis by (simp add: Let_def)
qed

section \<open>The maps stay within their caps\<close>

lemma drop_oldest_length:
  assumes "dict_ok d" "cap = length d" "10 \<le> cap"
  shows "length (drop_oldest cap d) < cap"
proof -
  define victims where "victims = take (cap div 10) (sort_key (last_attempt d) (map fst d))"
  have "length victims = cap div 10" using assms(2) by (simp add: victims_def)
  then have "victims \<noteq> []" using assms(3) by auto
  then obtain k where "k \<in> set victims" by (cases victims) auto
  moreover have "set victims \<subseteq> fst ` set d"
    using set_take_subset [of "cap div 10" "sort_key (last_attempt d) (map fst d)"]
    by (auto simp: victims_def)
  ultimately obtain w where "(k, w) \<in> set d" "k \<in> set victims" by auto
  then have "length (filter (\<lambda>(k, w). k \<notin> set victims) d) < length d"
    by (intro length_filter_less) auto
  then show ?thesis unfolding drop_oldest_def Let_def victims_def [symmetric] by (simp add: assms(2))
qed

lemma prune_windows_length:
  assumes "dict_ok d" "length d \<le> cap" "10 \<le> cap"
  shows "length (prune_windows cap c d) < cap"
proof -
  have ok: "dict_ok (drop_idle c d)"
    using assms(1) by (simp add: dict_ok_def drop_idle_def distinct_map_filter)
  have "length (drop_idle c d) \<le> length d" by (simp add: drop_idle_def)
  then have le: "length (drop_idle c d) \<le> cap" using assms(2) by simp
  show ?thesis
  proof (cases "cap = length (drop_idle c d)")
    case True
    then show ?thesis
      using drop_oldest_length [OF ok True assms(3)] by (simp add: prune_windows_def Let_def)
  next
    case False
    then show ?thesis using le by (simp add: prune_windows_def Let_def)
  qed
qed

lemma dict_set_length: "length (dict_set k v d) \<le> Suc (length d)"
  by (induction d) auto

lemma open_window_length:
  assumes "dict_ok d" "length d \<le> cap" "10 \<le> cap"
    and "open_window cap (prune_windows cap) c key d = (w, d')"
  shows "length d' \<le> cap"
proof (cases "dict_get d key")
  case None
  have "length (dict_set key [] (if cap \<le> length d then prune_windows cap c d else d)) \<le> cap"
    using dict_set_length [of key "[]" "if cap \<le> length d then prune_windows cap c d else d"]
      prune_windows_length [OF assms(1-3), of c] by (auto split: if_splits)
  then show ?thesis using assms(4) None by (simp add: open_window_def)
next
  case (Some w')
  have "length (dict_set key v d) = length d" for v
    using Some by (induction d) auto
  then show ?thesis using assms(2,4) Some by (auto simp: open_window_def)
qed

end
