(* ===== verification/Local_Login.thy ===== *)
theory Local_Login
  imports Accounts Attempt_Limits
begin

text \<open>
  Local sign-in with a password and a one-time code (\<open>robothor/auth/local_login.py\<close>). Each database
  statement is one transaction on \<open>auth_db\<close>; a request reads the account row once, judges on that
  snapshot (\<open>judge\<close>), and then writes (\<open>settle\<close>), so requests that overlap are interleavings of
  transactions with snapshots taken earlier. \<open>now\<close> is the wall clock and \<open>tick\<close> the monotonic
  clock of the limiter, both in microseconds. Dummy verifications and writes that only equalise
  the time of the branches change nothing and are not modelled; nor are audit records.
\<close>

definition LOCKOUT_THRESHOLD :: int where "LOCKOUT_THRESHOLD = 10"
definition LOCKOUT_SECONDS :: int where "LOCKOUT_SECONDS = 15 * 60"
definition MIN_PASSWORD_LENGTH :: nat where "MIN_PASSWORD_LENGTH = 12"
definition MAX_PASSWORD_LENGTH :: nat where "MAX_PASSWORD_LENGTH = 1024"
definition GENERIC_FAILURE :: string where "GENERIC_FAILURE = ''invalid credentials''"
definition MFA_REQUIRED :: string where "MFA_REQUIRED = ''mfa_required''"

section \<open>Transactions on the account row\<close>

definition update_account :: "string \<Rightarrow> (account \<Rightarrow> account) \<Rightarrow> auth_db \<Rightarrow> auth_db" where
  "update_account user f db =
     db \<lparr> accounts := map (\<lambda>a. if a_id a = user then f a else a) (accounts db) \<rparr>"

text \<open>An expired lock restarts the count at one.\<close>

definition next_failed :: "account \<Rightarrow> int \<Rightarrow> int" where
  "next_failed a now =
     (case a_locked a of Some u \<Rightarrow> if u \<le> now then 1 else a_failed a + 1 | None \<Rightarrow> a_failed a + 1)"

definition count_failure :: "int \<Rightarrow> account \<Rightarrow> account" where
  "count_failure now a =
     a \<lparr> a_failed := next_failed a now,
         a_locked := (if LOCKOUT_THRESHOLD \<le> next_failed a now
                      then Some (now + seconds LOCKOUT_SECONDS) else None) \<rparr>"

definition record_failure :: "auth_db \<Rightarrow> string \<Rightarrow> int \<Rightarrow> auth_db" where
  "record_failure db user now = update_account user (count_failure now) db"

text \<open>
  The claim of a step: the predicate and the write are one statement, and the row count says
  whether the claim was granted.
\<close>

definition step_free :: "int \<Rightarrow> account \<Rightarrow> bool" where
  "step_free step a = (case a_mfa_step a of None \<Rightarrow> True | Some last_used \<Rightarrow> last_used < step)"

definition claim_step ::
  "auth_db \<Rightarrow> string \<Rightarrow> int \<Rightarrow> (account \<Rightarrow> account) \<Rightarrow> bool \<times> auth_db" where
  "claim_step db user step f =
     (list_ex (\<lambda>a. a_id a = user \<and> step_free step a) (accounts db),
      db \<lparr> accounts := map (\<lambda>a. if a_id a = user \<and> step_free step a
                then f (a \<lparr> a_mfa_step := Some step \<rparr>) else a) (accounts db) \<rparr>)"

definition clear_failures :: "account \<Rightarrow> account" where
  "clear_failures a = a \<lparr> a_failed := 0, a_locked := None \<rparr>"

definition record_success :: "auth_db \<Rightarrow> string \<Rightarrow> int option \<Rightarrow> bool \<times> auth_db" where
  "record_success db user mfa_step =
     (case mfa_step of
        None \<Rightarrow> (True, update_account user clear_failures db)
      | Some step \<Rightarrow> claim_step db user step clear_failures)"

definition record_mfa_step :: "auth_db \<Rightarrow> string \<Rightarrow> int \<Rightarrow> bool \<times> auth_db" where
  "record_mfa_step db user step = claim_step db user step (\<lambda>a. a)"

definition confirm_enrollment_atomically :: "auth_db \<Rightarrow> string \<Rightarrow> int \<Rightarrow> bool \<times> auth_db" where
  "confirm_enrollment_atomically db user step =
     claim_step db user step (\<lambda>a. a \<lparr> a_mfa_enabled := True \<rparr>)"

definition store_password_hash :: "auth_db \<Rightarrow> string \<Rightarrow> string \<Rightarrow> auth_db" where
  "store_password_hash db user h =
     update_account user (\<lambda>a. a \<lparr> a_password_hash := Some h, a_failed := 0, a_locked := None \<rparr>) db"

definition store_mfa_secret :: "auth_db \<Rightarrow> string \<Rightarrow> string \<Rightarrow> bool \<Rightarrow> auth_db" where
  "store_mfa_secret db user blob enabled =
     update_account user (\<lambda>a. a \<lparr> a_mfa_secret := Some blob, a_mfa_enabled := enabled \<rparr>) db"

definition set_mfa_enabled :: "auth_db \<Rightarrow> string \<Rightarrow> bool \<Rightarrow> auth_db" where
  "set_mfa_enabled db user enabled = update_account user (\<lambda>a. a \<lparr> a_mfa_enabled := enabled \<rparr>) db"

definition clear_mfa :: "auth_db \<Rightarrow> string \<Rightarrow> auth_db" where
  "clear_mfa db user =
     update_account user (\<lambda>a. a \<lparr> a_mfa_enabled := False, a_mfa_secret := None, a_mfa_step := None \<rparr>) db"

section \<open>Judging a sign-in\<close>

definition is_locked :: "account \<Rightarrow> int \<Rightarrow> bool" where
  "is_locked a now = (case a_locked a of None \<Rightarrow> False | Some u \<Rightarrow> now < u)"

definition current_secret :: "auth_env \<Rightarrow> account \<Rightarrow> string option" where
  "current_secret env a =
     (if \<not> a_mfa_enabled a then None else decrypt_secret env (a_mfa_secret a) (a_id a))"

definition fresh_step ::
  "auth_env \<Rightarrow> account \<Rightarrow> string option \<Rightarrow> string option \<Rightarrow> int \<Rightarrow> int option result" where
  "fresh_step env a secret code now =
     (case secret of
        None \<Rightarrow> Inr None
      | Some s \<Rightarrow>
          bind_result (matching_step (totp_mac env) s code 1 now DIGITS PERIOD) (\<lambda>found.
            case found of
              None \<Rightarrow> Inr None
            | Some step \<Rightarrow>
                (case a_mfa_step a of
                   None \<Rightarrow> Inr (Some step)
                 | Some last_used \<Rightarrow> Inr (if step \<le> last_used then None else Some step))))"

definition validate_password :: "string \<Rightarrow> unit result" where
  "validate_password password =
     guard (MIN_PASSWORD_LENGTH \<le> length password) ValueError
       (guard (length password \<le> MAX_PASSWORD_LENGTH) ValueError (Inr ()))"

text \<open>A refusal, or the request for a code, says whether the attempt is counted.\<close>

datatype verdict = Refused bool | CodeAsked bool | Passed "int option"

definition blank_code :: "string option \<Rightarrow> bool" where
  "blank_code code = (case code of None \<Rightarrow> True | Some c \<Rightarrow> py_strip c = [])"

definition judge ::
  "auth_env \<Rightarrow> account option \<Rightarrow> string \<Rightarrow> string option \<Rightarrow> int \<Rightarrow> verdict result" where
  "judge env row password code now =
     (case row of
        None \<Rightarrow> Inr (Refused False)
      | Some a \<Rightarrow>
          if a_status a \<noteq> ''active'' then Inr (Refused False)
          else if is_locked a now then Inr (Refused False)
          else if \<not> verify_password env password (a_password_hash a) then Inr (Refused True)
          else if \<not> a_mfa_enabled a then Inr (Passed None)
          else if blank_code code then Inr (CodeAsked False)
          else bind_result (fresh_step env a (current_secret env a) code now) (\<lambda>found.
                 Inr (case found of None \<Rightarrow> CodeAsked True | Some step \<Rightarrow> Passed (Some step))))"

record login_result =
  lr_ok :: bool
  lr_mfa_required :: bool
  lr_rate_limited :: bool
  lr_setup_required :: bool
  lr_tokens :: "token_pair option"
  lr_error :: string

definition plain_failure :: login_result where
  "plain_failure = \<lparr> lr_ok = False, lr_mfa_required = False, lr_rate_limited = False,
     lr_setup_required = False, lr_tokens = None, lr_error = GENERIC_FAILURE \<rparr>"

definition code_required :: login_result where
  "code_required = plain_failure \<lparr> lr_mfa_required := True, lr_error := MFA_REQUIRED \<rparr>"

record login_settings =
  ls_enabled :: bool
  ls_owner_mfa :: bool

definition mfa_setup_required_for :: "login_settings \<Rightarrow> account \<Rightarrow> bool" where
  "mfa_setup_required_for cfg a =
     (if a_role a \<noteq> ''owner'' \<or> a_mfa_enabled a then False
      else if \<not> ls_enabled cfg then False else ls_owner_mfa cfg)"

text \<open>The random values one sign-in draws.\<close>

record draws =
  d_salt :: string
  d_refresh :: string
  d_session :: string
  d_jti :: string

definition rehash :: "auth_env \<Rightarrow> auth_db \<Rightarrow> account \<Rightarrow> string \<Rightarrow> string \<Rightarrow> auth_db" where
  "rehash env db a password salt =
     (case a_password_hash a of
        Some h \<Rightarrow>
          if needs_rehash env h then
            (case hash_password env salt password of
               Inl _ \<Rightarrow> db | Inr h' \<Rightarrow> store_password_hash db (a_id a) h')
          else db
      | None \<Rightarrow> db)"

definition settle ::
  "auth_env \<Rightarrow> login_settings \<Rightarrow> auth_db \<Rightarrow> account option \<Rightarrow> verdict \<Rightarrow> string \<Rightarrow> draws \<Rightarrow> int \<Rightarrow>
     login_result result \<times> auth_db" where
  "settle env cfg db row verdict password d now =
     (case row of
        None \<Rightarrow> (Inr plain_failure, db)
      | Some a \<Rightarrow>
          (case verdict of
             Refused counted \<Rightarrow>
               (Inr plain_failure, if counted then record_failure db (a_id a) now else db)
           | CodeAsked counted \<Rightarrow>
               (Inr code_required, if counted then record_failure db (a_id a) now else db)
           | Passed step \<Rightarrow>
               (let r = record_success db (a_id a) step in
                if \<not> fst r then (Inr code_required, record_failure (snd r) (a_id a) now)
                else (let db2 = rehash env (snd r) a password (d_salt d) in
                  case issue_for_account env db2 a (d_refresh d) (d_session d) (d_jti d) now of
                    Inl e \<Rightarrow> (Inl e, db2)
                  | Inr (pair, db3) \<Rightarrow>
                      (Inr \<lparr> lr_ok = True, lr_mfa_required = False, lr_rate_limited = False,
                         lr_setup_required = mfa_setup_required_for cfg a,
                         lr_tokens = Some pair, lr_error = [] \<rparr>, db3)))))"

definition load_account :: "auth_db \<Rightarrow> string option \<Rightarrow> string \<Rightarrow> account option" where
  "load_account db tenant email =
     (case tenant of None \<Rightarrow> login_account_for_email db email
      | Some t \<Rightarrow> get_account_by_email db t email)"

text \<open>The limiter's key, kept apart from those of the other credential routes.\<close>

definition sign_in_key :: "string \<Rightarrow> string" where
  "sign_in_key normalized = ''login:'' @ normalized"

definition authenticate ::
  "auth_env \<Rightarrow> login_settings \<Rightarrow> auth_db \<Rightarrow> attempts \<Rightarrow> string option \<Rightarrow> string \<Rightarrow> string \<Rightarrow>
     string option \<Rightarrow> string option \<Rightarrow> draws \<Rightarrow> int \<Rightarrow> int \<Rightarrow>
     login_result result \<times> auth_db \<times> attempts" where
  "authenticate env cfg db limiter tenant email password code ip d now tick =
     (if \<not> ls_enabled cfg then (Inr plain_failure, db, limiter)
      else let normalized = canonical_email (Some email);
               r = rate_limited limiter (sign_in_key normalized) ip tick
        in if fst r then (Inr (plain_failure \<lparr> lr_rate_limited := True \<rparr>), db, snd r)
           else let row = load_account db tenant normalized in
             (case judge env row password code now of
                Inl e \<Rightarrow> (Inl e, db, snd r)
              | Inr v \<Rightarrow> (let out = settle env cfg db row v password d now in
                            (fst out, snd out, snd r))))"

section \<open>Managing credentials\<close>

text \<open>Weak passwords are a ValueError; the other two exceptions are RuntimeErrors.\<close>

definition set_password ::
  "auth_env \<Rightarrow> auth_db \<Rightarrow> string \<Rightarrow> string \<Rightarrow> string \<Rightarrow> int \<Rightarrow> auth_db result" where
  "set_password env db user new salt now =
     bind_result (validate_password new) (\<lambda>_.
       bind_result (hash_password env salt new) (\<lambda>h.
         Inr (snd (revoke_user_sessions (store_password_hash db user h) user None now))))"

definition change_password ::
  "auth_env \<Rightarrow> auth_db \<Rightarrow> string \<Rightarrow> string \<Rightarrow> string \<Rightarrow> string option \<Rightarrow> string \<Rightarrow> int \<Rightarrow>
     (bool \<times> auth_db) result" where
  "change_password env db user current new keep salt now =
     bind_result (validate_password new) (\<lambda>_.
       case get_account_by_id db user of
         None \<Rightarrow> Inr (False, db)
       | Some a \<Rightarrow>
           if a_status a \<noteq> ''active'' then Inr (False, db)
           else if \<not> verify_password env current (a_password_hash a) then Inr (False, db)
           else bind_result (hash_password env salt new) (\<lambda>h.
             Inr (True, snd (revoke_user_sessions (store_password_hash db user h) user keep now))))"

text \<open>
  \<open>_dummy_hash()\<close>, computed once with some salt, which stands in for a missing hash.
\<close>

definition dummy_hash :: "auth_env \<Rightarrow> string \<Rightarrow> string" where
  "dummy_hash env salt = argon_hash env salt ''local-login-timing-equalizer''"

definition begin_enrollment ::
  "auth_env \<Rightarrow> string \<Rightarrow> auth_db \<Rightarrow> string \<Rightarrow> string \<Rightarrow> byte list \<Rightarrow> string \<Rightarrow>
     (string \<times> auth_db) result" where
  "begin_enrollment env dummy db user password random nonce =
     (case get_account_by_id db user of
        None \<Rightarrow> Inl RuntimeError
      | Some a \<Rightarrow>
          guard (a_status a = ''active'') RuntimeError
          (guard (\<not> a_mfa_enabled a) RuntimeError
          (guard (verify_password env password (Some (or_text (a_password_hash a) dummy))) RuntimeError
            (let secret = new_secret random in
             bind_result (encrypt_secret env nonce secret user) (\<lambda>blob.
               Inr (secret, store_mfa_secret db user blob False))))))"

text \<open>What \<open>confirm_enrollment\<close> decides on its snapshot, and the whole of it.\<close>

definition judge_confirmation ::
  "auth_env \<Rightarrow> account option \<Rightarrow> string \<Rightarrow> string \<Rightarrow> int \<Rightarrow> int option result" where
  "judge_confirmation env row user code now =
     (case row of
        None \<Rightarrow> Inr None
      | Some a \<Rightarrow>
          if a_status a \<noteq> ''active'' then Inr None
          else fresh_step env a (decrypt_secret env (a_mfa_secret a) user) (Some code) now)"

definition confirm_enrollment ::
  "auth_env \<Rightarrow> auth_db \<Rightarrow> string \<Rightarrow> string \<Rightarrow> int \<Rightarrow> (bool \<times> auth_db) result" where
  "confirm_enrollment env db user code now =
     bind_result (judge_confirmation env (get_account_by_id db user) user code now) (\<lambda>found.
       case found of
         None \<Rightarrow> Inr (False, db)
       | Some step \<Rightarrow> Inr (confirm_enrollment_atomically db user step))"

definition judge_disable ::
  "auth_env \<Rightarrow> account option \<Rightarrow> string \<Rightarrow> string \<Rightarrow> int \<Rightarrow> int option result" where
  "judge_disable env row password code now =
     (case row of
        None \<Rightarrow> Inr None
      | Some a \<Rightarrow>
          if \<not> verify_password env password (a_password_hash a) then Inr None
          else fresh_step env a (current_secret env a) (Some code) now)"

definition disable_mfa ::
  "auth_env \<Rightarrow> auth_db \<Rightarrow> string \<Rightarrow> string \<Rightarrow> string \<Rightarrow> int \<Rightarrow> (bool \<times> auth_db) result" where
  "disable_mfa env db user password code now =
     bind_result (judge_disable env (get_account_by_id db user) password code now) (\<lambda>found.
       case found of
         None \<Rightarrow> Inr (False, db)
       | Some step \<Rightarrow>
           (let r = record_mfa_step db user step in
            if \<not> fst r then Inr (False, snd r) else Inr (True, clear_mfa (snd r) user)))"

definition reset_mfa :: "auth_db \<Rightarrow> string \<Rightarrow> auth_db" where
  "reset_mfa db user = clear_mfa db user"

section \<open>Sign-in is sound\<close>

lemma fresh_step_sound:
  assumes "fresh_step env a secret code now = Inr (Some step)"
  shows "\<exists>s. secret = Some s \<and> matching_step (totp_mac env) s code 1 now DIGITS PERIOD = Inr (Some step) \<and>
    step_free step a"
proof -
  obtain s where s: "secret = Some s" using assms by (cases secret) (auto simp: fresh_step_def)
  then obtain found where f: "matching_step (totp_mac env) s code 1 now DIGITS PERIOD = Inr (Some found)"
    using assms by (auto simp: fresh_step_def split: option.splits)
  have "found = step \<and> step_free step a"
    using assms s f by (cases "a_mfa_step a") (auto simp: fresh_step_def step_free_def split: if_splits)
  then show ?thesis using s f by simp
qed

definition password_ok :: "auth_env \<Rightarrow> account \<Rightarrow> string \<Rightarrow> int \<Rightarrow> bool" where
  "password_ok env a password now =
     (a_status a = ''active'' \<and> \<not> is_locked a now \<and> verify_password env password (a_password_hash a))"

definition factor_ok :: "auth_env \<Rightarrow> account \<Rightarrow> string option \<Rightarrow> int \<Rightarrow> int \<Rightarrow> bool" where
  "factor_ok env a code now step =
     (step_free step a \<and> (case current_secret env a of None \<Rightarrow> False
        | Some s \<Rightarrow> matching_step (totp_mac env) s code 1 now DIGITS PERIOD = Inr (Some step)))"

lemma judge_Passed:
  assumes "judge env row password code now = Inr (Passed step)"
  obtains a where "row = Some a" "password_ok env a password now"
    "if a_mfa_enabled a then \<exists>n. step = Some n \<and> factor_ok env a code now n else step = None"
proof -
  obtain a where a: "row = Some a" "password_ok env a password now"
    using assms by (auto simp: judge_def password_ok_def split: option.splits if_splits)
  show thesis
  proof (cases "a_mfa_enabled a")
    case False
    then show thesis using that [OF a] assms a by (auto simp: judge_def split: if_splits)
  next
    case True
    then obtain n where "step = Some n" "fresh_step env a (current_secret env a) code now = Inr (Some n)"
      using assms a by (auto simp: judge_def split: if_splits option.splits)
    then show thesis
      using that [OF a] True fresh_step_sound [of env a "current_secret env a" code now n]
      by (auto simp: factor_ok_def)
  qed
qed

lemma judge_CodeAsked:
  assumes "judge env row password code now = Inr (CodeAsked counted)"
  obtains a where "row = Some a" "password_ok env a password now" "a_mfa_enabled a"
  using assms by (auto simp: judge_def password_ok_def split: option.splits if_splits)

lemma settle_cases:
  assumes "settle env cfg db (Some a) v password d now = (Inr res, db')"
  shows "res = plain_failure \<and> (\<exists>counted. v = Refused counted) \<or>
    res = code_required \<and> (\<exists>counted. v = CodeAsked counted) \<or>
    res = code_required \<and> (\<exists>step. v = Passed step \<and> \<not> fst (record_success db (a_id a) step)) \<or>
    lr_ok res \<and> \<not> lr_mfa_required res \<and> (\<exists>step. v = Passed step \<and> fst (record_success db (a_id a) step)) \<and>
      (\<exists>pair. lr_tokens res = Some pair \<and> fst (tp_account pair) = a_id a)"
proof (cases v)
  case (Passed step)
  show ?thesis
  proof (cases "fst (record_success db (a_id a) step)")
    case False
    then show ?thesis using assms Passed by (simp add: settle_def Let_def)
  next
    case True
    obtain pair db3 where i: "issue_for_account env (rehash env (snd (record_success db (a_id a) step)) a password (d_salt d))
        a (d_refresh d) (d_session d) (d_jti d) now = Inr (pair, db3)"
      using assms Passed True by (auto simp: settle_def Let_def split: sum.splits)
    then have "fst (tp_account pair) = a_id a"
      using make_token_pair_account(1) by (auto simp: issue_for_account_def)
    then show ?thesis using assms Passed True i by (auto simp: settle_def Let_def)
  qed
qed (use assms in \<open>auto simp: settle_def\<close>)

lemma failure_results [simp]:
  "\<not> lr_ok plain_failure" "\<not> lr_mfa_required plain_failure"
  "\<not> lr_ok code_required" "lr_mfa_required code_required"
  by (simp_all add: plain_failure_def code_required_def)

text \<open>
  C34: A sign-in answers anything but the one generic failure, or the rate limit, only for an active,
  unlocked account whose stored hash the password verifies; it succeeds with a second factor enabled
  only on a code that matches the confirmed secret at a step later than the last one used, and only
  when the database granted that step; and its tokens are for that account.
\<close>

theorem sign_in_sound:
  assumes run: "authenticate env cfg db limiter tenant email password code ip d now tick = (Inr res, db', limiter')"
    and distinguishable: "res \<noteq> plain_failure" "res \<noteq> plain_failure \<lparr> lr_rate_limited := True \<rparr>"
  shows "\<exists>a. ls_enabled cfg \<and> load_account db tenant (canonical_email (Some email)) = Some a \<and>
    password_ok env a password now \<and>
    (lr_ok res \<or> res = code_required \<and> a_mfa_enabled a) \<and>
    (lr_ok res \<longrightarrow> (\<exists>pair. lr_tokens res = Some pair \<and> fst (tp_account pair) = a_id a) \<and>
       (a_mfa_enabled a \<longrightarrow> (\<exists>step. factor_ok env a code now step \<and>
          fst (record_success db (a_id a) (Some step)))))"
proof -
  define row where "row = load_account db tenant (canonical_email (Some email))"
  have en: "ls_enabled cfg" using run distinguishable(1) by (auto simp: authenticate_def split: if_splits)
  obtain v where v: "judge env row password code now = Inr v"
      "settle env cfg db row v password d now = (Inr res, db')"
  proof -
    define r where "r = rate_limited limiter (sign_in_key (canonical_email (Some email))) ip tick"
    have eq: "authenticate env cfg db limiter tenant email password code ip d now tick =
        (if fst r then (Inr (plain_failure \<lparr> lr_rate_limited := True \<rparr>), db, snd r)
         else (case judge env row password code now of
                 Inl e \<Rightarrow> (Inl e, db, snd r)
               | Inr v \<Rightarrow> (fst (settle env cfg db row v password d now),
                            snd (settle env cfg db row v password d now), snd r)))"
      unfolding authenticate_def Let_def r_def row_def using en by (simp cong: sum.case_cong)
    have "\<not> fst r" using run distinguishable(2) unfolding eq by (metis Pair_inject sum.inject(2))
    note go = run [unfolded eq if_not_P [OF this]]
    show thesis
    proof (cases "judge env row password code now")
      case (Inl e)
      then show thesis using go by simp
    next
      case (Inr v)
      then have "fst (settle env cfg db row v password d now) = Inr res"
          "snd (settle env cfg db row v password d now) = db'"
        using go by simp_all
      then show thesis using that [OF Inr] by (metis prod.collapse)
    qed
  qed
  obtain a where a: "row = Some a"
    using v(2) distinguishable(1) by (cases row) (auto simp: settle_def)
  note c = settle_cases [OF v(2) [unfolded a]]
  show ?thesis
  proof (cases v)
    case (Refused counted)
    then show ?thesis using c distinguishable(1) by simp
  next
    case (CodeAsked counted)
    obtain a' where a': "row = Some a'" "password_ok env a' password now" "a_mfa_enabled a'"
      by (rule judge_CodeAsked [OF v(1) [unfolded CodeAsked]])
    have "a' = a" using a'(1) a by simp
    then have "password_ok env a password now" "a_mfa_enabled a" using a' by simp_all
    moreover have "res = code_required" using c CodeAsked by simp
    ultimately show ?thesis using en a by (intro exI [of _ a]) (simp add: row_def)
  next
    case (Passed step)
    obtain a' where a': "row = Some a'" "password_ok env a' password now"
      "if a_mfa_enabled a' then \<exists>n. step = Some n \<and> factor_ok env a' code now n else step = None"
      by (rule judge_Passed [OF v(1) [unfolded Passed]])
    have "a' = a" using a'(1) a by simp
    note ok = a'(2) [unfolded this] and step = a'(3) [unfolded this]
    have res: "res = code_required \<and> \<not> fst (record_success db (a_id a) step) \<or>
        lr_ok res \<and> fst (record_success db (a_id a) step) \<and>
          (\<exists>pair. lr_tokens res = Some pair \<and> fst (tp_account pair) = a_id a)"
      using c Passed distinguishable(1) by auto
    show ?thesis
    proof (cases "a_mfa_enabled a")
      case True
      then obtain n where n: "step = Some n" "factor_ok env a code now n" using step by auto
      have "res = code_required \<or> lr_ok res \<and> fst (record_success db (a_id a) (Some n)) \<and>
          (\<exists>pair. lr_tokens res = Some pair \<and> fst (tp_account pair) = a_id a)"
        using res n(1) by blast
      then show ?thesis using True n(2) ok en a unfolding row_def
        by (intro exI [of _ a]) (elim disjE; fastforce)
    next
      case False
      then have "fst (record_success db (a_id a) step)" using step by (simp add: record_success_def)
      then have "lr_ok res \<and> (\<exists>pair. lr_tokens res = Some pair \<and> fst (tp_account pair) = a_id a)"
        using res by blast
      then show ?thesis using False ok en a unfolding row_def by (intro exI [of _ a]) blast
    qed
  qed
qed

section \<open>A code is accepted once\<close>

text \<open>
  Whatever requests overlap, the database sees some sequence of these transactions. \<open>granted\<close> is
  the step a transaction claims for an account, if its claim succeeds.
\<close>

datatype login_tx =
    FailTx string int
  | SuccessTx string "int option"
  | BurnTx string int
  | ConfirmTx string int
  | PasswordTx string string
  | SecretTx string string bool
  | EnableTx string bool
  | ClearTx string

fun tx_step :: "auth_db \<Rightarrow> login_tx \<Rightarrow> auth_db" where
  "tx_step db (FailTx user now) = record_failure db user now"
| "tx_step db (SuccessTx user step) = snd (record_success db user step)"
| "tx_step db (BurnTx user step) = snd (record_mfa_step db user step)"
| "tx_step db (ConfirmTx user step) = snd (confirm_enrollment_atomically db user step)"
| "tx_step db (PasswordTx user h) = store_password_hash db user h"
| "tx_step db (SecretTx user blob enabled) = store_mfa_secret db user blob enabled"
| "tx_step db (EnableTx user enabled) = set_mfa_enabled db user enabled"
| "tx_step db (ClearTx user) = clear_mfa db user"

fun granted :: "string \<Rightarrow> auth_db \<Rightarrow> login_tx \<Rightarrow> int list" where
  "granted user db (SuccessTx u (Some step)) =
     (if u = user \<and> fst (record_success db u (Some step)) then [step] else [])"
| "granted user db (BurnTx u step) = (if u = user \<and> fst (record_mfa_step db u step) then [step] else [])"
| "granted user db (ConfirmTx u step) =
     (if u = user \<and> fst (confirm_enrollment_atomically db u step) then [step] else [])"
| "granted user db _ = []"

fun granted_steps :: "string \<Rightarrow> auth_db \<Rightarrow> login_tx list \<Rightarrow> int list" where
  "granted_steps user db [] = []"
| "granted_steps user db (tx # txs) = granted user db tx @ granted_steps user (tx_step db tx) txs"

definition ids_distinct :: "auth_db \<Rightarrow> bool" where
  "ids_distinct db = distinct (map a_id (accounts db))"

text \<open>The watermark of an account: every row with its id has used a step of at least \<open>n\<close>.\<close>

definition used_at_least :: "string \<Rightarrow> int \<Rightarrow> auth_db \<Rightarrow> bool" where
  "used_at_least user n db \<longleftrightarrow>
     (\<forall>a \<in> set (accounts db). a_id a = user \<longrightarrow> (\<exists>u. a_mfa_step a = Some u \<and> n \<le> u))"

lemma used_update:
  assumes "used_at_least user n db" "\<And>a. a_id (f a) = a_id a" "\<And>a. a_mfa_step (f a) = a_mfa_step a"
  shows "used_at_least user n (update_account u f db)"
  using assms by (auto simp: used_at_least_def update_account_def)

lemma used_claim:
  assumes "used_at_least user n db" "\<And>a. a_id (f a) = a_id a" "\<And>a. a_mfa_step (f a) = a_mfa_step a"
  shows "used_at_least user n (snd (claim_step db u step f))"
  using assms by (fastforce simp: used_at_least_def claim_step_def step_free_def split: option.splits)

lemma used_step:
  assumes "used_at_least user n db" "tx \<noteq> ClearTx user"
  shows "used_at_least user n (tx_step db tx)"
proof (cases tx)
  case (SuccessTx u step)
  show ?thesis
    by (cases step) (use SuccessTx assms(1) in \<open>auto simp: record_success_def clear_failures_def
        intro!: used_update used_claim\<close>)
next
  case (ClearTx u)
  then show ?thesis
    using assms by (auto simp: clear_mfa_def update_account_def used_at_least_def)
qed (use assms(1) in \<open>auto simp: record_failure_def count_failure_def record_mfa_step_def
    confirm_enrollment_atomically_def store_password_hash_def store_mfa_secret_def set_mfa_enabled_def
    intro!: used_update used_claim\<close>)

lemma claim_above:
  assumes "used_at_least user n db" "fst (claim_step db user step f)"
  shows "n < step"
  using assms by (force simp: used_at_least_def claim_step_def list_ex_iff step_free_def)

lemma claim_marks:
  assumes "ids_distinct db" "fst (claim_step db user step f)"
    "\<And>a. a_id (f a) = a_id a" "\<And>a. a_mfa_step (f a) = a_mfa_step a"
  shows "used_at_least user step (snd (claim_step db user step f))"
proof -
  obtain a where a: "a \<in> set (accounts db)" "a_id a = user" "step_free step a"
    using assms(2) by (auto simp: claim_step_def list_ex_iff)
  have only: "b = a" if "b \<in> set (accounts db)" "a_id b = user" for b
    using assms(1) a(1,2) that by (auto simp: ids_distinct_def distinct_map inj_on_def)
  show ?thesis
    unfolding used_at_least_def
  proof (intro ballI impI)
    fix c
    assume c: "c \<in> set (accounts (snd (claim_step db user step f)))" "a_id c = user"
    then obtain b where b: "b \<in> set (accounts db)"
        "c = (if a_id b = user \<and> step_free step b then f (b \<lparr> a_mfa_step := Some step \<rparr>) else b)"
      by (auto simp: claim_step_def)
    then have "a_id b = user" using c(2) assms(3) by (auto split: if_splits)
    then have "b = a" using only b(1) by blast
    then show "\<exists>u. a_mfa_step c = Some u \<and> step \<le> u" using b(2) a assms(4) by simp
  qed
qed

lemma ids_step: "ids_distinct db \<Longrightarrow> ids_distinct (tx_step db tx)"
proof -
  have "map a_id (accounts (update_account u f db)) = map a_id (accounts db)"
    if "\<And>a. a_id (f a) = a_id a" for u f
    using that by (simp add: update_account_def)
  moreover have "map a_id (accounts (snd (claim_step db u step f))) = map a_id (accounts db)"
    if "\<And>a. a_id (f a) = a_id a" for u f step
    using that by (simp add: claim_step_def)
  ultimately have "map a_id (accounts (tx_step db tx)) = map a_id (accounts db)"
    by (cases tx) (auto simp: record_failure_def count_failure_def record_success_def clear_failures_def
        record_mfa_step_def confirm_enrollment_atomically_def store_password_hash_def
        store_mfa_secret_def set_mfa_enabled_def clear_mfa_def split: option.splits)
  then show "ids_distinct db \<Longrightarrow> ids_distinct (tx_step db tx)" by (simp add: ids_distinct_def)
qed

lemma granted_cases:
  "granted user db tx = [] \<or>
   (\<exists>step f. granted user db tx = [step] \<and> fst (claim_step db user step f) \<and>
      tx_step db tx = snd (claim_step db user step f) \<and>
      (\<forall>a. a_id (f a) = a_id a) \<and> (\<forall>a. a_mfa_step (f a) = a_mfa_step a))"
proof (cases tx)
  case (SuccessTx u step)
  show ?thesis
  proof (cases step)
    case (Some n)
    then show ?thesis using SuccessTx
      by (auto simp: record_success_def clear_failures_def intro!: exI [of _ clear_failures])
  qed (simp add: SuccessTx)
next
  case (BurnTx u step)
  then show ?thesis by (auto simp: record_mfa_step_def intro!: exI [of _ "\<lambda>a. a"])
next
  case (ConfirmTx u step)
  then show ?thesis
    by (auto simp: confirm_enrollment_atomically_def intro!: exI [of _ "\<lambda>a. a \<lparr> a_mfa_enabled := True \<rparr>"])
qed simp_all

lemma granted_above:
  assumes "used_at_least user n db" "\<forall>tx \<in> set txs. tx \<noteq> ClearTx user"
  shows "\<forall>m \<in> set (granted_steps user db txs). n < m"
  using assms
proof (induction txs arbitrary: db)
  case Nil
  then show ?case by simp
next
  case (Cons tx txs)
  have "used_at_least user n (tx_step db tx)" using used_step Cons.prems by simp
  then have "\<forall>m \<in> set (granted_steps user (tx_step db tx) txs). n < m" using Cons by simp
  moreover have "\<forall>m \<in> set (granted user db tx). n < m"
    using granted_cases [of user db tx] claim_above [OF Cons.prems(1)] by auto
  ultimately show ?case by auto
qed

text \<open>
  C35: Over every interleaving of the transactions of sign-ins, enrolments and removals, the steps
  the database grants to one account strictly increase until its factor is cleared; so no one-time
  code, and no older one, is accepted twice, however many requests present it at once.
\<close>

theorem one_time_code:
  assumes "ids_distinct db" "\<forall>tx \<in> set txs. tx \<noteq> ClearTx user"
  shows "sorted_wrt (<) (granted_steps user db txs)"
  using assms
proof (induction txs arbitrary: db)
  case Nil
  then show ?case by simp
next
  case (Cons tx txs)
  have IH: "sorted_wrt (<) (granted_steps user (tx_step db tx) txs)"
    using Cons ids_step by simp
  show ?case
    using granted_cases [of user db tx]
  proof
    assume "granted user db tx = []"
    then show ?thesis using IH by simp
  next
    assume "\<exists>step f. granted user db tx = [step] \<and> fst (claim_step db user step f) \<and>
      tx_step db tx = snd (claim_step db user step f) \<and>
      (\<forall>a. a_id (f a) = a_id a) \<and> (\<forall>a. a_mfa_step (f a) = a_mfa_step a)"
    then obtain step where g: "granted user db tx = [step]" "used_at_least user step (tx_step db tx)"
      using claim_marks [OF Cons.prems(1)] by metis
    then have "\<forall>m \<in> set (granted_steps user (tx_step db tx) txs). step < m"
      using granted_above [OF g(2), of txs] Cons.prems(2) by auto
    then show ?thesis using g(1) IH by simp
  qed
qed

theorem one_time_code_witness:
  "sorted_wrt (<) (granted_steps ''u1'' demo_db
     [SuccessTx ''u1'' (Some 3), SuccessTx ''u1'' (Some 3), BurnTx ''u1'' 4]) \<and>
   granted_steps ''u1'' demo_db
     [SuccessTx ''u1'' (Some 3), SuccessTx ''u1'' (Some 3), BurnTx ''u1'' 4] = [3, 4]"
proof
  have "ids_distinct demo_db" by (simp add: ids_distinct_def demo_db_def demo_account_def)
  then show "sorted_wrt (<) (granted_steps ''u1'' demo_db
     [SuccessTx ''u1'' (Some 3), SuccessTx ''u1'' (Some 3), BurnTx ''u1'' 4])"
    by (rule one_time_code) simp
  show "granted_steps ''u1'' demo_db
     [SuccessTx ''u1'' (Some 3), SuccessTx ''u1'' (Some 3), BurnTx ''u1'' 4] = [3, 4]"
    by code_simp
qed

text \<open>What a sign-in writes to the accounts is such a sequence, without a clearing.\<close>

lemma settle_transactions:
  "\<exists>txs. accounts (snd (settle env cfg db row v password d now)) =
     accounts (fold (\<lambda>tx db. tx_step db tx) txs db) \<and> (\<forall>tx \<in> set txs. \<forall>u. tx \<noteq> ClearTx u)"
proof (cases row)
  case None
  then show ?thesis by (intro exI [of _ "[]"]) (simp add: settle_def)
next
  case (Some a)
  have same: "accounts (snd (settle env cfg db row v password d now)) = accounts db \<or>
      accounts (snd (settle env cfg db row v password d now)) = accounts (record_failure db (a_id a) now)"
    if "\<forall>step. v \<noteq> Passed step"
    using that Some by (cases v) (auto simp: settle_def)
  show ?thesis
  proof (cases "\<exists>step. v = Passed step")
    case False
    then have "\<forall>step. v \<noteq> Passed step" by blast
    from same [OF this] show ?thesis
    proof
      assume "accounts (snd (settle env cfg db row v password d now)) = accounts db"
      then show ?thesis by (intro exI [of _ "[]"]) simp
    next
      assume "accounts (snd (settle env cfg db row v password d now)) = accounts (record_failure db (a_id a) now)"
      then show ?thesis by (intro exI [of _ "[FailTx (a_id a) now]"]) simp
    qed
  next
    case True
    then obtain step where v: "v = Passed step" by blast
    define db1 where "db1 = snd (record_success db (a_id a) step)"
    define db2 where "db2 = rehash env db1 a password (d_salt d)"
    have issue: "accounts db3 = accounts db2"
      if "issue_for_account env db2 a (d_refresh d) (d_session d) (d_jti d) now = Inr (pair, db3)" for pair db3
      using that insert_session_ok(2) by (auto simp: issue_for_account_def create_session_def)
    have re: "db2 = db1 \<or> (\<exists>h. db2 = store_password_hash db1 (a_id a) h)"
      by (auto simp: db2_def rehash_def split: option.splits sum.splits)
    have "accounts (snd (settle env cfg db row v password d now)) =
        accounts (record_failure db1 (a_id a) now) \<or>
        accounts (snd (settle env cfg db row v password d now)) = accounts db2"
    proof (cases "fst (record_success db (a_id a) step)")
      case False
      then show ?thesis unfolding v Some settle_def Let_def db1_def by simp
    next
      case True
      show ?thesis
      proof (cases "issue_for_account env db2 a (d_refresh d) (d_session d) (d_jti d) now")
        case (Inl e)
        then show ?thesis using True unfolding v Some settle_def Let_def db2_def db1_def by simp
      next
        case (Inr p)
        obtain pair db3 where p: "p = (pair, db3)" by (cases p)
        then have "snd (settle env cfg db row v password d now) = db3"
          using True Inr unfolding v Some settle_def Let_def db2_def db1_def by simp
        then show ?thesis using issue Inr p by metis
      qed
    qed
    then consider "accounts (snd (settle env cfg db row v password d now)) = accounts (record_failure db1 (a_id a) now)"
      | "accounts (snd (settle env cfg db row v password d now)) = accounts db1"
      | h where "accounts (snd (settle env cfg db row v password d now)) = accounts (store_password_hash db1 (a_id a) h)"
      using re by auto
    then show ?thesis
    proof cases
      case 1
      then show ?thesis by (intro exI [of _ "[SuccessTx (a_id a) step, FailTx (a_id a) now]"]) (simp add: db1_def)
    next
      case 2
      then show ?thesis by (intro exI [of _ "[SuccessTx (a_id a) step]"]) (simp add: db1_def)
    next
      case (3 h)
      then show ?thesis by (intro exI [of _ "[SuccessTx (a_id a) step, PasswordTx (a_id a) h]"]) (simp add: db1_def)
    qed
  qed
qed

section \<open>Lockout\<close>

definition fail_at :: "string \<Rightarrow> int list \<Rightarrow> auth_db \<Rightarrow> auth_db" where
  "fail_at user ts db = fold (\<lambda>t db. record_failure db user t) ts db"

lemma get_update_account:
  assumes "\<And>a. a_id (f a) = a_id a"
  shows "get_account_by_id (update_account user f db) u =
    (if u = user then map_option f (get_account_by_id db u) else get_account_by_id db u)"
proof -
  have "find (\<lambda>a. a_id a = u) (map (\<lambda>a. if a_id a = user then f a else a) as) =
      (if u = user then map_option f (find (\<lambda>a. a_id a = u) as) else find (\<lambda>a. a_id a = u) as)" for as
    by (induction as) (auto simp: assms)
  then show ?thesis by (simp add: get_account_by_id_def update_account_def)
qed

lemma fail_count:
  assumes "get_account_by_id db user = Some a" "a_locked a = None" "0 \<le> a_failed a"
    "a_failed a + int (length ts) < LOCKOUT_THRESHOLD"
  shows "\<exists>b. get_account_by_id (fail_at user ts db) user = Some b \<and> a_locked b = None \<and>
    a_failed b = a_failed a + int (length ts)"
  using assms
proof (induction ts arbitrary: db a)
  case Nil
  then show ?case by (simp add: fail_at_def)
next
  case (Cons t ts)
  define b where "b = count_failure t a"
  have b: "a_locked b = None" "a_failed b = a_failed a + 1"
    using Cons.prems by (auto simp: b_def count_failure_def next_failed_def)
  have "get_account_by_id (record_failure db user t) user = Some b"
    using Cons.prems(1) get_update_account [of "count_failure t" user db user]
    by (simp add: record_failure_def b_def count_failure_def)
  from Cons.IH [OF this b(1)] show ?case
    using b(2) Cons.prems(3,4) by (simp add: fail_at_def algebra_simps)
qed

lemma locked_account_refuses:
  assumes "load_account db tenant (canonical_email (Some email)) = Some a" "is_locked a now"
  shows "fst (snd (authenticate env cfg db limiter tenant email password code ip d now tick)) = db"
    "fst (authenticate env cfg db limiter tenant email password code ip d now tick) \<in>
       {Inr plain_failure, Inr (plain_failure \<lparr> lr_rate_limited := True \<rparr>)}"
proof -
  have j: "judge env (Some a) password code now = Inr (Refused False)"
    using assms(2) by (simp add: judge_def)
  show "fst (snd (authenticate env cfg db limiter tenant email password code ip d now tick)) = db"
    "fst (authenticate env cfg db limiter tenant email password code ip d now tick) \<in>
       {Inr plain_failure, Inr (plain_failure \<lparr> lr_rate_limited := True \<rparr>)}"
    using assms(1) j by (auto simp: authenticate_def Let_def settle_def)
qed

text \<open>
  Ten counted failures in a row lock an account until fifteen minutes after the tenth; until then
  every sign-in to it is answered with the generic failure or the rate limit, with whatever password
  and code, and changes nothing, so it does not prolong the lock.
\<close>

theorem lockout:
  assumes "get_account_by_id db user = Some a" "a_failed a = 0" "a_locked a = None"
    and "length ts = 10"
    and "load_account (fail_at user ts db) tenant (canonical_email (Some email)) =
      get_account_by_id (fail_at user ts db) user"
    and "now < List.last ts + seconds (15 * 60)"
  shows "fst (snd (authenticate env cfg (fail_at user ts db) limiter tenant email password code ip d now tick)) =
      fail_at user ts db \<and>
    fst (authenticate env cfg (fail_at user ts db) limiter tenant email password code ip d now tick) \<in>
      {Inr plain_failure, Inr (plain_failure \<lparr> lr_rate_limited := True \<rparr>)}"
proof -
  obtain us t where ts: "ts = us @ [t]" "length us = 9"
    using assms(4) by (cases ts rule: rev_cases) auto
  obtain b where b: "get_account_by_id (fail_at user us db) user = Some b" "a_locked b = None" "a_failed b = 9"
    using fail_count [OF assms(1,3), of us] assms(2) ts(2) by (auto simp: LOCKOUT_THRESHOLD_def)
  define c where "c = count_failure t b"
  have "fail_at user ts db = record_failure (fail_at user us db) user t"
    by (simp add: ts(1) fail_at_def)
  then have "get_account_by_id (fail_at user ts db) user = Some c"
    using b(1) get_update_account [of "count_failure t" user "fail_at user us db" user]
    by (simp add: record_failure_def c_def count_failure_def)
  moreover have "is_locked c now"
    using b(2,3) assms(6) ts(1)
    by (simp add: is_locked_def c_def count_failure_def next_failed_def LOCKOUT_THRESHOLD_def LOCKOUT_SECONDS_def)
  ultimately show ?thesis
    using locked_account_refuses [where db = "fail_at user ts db"] assms(5) by metis
qed

theorem lockout_witness:
  "fst (authenticate demo_env \<lparr> ls_enabled = True, ls_owner_mfa = True \<rparr>
     (fail_at ''u1'' (replicate 10 5) demo_db) [] None ''O@x '' ''long password'' None None
     \<lparr> d_salt = ''s'', d_refresh = ''f'', d_session = ''s5'', d_jti = ''j'' \<rparr> 899000000 7) \<in>
   {Inr plain_failure, Inr (plain_failure \<lparr> lr_rate_limited := True \<rparr>)}"
proof -
  have a: "get_account_by_id demo_db ''u1'' = Some demo_account" "a_failed demo_account = 0"
    "a_locked demo_account = None"
    by (simp_all add: get_account_by_id_def demo_db_def demo_account_def)
  have "load_account (fail_at ''u1'' (replicate 10 5) demo_db) None (canonical_email (Some ''O@x '')) =
      get_account_by_id (fail_at ''u1'' (replicate 10 5) demo_db) ''u1''"
    by code_simp
  from lockout [OF a _ this] show ?thesis by (simp add: seconds_def)
qed

section \<open>The right credentials sign in\<close>

lemma token_pair_minted:
  assumes "a_status a = ''active''" "a_role a \<in> set HUMAN_ROLES" "a_id a \<noteq> []" "a_tenant a \<noteq> []"
  shows "\<exists>pair. make_token_pair env a raw at jti now random = Inr pair"
proof -
  obtain claims where "access_claims ((user_token (a_id a) (a_tenant a) (a_role a))
      \<lparr> tr_issued_at := map_option (\<lambda>t. t - ROTATION_CLOCK_SKEW_SECONDS) at,
        tr_ttl := (case at of None \<Rightarrow> ACCESS_TTL_SECONDS
                   | Some _ \<Rightarrow> ACCESS_TTL_SECONDS + ROTATION_CLOCK_SKEW_SECONDS),
        tr_jti := jti \<rparr>) (whole_seconds now) random = Inr claims"
    using human_token_minted [OF assms(2,3,4)] by blast
  then show ?thesis using assms(1) by (simp add: make_token_pair_def issue_access_token_def Let_def)
qed

lemma get_account_claim:
  assumes "get_account_by_id db user = Some a" "\<And>a. a_id (f a) = a_id a"
  shows "get_account_by_id (snd (claim_step db user step f)) user \<noteq> None"
proof -
  have "find (\<lambda>a. a_id a = user) (map (\<lambda>a. if a_id a = user \<and> step_free step a
      then f (a \<lparr> a_mfa_step := Some step \<rparr>) else a) as) \<noteq> None"
    if "find (\<lambda>a. a_id a = user) as \<noteq> None" for as
    using that by (induction as) (auto simp: assms(2))
  then show ?thesis using assms(1) by (simp add: get_account_by_id_def claim_step_def)
qed

lemma rehash_facts:
  "sessions (rehash env db a password salt) = sessions db"
  "get_account_by_id db user \<noteq> None \<Longrightarrow> get_account_by_id (rehash env db a password salt) user \<noteq> None"
  using get_update_account [of "\<lambda>a. a \<lparr> a_password_hash := Some h, a_failed := 0, a_locked := None \<rparr>" "a_id a" db user for h]
  by (auto simp: rehash_def store_password_hash_def update_account_def split: option.splits sum.splits)

text \<open>
  C40: The owner of an active, unlocked account with a confirmed second factor who gives the right
  password and the code their authenticator shows, on a clock at most one step off and at a step not
  yet used, is signed in, and the session of the new refresh token is live.
\<close>

theorem right_credentials_sign_in:
  assumes mac: "\<And>k m. length (totp_mac env k m) = 20"
    and on: "ls_enabled cfg" "\<not> fst (rate_limited limiter (sign_in_key (canonical_email (Some email))) ip tick)"
    and row: "load_account db tenant (canonical_email (Some email)) = Some a" "get_account_by_id db (a_id a) = Some a"
    and ok: "password_ok env a password now"
    and factor: "a_mfa_enabled a" "current_secret env a = Some (new_secret random)" "20 \<le> length random"
    and clock: "0 \<le> whole_seconds t div 30" "whole_seconds t div 30 < 2 ^ 64" "whole_seconds now div 30 + 1 < 2 ^ 64"
      "\<bar>whole_seconds t div 30 - whole_seconds now div 30\<bar> \<le> 1" "step_free (whole_seconds t div 30) a"
    and identity: "a_role a \<in> set HUMAN_ROLES" "a_id a \<noteq> []" "a_tenant a \<noteq> []"
    and draws: "d_session d \<notin> s_id ` set (sessions db)"
      "hash_refresh_token env (d_refresh d) \<notin> s_hash ` set (sessions db)"
    and code: "generate (totp_mac env) (new_secret random) t DIGITS PERIOD = Inr code"
  shows "\<exists>res db' limiter'. authenticate env cfg db limiter tenant email password (Some code) ip d now tick =
      (Inr res, db', limiter') \<and> lr_ok res \<and>
    get_active_session db' (hash_refresh_token env (d_refresh d)) now \<noteq> None"
proof -
  obtain n where n: "matching_step (totp_mac env) (new_secret random) (Some code) 1 now 6 30 = Inr (Some n)"
      "whole_seconds t div 30 \<le> n" "code_text 6 code"
    using generated_code_matches [where mac = "totp_mac env", OF mac factor(3) clock(1-4)] code
    by (metis DIGITS_def PERIOD_def sum.inject(2))
  have free: "step_free n a" using clock(5) n(2) by (auto simp: step_free_def split: option.splits)
  then have fresh: "fresh_step env a (Some (new_secret random)) (Some code) now = Inr (Some n)"
    using n(1) by (auto simp: fresh_step_def step_free_def DIGITS_def PERIOD_def split: option.splits)
  have "\<not> blank_code (Some code)"
    using code_text_facts(2,4) [OF n(3)] by (auto simp: blank_code_def)
  then have j: "judge env (Some a) password (Some code) now = Inr (Passed (Some n))"
    using ok factor(1,2) fresh by (simp add: judge_def password_ok_def)
  define db1 where "db1 = snd (record_success db (a_id a) (Some n))"
  define db2 where "db2 = rehash env db1 a password (d_salt d)"
  have granted: "fst (record_success db (a_id a) (Some n))"
    using row(2) free by (auto simp: record_success_def claim_step_def list_ex_iff get_account_by_id_def find_Some_iff)
  have "get_account_by_id db1 (a_id a) \<noteq> None"
    using get_account_claim [OF row(2), of clear_failures] by (simp add: db1_def record_success_def clear_failures_def)
  then have acc: "get_account_by_id db2 (a_id a) \<noteq> None" unfolding db2_def by (rule rehash_facts(2))
  have ss: "sessions db2 = sessions db" by (simp add: db2_def rehash_facts db1_def record_success_def claim_step_def)
  obtain pair where pair: "make_token_pair env a (d_refresh d) None None now (d_jti d) = Inr pair"
    using token_pair_minted [OF _ identity] ok unfolding password_ok_def by blast
  define s where "s = new_session (d_session d) (a_id a) (hash_refresh_token env (d_refresh d)) (now + seconds REFRESH_TTL_SECONDS)"
  have "insert_session db2 s = Inr (db2 \<lparr> sessions := sessions db @ [s] \<rparr>)"
  proof -
    have "\<not> (\<exists>o' \<in> set (sessions db). s_hash o' = s_hash s \<or> s_id o' = s_id s)"
      using draws unfolding s_def new_session_def by (simp, metis image_eqI)
    then show ?thesis using acc ss by (simp add: insert_session_def s_def new_session_def)
  qed
  then have issue: "issue_for_account env db2 a (d_refresh d) (d_session d) (d_jti d) now =
      Inr (pair, db2 \<lparr> sessions := sessions db @ [s] \<rparr>)"
    using pair by (simp add: issue_for_account_def create_session_def s_def)
  have live: "get_active_session (db2 \<lparr> sessions := sessions db @ [s] \<rparr>) (hash_refresh_token env (d_refresh d)) now \<noteq> None"
  proof -
    have "live now s" "s_hash s = hash_refresh_token env (d_refresh d)"
      by (simp_all add: s_def new_session_def live_def seconds_def REFRESH_TTL_SECONDS_def)
    then show ?thesis by (auto simp: get_active_session_def find_None_iff)
  qed
  define res where "res = \<lparr> lr_ok = True, lr_mfa_required = False, lr_rate_limited = False,
     lr_setup_required = mfa_setup_required_for cfg a, lr_tokens = Some pair, lr_error = [] \<rparr>"
  have "settle env cfg db (Some a) (Passed (Some n)) password d now = (Inr res, db2 \<lparr> sessions := sessions db @ [s] \<rparr>)"
    unfolding settle_def Let_def using granted issue by (simp add: res_def flip: db1_def db2_def)
  then have "authenticate env cfg db limiter tenant email password (Some code) ip d now tick =
      (Inr res, db2 \<lparr> sessions := sessions db @ [s] \<rparr>,
       snd (rate_limited limiter (sign_in_key (canonical_email (Some email))) ip tick))"
    unfolding authenticate_def Let_def using on row(1) j by simp
  then show ?thesis using live res_def by auto
qed

definition demo_settings :: login_settings where
  "demo_settings = \<lparr> ls_enabled = True, ls_owner_mfa = True \<rparr>"

definition demo_draws :: draws where
  "demo_draws = \<lparr> d_salt = ''s'', d_refresh = ''f'', d_session = ''s5'', d_jti = ''j'' \<rparr>"

lemma demo_secret: "new_secret (replicate 20 0) = toy_secret"
  by code_simp

lemma demo_code: "generate (totp_mac demo_env) toy_secret 95000000 DIGITS PERIOD = Inr ''000003''"
proof -
  have "whole_seconds 95000000 = 95" by (simp add: whole_seconds_def)
  moreover have "pad_zeros 6 (show_nat 3) = ''000003''" by code_simp
  ultimately show ?thesis
    using toy_secret toy_code [of 3 "replicate 20 0"]
    by (simp add: generate_def time_counter_def DIGITS_def PERIOD_def demo_env_def)
qed

theorem right_credentials_sign_in_witness:
  "\<exists>res db' limiter'. authenticate demo_env demo_settings demo_db [] None ''O@x '' ''long password''
     (Some ''000003'') None demo_draws 121000000 7 = (Inr res, db', limiter') \<and> lr_ok res \<and>
     get_active_session db' (hash_refresh_token demo_env (d_refresh demo_draws)) 121000000 \<noteq> None"
proof (rule right_credentials_sign_in)
  show "\<And>k m. length (totp_mac demo_env k m) = 20" by (simp add: demo_env_def toy_mac_length)
  show "ls_enabled demo_settings" by (simp add: demo_settings_def)
  show "\<not> fst (rate_limited [] (sign_in_key (canonical_email (Some ''O@x ''))) None 7)"
    by (simp add: rate_limited_def open_window_def Let_def RATE_LIMIT_MAX_KEYS_def RATE_LIMIT_ATTEMPTS_def)
  show "load_account demo_db None (canonical_email (Some ''O@x '')) = Some demo_account" by code_simp
  show "get_account_by_id demo_db (a_id demo_account) = Some demo_account" by code_simp
  show "password_ok demo_env demo_account ''long password'' 121000000" by code_simp
  show "a_mfa_enabled demo_account" by (simp add: demo_account_def)
  show "current_secret demo_env demo_account = Some (new_secret (replicate 20 0))"
    unfolding demo_secret by code_simp
  show "generate (totp_mac demo_env) (new_secret (replicate 20 0)) 95000000 DIGITS PERIOD = Inr ''000003''"
    unfolding demo_secret by (rule demo_code)
  show "a_role demo_account \<in> set HUMAN_ROLES" "a_id demo_account \<noteq> []" "a_tenant demo_account \<noteq> []"
    by (simp_all add: demo_account_def HUMAN_ROLES_def)
  show "d_session demo_draws \<notin> s_id ` set (sessions demo_db)"
    "hash_refresh_token demo_env (d_refresh demo_draws) \<notin> s_hash ` set (sessions demo_db)"
    by (simp_all add: demo_draws_def demo_db_def new_session_def hash_refresh_token_def demo_env_def)
  show "step_free (whole_seconds 95000000 div 30) demo_account" by (simp add: step_free_def demo_account_def)
qed (simp_all add: whole_seconds_def)

theorem sign_in_sound_witness:
  "\<exists>a. load_account demo_db None (canonical_email (Some ''O@x '')) = Some a \<and>
     password_ok demo_env a ''long password'' 95000000 \<and> a_mfa_enabled a"
proof -
  have run: "authenticate demo_env demo_settings demo_db [] None ''O@x '' ''long password'' None None
      demo_draws 95000000 7 = (Inr code_required, demo_db, [((''login:o@x'', ''-''), [7])])"
    by code_simp
  have "code_required \<noteq> plain_failure" "code_required \<noteq> plain_failure \<lparr> lr_rate_limited := True \<rparr>"
    by (simp_all add: code_required_def plain_failure_def)
  from sign_in_sound [OF run this] show ?thesis by auto
qed

section \<open>Findings\<close>

text \<open>
  An account without a password (single sign-on only) has no password to ask for, yet
  \<open>begin_enrollment\<close> verifies the caller's text against the dummy hash, whose text is in the source:
  whoever holds a session of the account enrols a second factor with it. \<open>authenticate\<close> refuses
  such an account.
\<close>

lemma dummy_password_enrolls:
  assumes "\<And>salt p. argon_verify env (argon_hash env salt p) p" "\<And>salt p. argon_hash env salt p \<noteq> []"
    and "get_account_by_id db user = Some a" "a_status a = ''active''" "\<not> a_mfa_enabled a"
      "a_password_hash a = None" "user \<noteq> []" "20 \<le> length random"
  shows "\<exists>secret db'. begin_enrollment env (dummy_hash env salt) db user
    ''local-login-timing-equalizer'' random nonce = Inr (secret, db')"
proof -
  have "verify_password env ''local-login-timing-equalizer''
      (Some (or_text (a_password_hash a) (dummy_hash env salt)))"
    using assms(1,2) [of salt "''local-login-timing-equalizer''"] assms(6)
    by (simp add: verify_password_def or_text_def dummy_hash_def)
  moreover have "new_secret random \<noteq> []"
  proof -
    have "take 20 random \<noteq> []" "5 dvd length (take 20 random)" using assms(8) by auto
    then show ?thesis
      using secret_roundtrip [of "take 20 random"]
      by (auto simp: new_secret_def SECRET_BYTES_def decode_secret_def clean_secret_def py_upper_def py_strip_def)
  qed
  ultimately show ?thesis
    using assms(3-5,7) by (simp add: begin_enrollment_def encrypt_secret_def Let_def)
qed

text \<open>
  Two overlaps of requests. A sign-in that verified the old password and finds its hash outdated
  writes a new hash of the old password, also when the password was replaced meanwhile: the
  replacement is lost. And an enrolment confirmed on a snapshot arms whatever secret is stored by
  then, also one a second enrolment put there whose receipt nobody proved.
\<close>

definition old_hash_db :: auth_db where
  "old_hash_db = demo_db \<lparr> accounts := [demo_account
     \<lparr> a_mfa_enabled := False, a_mfa_secret := None, a_password_hash := Some ''$o$long password'' \<rparr>] \<rparr>"

lemma rehash_reverts_password:
  "judge demo_env (get_account_by_id old_hash_db ''u1'') ''long password'' None 5 = Inr (Passed None) \<and>
   (case set_password demo_env old_hash_db ''u1'' ''a new password'' ''s'' 6 of
      Inl _ \<Rightarrow> False
    | Inr db' \<Rightarrow>
        map a_password_hash (accounts db') = [Some ''$s$a new password''] \<and>
        map a_password_hash (accounts (snd (settle demo_env demo_settings db'
          (get_account_by_id old_hash_db ''u1'') (Passed None) ''long password'' demo_draws 7)))
          = [Some ''$s$long password''])"
  by code_simp

lemma confirm_arms_other_secret:
  assumes "get_account_by_id db user = Some a" "a_status a = ''active''" "\<not> a_mfa_enabled a"
    and "judge_confirmation env (Some a) user code now = Inr (Some step)"
    and "begin_enrollment env dummy db user password random nonce = Inr (secret, db')"
  shows "\<exists>b. get_account_by_id (snd (confirm_enrollment_atomically db' user step)) user = Some b \<and>
    a_mfa_enabled b \<and> encrypt_secret env nonce secret user = Inr (the (a_mfa_secret b)) \<and> a_mfa_secret b \<noteq> None"
proof -
  obtain blob where blob: "encrypt_secret env nonce secret user = Inr blob"
      "db' = store_mfa_secret db user blob False"
    using assms(1,5) by (auto simp: begin_enrollment_def Let_def)
  have free: "step_free step a"
    using assms(2,4) fresh_step_sound [of env a _ "Some code" now step] by (auto simp: judge_confirmation_def)
  define b where "b = a \<lparr> a_mfa_secret := Some blob, a_mfa_enabled := False \<rparr>"
  have b: "get_account_by_id db' user = Some b"
    using assms(1) get_update_account [of "\<lambda>a. a \<lparr> a_mfa_secret := Some blob, a_mfa_enabled := False \<rparr>" user db user]
    by (simp add: blob(2) store_mfa_secret_def b_def)
  have "step_free step b" using free by (simp add: b_def step_free_def)
  have "find (\<lambda>a. a_id a = user) (map (\<lambda>a. if a_id a = user \<and> step_free step a
      then a \<lparr> a_mfa_step := Some step, a_mfa_enabled := True \<rparr> else a) as) =
      Some (b \<lparr> a_mfa_step := Some step, a_mfa_enabled := True \<rparr>)"
    if "find (\<lambda>a. a_id a = user) as = Some b" for as
    using that \<open>step_free step b\<close> by (induction as) (auto split: if_splits)
  then have "get_account_by_id (snd (confirm_enrollment_atomically db' user step)) user =
      Some (b \<lparr> a_mfa_step := Some step, a_mfa_enabled := True \<rparr>)"
    using b by (simp add: get_account_by_id_def confirm_enrollment_atomically_def claim_step_def)
  then show ?thesis using blob(1) by (simp add: b_def)
qed

end
