(* ===== verification/Session_Standing.thy ===== *)
theory Session_Standing
  imports Accounts
begin

text \<open>
  Whether a token's account still stands where the token says (\<open>robothor/auth/session_standing.py\<close>):
  a cache of account lookups with a time to live of 30 seconds, and \<open>forget\<close>, which a change made
  by the same process calls. Each critical section is a step; the lookup in between is not under
  the lock, so other requests, changes and \<open>forget\<close> fall between its steps.
\<close>

definition TTL :: int where "TTL = 30 * 1000000"

text \<open>Expiry, the tenant the account lives in, its status.\<close>

type_synonym standing = "int \<times> string option \<times> string"
type_synonym standing_cache = "(string \<times> string, standing) dict"

text \<open>The lookup runs bound to the home tenant; with row level security on, other tenants' rows are invisible.\<close>

definition lookup_standing :: "bool \<Rightarrow> auth_db \<Rightarrow> string \<Rightarrow> string \<Rightarrow> string option \<times> string" where
  "lookup_standing rls db user home =
     (case get_account_by_id db user of
        None \<Rightarrow> (None, [])
      | Some a \<Rightarrow> if rls \<and> a_tenant a \<noteq> home then (None, []) else (Some (a_tenant a), a_status a))"

definition standing_verdict :: "string \<Rightarrow> string option \<times> string \<Rightarrow> bool" where
  "standing_verdict home answer = (fst answer = Some home \<and> snd answer = ''active'')"

text \<open>The first section: a usable entry answers; otherwise the request looks the account up.\<close>

definition standing_probe :: "standing_cache \<Rightarrow> string \<Rightarrow> string \<Rightarrow> int \<Rightarrow> bool option" where
  "standing_probe cache user home now =
     (case dict_get cache (user, home) of
        None \<Rightarrow> None
      | Some (expires, answer) \<Rightarrow> if expires \<le> now then None else Some (standing_verdict home answer))"

definition standing_store ::
  "standing_cache \<Rightarrow> string \<Rightarrow> string \<Rightarrow> int \<Rightarrow> string option \<times> string \<Rightarrow> standing_cache" where
  "standing_store cache user home now answer = dict_set (user, home) (now + TTL, answer) cache"

text \<open>A lookup that fails is \<open>None\<close>: the account is treated as standing, and nothing is cached.\<close>

definition stands ::
  "standing_cache \<Rightarrow> string \<Rightarrow> string \<Rightarrow> int \<Rightarrow> (string option \<times> string) option \<Rightarrow> bool \<times> standing_cache" where
  "stands cache user home now found =
     (case standing_probe cache user home now of
        Some verdict \<Rightarrow> (verdict, cache)
      | None \<Rightarrow>
          (case found of
             None \<Rightarrow> (True, cache)
           | Some answer \<Rightarrow> (standing_verdict home answer, standing_store cache user home now answer)))"

definition forget :: "standing_cache \<Rightarrow> string \<Rightarrow> standing_cache" where
  "forget cache user = filter (\<lambda>(key, entry). fst key \<noteq> user) cache"

definition forget_all :: "standing_cache \<Rightarrow> standing_cache" where
  "forget_all cache = []"

section \<open>Overlapping requests\<close>

text \<open>
  A request that missed carries its start and, once it read the database, the answer. \<open>reads\<close> is a
  history for the statements: the database each read saw, and when.
\<close>

record lookup_request =
  lk_user :: string
  lk_home :: string
  lk_start :: int
  lk_answer :: "(string option \<times> string) option"

record standing_state =
  st_db :: auth_db
  st_cache :: standing_cache
  st_clock :: int
  st_requests :: "(nat, lookup_request) dict"
  st_reads :: "(int \<times> auth_db) list"

datatype standing_event =
    Begin nat string string int
  | Read nat int
  | Finish nat int
  | Forget string int
  | Change auth_db int

fun event_time :: "standing_event \<Rightarrow> int" where
  "event_time (Begin _ _ _ t) = t"
| "event_time (Read _ t) = t"
| "event_time (Finish _ t) = t"
| "event_time (Forget _ t) = t"
| "event_time (Change _ t) = t"

fun standing_effect :: "bool \<Rightarrow> standing_state \<Rightarrow> standing_event \<Rightarrow> standing_state" where
  "standing_effect rls st (Begin i user home now) =
     (case standing_probe (st_cache st) user home now of
        Some _ \<Rightarrow> st
      | None \<Rightarrow> st \<lparr> st_requests := dict_set i
          \<lparr> lk_user = user, lk_home = home, lk_start = now, lk_answer = None \<rparr> (st_requests st) \<rparr>)"
| "standing_effect rls st (Read i now) =
     (case dict_get (st_requests st) i of
        None \<Rightarrow> st
      | Some r \<Rightarrow> st \<lparr> st_requests := dict_set i
            (r \<lparr> lk_answer := Some (lookup_standing rls (st_db st) (lk_user r) (lk_home r)) \<rparr>) (st_requests st),
          st_reads := (now, st_db st) # st_reads st \<rparr>)"
| "standing_effect rls st (Finish i now) =
     (case dict_get (st_requests st) i of
        None \<Rightarrow> st
      | Some r \<Rightarrow>
          (case lk_answer r of
             None \<Rightarrow> st
           | Some answer \<Rightarrow> st \<lparr> st_requests := dict_pop i (st_requests st),
               st_cache := standing_store (st_cache st) (lk_user r) (lk_home r) (lk_start r) answer \<rparr>))"
| "standing_effect rls st (Forget user now) = st \<lparr> st_cache := forget (st_cache st) user \<rparr>"
| "standing_effect rls st (Change db now) = st \<lparr> st_db := db \<rparr>"

text \<open>The clock does not go back.\<close>

definition standing_step :: "bool \<Rightarrow> standing_state \<Rightarrow> standing_event \<Rightarrow> standing_state result" where
  "standing_step rls st e =
     guard (st_clock st \<le> event_time e) ValueError
       (Inr (standing_effect rls st e \<lparr> st_clock := event_time e \<rparr>))"

text \<open>
  Every answer, pending or cached, was read from the database at or after a known time: the start of
  its request, which is 30 seconds before the entry expires.
\<close>

definition read_since :: "bool \<Rightarrow> standing_state \<Rightarrow> string \<Rightarrow> string \<Rightarrow> int \<Rightarrow> string option \<times> string \<Rightarrow> bool" where
  "read_since rls st user home t answer \<longleftrightarrow>
     (\<exists>(u, db) \<in> set (st_reads st). t \<le> u \<and> answer = lookup_standing rls db user home)"

definition standing_ok :: "bool \<Rightarrow> standing_state \<Rightarrow> bool" where
  "standing_ok rls st \<longleftrightarrow>
     (\<forall>i r. dict_get (st_requests st) i = Some r \<longrightarrow> lk_start r \<le> st_clock st \<and>
        (\<forall>answer. lk_answer r = Some answer \<longrightarrow>
           read_since rls st (lk_user r) (lk_home r) (lk_start r) answer)) \<and>
     (\<forall>user home expires answer. dict_get (st_cache st) (user, home) = Some (expires, answer) \<longrightarrow>
        read_since rls st user home (expires - TTL) answer)"

definition reads_kept :: "standing_state \<Rightarrow> standing_state \<Rightarrow> bool" where
  "reads_kept st st' \<longleftrightarrow> set (st_reads st) \<subseteq> set (st_reads st')"

lemma read_since_mono: "reads_kept st st' \<Longrightarrow> read_since rls st user home t a \<Longrightarrow> read_since rls st' user home t a"
  by (fastforce simp: read_since_def reads_kept_def)

lemma reads_kept_effect: "reads_kept st (standing_effect rls st e \<lparr> st_clock := t \<rparr>)"
  by (cases e) (auto simp: reads_kept_def split: option.splits)

lemma dict_get_forget:
  "dict_get (forget cache user) key = (if fst key = user then None else dict_get cache key)"
  unfolding forget_def by (induction cache) auto

lemma standing_step_ok:
  assumes ok: "standing_ok rls st" and le: "st_clock st \<le> event_time e"
  shows "standing_ok rls (standing_effect rls st e \<lparr> st_clock := event_time e \<rparr>)"
proof -
  define st' where "st' = standing_effect rls st e \<lparr> st_clock := event_time e \<rparr>"
  have kept: "reads_kept st st'" unfolding st'_def by (rule reads_kept_effect)
  have req: "lk_start r \<le> st_clock st \<and> (\<forall>answer. lk_answer r = Some answer \<longrightarrow>
      read_since rls st' (lk_user r) (lk_home r) (lk_start r) answer)"
    if "dict_get (st_requests st) i = Some r" for i r
    using ok that read_since_mono [OF kept] by (auto simp: standing_ok_def)
  have cac: "read_since rls st' user home (expires - TTL) answer"
    if "dict_get (st_cache st) (user, home) = Some (expires, answer)" for user home expires answer
  proof -
    have "read_since rls st user home (expires - TTL) answer"
      using ok that unfolding standing_ok_def by blast
    then show ?thesis by (rule read_since_mono [OF kept])
  qed
  have clock: "st_clock st' = event_time e" by (simp add: st'_def)
  have "(dict_get (st_requests st') i = Some r \<longrightarrow> lk_start r \<le> st_clock st' \<and>
      (\<forall>answer. lk_answer r = Some answer \<longrightarrow> read_since rls st' (lk_user r) (lk_home r) (lk_start r) answer))" for i r
  proof (cases e)
    case (Begin j user home now)
    then show ?thesis using req [of i r] clock le
      by (auto simp: st'_def split: option.splits if_splits)
  next
    case (Read j now)
    show ?thesis
    proof (cases "dict_get (st_requests st) j")
      case None
      then show ?thesis using Read req [of i r] clock le by (auto simp: st'_def)
    next
      case (Some r')
      have reads: "(now, st_db st) \<in> set (st_reads st')" using Read Some by (simp add: st'_def)
      have start: "lk_start r' \<le> now" using req [OF Some] le Read by simp
      then have "read_since rls st' (lk_user r') (lk_home r') (lk_start r')
          (lookup_standing rls (st_db st) (lk_user r') (lk_home r'))"
        using reads unfolding read_since_def by blast
      then show ?thesis using Read Some req [of i r] start clock le
        by (auto simp: st'_def split: if_splits)
    qed
  next
    case (Finish j now)
    then show ?thesis using req [of i r] clock le
      by (auto simp: st'_def split: option.splits if_splits)
  qed (use req [of i r] clock le in \<open>auto simp: st'_def\<close>)
  moreover have "read_since rls st' user home (expires - TTL) answer"
    if g: "dict_get (st_cache st') (user, home) = Some (expires, answer)" for user home expires answer
  proof (cases e)
    case (Finish j now)
    show ?thesis
    proof (cases "\<exists>r. dict_get (st_requests st) j = Some r \<and> lk_answer r \<noteq> None \<and> user = lk_user r \<and> home = lk_home r")
      case True
      then obtain r a where r: "dict_get (st_requests st) j = Some r" "lk_answer r = Some a" "user = lk_user r" "home = lk_home r"
        by blast
      then have "expires = lk_start r + TTL" "answer = a"
        using g Finish by (auto simp: st'_def standing_store_def)
      then show ?thesis using req [OF r(1)] r by simp
    next
      case False
      then have "dict_get (st_cache st) (user, home) = Some (expires, answer)"
        using g Finish
        by (cases answer) (auto simp: st'_def standing_store_def split: option.splits if_splits)
      then show ?thesis by (rule cac)
    qed
  next
    case (Begin j u h now)
    then have "st_cache st' = st_cache st" by (simp add: st'_def split: option.splits)
    then show ?thesis using g by (intro cac) simp
  next
    case (Read j now)
    then have "st_cache st' = st_cache st" by (simp add: st'_def split: option.splits)
    then show ?thesis using g by (intro cac) simp
  next
    case (Forget u now)
    then have "dict_get (st_cache st) (user, home) = Some (expires, answer)"
      using g by (simp add: st'_def dict_get_forget split: if_splits)
    then show ?thesis by (rule cac)
  next
    case (Change db now)
    then have "st_cache st' = st_cache st" by (simp add: st'_def)
    then show ?thesis using g by (intro cac) simp
  qed
  ultimately show ?thesis unfolding st'_def standing_ok_def by blast
qed

interpretation standing: guarded_machine "standing_step rls" "standing_ok rls" reads_kept "\<lambda>_. True" for rls
  by unfold_locales
     (auto simp: standing_step_def reads_kept_effect intro: standing_step_ok, auto simp: reads_kept_def)

definition standing_start :: "auth_db \<Rightarrow> standing_state" where
  "standing_start db = \<lparr> st_db = db, st_cache = [], st_clock = 0, st_requests = [], st_reads = [] \<rparr>"

lemma standing_start_ok: "standing_ok rls (standing_start db)"
  by (simp add: standing_ok_def standing_start_def)

text \<open>
  However requests, changes and \<open>forget\<close> interleave, an answer from the cache is the standing of
  the account in a database state that was read less than 30 seconds ago.
\<close>

theorem standing_bounded_staleness:
  assumes run: "st = exec_all (standing_step rls) (standing_start db) es"
    and hit: "standing_probe (st_cache st) user home now = Some verdict"
  shows "\<exists>(t, db') \<in> set (st_reads st). now - TTL < t \<and>
    verdict = standing_verdict home (lookup_standing rls db' user home)"
proof -
  have ok: "standing_ok rls st"
    using standing.run_inv [OF standing_start_ok] by (simp add: run)
  obtain expires answer where e: "dict_get (st_cache st) (user, home) = Some (expires, answer)" "now < expires"
      "verdict = standing_verdict home answer"
    using hit by (auto simp: standing_probe_def split: option.splits if_splits)
  then have "read_since rls st user home (expires - TTL) answer"
    using ok unfolding standing_ok_def by blast
  then obtain t db' where "(t, db') \<in> set (st_reads st)" "expires - TTL \<le> t" "answer = lookup_standing rls db' user home"
    by (auto simp: read_since_def)
  then show ?thesis using e(2,3) by (intro bexI [of _ "(t, db')"]) auto
qed

theorem standing_bounded_staleness_witness:
  "\<exists>(t, db') \<in> set (st_reads (exec_all (standing_step True) (standing_start demo_db)
       [Begin 1 ''u1'' ''default'' 5, Read 1 6, Finish 1 7])).
     30000000 - TTL < t \<and> True = standing_verdict ''default'' (lookup_standing True db' ''u1'' ''default'')"
proof (rule standing_bounded_staleness [OF refl])
  show "standing_probe (st_cache (exec_all (standing_step True) (standing_start demo_db)
       [Begin 1 ''u1'' ''default'' 5, Read 1 6, Finish 1 7])) ''u1'' ''default'' 30000000 = Some True"
    by code_simp
qed

section \<open>Forgetting\<close>

text \<open>A request that begins after \<open>forget\<close> reads the database, if no lookup of the account was under way.\<close>

lemma forget_then_read: "standing_probe (forget cache user) user home now = None"
  by (simp add: standing_probe_def dict_get_forget)

text \<open>
  A lookup that was under way stores the old answer after \<open>forget\<close> dropped it: the account below is
  disabled and forgotten at time 8, and requests at time 20 are still answered that it stands.
\<close>

lemma forget_overtaken:
  "standing_probe (st_cache (exec_all (standing_step False) (standing_start demo_db)
     [Begin 1 ''u1'' ''default'' 5, Read 1 6,
      Change (demo_db \<lparr> accounts := [demo_account \<lparr> a_status := ''disabled'' \<rparr>] \<rparr>) 7,
      Forget ''u1'' 8, Finish 1 9])) ''u1'' ''default'' 20 = Some True"
  by code_simp

end
