(* ===== verification/Goal_Store.thy ===== *)
theory Goal_Store
  imports Goals Effects "HOL-Library.Log_Nat"
begin

text \<open>
  The goal store (\<open>robothor/goals/store.py\<close>): its tables for one tenant, creation, and the
  update command around \<open>transition\<close> with what it does to the goal's family, its tasks and the
  effect ledger (\<open>effect_summary.py\<close>, \<open>evidence.py\<close>). Creation and update hold the tenant's
  advisory lock, so commands are atomic and a raised exception rolls everything back. A row
  keeps the columns \<open>status\<close>, \<open>ready_at\<close> and \<open>priority\<close> beside the document, as the table does.
  The inbox notifications run in a savepoint of their own and change nothing else; they, and the
  detail of the history entries, are left out.
\<close>

section \<open>Adding dollars\<close>

text \<open>
  The sum of two floats: rounded to 53 bits, half to even, gradually below the smallest normal
  number and to infinity beyond the largest. Costs are not negative when they are added.
\<close>

definition pow2 :: "int \<Rightarrow> rat" where
  "pow2 e = (if 0 \<le> e then 2 ^ nat e else 1 / 2 ^ nat (- e))"

definition round_half_even :: "rat \<Rightarrow> int" where
  "round_half_even r =
     (let m = \<lfloor>r\<rfloor>; d = r - of_int m in
      if d < 1 / 2 then m else if d > 1 / 2 then m + 1 else if even m then m else m + 1)"

definition binary_exponent :: "rat \<Rightarrow> int" where
  "binary_exponent r =
     (let (p, q) = quotient_of r;
          e = bitlen p - bitlen q
      in if pow2 e \<le> r then e else e - 1)"

definition round_double :: "rat \<Rightarrow> usd" where
  "round_double r =
     (if r = 0 then Usd 0
      else (let e = max (binary_exponent \<bar>r\<bar> - 52) (- 1074);
                v = of_int (round_half_even (\<bar>r\<bar> / pow2 e)) * pow2 e
            in if v \<ge> pow2 1024 then UsdInfinite else Usd (sgn r * v)))"

fun usd_add :: "usd \<Rightarrow> usd \<Rightarrow> usd" where
  "usd_add (Usd a) (Usd b) = round_double (a + b)"
| "usd_add _ _ = UsdInfinite"

text \<open>\<open>max(0, cost)\<close> and SQL's \<open>GREATEST\<close>.\<close>

definition usd_max :: "usd \<Rightarrow> usd \<Rightarrow> usd" where
  "usd_max a b = (if usd_le a b then b else a)"

section \<open>Tables\<close>

record goal_row =
  g_doc :: goal
  g_status :: goal_status
  g_ready :: int
  g_priority :: int
  g_lease :: "(string \<times> int) option"

datatype attempt_status = AttemptRunning | AttemptFinished | AttemptFailed | AttemptInterrupted

record attempt_row =
  at_goal :: string
  at_status :: attempt_status
  at_tokens :: int
  at_cost :: usd
  at_run :: "string option"

record reservation =
  rv_reserved :: int
  rv_actual :: "int option"

record wake_event =
  ev_type :: string
  ev_payload :: json_obj
  ev_created :: int
  ev_processed :: "int option"

datatype history_action =
    Did goal_action
  | Created | Promoted | ChildChanged | Recovered | Wake | CeilingReached | Dispatch | RunFinished | Adopted

record history_entry =
  h_goal :: string
  h_action :: history_action
  h_actor :: string
  h_at :: int

record calendar_row =
  cal_status :: string
  cal_result :: "json_obj option"
  cal_updated :: int

text \<open>
  \<open>pursuit_on\<close> is the settings row, \<open>ledger\<close> the effect rows of the tenant (theory \<open>Effects\<close>),
  \<open>calendar_ops\<close> the retired draft flow's table, which is only read.
\<close>

record gstore =
  pursuit_on :: "bool option"
  goals_tbl :: "(string, goal_row) dict"
  attempts_tbl :: "(string, attempt_row) dict"
  reservations_tbl :: "(string \<times> string, reservation) dict"
  task_links :: "(string \<times> string) list"
  inbox :: "(string, wake_event) dict"
  history :: "history_entry list"
  ledger :: effects
  calendar_ops :: "(string, calendar_row) dict"

definition empty_gstore :: gstore where
  "empty_gstore = \<lparr>pursuit_on = None, goals_tbl = [], attempts_tbl = [], reservations_tbl = [],
     task_links = [], inbox = [], history = [], ledger = [], calendar_ops = []\<rparr>"

text \<open>
  What the store is given: \<open>str(UUID(_))\<close> (\<open>None\<close> where it raises), which task ids are live
  tasks of the tenant, the ISO text of a time, \<open>repr\<close> of a JSON value, the two-decimal form of a
  float, and the order in which the database returns rows that its sort key does not tell apart.
\<close>

record pursuit_env = codec +
  parse_uuid :: "string \<Rightarrow> string option"
  task_live :: "string \<Rightarrow> bool"
  iso_text :: "int \<Rightarrow> string"
  json_repr :: "json \<Rightarrow> string"
  two_decimals :: "usd \<Rightarrow> string"
  tie_rank :: "string \<Rightarrow> int"

text \<open>
  The clocks of one transaction: the database's \<open>now()\<close>, the process's clock, and both clocks
  at the rounds of the ceiling sweep, which reads them again in each round.
\<close>

record clocks =
  db_now :: int
  py_now :: int
  db_tick :: "nat \<Rightarrow> int"
  py_tick :: "nat \<Rightarrow> int"

section \<open>Rows of goals\<close>

definition goal_at :: "gstore \<Rightarrow> string \<Rightarrow> goal_row option" where
  "goal_at s k = dict_get (goals_tbl s) k"

definition row_of :: "goal \<Rightarrow> goal_row \<Rightarrow> goal_row" where
  "row_of g r = r\<lparr>g_doc := g, g_status := status g, g_ready := ready_at g, g_priority := priority g\<rparr>"

definition save :: "goal \<Rightarrow> gstore \<Rightarrow> gstore" where
  "save g s =
     (case goal_at s (goal_id g) of
        None \<Rightarrow> s
      | Some r \<Rightarrow> s\<lparr>goals_tbl := dict_set (goal_id g) (row_of g r) (goals_tbl s)\<rparr>)"

definition set_lease :: "string \<Rightarrow> (string \<times> int) option \<Rightarrow> gstore \<Rightarrow> gstore" where
  "set_lease k l s =
     (case goal_at s k of
        None \<Rightarrow> s
      | Some r \<Rightarrow> s\<lparr>goals_tbl := dict_set k (r\<lparr>g_lease := l\<rparr>) (goals_tbl s)\<rparr>)"

definition goal_journal :: "int \<Rightarrow> goal \<Rightarrow> history_action \<Rightarrow> string \<Rightarrow> gstore \<Rightarrow> gstore" where
  "goal_journal now g a actor s =
     s\<lparr>history := history s @ [\<lparr>h_goal = goal_id g, h_action = a, h_actor = actor, h_at = now\<rparr>]\<rparr>"

definition goal_locked :: "('a pursuit_env_scheme) \<Rightarrow> string \<Rightarrow> gstore \<Rightarrow> goal result" where
  "goal_locked env gid s =
     (case parse_uuid env gid of
        None \<Rightarrow> Inl ValueError
      | Some k \<Rightarrow> (case goal_at s k of None \<Rightarrow> Inl ValueError | Some r \<Rightarrow> Inr (g_doc r)))"

definition docs :: "(goal_row \<Rightarrow> bool) \<Rightarrow> gstore \<Rightarrow> goal list" where
  "docs P s = map g_doc (filter P (dict_values (goals_tbl s)))"

text \<open>\<open>if g["parent_goal_id"]\<close>.\<close>

definition parent_of :: "goal \<Rightarrow> string option" where
  "parent_of g = (case parent_goal_id g of None \<Rightarrow> None | Some p \<Rightarrow> if p = [] then None else Some p)"

definition set_enabled :: "bool \<Rightarrow> gstore \<Rightarrow> gstore" where
  "set_enabled v s = s\<lparr>pursuit_on := Some v\<rparr>"

definition store_enabled :: "gstore \<Rightarrow> bool" where
  "store_enabled s = (pursuit_on s = Some True)"

section \<open>Creating\<close>

definition json_opt :: "string option \<Rightarrow> json" where
  "json_opt v = (case v of None \<Rightarrow> JNull | Some t \<Rightarrow> JStr t)"

text \<open>A child without a key of its own is keyed by what it is asked to do, per assessment period.\<close>

definition child_key :: "('a pursuit_env_scheme) \<Rightarrow> create_goal \<Rightarrow> goal \<Rightarrow> string" where
  "child_key env spec parent =
     ''child:'' @ hash_json env (JArr [json_opt (cg_parent_goal_id spec), JStr (cg_objective spec),
       JArr (map JStr (cg_success_criteria spec)),
       json_opt (map_option (\<lambda>a. iso_text env (as_at a)) (assessment parent))])"

definition effective_key :: "('a pursuit_env_scheme) \<Rightarrow> create_goal \<Rightarrow> goal option \<Rightarrow> string option" where
  "effective_key env spec parent =
     (case cg_request_key spec of
        Some (c # cs) \<Rightarrow> Some (c # cs)
      | k \<Rightarrow> (case parent of None \<Rightarrow> k | Some p \<Rightarrow> Some (child_key env spec p)))"

definition spec_parent :: "create_goal \<Rightarrow> string option" where
  "spec_parent spec =
     (case cg_parent_goal_id spec of None \<Rightarrow> None | Some p \<Rightarrow> if p = [] then None else Some p)"

definition goal_with_key :: "string \<Rightarrow> gstore \<Rightarrow> goal option" where
  "goal_with_key k s = find (\<lambda>g. request_key g = Some k) (map g_doc (dict_values (goals_tbl s)))"

text \<open>The insert under the primary key and the unique index on request keys.\<close>

definition insert_goal :: "int \<Rightarrow> goal \<Rightarrow> gstore \<Rightarrow> gstore result" where
  "insert_goal now g s =
     (if goal_at s (goal_id g) \<noteq> None then Inl DbError
      else if (case request_key g of None \<Rightarrow> False | Some k \<Rightarrow> goal_with_key k s \<noteq> None) then Inl DbError
      else Inr (s\<lparr>goals_tbl := goals_tbl s @
        [(goal_id g, \<lparr>g_doc = g, g_status = status g, g_ready = now, g_priority = priority g, g_lease = None\<rparr>)]\<rparr>))"

definition insert_new ::
  "clocks \<Rightarrow> string \<Rightarrow> string option \<Rightarrow> create_goal \<Rightarrow> string \<Rightarrow> gstore \<Rightarrow> (goal \<times> gstore) result" where
  "insert_new clk new key spec actor s =
     (let g = (new_goal new (py_now clk) spec actor)\<lparr>request_key := key\<rparr> in
      bind_result (insert_goal (db_now clk) g s)
        (\<lambda>s'. Inr (g, goal_journal (db_now clk) g Created actor s')))"

definition create_in ::
  "('a pursuit_env_scheme) \<Rightarrow> clocks \<Rightarrow> string \<Rightarrow> create_goal \<Rightarrow> string \<Rightarrow> gstore \<Rightarrow> (goal \<times> gstore) result" where
  "create_in env clk new spec actor s =
     bind_result (case spec_parent spec of
         None \<Rightarrow> Inr None
       | Some p \<Rightarrow> map_sum id Some (goal_locked env p s))
       (\<lambda>parent.
          let key = effective_key env spec parent in
          case (case key of Some (c # cs) \<Rightarrow> goal_with_key (c # cs) s | _ \<Rightarrow> None) of
            Some g \<Rightarrow> Inr (g, s)
          | None \<Rightarrow>
              (case parent of
                 None \<Rightarrow> insert_new clk new key spec actor s
               | Some p \<Rightarrow>
                   guard (kind p = Long \<and> status p \<notin> INACTIVE \<and> cg_kind spec = Short) ValueError
                     (insert_new clk new key spec actor s)))"

text \<open>\<open>create\<close> takes a validated contract: \<open>create_goal_cmd\<close> is the validation and the transaction.\<close>

definition create_goal_cmd ::
  "('a pursuit_env_scheme) \<Rightarrow> clocks \<Rightarrow> string \<Rightarrow> create_goal \<Rightarrow> string \<Rightarrow> gstore \<Rightarrow> (goal \<times> gstore) result" where
  "create_goal_cmd env clk new raw actor s =
     bind_result (CreateGoal (parse_uuid env) raw) (\<lambda>spec. create_in env clk new spec actor s)"

section \<open>Effects of the family\<close>

text \<open>
  Whether a goal is \<open>anc\<close> or descends from it: the recursive query, whose depth the number of
  rows bounds.
\<close>

fun descends :: "nat \<Rightarrow> gstore \<Rightarrow> string \<Rightarrow> string \<Rightarrow> bool" where
  "descends 0 s anc k = (k = anc)"
| "descends (Suc n) s anc k =
     (k = anc \<or>
      (case goal_at s k of
         None \<Rightarrow> False
       | Some r \<Rightarrow> (case parent_goal_id (g_doc r) of None \<Rightarrow> False | Some p \<Rightarrow> descends n s anc p)))"

definition in_family :: "gstore \<Rightarrow> string \<Rightarrow> effect \<Rightarrow> bool" where
  "in_family s anc e =
     (case eff_goal e of
        None \<Rightarrow> False
      | Some k \<Rightarrow> goal_at s k \<noteq> None \<and> descends (length (goals_tbl s)) s anc k)"

text \<open>
  The pending count of \<open>summary\<close>; its query looks the goal up by the text of its id and has no
  row for any other spelling.
\<close>

definition pending_effects :: "string \<Rightarrow> string option \<Rightarrow> gstore \<Rightarrow> nat result" where
  "pending_effects gid excluded s =
     (if goal_at s gid = None then Inl KeyError
      else Inr (length (filter
        (\<lambda>e. unresolved e \<and> in_family s gid e \<and> excluded \<noteq> Some (eff_id e)) (ledger s))))"

definition require_settled :: "string \<Rightarrow> string option \<Rightarrow> gstore \<Rightarrow> unit result" where
  "require_settled gid excluded s =
     bind_result (pending_effects gid excluded s) (\<lambda>n. guard (n = 0) ValueError (Inr ()))"

definition reconcile_family :: "int \<Rightarrow> string \<Rightarrow> string \<Rightarrow> string \<Rightarrow> bool \<Rightarrow> gstore \<Rightarrow> gstore result" where
  "reconcile_family now k actor note operator s =
     (let open_row = (\<lambda>e. unresolved e \<and> in_family s k e);
          rows = filter open_row (ledger s)
      in if rows = [] then Inr s
         else if \<not> operator \<or> blank actor \<or> blank note then Inl ValueError
         else if list_ex (\<lambda>e. eff_state e \<noteq> Uncertain) rows then Inl ValueError
         else Inr (s\<lparr>ledger := map (\<lambda>e. if open_row e
           then set_resolution Finished (Reconciliation ''reconciled'' actor note) now e else e) (ledger s)\<rparr>))"

section \<open>Evidence\<close>

definition CALENDAR_EFFECT_TOOLS :: "string set" where
  "CALENDAR_EFFECT_TOOLS = {''gws_calendar_create'', ''gws_calendar_update'', ''gws_calendar_add_attendees'',
     ''gws_calendar_respond'', ''gws_calendar_delete''}"

text \<open>When the operation was completed and verified, its time.\<close>

definition operation_receipt :: "gstore \<Rightarrow> string \<Rightarrow> int result" where
  "operation_receipt s k =
     (case dict_get (calendar_ops s) k of
        None \<Rightarrow> Inl ValueError
      | Some r \<Rightarrow>
          guard (cal_status r = ''completed'' \<and>
              (case cal_result r of None \<Rightarrow> False | Some d \<Rightarrow> obj_get d ''verification'' JNull = JStr ''verified''))
            ValueError (Inr (cal_updated r)))"

definition resolution_result :: "resolution option \<Rightarrow> json" where
  "resolution_result r = (case r of Some (Evidence _ j) \<Rightarrow> j | Some (ToolResponse j) \<Rightarrow> j | _ \<Rightarrow> JNull)"

definition verified_result :: "json \<Rightarrow> bool" where
  "verified_result j =
     (case j of
        JObj d \<Rightarrow> \<not> truthy (obj_get d ''error'' JNull) \<and> obj_get d ''verification'' JNull = JStr ''verified''
      | _ \<Rightarrow> False)"

definition effect_receipt :: "gstore \<Rightarrow> string \<Rightarrow> int result" where
  "effect_receipt s k =
     (case find (\<lambda>e. eff_id e = k) (ledger s) of
        None \<Rightarrow> Inl ValueError
      | Some e \<Rightarrow>
          guard (eff_tool e \<in> CALENDAR_EFFECT_TOOLS \<and> eff_state e \<in> {Finished, Confirmed} \<and>
              verified_result (resolution_result (eff_resolution e)))
            ValueError (Inr (eff_updated e)))"

definition reference_kind :: "string \<Rightarrow> string" where
  "reference_kind ref = takeWhile (\<lambda>c. c \<noteq> CHR '':'') ref"

definition reference_id :: "string \<Rightarrow> string" where
  "reference_id ref = drop 1 (dropWhile (\<lambda>c. c \<noteq> CHR '':'') ref)"

text \<open>The start of the period the evidence must fall in.\<close>

definition evidence_since :: "goal \<Rightarrow> int" where
  "evidence_since g =
     max (created_at g) (max (case criteria_revised_at g of None \<Rightarrow> created_at g | Some t \<Rightarrow> t)
       (case assessment g of None \<Rightarrow> created_at g | Some a \<Rightarrow> as_at a))"

definition no_verification :: verification where
  "no_verification = \<lparr>independent = False, criterion_verified = False\<rparr>"

definition verify_evidence ::
  "('a pursuit_env_scheme) \<Rightarrow> gstore \<Rightarrow> goal \<Rightarrow> string \<Rightarrow> int option \<Rightarrow> verification result" where
  "verify_evidence env s g ref criterion =
     (if reference_kind ref \<notin> {''calendar-operation'', ''calendar-effect''} then Inr no_verification
      else (case parse_uuid env (reference_id ref) of
          None \<Rightarrow> Inl ValueError
        | Some k \<Rightarrow>
            bind_result (if reference_kind ref = ''calendar-operation'' then operation_receipt s k
                         else effect_receipt s k)
              (\<lambda>seen. guard (seen \<ge> evidence_since g) ValueError
                 (Inr \<lparr>independent = True,
                    criterion_verified = (case criterion of
                        None \<Rightarrow> False
                      | Some i \<Rightarrow> 0 \<le> i \<and> i < int (length (success_criteria g)) \<and>
                          py_strip (success_criteria g ! nat i) = ref)\<rparr>))))"

section \<open>Updating\<close>

definition status_text :: "goal_status \<Rightarrow> string" where
  "status_text st =
     (case st of Queued \<Rightarrow> ''queued'' | Running \<Rightarrow> ''running'' | Waiting \<Rightarrow> ''waiting''
      | Paused \<Rightarrow> ''paused'' | Blocked \<Rightarrow> ''blocked'' | Review \<Rightarrow> ''review''
      | Complete \<Rightarrow> ''complete'' | Canceled \<Rightarrow> ''canceled'')"

definition outstanding_child :: "string \<Rightarrow> gstore \<Rightarrow> bool" where
  "outstanding_child gid s =
     (docs (\<lambda>r. parent_goal_id (g_doc r) = Some gid \<and> g_status r \<notin> TERMINAL) s \<noteq> [])"

text \<open>The last evidence is stamped with what was checked independently.\<close>

definition stamp_last :: "verification \<Rightarrow> evidence list \<Rightarrow> evidence list" where
  "stamp_last v es = butlast es @ [(last es)\<lparr>ev_verification := Some v\<rparr>]"

definition stamp_evidence ::
  "('a pursuit_env_scheme) \<Rightarrow> gstore \<Rightarrow> goal_update \<Rightarrow> goal \<Rightarrow> goal \<Rightarrow> goal result" where
  "stamp_evidence env s u prior g =
     map_sum id (\<lambda>v. g\<lparr>evidence_log := stamp_last v (evidence_log g)\<rparr>)
       (if gu_satisfied u = Some True then verify_evidence env s prior (gu_reference u) (gu_criterion u)
        else Inr no_verification)"

text \<open>What is checked before the transition, in the code's order.\<close>

definition before_transition ::
  "clocks \<Rightarrow> string option \<Rightarrow> bool \<Rightarrow> string \<Rightarrow> string \<Rightarrow> string \<Rightarrow> goal_update \<Rightarrow> gstore \<Rightarrow> gstore result" where
  "before_transition clk excluded operator actor gid k u s =
     guard (gu_action u = CompleteAction \<longrightarrow> \<not> outstanding_child gid s) ValueError
       (bind_result (if gu_action u \<in> {CompleteAction, Approve, Assess} then require_settled gid excluded s else Inr ())
         (\<lambda>_. if gu_action u = Reconciled then reconcile_family (db_now clk) k actor (gu_note u) operator s else Inr s))"

text \<open>
  What follows it: the parent of a resumed child must be active, evidence is stamped, and one
  run's repeated report of the same blocker counts once (\<open>None\<close> leaves everything as it was).
  \<open>bound\<close> is the goal and attempt of the run that issues the command.
\<close>

definition after_transition ::
  "('a pursuit_env_scheme) \<Rightarrow> (string \<times> string) option \<Rightarrow> string \<Rightarrow> goal_update \<Rightarrow> goal \<Rightarrow> goal \<Rightarrow> gstore \<Rightarrow>
   goal option result" where
  "after_transition env bound gid u prior g s =
     bind_result (case (gu_action u, parent_of g) of
         (Resume, Some p) \<Rightarrow> bind_result (goal_locked env p s)
           (\<lambda>parent. guard (status parent \<notin> INACTIVE) ValueError (Inr ()))
       | _ \<Rightarrow> Inr ())
       (\<lambda>_. bind_result (if gu_action u = EvidenceAction then stamp_evidence env s u prior g else Inr g)
         (\<lambda>g1. case bound of
             Some (bg, attempt) \<Rightarrow>
               if gu_action u = Block \<and> bg = gid then
                 (if last_block_attempt prior = Some attempt \<and> blocker prior = gu_note u then Inr None
                  else Inr (Some (g1\<lparr>last_block_attempt := Some attempt\<rparr>)))
               else Inr (Some g1)
           | None \<Rightarrow> Inr (Some g1)))"

definition edit_links ::
  "('a pursuit_env_scheme) \<Rightarrow> string \<Rightarrow> goal_update \<Rightarrow> gstore \<Rightarrow> gstore result" where
  "edit_links env k u s =
     (case gu_task_id u of
        None \<Rightarrow> guard (gu_action u \<notin> {UnlinkTask, LinkTask}) ValueError (Inr s)
      | Some t \<Rightarrow>
          if gu_action u = UnlinkTask then
            guard (t \<noteq> []) ValueError (Inr (s\<lparr>task_links := removeAll (k, t) (task_links s)\<rparr>))
          else if gu_action u = LinkTask \<or> gu_action u = goal_action.Wait \<and> t \<noteq> [] then
            guard (task_live env t) ValueError
              (Inr (if (k, t) \<in> set (task_links s) then s else s\<lparr>task_links := task_links s @ [(k, t)]\<rparr>))
          else Inr s)"

definition requeued :: "int \<Rightarrow> string \<Rightarrow> goal \<Rightarrow> goal" where
  "requeued now action p =
     p\<lparr>status := Queued, ready_at := now, version := version p + 1, next_action := action\<rparr>"

definition child_change_text :: "goal \<Rightarrow> string \<Rightarrow> string" where
  "child_change_text g note =
     ''Reassess child '' @ goal_id g @ '': '' @ status_text (status g) @ ''. '' @ note"

text \<open>A child that stops running hands its parent the turn.\<close>

definition tell_parent ::
  "('a pursuit_env_scheme) \<Rightarrow> clocks \<Rightarrow> string \<Rightarrow> goal \<Rightarrow> gstore \<Rightarrow> gstore result" where
  "tell_parent env clk note g s =
     (case parent_of g of
        None \<Rightarrow> Inr s
      | Some p \<Rightarrow>
          if status g \<in> {Waiting, Complete, Blocked, Canceled, Review} then
            map_sum id (\<lambda>parent.
              if status parent \<in> INACTIVE then s
              else (let parent' = requeued (py_now clk) (child_change_text g note) parent
                    in goal_journal (db_now clk) parent' ChildChanged ''engine'' (save parent' s)))
              (goal_locked env p s)
          else Inr s)"

definition restored :: "goal \<Rightarrow> goal" where
  "restored c =
     c\<lparr>status := (case before_parent_pause c of
          None \<Rightarrow> Queued | Some st \<Rightarrow> if st = Running then Queued else st),
       version := version c + 1, before_parent_pause := None, paused_by_parent := None\<rparr>"

definition resume_children :: "clocks \<Rightarrow> string \<Rightarrow> string \<Rightarrow> gstore \<Rightarrow> gstore" where
  "resume_children clk gid actor s =
     fold (\<lambda>c t. if status c = Paused
         then goal_journal (db_now clk) (restored c) (Did Resume) actor (save (restored c) t) else t)
       (docs (\<lambda>r. paused_by_parent (g_doc r) = Some gid) s) s"

definition stopped :: "goal_action \<Rightarrow> goal_status \<Rightarrow> string \<Rightarrow> goal \<Rightarrow> goal" where
  "stopped a st gid c =
     (let c' = (if a = Pause \<and> status c \<noteq> Paused
                then c\<lparr>paused_by_parent := Some gid, before_parent_pause := Some (status c)\<rparr> else c)
      in c'\<lparr>status := st, version := version c + 1\<rparr>)"

definition stop_children :: "clocks \<Rightarrow> goal_action \<Rightarrow> goal_status \<Rightarrow> string \<Rightarrow> string \<Rightarrow> gstore \<Rightarrow> gstore" where
  "stop_children clk a st gid actor s =
     fold (\<lambda>c t. if status c \<notin> TERMINAL
         then goal_journal (db_now clk) (stopped a st gid c) (Did a) actor (save (stopped a st gid c) t) else t)
       (docs (\<lambda>r. parent_goal_id (g_doc r) = Some gid) s) s"

text \<open>What is written once the new document is settled.\<close>

definition commit_update ::
  "('a pursuit_env_scheme) \<Rightarrow> clocks \<Rightarrow> string \<Rightarrow> string \<Rightarrow> goal_update \<Rightarrow> goal \<Rightarrow> goal \<Rightarrow> gstore \<Rightarrow> gstore result" where
  "commit_update env clk actor gid u prior g s =
     (let s1 = goal_journal (db_now clk) g (Did (gu_action u)) actor (save g s);
          s2 = (if kind prior \<noteq> kind g then goal_journal (db_now clk) g Promoted ''engine'' s1 else s1)
      in map_sum id (\<lambda>s3.
           if gu_action u = Resume then resume_children clk gid actor s3
           else if gu_action u \<in> {Pause, Cancel} then stop_children clk (gu_action u) (status g) gid actor s3
           else s3)
         (tell_parent env clk (gu_note u) g s2))"

definition update_in ::
  "('a pursuit_env_scheme) \<Rightarrow> clocks \<Rightarrow> (string \<times> string) option \<Rightarrow> string option \<Rightarrow> bool \<Rightarrow> string \<Rightarrow>
   string \<Rightarrow> goal_update \<Rightarrow> gstore \<Rightarrow> (goal \<times> gstore) result" where
  "update_in env clk bound excluded operator actor gid u s =
     bind_result (goal_locked env gid s) (\<lambda>prior.
       bind_result (before_transition clk excluded operator actor gid (goal_id prior) u s) (\<lambda>s1.
         bind_result (transition (py_now clk) operator u prior) (\<lambda>g.
           bind_result (after_transition env bound gid u prior g s1) (\<lambda>d.
             case d of
               None \<Rightarrow> Inr (prior, s1)
             | Some g1 \<Rightarrow>
                 bind_result (edit_links env (goal_id prior) u s1) (\<lambda>s2.
                   map_sum id (Pair g1) (commit_update env clk actor gid u prior g1 s2))))))"

definition update_goal ::
  "('a pursuit_env_scheme) \<Rightarrow> clocks \<Rightarrow> (string \<times> string) option \<Rightarrow> string option \<Rightarrow> bool \<Rightarrow> string \<Rightarrow>
   string \<Rightarrow> goal_update \<Rightarrow> gstore \<Rightarrow> (goal \<times> gstore) result" where
  "update_goal env clk bound excluded operator actor gid raw s =
     bind_result (GoalUpdate (parse_uuid env) raw) (\<lambda>u. update_in env clk bound excluded operator actor gid u s)"

text \<open>
  Enrolling a legacy session goal: the task's objective or title and its criteria, and the
  evidence it already had, make a long goal under the key of the task.
\<close>

record legacy_task =
  lt_objective :: "string option"
  lt_title :: string
  lt_criteria :: "string list option"

definition or_text :: "string option \<Rightarrow> string \<Rightarrow> string" where
  "or_text v d = (case v of None \<Rightarrow> d | Some t \<Rightarrow> if t = [] then d else t)"

definition legacy_spec :: "string \<Rightarrow> legacy_task \<Rightarrow> create_goal" where
  "legacy_spec task t =
     \<lparr>cg_objective = or_text (lt_objective t) (lt_title t),
      cg_success_criteria = (case lt_criteria t of
          None \<Rightarrow> [or_text (lt_objective t) (lt_title t)]
        | Some cs \<Rightarrow> if cs = [] then [or_text (lt_objective t) (lt_title t)] else cs),
      cg_kind = Long, cg_mode = Finite, cg_parent_goal_id = None, cg_request_key = Some (''legacy:'' @ task),
      cg_token_budget = None, cg_cost_budget_usd = None, cg_max_attempts = None,
      cg_deadline_seconds = None, cg_review_seconds = 86400, cg_human_review = False, cg_priority = 0\<rparr>"

definition adopt ::
  "('a pursuit_env_scheme) \<Rightarrow> clocks \<Rightarrow> string \<Rightarrow> (string \<Rightarrow> legacy_task option) \<Rightarrow> string \<Rightarrow> string \<Rightarrow> gstore \<Rightarrow>
   (goal \<times> gstore) result" where
  "adopt env clk new tasks task actor s =
     (case tasks task of
        None \<Rightarrow> Inl ValueError
      | Some t \<Rightarrow>
          bind_result (create_goal_cmd env clk new (legacy_spec task t) actor s) (\<lambda>(g, s1).
            case legacy_task_id g of
              Some (c # cs) \<Rightarrow> Inr (g, s1)
            | _ \<Rightarrow> (let g' = g\<lparr>legacy_task_id := Some task\<rparr> in
                Inr (g', goal_journal (db_now clk) g' Adopted actor (save g' s1)))))"

end
