(* ===== verification/Provider_Budget.thy ===== *)
theory Provider_Budget
  imports Prelude
begin

text \<open>
  What a budget for provider requests promises (locale \<open>provider_budget\<close>), and the shared budget of
  one process (\<open>robothor/engine/runtime/budget.py\<close>), which keeps its charges in memory. A request
  is admitted by reserving its worst case and settled with what it really used; a request whose
  usage never arrives stays charged. The durable budget of a goal attempt (theory
  \<open>Goal_Dispatch\<close>) is the other model of the same promises. Methods run under a lock, so
  concurrent requests are sequences of calls.
\<close>

section \<open>The contract\<close>

datatype 'c budget_cmd = BReserve 'c string int | BSettle 'c string "int option"

text \<open>
  A request is made in some circumstances \<open>'c\<close> (the clocks of a transaction, nothing for memory).
  A call to \<open>settle\<close> may store the usage and raise because it passed the bound: its result is
  the flag of that exception and the new state.
\<close>

definition budget_step ::
  "('c \<Rightarrow> 's \<Rightarrow> string \<Rightarrow> int \<Rightarrow> 's result) \<Rightarrow> ('c \<Rightarrow> 's \<Rightarrow> string \<Rightarrow> int option \<Rightarrow> (bool \<times> 's) result) \<Rightarrow>
   's \<Rightarrow> 'c budget_cmd \<Rightarrow> 's result" where
  "budget_step reserve settle s c =
     (case c of
        BReserve x call n \<Rightarrow> reserve x s call n
      | BSettle x call a \<Rightarrow> map_sum id snd (settle x s call a))"

locale provider_budget =
  fixes reserve :: "'c \<Rightarrow> 's \<Rightarrow> string \<Rightarrow> int \<Rightarrow> 's result"
    and settle :: "'c \<Rightarrow> 's \<Rightarrow> string \<Rightarrow> int option \<Rightarrow> (bool \<times> 's) result"
    and charged :: "'s \<Rightarrow> int"
    and limit :: "'s \<Rightarrow> int"
    and calls :: "'s \<Rightarrow> string set"
    and overrun :: "'s \<Rightarrow> bool"
    and ok :: "'s \<Rightarrow> bool"
  assumes reserve_law: "ok s \<Longrightarrow> reserve x s c n = Inr t \<Longrightarrow>
      ok t \<and> c \<notin> calls s \<and> calls t = insert c (calls s) \<and> charged t = charged s + n \<and>
      charged t \<le> limit t \<and> limit t = limit s \<and> \<not> overrun s \<and> \<not> overrun t"
    and settle_law: "ok s \<Longrightarrow> settle x s c a = Inr (over, t) \<Longrightarrow>
      ok t \<and> calls t = calls s \<and> limit t = limit s \<and> (overrun t \<longleftrightarrow> overrun s \<or> over) \<and>
      (\<not> over \<longrightarrow> charged t \<le> charged s)"
begin

lemma step_law:
  assumes "ok s" "budget_step reserve settle s c = Inr t"
  shows "ok t \<and> calls s \<subseteq> calls t \<and> limit t = limit s \<and> (overrun s \<longrightarrow> overrun t) \<and>
    (charged s \<le> limit s \<or> overrun s \<longrightarrow> charged t \<le> limit t \<or> overrun t)"
proof (cases c)
  case (BReserve x call n)
  with assms(2) have "reserve x s call n = Inr t" by (simp add: budget_step_def)
  from reserve_law [OF assms(1) this] show ?thesis by auto
next
  case (BSettle x call a)
  with assms(2) obtain over where "settle x s call a = Inr (over, t)"
    by (auto simp: budget_step_def)
  from settle_law [OF assms(1) this] show ?thesis by (cases over) auto
qed

lemma run_law:
  "ok s \<Longrightarrow> ok (exec_all (budget_step reserve settle) s cs) \<and>
     calls s \<subseteq> calls (exec_all (budget_step reserve settle) s cs) \<and>
     limit (exec_all (budget_step reserve settle) s cs) = limit s \<and>
     (overrun s \<longrightarrow> overrun (exec_all (budget_step reserve settle) s cs)) \<and>
     (charged s \<le> limit s \<or> overrun s \<longrightarrow>
      charged (exec_all (budget_step reserve settle) s cs) \<le> limit s \<or>
      overrun (exec_all (budget_step reserve settle) s cs))"
proof (induction cs arbitrary: s)
  case Nil
  then show ?case by simp
next
  case (Cons c cs)
  show ?case
  proof (cases "budget_step reserve settle s c")
    case (Inl e)
    then show ?thesis using Cons by simp
  next
    case (Inr t)
    note t = step_law [OF Cons.prems Inr]
    then have "ok t" by blast
    note u = Cons.IH [OF this]
    have "calls s \<subseteq> calls (exec_all (budget_step reserve settle) t cs)" using t u by blast
    then show ?thesis using t u by (auto simp: Inr)
  qed
qed

text \<open>A call is admitted once, and an overrun ends all admission, whatever happens in between.\<close>

lemma call_once:
  assumes "ok s" "reserve x s c n = Inr t"
  shows "\<exists>e. reserve y (exec_all (budget_step reserve settle) t cs) c m = Inl e"
proof (cases "reserve y (exec_all (budget_step reserve settle) t cs) c m")
  case (Inr u)
  from reserve_law [OF assms] have t: "ok t" "c \<in> calls t" by auto
  from run_law [OF t(1), of cs] t(2) reserve_law [OF _ Inr] show ?thesis by blast
qed blast

lemma overrun_final:
  assumes "ok s" "settle x s c a = Inr (True, t)"
  shows "\<exists>e. reserve y (exec_all (budget_step reserve settle) t cs) d m = Inl e"
proof (cases "reserve y (exec_all (budget_step reserve settle) t cs) d m")
  case (Inr u)
  from settle_law [OF assms] have t: "ok t" "overrun t" by auto
  from run_law [OF t(1), of cs] t(2) reserve_law [OF _ Inr] show ?thesis by blast
qed blast

lemma within_limit:
  assumes "ok s" "charged s \<le> limit s"
  shows "charged (exec_all (budget_step reserve settle) s cs) \<le> limit s \<or>
    overrun (exec_all (budget_step reserve settle) s cs)"
  using run_law [OF assms(1), of cs] assms(2) by blast

end

section \<open>The shared budget of a process\<close>

record shared_budget =
  sb_limit :: int
  sb_charges :: "(string, int) dict"
  sb_settled :: "(string, int) dict"
  sb_overrun :: bool

definition shared_new :: "int \<Rightarrow> shared_budget result" where
  "shared_new n = guard (0 \<le> n) ValueError
     (Inr \<lparr>sb_limit = n, sb_charges = [], sb_settled = [], sb_overrun = False\<rparr>)"

definition shared_charged :: "shared_budget \<Rightarrow> int" where
  "shared_charged b = sum_list (dict_values (sb_charges b))"

definition shared_reserve :: "shared_budget \<Rightarrow> string \<Rightarrow> int \<Rightarrow> shared_budget result" where
  "shared_reserve b call n =
     guard (call \<noteq> [] \<and> 0 \<le> n) ValueError
       (guard (dict_get (sb_charges b) call = None) ValueError
         (guard (\<not> (sb_overrun b \<or> shared_charged b + n > sb_limit b)) ValueError
           (Inr (b\<lparr>sb_charges := dict_set call n (sb_charges b)\<rparr>))))"

definition shared_settle :: "shared_budget \<Rightarrow> string \<Rightarrow> int option \<Rightarrow> (bool \<times> shared_budget) result" where
  "shared_settle b call actual =
     (case dict_get (sb_charges b) call of
        None \<Rightarrow> Inl KeyError
      | Some reserved \<Rightarrow>
          (case actual of
             None \<Rightarrow> Inr (False, b)
           | Some n \<Rightarrow>
               guard (0 \<le> n) ValueError
                 (case dict_get (sb_settled b) call of
                    Some m \<Rightarrow> guard (m = n) ValueError (Inr (False, b))
                  | None \<Rightarrow>
                      (let b' = b\<lparr>sb_settled := dict_set call n (sb_settled b),
                                  sb_charges := dict_set call n (sb_charges b)\<rparr>
                       in Inr (n > reserved, if n > reserved then b'\<lparr>sb_overrun := True\<rparr> else b')))))"

definition shared_ok :: "shared_budget \<Rightarrow> bool" where
  "shared_ok b = dict_ok (sb_charges b)"

lemma charged_set:
  fixes v :: int
  assumes "dict_ok d"
  shows "sum_list (dict_values (dict_set k v d)) =
    sum_list (dict_values d) + v - (case dict_get d k of None \<Rightarrow> 0 | Some w \<Rightarrow> w)"
  using sum_list_dict_set [OF assms, of id k v] by (simp add: comp_def split: option.splits)

definition shared_calls :: "shared_budget \<Rightarrow> string set" where
  "shared_calls b = dom (dict_get (sb_charges b))"

interpretation shared: provider_budget "\<lambda>_ :: unit. shared_reserve" "\<lambda>_. shared_settle" shared_charged sb_limit
  shared_calls sb_overrun shared_ok
proof
  fix b c n t
  assume "shared_ok b" and "shared_reserve b c n = Inr t"
  then show "shared_ok t \<and> c \<notin> shared_calls b \<and> shared_calls t = insert c (shared_calls b) \<and>
      shared_charged t = shared_charged b + n \<and> shared_charged t \<le> sb_limit t \<and>
      sb_limit t = sb_limit b \<and> \<not> sb_overrun b \<and> \<not> sb_overrun t"
    by (auto simp: shared_reserve_def shared_ok_def shared_charged_def charged_set shared_calls_def
        split: if_splits)
next
  fix b c a over t
  assume "shared_ok b" and "shared_settle b c a = Inr (over, t)"
  then show "shared_ok t \<and> shared_calls t = shared_calls b \<and> sb_limit t = sb_limit b \<and>
      (sb_overrun t \<longleftrightarrow> sb_overrun b \<or> over) \<and> (\<not> over \<longrightarrow> shared_charged t \<le> shared_charged b)"
    by (auto simp: shared_settle_def Let_def shared_ok_def shared_charged_def charged_set shared_calls_def
        split: option.splits if_splits)
qed

end
