(* ===== verification/Goal_Dispatch.thy ===== *)
theory Goal_Dispatch
  imports Goal_Store Provider_Budget
begin

text \<open>
  Dispatching goals (\<open>robothor/goals/store.py\<close>): the recovery of dead runs and the wake events
  (\<open>reconcile\<close>), the claim of the next goal under a lease, its heartbeat, the end of its run, and
  the accounting of provider requests against the budgets of the goal's family
  (\<open>reserve_provider_usage\<close>, \<open>provider_ledger.py\<close>), with the gate in front of every tool of a
  pursuit run (\<open>runtime.py\<close>). Each operation is one transaction under the tenant's advisory lock
  or one statement. Token counts are integers (the columns are BIGINT).
\<close>

section \<open>Charging\<close>

definition charge :: "int \<Rightarrow> usd \<Rightarrow> goal \<Rightarrow> goal" where
  "charge t c g = g\<lparr>tokens_used := tokens_used g + t, cost_usd := usd_add (cost_usd g) c\<rparr>"

definition charge_parent ::
  "('a pursuit_env_scheme) \<Rightarrow> int \<Rightarrow> usd \<Rightarrow> goal \<Rightarrow> gstore \<Rightarrow> gstore result" where
  "charge_parent env t c g s =
     (case parent_of g of
        None \<Rightarrow> Inr s
      | Some p \<Rightarrow> map_sum id (\<lambda>q. save ((charge t c q)\<lparr>version := version q + 1\<rparr>) s) (goal_locked env p s))"

fun fold_result :: "('x \<Rightarrow> 's \<Rightarrow> 's result) \<Rightarrow> 'x list \<Rightarrow> 's \<Rightarrow> 's result" where
  "fold_result f [] s = Inr s"
| "fold_result f (x # xs) s = bind_result (f x s) (fold_result f xs)"

section \<open>Recovery\<close>

definition running_usage :: "string \<Rightarrow> gstore \<Rightarrow> attempt_row option" where
  "running_usage a s =
     (case dict_get (attempts_tbl s) a of
        None \<Rightarrow> None
      | Some r \<Rightarrow> if at_status r = AttemptRunning then Some r else None)"

definition put_attempt :: "string \<Rightarrow> attempt_row \<Rightarrow> gstore \<Rightarrow> gstore" where
  "put_attempt a r s = s\<lparr>attempts_tbl := dict_set a r (attempts_tbl s)\<rparr>"

definition interrupt_attempt :: "string \<Rightarrow> gstore \<Rightarrow> gstore" where
  "interrupt_attempt a s =
     (case running_usage a s of
        None \<Rightarrow> s
      | Some r \<Rightarrow> put_attempt a (r\<lparr>at_status := AttemptInterrupted\<rparr>) s)"

definition lapsed :: "int \<Rightarrow> goal_row \<Rightarrow> bool" where
  "lapsed now r = (case g_lease r of None \<Rightarrow> False | Some (a, until) \<Rightarrow> until < now)"

definition recovered_doc :: "int \<Rightarrow> goal \<Rightarrow> goal" where
  "recovered_doc now g =
     (let g1 = g\<lparr>recovery_required := True, version := version g + 1\<rparr> in
      if status g1 \<in> INACTIVE then g1 else g1\<lparr>status := Queued, ready_at := now\<rparr>)"

definition recover_one ::
  "('a pursuit_env_scheme) \<Rightarrow> clocks \<Rightarrow> goal \<times> string \<Rightarrow> gstore \<Rightarrow> gstore result" where
  "recover_one env clk row s =
     (let (g, a) = row in
      bind_result (case running_usage a s of
          None \<Rightarrow> Inr (g, s)
        | Some u \<Rightarrow> map_sum id (Pair (charge (at_tokens u) (at_cost u) g))
            (charge_parent env (at_tokens u) (at_cost u) g s))
        (\<lambda>(g1, s1). let g2 = recovered_doc (py_now clk) g1 in
           Inr (goal_journal (db_now clk) g2 Recovered ''engine''
             (interrupt_attempt a (set_lease (goal_id g2) None (save g2 s1))))))"

definition lapsed_rows :: "int \<Rightarrow> gstore \<Rightarrow> (goal \<times> string) list" where
  "lapsed_rows now s =
     map (\<lambda>r. (g_doc r, fst (the (g_lease r)))) (filter (lapsed now) (dict_values (goals_tbl s)))"

section \<open>Wake events\<close>

definition ingest_event :: "int \<Rightarrow> string \<Rightarrow> string \<Rightarrow> json_obj \<Rightarrow> gstore \<Rightarrow> gstore" where
  "ingest_event created ident typ payload s =
     (if dict_get (inbox s) ident \<noteq> None then s
      else s\<lparr>inbox := dict_set ident
        \<lparr>ev_type = typ, ev_payload = payload, ev_created = created, ev_processed = None\<rparr> (inbox s)\<rparr>)"

definition wait_registered :: "goal \<Rightarrow> int option" where
  "wait_registered g = (case goal_wait g of Some (WaitFor t _ _ _ _ _) \<Rightarrow> Some t | _ \<Rightarrow> None)"

definition wait_event :: "goal \<Rightarrow> string option" where
  "wait_event g = (case goal_wait g of Some (WaitFor _ _ e _ _ _) \<Rightarrow> e | _ \<Rightarrow> None)"

definition wait_matches :: "goal \<Rightarrow> (string \<times> string) list" where
  "wait_matches g = (case goal_wait g of Some (WaitFor _ _ _ m _ _) \<Rightarrow> m | _ \<Rightarrow> [])"

definition wait_task :: "goal \<Rightarrow> string option" where
  "wait_task g = (case goal_wait g of Some (WaitFor _ _ _ _ t _) \<Rightarrow> t | _ \<Rightarrow> None)"

text \<open>\<open>str(value)\<close> of a payload value.\<close>

fun json_text :: "('a pursuit_env_scheme) \<Rightarrow> json \<Rightarrow> string" where
  "json_text env (JStr t) = t"
| "json_text env (JInt i) = show_int i"
| "json_text env (JBool b) = (if b then ''True'' else ''False'')"
| "json_text env JNull = ''None''"
| "json_text env j = json_repr env j"

text \<open>
  The query for a linked task. A value that is neither text nor null reaches the database as
  another type, which it refuses to compare with text.
\<close>

definition linked_task :: "gstore \<Rightarrow> string \<Rightarrow> json \<Rightarrow> bool result" where
  "linked_task s k v =
     (case v of
        JStr t \<Rightarrow> Inr ((k, t) \<in> set (task_links s))
      | JNull \<Rightarrow> Inr False
      | JArr [] \<Rightarrow> Inr False
      | _ \<Rightarrow> Inl DbError)"

definition event_matches :: "('a pursuit_env_scheme) \<Rightarrow> goal \<Rightarrow> wake_event \<Rightarrow> bool" where
  "event_matches env g e =
     (wait_event g = Some (ev_type e) \<and>
      list_all (\<lambda>(k, v). case dict_get (ev_payload e) k of None \<Rightarrow> False | Some j \<Rightarrow> json_text env j = v)
        (wait_matches g))"

definition event_wakes :: "('a pursuit_env_scheme) \<Rightarrow> gstore \<Rightarrow> goal \<Rightarrow> wake_event \<Rightarrow> bool result" where
  "event_wakes env s g e =
     (let v = obj_get (ev_payload e) ''task_id'' JNull;
          named = (case v of JStr t \<Rightarrow> t \<noteq> [] \<and> wait_task g = Some t | _ \<Rightarrow> False)
      in map_sum id (\<lambda>task_match. task_match \<or> event_matches env g e)
           (if ev_type e = ''task.changed'' \<and> \<not> named then linked_task s (goal_id g) v else Inr named))"

fun first_wake ::
  "('a pursuit_env_scheme) \<Rightarrow> gstore \<Rightarrow> goal \<Rightarrow> (string \<times> wake_event) list \<Rightarrow> wake_event option result" where
  "first_wake env s g [] = Inr None"
| "first_wake env s g ((i, e) # es) =
     (if (case wait_registered g of None \<Rightarrow> False | Some t \<Rightarrow> ev_created e < t) then first_wake env s g es
      else bind_result (event_wakes env s g e)
        (\<lambda>b. if b then Inr (Some e) else first_wake env s g es))"

definition wake_text :: "('a pursuit_env_scheme) \<Rightarrow> wake_event \<Rightarrow> string" where
  "wake_text env e = ''Reassess wake event '' @ ev_type e @ '': '' @ json_repr env (JObj (ev_payload e))"

definition wake_one ::
  "('a pursuit_env_scheme) \<Rightarrow> clocks \<Rightarrow> (string \<times> wake_event) list \<Rightarrow> goal \<Rightarrow> gstore \<Rightarrow> gstore result" where
  "wake_one env clk events g s =
     map_sum id (\<lambda>w. case w of
         None \<Rightarrow> s
       | Some e \<Rightarrow> (let g' = requeued (py_now clk) (wake_text env e) g
           in goal_journal (db_now clk) g' history_action.Wake ''engine'' (save g' s)))
       (first_wake env s g events)"

definition pending_events :: "gstore \<Rightarrow> (string \<times> wake_event) list" where
  "pending_events s =
     take 500 (sort_key (\<lambda>(_, e). ev_created e) (filter (\<lambda>(_, e). ev_processed e = None) (inbox s)))"

definition retire_events :: "int \<Rightarrow> (string \<Rightarrow> bool) \<Rightarrow> gstore \<Rightarrow> gstore" where
  "retire_events now P s =
     s\<lparr>inbox := map (\<lambda>(i, e). (i, if P i then e\<lparr>ev_processed := Some now\<rparr> else e)) (inbox s)\<rparr>"

definition wake_all :: "('a pursuit_env_scheme) \<Rightarrow> clocks \<Rightarrow> gstore \<Rightarrow> gstore result" where
  "wake_all env clk s =
     (let waiting = docs (\<lambda>r. g_status r = Waiting) s in
      if waiting = [] then
        Inr (retire_events (db_now clk) (\<lambda>i. case dict_get (inbox s) i of
               None \<Rightarrow> False | Some e \<Rightarrow> ev_processed e = None) s)
      else (let events = pending_events s in
        map_sum id (retire_events (db_now clk) (\<lambda>i. i \<in> fst ` set events))
          (fold_result (wake_one env clk events) waiting s)))"

definition reconcile :: "('a pursuit_env_scheme) \<Rightarrow> clocks \<Rightarrow> gstore \<Rightarrow> gstore result" where
  "reconcile env clk s =
     bind_result (fold_result (recover_one env clk) (lapsed_rows (db_now clk) s) s) (wake_all env clk)"

definition EVENT_RETENTION_DAYS :: int where "EVENT_RETENTION_DAYS = 7"
definition HISTORY_RETENTION_DAYS :: int where "HISTORY_RETENTION_DAYS = 180"

definition prune :: "int \<Rightarrow> gstore \<Rightarrow> gstore" where
  "prune now s =
     s\<lparr>inbox := filter (\<lambda>(_, e). case ev_processed e of
           None \<Rightarrow> True | Some t \<Rightarrow> \<not> t < now - EVENT_RETENTION_DAYS * 86400 * 1000000) (inbox s),
       history := filter (\<lambda>h. \<not> h_at h < now - HISTORY_RETENTION_DAYS * 86400 * 1000000) (history s)\<rparr>"

section \<open>Claiming\<close>

definition MAX_CEILING_SWEEP :: nat where "MAX_CEILING_SWEEP = 50"
definition LEASE :: int where "LEASE = 90 * 1000000"

definition ceiling_text :: "('a pursuit_env_scheme) \<Rightarrow> ceiling \<Rightarrow> goal \<Rightarrow> string" where
  "ceiling_text env c g =
     (case c of
        TokenBudget \<Rightarrow> ''token budget exhausted ('' @ show_int (tokens_used g) @ ''/'' @ show_int (token_budget_of g) @ '')''
      | CostCeiling \<Rightarrow> ''cost ceiling reached ($'' @ two_decimals env (cost_usd g) @ ''/$'' @
          two_decimals env (cost_budget_of g) @ '')''
      | AttemptCeiling \<Rightarrow> ''attempt ceiling reached ('' @ show_int (attempts g) @ ''/'' @
          show_int (int_or (max_attempts g) DEFAULT_MAX_ATTEMPTS) @ '' runs)''
      | Deadline \<Rightarrow> ''deadline reached ('' @ iso_text env (deadline_of g) @ '')'')"

text \<open>Ready rows: queued or waiting, due, and not under an inactive parent.\<close>

definition inactive_parent :: "gstore \<Rightarrow> goal \<Rightarrow> bool" where
  "inactive_parent s g =
     (case parent_goal_id g of
        None \<Rightarrow> False
      | Some p \<Rightarrow> (case goal_at s p of None \<Rightarrow> False | Some r \<Rightarrow> g_status r \<in> INACTIVE))"

definition claimable :: "int \<Rightarrow> gstore \<Rightarrow> goal_row \<Rightarrow> bool" where
  "claimable now s r =
     (g_status r \<in> {Queued, Waiting} \<and> g_ready r \<le> now \<and> \<not> inactive_parent s (g_doc r))"

text \<open>\<open>ORDER BY priority DESC, ready_at ASC LIMIT 1\<close>.\<close>

definition ahead :: "('a pursuit_env_scheme) \<Rightarrow> goal_row \<Rightarrow> goal_row \<Rightarrow> bool" where
  "ahead env a b =
     (if g_priority a \<noteq> g_priority b then g_priority a > g_priority b
      else if g_ready a \<noteq> g_ready b then g_ready a < g_ready b
      else tie_rank env (goal_id (g_doc a)) < tie_rank env (goal_id (g_doc b)))"

fun foremost :: "('a pursuit_env_scheme) \<Rightarrow> goal_row list \<Rightarrow> goal_row option" where
  "foremost env [] = None"
| "foremost env (r # rs) =
     (case foremost env rs of
        None \<Rightarrow> Some r
      | Some q \<Rightarrow> if ahead env q r then Some q else Some r)"

definition next_ready :: "('a pursuit_env_scheme) \<Rightarrow> int \<Rightarrow> gstore \<Rightarrow> goal_row option" where
  "next_ready env now s = foremost env (filter (claimable now s) (dict_values (goals_tbl s)))"

text \<open>The sweep: a goal at a ceiling is blocked and the next one is looked at.\<close>

definition block_at :: "('a pursuit_env_scheme) \<Rightarrow> clocks \<Rightarrow> ceiling \<Rightarrow> goal \<Rightarrow> gstore \<Rightarrow> gstore" where
  "block_at env clk c g s =
     (let g' = g\<lparr>status := Blocked, blocker := ceiling_text env c g, version := version g + 1\<rparr>
      in goal_journal (db_now clk) g' CeilingReached ''engine'' (save g' s))"

fun sweep :: "('a pursuit_env_scheme) \<Rightarrow> clocks \<Rightarrow> nat \<Rightarrow> nat \<Rightarrow> gstore \<Rightarrow> goal option \<times> gstore" where
  "sweep env clk 0 i s = (None, s)"
| "sweep env clk (Suc n) i s =
     (case next_ready env (db_tick clk i) s of
        None \<Rightarrow> (None, s)
      | Some r \<Rightarrow>
          (case exceeded (py_tick clk i) (g_doc r) of
             None \<Rightarrow> (Some (g_doc r), s)
           | Some c \<Rightarrow> sweep env clk n (Suc i) (block_at env clk c (g_doc r) s)))"

definition dispatched :: "goal \<Rightarrow> goal" where
  "dispatched g =
     g\<lparr>status := Running, version := version g + 1, attempts := attempts g + 1,
       attempt_progress := Some (case progress_revision g of None \<Rightarrow> 0 | Some n \<Rightarrow> n)\<rparr>"

definition new_attempt :: "string \<Rightarrow> attempt_row" where
  "new_attempt k =
     \<lparr>at_goal = k, at_status = AttemptRunning, at_tokens = 0, at_cost = Usd 0, at_run = None\<rparr>"

definition dispatch :: "clocks \<Rightarrow> string \<Rightarrow> goal \<Rightarrow> gstore \<Rightarrow> (goal \<times> gstore) result" where
  "dispatch clk attempt g s =
     (let g' = dispatched g;
          s1 = set_lease (goal_id g') (Some (attempt, db_now clk + LEASE)) (save g' s)
      in if dict_get (attempts_tbl s1) attempt \<noteq> None then Inl DbError
         else Inr (g', goal_journal (db_now clk) g' Dispatch ''engine''
           (put_attempt attempt (new_attempt (goal_id g')) s1)))"

definition claim ::
  "('a pursuit_env_scheme) \<Rightarrow> clocks \<Rightarrow> string \<Rightarrow> gstore \<Rightarrow> (goal option \<times> gstore) result" where
  "claim env clk attempt s =
     (if \<not> store_enabled s then Inr (None, s)
      else bind_result (reconcile env clk s) (\<lambda>s1.
        if docs (\<lambda>r. g_lease r \<noteq> None) s1 \<noteq> [] then Inr (None, s1)
        else (case sweep env clk MAX_CEILING_SWEEP 0 s1 of
            (None, s2) \<Rightarrow> Inr (None, s2)
          | (Some g, s2) \<Rightarrow> map_sum id (\<lambda>(g', s3). (Some g', s3)) (dispatch clk attempt g s2))))"

section \<open>Heartbeat\<close>

definition holds :: "string \<Rightarrow> goal_row \<Rightarrow> bool" where
  "holds attempt r = (case g_lease r of None \<Rightarrow> False | Some (a, _) \<Rightarrow> a = attempt)"

definition raise_usage :: "string \<Rightarrow> int \<Rightarrow> usd \<Rightarrow> gstore \<Rightarrow> gstore" where
  "raise_usage attempt t c s =
     (case running_usage attempt s of
        None \<Rightarrow> s
      | Some r \<Rightarrow> put_attempt attempt
          (r\<lparr>at_tokens := max (at_tokens r) t, at_cost := usd_max (at_cost r) c\<rparr>) s)"

definition heartbeat ::
  "clocks \<Rightarrow> string \<Rightarrow> string \<Rightarrow> int option \<Rightarrow> usd option \<Rightarrow> gstore \<Rightarrow> bool \<times> gstore" where
  "heartbeat clk k attempt tokens cost s =
     (case goal_at s k of
        None \<Rightarrow> (False, s)
      | Some r \<Rightarrow>
          if holds attempt r \<and> g_status r \<notin> {Paused, Canceled, Blocked} \<and> store_enabled s then
            (let s1 = set_lease k (Some (attempt, db_now clk + LEASE)) s in
             (True, case tokens of
                None \<Rightarrow> s1
              | Some t \<Rightarrow> raise_usage attempt t (case cost of None \<Rightarrow> Usd 0 | Some c \<Rightarrow> c) s1))
          else (False, s))"

section \<open>The end of a run\<close>

record run_end =
  re_run :: "string option"
  re_tokens :: int
  re_cost :: usd
  re_error :: string
  re_exhausted :: bool
  re_checkpoint :: string
  re_interrupted :: bool

definition backoff :: "int \<Rightarrow> int" where
  "backoff n = min 300 (15 * 2 ^ nat (min n 4))"

definition after_failure :: "int \<Rightarrow> string \<Rightarrow> goal \<Rightarrow> goal" where
  "after_failure now error g =
     (let n = failures g + 1; g1 = g\<lparr>failures := n, ready_at := future now (backoff n)\<rparr>
      in if n \<ge> 3 then g1\<lparr>status := Blocked, blocker := error\<rparr> else g1)"

definition or_zero :: "int option \<Rightarrow> int" where
  "or_zero v = (case v of None \<Rightarrow> 0 | Some n \<Rightarrow> n)"

definition NO_PROGRESS :: string where
  "NO_PROGRESS = ''No progress checkpoint or evidence in three runs''"

definition after_success :: "goal \<Rightarrow> goal" where
  "after_success g =
     (let n = (if or_zero (progress_revision g) = or_zero (attempt_progress g)
               then or_zero (no_progress_runs g) + 1 else 0);
          g1 = g\<lparr>failures := 0, no_progress_runs := Some n\<rparr>
      in if n \<ge> 3 then g1\<lparr>status := Blocked, blocker := NO_PROGRESS\<rparr> else g1)"

text \<open>The next status of a goal whose run ended while it was still running.\<close>

definition settle_run :: "('a pursuit_env_scheme) \<Rightarrow> clocks \<Rightarrow> run_end \<Rightarrow> goal \<Rightarrow> goal" where
  "settle_run env clk e g =
     (if status g \<noteq> Running then g
      else (let g1 = g\<lparr>status := Queued, ready_at := py_now clk\<rparr>;
                g2 = (if re_error e \<noteq> [] then after_failure (py_now clk) (re_error e) g1 else after_success g1)
            in if re_exhausted e then g2\<lparr>status := Blocked, blocker := ''execution budget exhausted''\<rparr>
               else (case exceeded (py_now clk) g2 of
                   None \<Rightarrow> g2
                 | Some c \<Rightarrow> g2\<lparr>status := Blocked, blocker := ceiling_text env c g2\<rparr>)))"

definition finished_doc :: "('a pursuit_env_scheme) \<Rightarrow> clocks \<Rightarrow> run_end \<Rightarrow> goal \<Rightarrow> goal" where
  "finished_doc env clk e g =
     (let g1 = charge (max 0 (re_tokens e)) (usd_max (Usd 0) (re_cost e)) g;
          g2 = (if re_interrupted e then g1\<lparr>recovery_required := True\<rparr> else g1);
          g3 = (if re_checkpoint e \<noteq> [] then g2\<lparr>last_output :=
                  Some (drop (length (re_checkpoint e) - 20000) (re_checkpoint e))\<rparr> else g2);
          g4 = settle_run env clk e g3
      in g4\<lparr>version := version g4 + 1, updated_at := py_now clk\<rparr>)"

definition blocked_child_text :: "goal \<Rightarrow> string" where
  "blocked_child_text g = ''Reassess blocked child '' @ goal_id g @ '': '' @ blocker g"

definition wake_parent :: "('a pursuit_env_scheme) \<Rightarrow> clocks \<Rightarrow> goal \<Rightarrow> gstore \<Rightarrow> gstore result" where
  "wake_parent env clk g s =
     (case parent_of g of
        None \<Rightarrow> Inr s
      | Some p \<Rightarrow> map_sum id (\<lambda>q.
          if status q \<in> INACTIVE then s else save (requeued (py_now clk) (blocked_child_text g) q) s)
          (goal_locked env p s))"

definition close_attempt :: "string \<Rightarrow> run_end \<Rightarrow> gstore \<Rightarrow> gstore" where
  "close_attempt a e s =
     (case dict_get (attempts_tbl s) a of
        None \<Rightarrow> s
      | Some r \<Rightarrow> put_attempt a
          (r\<lparr>at_status := (if re_error e \<noteq> [] then AttemptFailed else AttemptFinished),
             at_run := re_run e, at_tokens := re_tokens e, at_cost := re_cost e\<rparr>) s)"

definition finish ::
  "('a pursuit_env_scheme) \<Rightarrow> clocks \<Rightarrow> string \<Rightarrow> string \<Rightarrow> run_end \<Rightarrow> gstore \<Rightarrow> gstore result" where
  "finish env clk k attempt e s =
     (case goal_at s k of
        None \<Rightarrow> Inr s
      | Some r \<Rightarrow>
          if \<not> holds attempt r then Inr s
          else (let g = finished_doc env clk e (g_doc r) in
            bind_result (charge_parent env (max 0 (re_tokens e)) (usd_max (Usd 0) (re_cost e)) (g_doc r) s)
              (\<lambda>s1. bind_result (if status (g_doc r) \<noteq> Blocked \<and> status g = Blocked
                     then wake_parent env clk g s1 else Inr s1)
                (\<lambda>s2. Inr (goal_journal (db_now clk) g RunFinished ''engine''
                   (close_attempt attempt e (set_lease k None (save g s2))))))))"

section \<open>Provider requests\<close>

definition family_docs :: "('a pursuit_env_scheme) \<Rightarrow> goal \<Rightarrow> gstore \<Rightarrow> goal list result" where
  "family_docs env g s =
     (case parent_of g of
        None \<Rightarrow> Inr [g]
      | Some p \<Rightarrow> map_sum id (\<lambda>q. [g, q]) (goal_locked env p s))"

definition affords :: "int \<Rightarrow> goal \<Rightarrow> bool" where
  "affords n g = (status g \<notin> INACTIVE \<and> tokens_used g + n \<le> token_budget_of g)"

definition live_lease :: "int \<Rightarrow> string \<Rightarrow> goal_row \<Rightarrow> bool" where
  "live_lease now attempt r = (case g_lease r of None \<Rightarrow> False | Some (a, until) \<Rightarrow> a = attempt \<and> until > now)"

definition reserve_provider_usage ::
  "('a pursuit_env_scheme) \<Rightarrow> clocks \<Rightarrow> string \<Rightarrow> string \<Rightarrow> int \<Rightarrow> gstore \<Rightarrow> gstore result" where
  "reserve_provider_usage env clk k attempt tokens s =
     (case goal_at s k of
        None \<Rightarrow> Inl ValueError
      | Some r \<Rightarrow>
          guard (live_lease (db_now clk) attempt r \<and> store_enabled s \<and> g_status r \<in> {Running, Queued}) ValueError
            (bind_result (family_docs env (g_doc r) s) (\<lambda>budgets.
              guard (list_all (affords tokens) budgets) ValueError
                (case running_usage attempt s of
                   None \<Rightarrow> Inl ValueError
                 | Some u \<Rightarrow> Inr (put_attempt attempt (u\<lparr>at_tokens := max (at_tokens u) tokens\<rparr>) s)))))"

text \<open>\<open>DurableAttemptBudget\<close>: the attempt and its goal, and the authority to spend.\<close>

definition attempt_join :: "string \<Rightarrow> string \<Rightarrow> gstore \<Rightarrow> (attempt_row \<times> goal_row) result" where
  "attempt_join k attempt s =
     (case (dict_get (attempts_tbl s) attempt, goal_at s k) of
        (Some a, Some r) \<Rightarrow> guard (at_goal a = k \<and> pursuit_on s \<noteq> None) ValueError (Inr (a, r))
      | _ \<Rightarrow> Inl ValueError)"

definition authorized_attempt ::
  "('a pursuit_env_scheme) \<Rightarrow> clocks \<Rightarrow> string \<Rightarrow> string \<Rightarrow> gstore \<Rightarrow> (attempt_row \<times> goal) result" where
  "authorized_attempt env clk k attempt s =
     bind_result (attempt_join k attempt s) (\<lambda>(a, r).
       guard (at_status a = AttemptRunning \<and> live_lease (db_now clk) attempt r \<and> store_enabled s \<and>
           status (g_doc r) \<in> {Running, Queued}) ValueError
         (bind_result (family_docs env (g_doc r) s) (\<lambda>fam.
           guard (list_all (\<lambda>q. status q \<notin> INACTIVE) (tl fam)) ValueError (Inr (a, g_doc r)))))"

definition durable_charged :: "string \<Rightarrow> string \<Rightarrow> gstore \<Rightarrow> int result" where
  "durable_charged k attempt s = map_sum id (\<lambda>(a, _). at_tokens a) (attempt_join k attempt s)"

definition durable_limit :: "('a pursuit_env_scheme) \<Rightarrow> clocks \<Rightarrow> string \<Rightarrow> string \<Rightarrow> gstore \<Rightarrow> int result" where
  "durable_limit env clk k attempt s =
     bind_result (authorized_attempt env clk k attempt s) (\<lambda>(_, g).
       map_sum id (\<lambda>fam. Min ((\<lambda>q. token_budget_of q - tokens_used q) ` set fam)) (family_docs env g s))"

definition assert_tool_authorized ::
  "('a pursuit_env_scheme) \<Rightarrow> clocks \<Rightarrow> string \<Rightarrow> string \<Rightarrow> gstore \<Rightarrow> unit result" where
  "assert_tool_authorized env clk k attempt s =
     bind_result (authorized_attempt env clk k attempt s) (\<lambda>(_, g). guard (\<not> recovery_required g) ValueError (Inr ()))"

definition validate_context ::
  "('a pursuit_env_scheme) \<Rightarrow> clocks \<Rightarrow> string \<Rightarrow> string \<Rightarrow> exec_context \<Rightarrow> gstore \<Rightarrow> unit result" where
  "validate_context env clk k attempt c s =
     bind_result (authorized_attempt env clk k attempt s) (\<lambda>(_, g).
       guard (ctx_parent_goal c = parent_goal_id g \<and>
           ctx_budget c = Some (case parent_of g of None \<Rightarrow> goal_id g | Some p \<Rightarrow> p)) ValueError (Inr ()))"

text \<open>The reservations of one attempt.\<close>

definition reservations_of :: "string \<Rightarrow> gstore \<Rightarrow> (string \<times> reservation) list" where
  "reservations_of attempt s =
     map (\<lambda>((_, call), r). (call, r)) (filter (\<lambda>((a, _), _). a = attempt) (reservations_tbl s))"

definition overran :: "reservation \<Rightarrow> bool" where
  "overran r = (case rv_actual r of None \<Rightarrow> False | Some n \<Rightarrow> n > rv_reserved r)"

definition durable_reserve ::
  "('a pursuit_env_scheme) \<Rightarrow> clocks \<Rightarrow> string \<Rightarrow> string \<Rightarrow> gstore \<Rightarrow> string \<Rightarrow> int \<Rightarrow> gstore result" where
  "durable_reserve env clk k attempt s call n =
     guard (call \<noteq> [] \<and> 0 < n) ValueError
       (bind_result (authorized_attempt env clk k attempt s) (\<lambda>(a, g).
         guard (call \<notin> fst ` set (reservations_of attempt s)) ValueError
           (guard (\<not> list_ex (\<lambda>(_, r). overran r) (reservations_of attempt s)) ValueError
             (bind_result (family_docs env g s) (\<lambda>budgets.
               guard (list_all (affords (at_tokens a + n)) budgets) ValueError
                 (Inr (put_attempt attempt (a\<lparr>at_tokens := at_tokens a + n\<rparr>)
                   (s\<lparr>reservations_tbl := dict_set (attempt, call)
                      \<lparr>rv_reserved = n, rv_actual = None\<rparr> (reservations_tbl s)\<rparr>))))))))"

text \<open>The charge is stored first; the flag is the exception of an overrun.\<close>

definition durable_settle ::
  "clocks \<Rightarrow> string \<Rightarrow> string \<Rightarrow> gstore \<Rightarrow> string \<Rightarrow> int option \<Rightarrow> (bool \<times> gstore) result" where
  "durable_settle clk k attempt s call actual =
     guard (case actual of None \<Rightarrow> True | Some n \<Rightarrow> 0 \<le> n) ValueError
       (bind_result (attempt_join k attempt s) (\<lambda>(a, row).
         case dict_get (reservations_tbl s) (attempt, call) of
           None \<Rightarrow> Inl ValueError
         | Some r \<Rightarrow>
             (case actual of
                None \<Rightarrow> Inr (False, s)
              | Some n \<Rightarrow>
                  (case rv_actual r of
                     Some m \<Rightarrow> guard (m = n) ValueError (Inr (False, s))
                   | None \<Rightarrow>
                       guard (at_status a = AttemptRunning \<and> holds attempt row) ValueError
                         (Inr (n > rv_reserved r,
                            put_attempt attempt (a\<lparr>at_tokens := at_tokens a + (n - rv_reserved r)\<rparr>)
                              (s\<lparr>reservations_tbl := dict_set (attempt, call) (r\<lparr>rv_actual := Some n\<rparr>)
                                 (reservations_tbl s)\<rparr>)))))))"

section \<open>Tools of a pursuit run\<close>

definition RECOVERY_BOOKKEEPING_ACTIONS :: "goal_action set" where
  "RECOVERY_BOOKKEEPING_ACTIONS = {Progress, goal_action.Wait, Block, Pause, Cancel, Reconciled}"

text \<open>
  \<open>admit_tool\<close> of a run bound to a goal: the unwrapped tool's name, whether it is read only, the
  action when it updates a goal, and whether the run's token budget is spent.
\<close>

definition admit_tool ::
  "string \<Rightarrow> string \<Rightarrow> string \<Rightarrow> bool \<Rightarrow> goal_action option \<Rightarrow> bool \<Rightarrow> gstore \<Rightarrow> unit result" where
  "admit_tool k attempt name readonly act budget_hit s =
     (case goal_at s k of
        None \<Rightarrow> Inl ValueError
      | Some r \<Rightarrow>
          if \<not> holds attempt r \<or> \<not> store_enabled s then Inl ValueError
          else if g_status r \<in> {Paused, Canceled, Blocked} \<or> budget_hit then Inl ValueError
          else if g_status r \<in> {Waiting, Complete, Review} \<and> (\<not> readonly \<or> name = ''wait_seconds'') then Inl ValueError
          else if recovery_required (g_doc r) \<and> \<not> readonly \<and>
              \<not> (name = ''update_pursuit_goal'' \<and>
                 (case act of None \<Rightarrow> False | Some a \<Rightarrow> a \<in> RECOVERY_BOOKKEEPING_ACTIONS)) then Inl ValueError
          else Inr ())"

end
