(* ===== verification/Goal_Family.thy ===== *)
theory Goal_Family
  imports Goal_Dispatch
begin

text \<open>
  What the store keeps of every goal and its family, whatever is done to it: the rows are keyed
  by their goals, families are one level deep, and a closed goal has no open child.
\<close>

section \<open>The tables after a write\<close>

lemma goal_at_save [simp]:
  "goal_at (save g s) k =
     (if k = goal_id g then map_option (row_of g) (goal_at s k) else goal_at s k)"
  by (auto simp: save_def goal_at_def split: option.splits)

lemma goal_at_set_lease [simp]:
  "goal_at (set_lease j l s) k =
     (if k = j then map_option (\<lambda>r. r\<lparr>g_lease := l\<rparr>) (goal_at s k) else goal_at s k)"
  by (auto simp: set_lease_def goal_at_def split: option.splits)

lemma goal_at_frames [simp]:
  "goal_at (goal_journal now g a w s) k = goal_at s k"
  "goal_at (put_attempt i r s) k = goal_at s k"
  "goal_at (retire_events now P s) k = goal_at s k"
  "goal_at (s\<lparr>task_links := lk\<rparr>) k = goal_at s k"
  "goal_at (s\<lparr>ledger := ef\<rparr>) k = goal_at s k"
  "goal_at (s\<lparr>reservations_tbl := rs\<rparr>) k = goal_at s k"
  "goal_at (s\<lparr>pursuit_on := b\<rparr>) k = goal_at s k"
  "goal_at (s\<lparr>inbox := ib\<rparr>) k = goal_at s k"
  by (simp_all add: goal_at_def goal_journal_def put_attempt_def retire_events_def)

lemma row_of_simps [simp]:
  "g_doc (row_of g r) = g" "g_status (row_of g r) = status g" "g_priority (row_of g r) = priority g"
  "g_ready (row_of g r) = ready_at g" "g_lease (row_of g r) = g_lease r"
  by (simp_all add: row_of_def)

definition others :: "gstore \<Rightarrow> (string, attempt_row) dict \<times> (string \<times> string, reservation) dict \<times> bool option" where
  "others s = (attempts_tbl s, reservations_tbl s, pursuit_on s)"

lemma others_frames [simp]:
  "others (goal_journal now g a w s) = others s" "others (save g s) = others s"
  "others (set_lease j l s) = others s" "others (retire_events now P s) = others s"
  "others (s\<lparr>task_links := lk\<rparr>) = others s" "others (s\<lparr>ledger := ef\<rparr>) = others s"
  "others (s\<lparr>inbox := ib\<rparr>) = others s"
  by (simp_all add: others_def goal_journal_def save_def set_lease_def retire_events_def split: option.split)

lemma dict_ok_tables [simp]:
  "dict_ok (goals_tbl s) \<Longrightarrow> dict_ok (goals_tbl (save g s))"
  "dict_ok (goals_tbl s) \<Longrightarrow> dict_ok (goals_tbl (set_lease k l s))"
  "goals_tbl (goal_journal now g a w s) = goals_tbl s"
  "goals_tbl (put_attempt i r s) = goals_tbl s"
  "goals_tbl (retire_events now P s) = goals_tbl s"
  by (simp_all add: save_def set_lease_def goal_journal_def put_attempt_def retire_events_def split: option.split)

section \<open>The invariant of the rows\<close>

definition canonical :: "('a pursuit_env_scheme) \<Rightarrow> bool" where
  "canonical env = (\<forall>t k. parse_uuid env t = Some k \<longrightarrow> k \<noteq> [] \<and> parse_uuid env k = Some k)"

definition row_ok :: "('a pursuit_env_scheme) \<Rightarrow> gstore \<Rightarrow> string \<Rightarrow> goal_row \<Rightarrow> bool" where
  "row_ok env s k r =
     (goal_id (g_doc r) = k \<and> parse_uuid env k = Some k \<and>
      g_status r = status (g_doc r) \<and> g_priority r = priority (g_doc r) \<and>
      (\<forall>p. paused_by_parent (g_doc r) = Some p \<longrightarrow> parent_goal_id (g_doc r) = Some p) \<and>
      (\<forall>p. parent_goal_id (g_doc r) = Some p \<longrightarrow> kind (g_doc r) = Short \<and> p \<noteq> [] \<and>
         (\<exists>q. goal_at s p = Some q \<and> kind (g_doc q) = Long \<and> parent_goal_id (g_doc q) = None)))"

lemma row_ok_mono:
  assumes "row_ok env s k r" "\<And>p q. goal_at s p = Some q \<Longrightarrow> goal_at t p = Some q"
  shows "row_ok env t k r"
proof -
  have "\<exists>q. goal_at t p = Some q \<and> kind (g_doc q) = Long \<and> parent_goal_id (g_doc q) = None"
    if "\<exists>q. goal_at s p = Some q \<and> kind (g_doc q) = Long \<and> parent_goal_id (g_doc q) = None" for p
    using that assms(2) by blast
  then show ?thesis using assms(1) by (simp add: row_ok_def)
qed

definition rows_ok :: "('a pursuit_env_scheme) \<Rightarrow> gstore \<Rightarrow> bool" where
  "rows_ok env s =
     (dict_ok (goals_tbl s) \<and> (\<forall>k r. goal_at s k = Some r \<longrightarrow> row_ok env s k r))"

lemma rows_okD: "rows_ok env s \<Longrightarrow> goal_at s k = Some r \<Longrightarrow> row_ok env s k r"
  by (simp add: rows_ok_def)

lemma rows_ok_keys [dest]:
  assumes "rows_ok env s" "goal_at s k = Some r"
  shows "goal_id (g_doc r) = k" "parse_uuid env k = Some k" "g_status r = status (g_doc r)"
    "g_priority r = priority (g_doc r)"
  using rows_okD [OF assms] by (simp_all add: row_ok_def)

lemma parent_row:
  assumes "rows_ok env s" "goal_at s k = Some r" "parent_goal_id (g_doc r) = Some p"
  obtains q where "goal_at s p = Some q" "kind (g_doc q) = Long" "parent_goal_id (g_doc q) = None"
    "p \<noteq> []" "p \<noteq> k" "kind (g_doc r) = Short"
proof -
  from rows_okD [OF assms(1,2)] assms(3) obtain q where q: "goal_at s p = Some q" "kind (g_doc q) = Long"
    "parent_goal_id (g_doc q) = None" "p \<noteq> []" "kind (g_doc r) = Short" by (auto simp: row_ok_def)
  then have "p \<noteq> k" using assms(2,3) by auto
  then show ?thesis using that q by blast
qed

lemma parent_of_row:
  "rows_ok env s \<Longrightarrow> goal_at s k = Some r \<Longrightarrow> parent_of (g_doc r) = parent_goal_id (g_doc r)"
  by (auto simp: parent_of_def split: option.split elim: parent_row)

lemma goal_locked_Inr:
  "goal_locked env i s = Inr g \<longleftrightarrow> (\<exists>k r. parse_uuid env i = Some k \<and> goal_at s k = Some r \<and> g = g_doc r)"
  by (auto simp: goal_locked_def split: option.splits)

lemma locked_row:
  assumes "rows_ok env s" "goal_locked env i s = Inr g"
  obtains r where "goal_at s (goal_id g) = Some r" "g_doc r = g" "parse_uuid env i = Some (goal_id g)"
  using assms by (auto simp: goal_locked_Inr)

lemma locked_known:
  "rows_ok env s \<Longrightarrow> goal_at s k = Some r \<Longrightarrow> goal_locked env k s = Inr (g_doc r)"
  by (auto simp: goal_locked_Inr)

lemma docs_mem_table: "g \<in> set (docs P s) \<longleftrightarrow> (\<exists>k r. (k, r) \<in> set (goals_tbl s) \<and> P r \<and> g_doc r = g)"
  by (induction "goals_tbl s" arbitrary: s rule: list.induct) (auto simp: docs_def image_iff Bex_def)

lemma docs_mem:
  assumes "rows_ok env s"
  shows "g \<in> set (docs P s) \<longleftrightarrow> (\<exists>r. goal_at s (goal_id g) = Some r \<and> g_doc r = g \<and> P r)"
proof -
  have d: "distinct (map fst (goals_tbl s))" using assms by (simp add: rows_ok_def dict_ok_def)
  have m: "(k, r) \<in> set (goals_tbl s) \<longleftrightarrow> goal_at s k = Some r" for k r
    using d by (simp add: goal_at_def)
  show ?thesis
  proof
    assume "g \<in> set (docs P s)"
    then obtain k r where r: "goal_at s k = Some r" "P r" "g_doc r = g"
      unfolding docs_mem_table m by blast
    then have "goal_id g = k" using rows_ok_keys(1) [OF assms r(1)] by simp
    then show "\<exists>r. goal_at s (goal_id g) = Some r \<and> g_doc r = g \<and> P r" using r by blast
  next
    assume "\<exists>r. goal_at s (goal_id g) = Some r \<and> g_doc r = g \<and> P r"
    then show "g \<in> set (docs P s)" unfolding docs_mem_table m by blast
  qed
qed

lemma doc_ids:
  "\<forall>(k, r) \<in> set xs. goal_id (g_doc r) = k \<Longrightarrow>
   map goal_id (map g_doc (filter P (map snd xs))) = map fst (filter (P \<circ> snd) xs)"
  by (induction xs) auto

lemma docs_distinct:
  assumes "rows_ok env s"
  shows "distinct (map goal_id (docs P s))"
proof -
  have d: "distinct (map fst (goals_tbl s))" using assms by (simp add: rows_ok_def dict_ok_def)
  then have "\<forall>(k, r) \<in> set (goals_tbl s). goal_id (g_doc r) = k"
    using rows_ok_keys(1) [OF assms] by (auto simp: goal_at_def)
  then have "map goal_id (docs P s) = map fst (filter (P \<circ> snd) (goals_tbl s))"
    unfolding docs_def by (rule doc_ids)
  then show ?thesis using d by (simp add: distinct_map_filter)
qed

section \<open>Writes of a changed document\<close>

text \<open>What no operation changes of a goal, and what a write must respect for closed families.\<close>

definition same_goal :: "goal \<Rightarrow> goal \<Rightarrow> bool" where
  "same_goal g g' =
     (goal_id g' = goal_id g \<and> parent_goal_id g' = parent_goal_id g \<and> mode g' = mode g \<and>
      request_key g' = request_key g \<and>
      (kind g' = kind g \<or> kind g' = Long \<and> (parent_goal_id g = None \<or> parent_goal_id g = Some [])) \<and>
      (paused_by_parent g' = None \<or> paused_by_parent g' = paused_by_parent g \<or>
       paused_by_parent g' = parent_goal_id g))"

definition closed_family :: "goal \<Rightarrow> bool" where
  "closed_family g = (status g \<in> TERMINAL \<or> status g = Review \<and> mode g = Finite)"

definition benign :: "goal \<Rightarrow> goal \<Rightarrow> bool" where
  "benign g g' =
     (same_goal g g' \<and> (status g \<in> TERMINAL \<longrightarrow> status g' \<in> TERMINAL) \<and>
      (closed_family g' \<longrightarrow> closed_family g \<or> parent_goal_id g \<noteq> None))"

definition children_done :: "gstore \<Rightarrow> string \<Rightarrow> bool" where
  "children_done s p =
     (\<forall>k r. goal_at s k = Some r \<longrightarrow> parent_goal_id (g_doc r) = Some p \<longrightarrow> status (g_doc r) \<in> TERMINAL)"

definition settled_but :: "string set \<Rightarrow> gstore \<Rightarrow> bool" where
  "settled_but X s =
     (\<forall>p q. goal_at s p = Some q \<longrightarrow> closed_family (g_doc q) \<longrightarrow> p \<notin> X \<longrightarrow> children_done s p)"

lemma same_goal_refl [simp]: "same_goal g g"
  by (simp add: same_goal_def)

lemma benign_refl [simp]: "benign g g"
  by (simp add: benign_def)

lemma benign_same: "benign g g' \<Longrightarrow> same_goal g g'"
  by (simp add: benign_def)

lemma save_goal_rows:
  assumes ok: "rows_ok env s" and r: "goal_at s (goal_id g) = Some r" and same: "same_goal (g_doc r) g"
  shows "rows_ok env (save g s)"
proof -
  have "row_ok env (save g s) k r'" if k: "goal_at (save g s) k = Some r'" for k r'
  proof (cases "k = goal_id g")
    case True
    with k r have r': "r' = row_of g r" by simp
    from rows_okD [OF ok r] same have
      "parse_uuid env k = Some k" "\<forall>p. paused_by_parent g = Some p \<longrightarrow> parent_goal_id g = Some p"
      using True by (auto simp: row_ok_def same_goal_def)
    moreover have "kind g = Short \<and> p \<noteq> [] \<and>
        (\<exists>q. goal_at (save g s) p = Some q \<and> kind (g_doc q) = Long \<and> parent_goal_id (g_doc q) = None)"
      if p: "parent_goal_id g = Some p" for p
    proof -
      have p': "parent_goal_id (g_doc r) = Some p" using p same by (simp add: same_goal_def)
      then obtain q where "goal_at s p = Some q" "kind (g_doc q) = Long" "parent_goal_id (g_doc q) = None"
        "p \<noteq> []" "p \<noteq> goal_id g" "kind (g_doc r) = Short" using parent_row [OF ok r] by metis
      then show ?thesis using same p' by (auto simp: same_goal_def)
    qed
    ultimately show ?thesis using r' True by (simp add: row_ok_def)
  next
    case False
    with k have k': "goal_at s k = Some r'" by simp
    have "\<exists>q. goal_at (save g s) p = Some q \<and> kind (g_doc q) = Long \<and> parent_goal_id (g_doc q) = None"
      if p: "parent_goal_id (g_doc r') = Some p" for p
    proof -
      obtain q where q: "goal_at s p = Some q" "kind (g_doc q) = Long" "parent_goal_id (g_doc q) = None"
        using parent_row [OF ok k' p] by metis
      then show ?thesis using same r by (cases "p = goal_id g") (auto simp: same_goal_def)
    qed
    then show ?thesis using rows_okD [OF ok k'] by (auto simp: row_ok_def)
  qed
  then show ?thesis using ok by (simp add: rows_ok_def)
qed

lemma save_children:
  assumes r: "goal_at s (goal_id g) = Some r" and same: "same_goal (g_doc r) g"
    and stable: "status (g_doc r) \<in> TERMINAL \<longrightarrow> status g \<in> TERMINAL" and c: "children_done s p"
  shows "children_done (save g s) p"
  using assms by (auto simp: children_done_def same_goal_def split: if_splits)

lemma save_settled:
  assumes ok: "rows_ok env s" and r: "goal_at s (goal_id g) = Some r" and same: "same_goal (g_doc r) g"
    and stable: "status (g_doc r) \<in> TERMINAL \<longrightarrow> status g \<in> TERMINAL"
    and closed: "closed_family g \<Longrightarrow> goal_id g \<notin> X \<Longrightarrow>
      closed_family (g_doc r) \<or> parent_goal_id (g_doc r) \<noteq> None \<or> children_done s (goal_id g)"
    and settled: "settled_but X s"
  shows "settled_but X (save g s)"
  unfolding settled_but_def
proof (intro allI impI)
  fix p q assume q: "goal_at (save g s) p = Some q" "closed_family (g_doc q)" "p \<notin> X"
  have "children_done s p"
  proof (cases "p = goal_id g")
    case True
    with q r have "closed_family g" "goal_id g \<notin> X" by auto
    from closed [OF this] consider "closed_family (g_doc r)" | "parent_goal_id (g_doc r) \<noteq> None"
      | "children_done s (goal_id g)" by blast
    then show ?thesis
    proof cases
      case 1
      then show ?thesis using settled r q(3) True by (auto simp: settled_but_def)
    next
      case 2
      have "parent_goal_id (g_doc c) \<noteq> Some (goal_id g)" if "goal_at s k = Some c" for k c
        using parent_row [OF ok that, of "goal_id g"] r 2 by (metis option.inject)
      then show ?thesis using True by (auto simp: children_done_def)
    next
      case 3
      then show ?thesis using True by simp
    qed
  next
    case False
    then show ?thesis using q settled by (auto simp: settled_but_def)
  qed
  then show "children_done (save g s) p" by (rule save_children [OF r same stable])
qed

text \<open>Everything the store keeps of the rows, with the families in \<open>X\<close> exempt.\<close>

definition keeps :: "('a pursuit_env_scheme) \<Rightarrow> string set \<Rightarrow> gstore \<Rightarrow> bool" where
  "keeps env X s = (rows_ok env s \<and> settled_but X s)"

lemma keeps_rows: "keeps env X s \<Longrightarrow> rows_ok env s"
  by (simp add: keeps_def)

lemma save_keeps:
  assumes "keeps env X s" "goal_at s (goal_id g) = Some r" "benign (g_doc r) g"
  shows "keeps env X (save g s)"
  using assms save_goal_rows [of env s g r] save_settled [of env s g r X]
  by (auto simp: keeps_def benign_def)

text \<open>A write that touches no document.\<close>

lemma keeps_cong:
  assumes "keeps env X s" "dict_ok (goals_tbl t)"
    and "\<And>k. map_option (\<lambda>r. (g_doc r, g_status r, g_priority r)) (goal_at t k) =
      map_option (\<lambda>r. (g_doc r, g_status r, g_priority r)) (goal_at s k)"
  shows "keeps env X t"
proof -
  have same: "\<exists>r'. goal_at s k = Some r' \<and> g_doc r' = g_doc r \<and> g_status r' = g_status r \<and> g_priority r' = g_priority r"
    if "goal_at t k = Some r" for k r
    using assms(3) [of k] that by (cases "goal_at s k") auto
  have bk: "\<exists>r'. goal_at t k = Some r' \<and> g_doc r' = g_doc r"
    if "goal_at s k = Some r" for k r
    using assms(3) [of k] that by (cases "goal_at t k") auto
  have "row_ok env t k r" if t: "goal_at t k = Some r" for k r
  proof -
    obtain r' where r': "goal_at s k = Some r'" "g_doc r' = g_doc r" "g_status r' = g_status r"
      "g_priority r' = g_priority r" using same [OF t] by blast
    have "row_ok env s k r'" using assms(1) r'(1) by (auto simp: keeps_def rows_ok_def)
    then show ?thesis using r' bk unfolding row_ok_def by metis
  qed
  moreover have "settled_but X t"
    using assms(1) same unfolding keeps_def settled_but_def children_done_def by metis
  ultimately show ?thesis using assms(2) by (simp add: keeps_def rows_ok_def)
qed

lemma keeps_set_lease [simp]: "keeps env X s \<Longrightarrow> keeps env X (set_lease k l s)"
  by (rule keeps_cong [of env X s]) (auto simp: keeps_def rows_ok_def option.map_comp comp_def)

lemma keeps_same_rows: "keeps env X s \<Longrightarrow> goals_tbl t = goals_tbl s \<Longrightarrow> keeps env X t"
  by (rule keeps_cong [of env X s]) (auto simp: keeps_def rows_ok_def goal_at_def)

lemma keeps_frames [simp]:
  "keeps env X s \<Longrightarrow> keeps env X (goal_journal now g a w s)"
  "keeps env X s \<Longrightarrow> keeps env X (put_attempt i r s)"
  "keeps env X s \<Longrightarrow> keeps env X (retire_events now P s)"
  by (rule keeps_same_rows [of env X s]; simp)+

section \<open>What a step leaves alone\<close>

text \<open>Which goals there are, whose children, what they have used and cost, every lease and attempt.\<close>

abbreviation spent :: "goal \<Rightarrow> int \<times> usd" where
  "spent g \<equiv> (tokens_used g, cost_usd g)"

definition core :: "gstore \<Rightarrow> string \<Rightarrow> ((int \<times> usd) \<times> string option \<times> string option \<times> (string \<times> int) option) option" where
  "core s k = map_option (\<lambda>r. (spent (g_doc r), parent_goal_id (g_doc r), request_key (g_doc r), g_lease r)) (goal_at s k)"

definition quiet :: "gstore \<Rightarrow> gstore \<Rightarrow> bool" where
  "quiet s t = (core t = core s \<and> others t = others s)"

lemma quiet_refl [simp]: "quiet s s"
  by (simp add: quiet_def)

lemma quiet_trans: "quiet s t \<Longrightarrow> quiet t u \<Longrightarrow> quiet s u"
  by (simp add: quiet_def)

lemma core_frames [simp]:
  "core (goal_journal now g a w s) = core s" "core (retire_events now P s) = core s"
  "core (put_attempt i r s) = core s" "core (s\<lparr>task_links := lk\<rparr>) = core s"
  "core (s\<lparr>ledger := ef\<rparr>) = core s" "core (s\<lparr>reservations_tbl := rs\<rparr>) = core s"
  by (simp_all add: core_def fun_eq_iff)

lemma quiet_journal [simp]: "quiet s (goal_journal now g a w t) \<longleftrightarrow> quiet s t"
  by (simp add: quiet_def)

lemma save_quiet:
  assumes "goal_at s (goal_id g) = Some r" "same_goal (g_doc r) g" "spent g = spent (g_doc r)"
  shows "quiet s (save g s)"
  using assms by (auto simp: quiet_def core_def fun_eq_iff same_goal_def)

lemma quiet_row:
  assumes "quiet s t" "goal_at t k = Some r"
  obtains q where "goal_at s k = Some q" "parent_goal_id (g_doc q) = parent_goal_id (g_doc r)"
    "spent (g_doc q) = spent (g_doc r)" "g_lease q = g_lease r"
    "request_key (g_doc q) = request_key (g_doc r)"
proof -
  have "core t k = core s k" using assms(1) by (simp add: quiet_def)
  then show ?thesis using that assms(2) by (cases "goal_at s k") (auto simp: core_def)
qed

section \<open>Loops that write one document per row\<close>

abbreviation write_loop :: "(goal \<Rightarrow> bool) \<Rightarrow> (goal \<Rightarrow> goal) \<Rightarrow> int \<Rightarrow> history_action \<Rightarrow> string \<Rightarrow> goal list \<Rightarrow> gstore \<Rightarrow> gstore" where
  "write_loop Q f n a w \<equiv> fold (\<lambda>c t. if Q c then goal_journal n (f c) a w (save (f c) t) else t)"

lemma write_loop_other:
  assumes "\<And>c. c \<in> set cs \<Longrightarrow> Q c \<Longrightarrow> goal_id (f c) \<noteq> k"
  shows "goal_at (write_loop Q f n a w cs s) k = goal_at s k"
  using assms by (induction cs arbitrary: s) auto

lemma write_loop_row:
  assumes "distinct (map goal_id cs)" "c \<in> set cs" "Q c" "\<And>d. goal_id (f d) = goal_id d"
  shows "goal_at (write_loop Q f n a w cs s) (goal_id c) = map_option (row_of (f c)) (goal_at s (goal_id c))"
  using assms(1,2)
proof (induction cs arbitrary: s)
  case (Cons d cs)
  show ?case
  proof (cases "c = d")
    case True
    have "goal_at (write_loop Q f n a w cs t) (goal_id d) = goal_at t (goal_id d)" for t
    proof (rule write_loop_other)
      fix e assume "e \<in> set cs"
      then have "goal_id e \<in> set (map goal_id cs)" by simp
      then show "goal_id (f e) \<noteq> goal_id d" using Cons.prems(1) assms(4) by (metis distinct.simps(2) list.simps(9))
    qed
    then show ?thesis using True assms(3,4) by simp
  next
    case False
    then have c: "c \<in> set cs" "goal_id d \<noteq> goal_id c" using Cons.prems by auto
    show ?thesis using Cons.IH [OF _ c(1)] Cons.prems(1) c(2) assms(4) by (simp add: option.map_comp)
  qed
qed simp

lemma write_once:
  assumes s: "keeps env X s" and r: "goal_at s (goal_id c) = Some r" "g_doc r = c"
    and b: "benign c g" "spent g = spent c"
  shows "keeps env X (save g s)" "quiet s (save g s)" "k \<noteq> goal_id c \<Longrightarrow> goal_at (save g s) k = goal_at s k"
proof -
  have id: "goal_id g = goal_id c" using b by (simp add: benign_def same_goal_def)
  show "keeps env X (save g s)" by (rule save_keeps [of env X s g r]) (simp_all add: s r b id)
  show "quiet s (save g s)" by (rule save_quiet [of s g r]) (simp_all add: r b id benign_same)
  show "k \<noteq> goal_id c \<Longrightarrow> goal_at (save g s) k = goal_at s k" by (simp add: id)
qed

lemma write_loop_keeps:
  assumes "keeps env X s" "distinct (map goal_id cs)"
    and "\<And>c. c \<in> set cs \<Longrightarrow> \<exists>r. goal_at s (goal_id c) = Some r \<and> g_doc r = c"
    and "\<And>c. c \<in> set cs \<Longrightarrow> Q c \<Longrightarrow> benign c (f c) \<and> spent (f c) = spent c"
  shows "keeps env X (write_loop Q f n a w cs s) \<and> quiet s (write_loop Q f n a w cs s)"
  using assms
proof (induction cs arbitrary: s)
  case Nil
  then show ?case by simp
next
  case (Cons c cs)
  define t where "t = (if Q c then goal_journal n (f c) a w (save (f c) s) else s)"
  obtain r where r: "goal_at s (goal_id c) = Some r" "g_doc r = c" using Cons.prems(3) [of c] by auto
  have t: "keeps env X t" "quiet s t" "k \<noteq> goal_id c \<Longrightarrow> goal_at t k = goal_at s k" for k
    using write_once [OF Cons.prems(1) r, of "f c"] Cons.prems(1) Cons.prems(4) [of c]
    by (simp_all add: t_def)
  have ids: "goal_id d \<noteq> goal_id c" if "d \<in> set cs" for d
    using that Cons.prems(2) by (metis distinct.simps(2) image_eqI list.simps(9) set_map)
  have rows: "\<exists>r. goal_at t (goal_id d) = Some r \<and> g_doc r = d" if "d \<in> set cs" for d
    using Cons.prems(3) [of d] that by (simp add: t(3) [OF ids [OF that]])
  have "keeps env X (write_loop Q f n a w cs t) \<and> quiet t (write_loop Q f n a w cs t)"
    by (rule Cons.IH [OF t(1) _ rows]) (use Cons.prems(2) Cons.prems(4) in simp_all)
  moreover have "write_loop Q f n a w (c # cs) s = write_loop Q f n a w cs t" by (simp add: t_def)
  ultimately show ?case using quiet_trans [OF t(2)] by simp
qed

section \<open>The transition\<close>

lemma same_goalI:
  "goal_id h = goal_id g \<Longrightarrow> parent_goal_id h = parent_goal_id g \<Longrightarrow> mode h = mode g \<Longrightarrow>
   request_key h = request_key g \<Longrightarrow> kind h = kind g \<Longrightarrow> paused_by_parent h = paused_by_parent g \<Longrightarrow> same_goal g h"
  by (simp add: same_goal_def)

lemma do_progress_same:
  "do_progress u g = Inr h \<Longrightarrow> same_goal g h \<and> spent h = spent g"
  by (auto simp: do_progress_def bump_revision_def raise_ceilings_def Let_def intro!: same_goalI split: if_splits option.splits)

lemma do_evidence_same:
  "do_evidence now u g = Inr h \<Longrightarrow> same_goal g h \<and> spent h = spent g"
  by (auto simp: do_evidence_def bump_revision_def raise_ceilings_def Let_def intro!: same_goalI split: if_splits option.splits)

lemma do_wait_same:
  "do_wait now u g = Inr h \<Longrightarrow> same_goal g h \<and> spent h = spent g"
  by (simp add: do_wait_def Let_def same_goal_def split: if_splits option.splits; clarsimp)

lemma do_block_same:
  "do_block u g = Inr h \<Longrightarrow> same_goal g h \<and> spent h = spent g"
  by (auto simp: do_block_def bump_revision_def raise_ceilings_def Let_def intro!: same_goalI split: if_splits option.splits)

lemma do_complete_same:
  "do_complete u g = Inr h \<Longrightarrow> same_goal g h \<and> spent h = spent g"
  by (auto simp: do_complete_def bump_revision_def raise_ceilings_def Let_def intro!: same_goalI split: if_splits option.splits)

lemma do_approve_same:
  "do_approve now g = Inr h \<Longrightarrow> same_goal g h \<and> spent h = spent g"
  by (auto simp: do_approve_def bump_revision_def raise_ceilings_def Let_def intro!: same_goalI split: if_splits option.splits)

lemma do_assess_same:
  "do_assess now u g = Inr h \<Longrightarrow> same_goal g h \<and> spent h = spent g"
  by (auto simp: do_assess_def bump_revision_def raise_ceilings_def Let_def intro!: same_goalI split: if_splits option.splits)

lemma do_resume_same:
  "do_resume now u g = Inr h \<Longrightarrow> same_goal g h \<and> spent h = spent g"
  by (auto simp: do_resume_def bump_revision_def raise_ceilings_def Let_def intro!: same_goalI split: if_splits option.splits)

lemma do_steer_same:
  "do_steer u g = Inr h \<Longrightarrow> same_goal g h \<and> spent h = spent g"
  by (auto simp: do_steer_def bump_revision_def raise_ceilings_def Let_def intro!: same_goalI split: if_splits option.splits)

lemma do_revise_same:
  "do_revise now u g = Inr h \<Longrightarrow> same_goal g h \<and> spent h = spent g"
  by (cases "CreateGoal Some (revised_contract u g)"; cases "status g = Review")
    (simp_all add: do_revise_def Let_def same_goal_def split: if_splits, safe?, simp_all)

lemma do_reconciled_same:
  "do_reconciled u g = Inr h \<Longrightarrow> same_goal g h \<and> spent h = spent g"
  by (auto simp: do_reconciled_def bump_revision_def raise_ceilings_def Let_def intro!: same_goalI split: if_splits option.splits)

lemmas actions_same = do_progress_same do_evidence_same do_wait_same do_block_same do_complete_same do_approve_same do_assess_same do_resume_same do_steer_same do_revise_same do_reconciled_same

lemma action_same:
  assumes "apply_action a now u g = Inr h"
  shows "same_goal g h \<and> spent h = spent g"
proof (cases a)
  case Pause
  then show ?thesis using assms by (auto simp: same_goal_def)
next
  case Cancel
  then show ?thesis using assms by (auto simp: same_goal_def)
qed (use assms in \<open>auto dest: actions_same\<close>)

lemma finish_transition_same:
  "same_goal g h \<Longrightarrow> same_goal g (finish_transition a now h)"
  by (auto simp: same_goal_def finish_transition_def Let_def)

lemma transition_same:
  assumes "transition now operator u g = Inr g'"
  shows "same_goal g g' \<and> spent g' = spent g \<and> status g \<notin> TERMINAL"
proof -
  obtain h where h: "transition_guard g u operator" "apply_action (gu_action u) now u g = Inr h"
    "g' = finish_transition (gu_action u) now h" using assms unfolding goal_transition_Inr by blast
  have "status g \<notin> TERMINAL" using h(1) by (auto simp: transition_guard_def split: if_splits)
  then show ?thesis using action_same [OF h(2)] finish_transition_same [of g h] h(3) by simp
qed

lemma approve_complete: "do_approve now g = Inr h \<Longrightarrow> status h = Complete \<Longrightarrow> status g = Review \<and> mode g \<noteq> Ongoing"
  by (auto simp: do_approve_def Let_def split: if_splits option.splits)

lemma assess_review: "do_assess now u g = Inr h \<Longrightarrow> mode g = Ongoing"
  by (auto simp: do_assess_def split: if_splits option.splits)

lemma finite_mode: "m \<noteq> Ongoing \<longleftrightarrow> m = Finite"
  by (cases m) auto

lemma transition_closed:
  assumes "transition now operator u g = Inr g'" "closed_family g'" "gu_action u \<notin> {CompleteAction, Cancel}"
  shows "closed_family g"
proof -
  obtain h where h: "transition_guard g u operator" "apply_action (gu_action u) now u g = Inr h"
    "g' = finish_transition (gu_action u) now h" using assms unfolding goal_transition_Inr by blast
  have h': "closed_family h" using assms(2) h(3) by (simp add: closed_family_def)
  have m: "mode h = mode g" using action_mode_version [OF h(2)] by simp
  note st = action_status [OF h(2)]
  show ?thesis
  proof (cases "status h = status g")
    case True
    then show ?thesis using h' m by (simp add: closed_family_def)
  next
    case False
    show ?thesis
    proof (cases "gu_action u")
      case Approve
      then have "do_approve now g = Inr h" "status h = Complete"
        using h(2) st False h' by (auto simp: closed_family_def TERMINAL_def)
      then show ?thesis using approve_complete by (auto simp: closed_family_def finite_mode)
    next
      case Assess
      then have "do_assess now u g = Inr h" "status h \<notin> TERMINAL" using h(2) st False by (auto simp: TERMINAL_def)
      then show ?thesis using assess_review h' m by (auto simp: closed_family_def)
    qed (use st False h' assms(3) in \<open>auto simp: closed_family_def TERMINAL_def\<close>)
  qed
qed

section \<open>Commands\<close>

lemma before_transition_frame:
  assumes "before_transition clk excluded operator actor gid k u s = Inr t"
  shows "goals_tbl t = goals_tbl s" "others t = others s"
    "gu_action u = CompleteAction \<Longrightarrow> \<not> outstanding_child gid s"
  using assms
  by (auto simp: before_transition_def reconcile_family_def Let_def others_def split: if_splits)

lemma edit_links_frame:
  assumes "edit_links env k u s = Inr t"
  shows "goals_tbl t = goals_tbl s" "others t = others s"
  using assms by (auto simp: edit_links_def others_def split: option.splits if_splits)

lemma quiet_tables: "goals_tbl t = goals_tbl s \<Longrightarrow> others t = others s \<Longrightarrow> quiet s t"
  by (simp add: quiet_def core_def goal_at_def fun_eq_iff)

lemma goal_at_tables: "goals_tbl t = goals_tbl s \<Longrightarrow> goal_at t k = goal_at s k"
  by (simp add: goal_at_def)

text \<open>The store adds to the new document of a transition only evidence stamps and its own keys.\<close>

definition alike :: "goal \<Rightarrow> goal \<Rightarrow> bool" where
  "alike g h = (same_goal g h \<and> status h = status g \<and> mode h = mode g \<and> spent h = spent g \<and> kind h = kind g)"

lemma stamp_alike: "stamp_evidence env s u prior g = Inr h \<Longrightarrow> alike g h"
  by (auto simp: stamp_evidence_def alike_def intro!: same_goalI)

lemma alike_block: "alike g h \<Longrightarrow> alike g (h\<lparr>last_block_attempt := v\<rparr>)"
  by (simp add: alike_def same_goal_def)

lemma alike_refl [simp]: "alike g g"
  by (simp add: alike_def)

lemma after_transition_alike:
  assumes "after_transition env bound gid u prior g s = Inr (Some h)"
  shows "alike g h"
proof -
  from assms obtain g1 where g1: "(if gu_action u = EvidenceAction then stamp_evidence env s u prior g else Inr g) = Inr g1"
    and h: "h = g1 \<or> (\<exists>a. h = g1\<lparr>last_block_attempt := a\<rparr>)"
    unfolding after_transition_def bind_result_Inr
    by (auto split: option.splits if_splits prod.splits)
  have "alike g g1" using g1 stamp_alike by (auto split: if_splits)
  then show ?thesis using h alike_block by blast
qed

lemma same_goal_trans_alike: "same_goal g h \<Longrightarrow> alike h k \<Longrightarrow> same_goal g k"
  by (auto simp: same_goal_def alike_def)

lemma alike_closed: "alike g h \<Longrightarrow> closed_family h = closed_family g"
  by (simp add: alike_def closed_family_def)

lemma requeued_benign:
  assumes "status p \<notin> INACTIVE"
  shows "benign p (requeued now action p)" "spent (requeued now action p) = spent p"
  using assms by (auto simp: benign_def requeued_def closed_family_def TERMINAL_def INACTIVE_def intro!: same_goalI)

lemma tell_parent_keeps:
  assumes s: "keeps env X s" and t: "tell_parent env clk note g s = Inr t"
  shows "keeps env X t \<and> quiet s t"
proof (cases "t = s")
  case False
  from t False obtain p q where p: "goal_locked env p s = Inr q" "status q \<notin> INACTIVE"
    and t': "t = goal_journal (db_now clk) (requeued (py_now clk) (child_change_text g note) q) ChildChanged ''engine''
      (save (requeued (py_now clk) (child_change_text g note) q) s)"
    by (auto simp: tell_parent_def Let_def split: option.splits if_splits)
  obtain r where r: "goal_at s (goal_id q) = Some r" "g_doc r = q"
    using locked_row [OF keeps_rows [OF s] p(1)] by metis
  show ?thesis unfolding t' using write_once [OF s r requeued_benign [OF p(2)]] by simp
qed (use s in simp)

lemma docs_rows:
  assumes "rows_ok env s" "c \<in> set (docs P s)"
  shows "\<exists>r. goal_at s (goal_id c) = Some r \<and> g_doc r = c"
  using assms docs_mem by blast

lemma resume_children_keeps:
  assumes s: "keeps env X s"
  shows "keeps env X (resume_children clk gid actor s) \<and> quiet s (resume_children clk gid actor s)"
  unfolding resume_children_def
proof (rule write_loop_keeps [OF s docs_distinct [OF keeps_rows [OF s]] docs_rows [OF keeps_rows [OF s]]])
  fix c assume c: "c \<in> set (docs (\<lambda>r. paused_by_parent (g_doc r) = Some gid) s)" "status c = Paused"
  then obtain r where r: "goal_at s (goal_id c) = Some r" "g_doc r = c" "paused_by_parent c = Some gid"
    using docs_mem [OF keeps_rows [OF s]] by auto
  then have "parent_goal_id c = Some gid" using rows_okD [OF keeps_rows [OF s] r(1)] by (simp add: row_ok_def)
  then show "benign c (restored c) \<and> spent (restored c) = spent c"
    using c(2) by (auto simp: benign_def restored_def same_goal_def TERMINAL_def)
qed

lemma stop_children_keeps:
  assumes s: "keeps env X s" and a: "(a, st) \<in> {(Pause, Paused), (Cancel, Canceled)}"
  shows "keeps env X (stop_children clk a st gid actor s) \<and> quiet s (stop_children clk a st gid actor s)"
  unfolding stop_children_def
proof (rule write_loop_keeps [OF s docs_distinct [OF keeps_rows [OF s]] docs_rows [OF keeps_rows [OF s]]])
  fix c assume c: "c \<in> set (docs (\<lambda>r. parent_goal_id (g_doc r) = Some gid) s)" "status c \<notin> TERMINAL"
  then have "parent_goal_id c = Some gid" using docs_mem [OF keeps_rows [OF s]] by auto
  then show "benign c (stopped a st gid c) \<and> spent (stopped a st gid c) = spent c"
    using c(2) a by (auto simp: benign_def stopped_def same_goal_def TERMINAL_def Let_def)
qed

text \<open>Every open child of a stopped goal takes the goal's new status.\<close>

lemma stop_children_row:
  assumes s: "rows_ok env s" and r: "goal_at s k = Some r" "parent_goal_id (g_doc r) = Some gid"
  shows "goal_at (stop_children clk a st gid actor s) k =
    Some (if status (g_doc r) \<in> TERMINAL then r else row_of (stopped a st gid (g_doc r)) r)"
proof -
  let ?cs = "docs (\<lambda>r. parent_goal_id (g_doc r) = Some gid) s"
  have id: "goal_id (g_doc r) = k" using rows_ok_keys [OF s r(1)] by simp
  have ids: "goal_id (stopped a st gid d) = goal_id d" for d by (simp add: stopped_def Let_def)
  have mem: "g_doc r \<in> set ?cs" using docs_mem [OF s] r id by auto
  show ?thesis
  proof (cases "status (g_doc r) \<in> TERMINAL")
    case True
    have "goal_at (stop_children clk a st gid actor s) k = goal_at s k"
      unfolding stop_children_def
    proof (rule write_loop_other)
      fix c assume c: "c \<in> set ?cs" "status c \<notin> TERMINAL"
      then obtain q where "goal_at s (goal_id c) = Some q" "g_doc q = c" using docs_mem [OF s] by blast
      then have "goal_id c \<noteq> k" using r True c(2) by auto
      then show "goal_id (stopped a st gid c) \<noteq> k" using ids by simp
    qed
    then show ?thesis using True r by simp
  next
    case False
    have "goal_at (stop_children clk a st gid actor s) (goal_id (g_doc r)) =
        map_option (row_of (stopped a st gid (g_doc r))) (goal_at s (goal_id (g_doc r)))"
      unfolding stop_children_def
      by (rule write_loop_row [where f = "stopped a st gid" and Q = "\<lambda>c. status c \<notin> TERMINAL",
            OF docs_distinct [OF s] mem False ids])
    then show ?thesis using False r id by simp
  qed
qed

lemma goal_at_new:
  "goal_at (s\<lparr>goals_tbl := goals_tbl s @ [(i, r)]\<rparr>) k =
     (case goal_at s k of None \<Rightarrow> if k = i then Some r else None | Some q \<Rightarrow> Some q)"
  by (simp add: goal_at_def map_add_def split: option.splits)

lemma outstanding_done:
  assumes s: "rows_ok env s" and o: "\<not> outstanding_child gid s"
  shows "children_done s gid"
  unfolding children_done_def
proof (intro allI impI, rule ccontr)
  fix k r assume r: "goal_at s k = Some r" "parent_goal_id (g_doc r) = Some gid" "status (g_doc r) \<notin> TERMINAL"
  then have "g_doc r \<in> set (docs (\<lambda>r. parent_goal_id (g_doc r) = Some gid \<and> g_status r \<notin> TERMINAL) s)"
    using docs_mem [OF s] rows_ok_keys [OF s r(1)] by auto
  then show False using o by (auto simp: outstanding_child_def)
qed

text \<open>
  The main write of an update, with the canceled goal's family exempt until the loop ends. The
  families of \<open>X\<close> are exempt throughout.
\<close>

definition exempt :: "string set \<Rightarrow> goal_action \<Rightarrow> string \<Rightarrow> string set" where
  "exempt X a k = (if a = Cancel then insert k X else X)"

lemma transition_status:
  assumes "transition now operator u g = Inr g'"
  shows "gu_action u = Pause \<Longrightarrow> status g' = Paused" "gu_action u = Cancel \<Longrightarrow> status g' = Canceled"
  using assms unfolding goal_transition_Inr by auto

lemma update_write:
  assumes s: "keeps env X s" and r: "goal_at s k = Some r"
    and g: "transition now operator u (g_doc r) = Inr g" and h: "alike g h"
    and fin: "gu_action u = CompleteAction \<Longrightarrow> k \<notin> X \<Longrightarrow> children_done s k"
  shows "keeps env (exempt X (gu_action u) k) (save h s) \<and> quiet s (save h s)"
proof -
  note ok = keeps_rows [OF s]
  note tr = transition_same [OF g]
  have same: "same_goal (g_doc r) h" using tr h same_goal_trans_alike by blast
  have id: "goal_id h = k" using same rows_ok_keys [OF ok r] by (simp add: same_goal_def)
  have r': "goal_at s (goal_id h) = Some r" using r id by simp
  have "settled_but (exempt X (gu_action u) k) s" using s by (auto simp: keeps_def settled_but_def exempt_def)
  then have "settled_but (exempt X (gu_action u) k) (save h s)"
  proof (rule save_settled [OF ok r' same, rotated 2])
    show "status (g_doc r) \<in> TERMINAL \<longrightarrow> status h \<in> TERMINAL" using tr by blast
    assume c: "closed_family h" "goal_id h \<notin> exempt X (gu_action u) k"
    then have "closed_family g" using h alike_closed by blast
    show "closed_family (g_doc r) \<or> parent_goal_id (g_doc r) \<noteq> None \<or> children_done s (goal_id h)"
    proof (cases "gu_action u = CompleteAction")
      case True
      then show ?thesis using fin id c(2) by (simp add: exempt_def)
    next
      case False
      then have "gu_action u \<notin> {CompleteAction, Cancel}" using c(2) id by (auto simp: exempt_def)
      then show ?thesis using transition_closed [OF g \<open>closed_family g\<close>] by blast
    qed
  qed
  moreover have "rows_ok env (save h s)" by (rule save_goal_rows [OF ok r' same])
  moreover have "quiet s (save h s)"
    by (rule save_quiet [OF r' same]) (use tr h in \<open>simp add: alike_def\<close>)
  ultimately show ?thesis by (simp add: keeps_def)
qed

lemma keeps_drop:
  assumes "keeps env (insert k X) s" "k \<notin> X \<Longrightarrow> children_done s k"
  shows "keeps env X s"
  using assms by (auto simp: keeps_def settled_but_def)

lemma stop_children_done:
  assumes s: "rows_ok env s"
    and t: "quiet s (stop_children clk Cancel Canceled gid actor s)"
  shows "children_done (stop_children clk Cancel Canceled gid actor s) gid"
  unfolding children_done_def
proof (intro allI impI)
  fix k r assume r: "goal_at (stop_children clk Cancel Canceled gid actor s) k = Some r"
    "parent_goal_id (g_doc r) = Some gid"
  obtain q where q: "goal_at s k = Some q" "parent_goal_id (g_doc q) = Some gid"
    using quiet_row [OF t r(1)] r(2) by metis
  from stop_children_row [OF s q, of clk Cancel Canceled actor] r(1)
  show "status (g_doc r) \<in> TERMINAL" by (auto simp: stopped_def TERMINAL_def split: if_splits)
qed

lemma commit_update_keeps:
  assumes s: "keeps env X s" and r: "goal_at s k = Some r" and k: "k = gid \<or> k \<in> X"
    and g: "transition now operator u (g_doc r) = Inr g" and h: "alike g h"
    and fin: "gu_action u = CompleteAction \<Longrightarrow> k \<notin> X \<Longrightarrow> children_done s k"
    and t: "commit_update env clk actor gid u (g_doc r) h s = Inr t"
  shows "keeps env X t \<and> quiet s t"
proof -
  let ?X = "exempt X (gu_action u) k"
  define s2 where "s2 = (if kind (g_doc r) \<noteq> kind h
     then goal_journal (db_now clk) h Promoted ''engine'' (goal_journal (db_now clk) h (Did (gu_action u)) actor (save h s))
     else goal_journal (db_now clk) h (Did (gu_action u)) actor (save h s))"
  have s2: "keeps env ?X s2" "quiet s s2"
    using update_write [OF s r g h fin] by (simp_all add: s2_def)
  obtain s3 where s3: "tell_parent env clk (gu_note u) h s2 = Inr s3" and
    t': "t = (if gu_action u = Resume then resume_children clk gid actor s3
       else if gu_action u \<in> {Pause, Cancel} then stop_children clk (gu_action u) (status h) gid actor s3 else s3)"
    using t by (auto simp: commit_update_def s2_def Let_def)
  have k3: "keeps env ?X s3" "quiet s s3"
    using tell_parent_keeps [OF s2(1) s3] s2(2) quiet_trans by blast+
  have st: "gu_action u = Pause \<Longrightarrow> status h = Paused" "gu_action u = Cancel \<Longrightarrow> status h = Canceled"
    using transition_status [OF g] h by (simp_all add: alike_def)
  consider "gu_action u = Resume" | "gu_action u = Pause" | "gu_action u = Cancel"
    | "gu_action u \<notin> {Resume, Pause, Cancel}" by blast
  then show ?thesis
  proof cases
    case 1
    then show ?thesis using resume_children_keeps [OF k3(1)] quiet_trans [OF k3(2)] t'
      by (auto simp: exempt_def)
  next
    case 2
    then show ?thesis using stop_children_keeps [OF k3(1), of Pause Paused] quiet_trans [OF k3(2)] t' st
      by (auto simp: exempt_def)
  next
    case 3
    note c = stop_children_keeps [OF k3(1), of Cancel Canceled clk gid actor]
    have "keeps env X (stop_children clk Cancel Canceled gid actor s3)"
      by (rule keeps_drop [of env k])
        (use c 3 k stop_children_done [OF keeps_rows [OF k3(1)]] in \<open>auto simp: exempt_def\<close>)
    then show ?thesis using c quiet_trans [OF k3(2)] t' st 3 by auto
  next
    case 4
    then show ?thesis using k3 t' by (auto simp: exempt_def)
  qed
qed

lemma update_in_keeps:
  assumes s: "keeps env X s" and gid: "\<And>k. parse_uuid env gid = Some k \<Longrightarrow> k = gid \<or> k \<in> X"
    and t: "update_in env clk bound excluded operator actor gid u s = Inr (g, t)"
  shows "keeps env X t \<and> quiet s t"
proof -
  from t obtain k r s1 g0 d where pk: "parse_uuid env gid = Some k" and r: "goal_at s k = Some r"
    and s1: "before_transition clk excluded operator actor gid (goal_id (g_doc r)) u s = Inr s1"
    and g0: "transition (py_now clk) operator u (g_doc r) = Inr g0"
    and d: "after_transition env bound gid u (g_doc r) g0 s1 = Inr d"
    and rest: "(case d of None \<Rightarrow> Inr (g_doc r, s1)
       | Some g1 \<Rightarrow> bind_result (edit_links env (goal_id (g_doc r)) u s1) (\<lambda>s2.
           map_sum id (Pair g1) (commit_update env clk actor gid u (g_doc r) g1 s2))) = Inr (g, t)"
    by (auto simp: update_in_def goal_locked_Inr)
  note b = before_transition_frame [OF s1]
  have k1: "keeps env X s1" "quiet s s1" by (rule keeps_same_rows [OF s b(1)], rule quiet_tables [OF b(1,2)])
  note k = gid [OF pk]
  have fin: "children_done s k" if "gu_action u = CompleteAction" "k \<notin> X"
    using outstanding_done [OF keeps_rows [OF s]] b(3) that k by blast
  show ?thesis
  proof (cases d)
    case None
    then show ?thesis using rest k1 by simp
  next
    case (Some g1)
    with rest obtain s2 t' where s2: "edit_links env (goal_id (g_doc r)) u s1 = Inr s2"
      and c: "commit_update env clk actor gid u (g_doc r) g1 s2 = Inr t" by auto
    note e = edit_links_frame [OF s2]
    have k2: "keeps env X s2" "quiet s s2"
      by (rule keeps_same_rows [OF k1(1) e(1)], rule quiet_trans [OF k1(2) quiet_tables [OF e(1,2)]])
    have eq: "goal_at s2 j = goal_at s j" for j
      using goal_at_tables [OF e(1)] goal_at_tables [OF b(1)] by simp
    have fin2: "children_done s2 k" if "gu_action u = CompleteAction" "k \<notin> X"
      using fin [OF that] by (simp add: children_done_def eq)
    then have "keeps env X t \<and> quiet s2 t"
      using commit_update_keeps [OF k2(1) _ k g0 _ fin2 c] after_transition_alike [of env bound gid u "g_doc r" g0 s1 g1]
        d Some r eq by simp
    then show ?thesis using quiet_trans [OF k2(2)] by blast
  qed
qed

section \<open>Creation\<close>

lemma CreateGoal_parent:
  assumes "CreateGoal uuid raw = Inr spec"
  shows "cg_parent_goal_id spec = Option.bind (cg_parent_goal_id raw) uuid"
  using assms unfolding CreateGoal_def guard_Inr Let_def
  by (simp split: if_splits) clarsimp

lemma spec_parent_canonical:
  assumes c: "canonical env" and raw: "CreateGoal (parse_uuid env) raw = Inr spec"
  shows "spec_parent spec = cg_parent_goal_id spec" "spec_parent spec = Some p \<Longrightarrow> parse_uuid env p = Some p"
proof -
  have *: "p \<noteq> [] \<and> parse_uuid env p = Some p" if "cg_parent_goal_id spec = Some p" for p
    using CreateGoal_parent [OF raw] that c unfolding canonical_def by (cases "cg_parent_goal_id raw") auto
  then show "spec_parent spec = cg_parent_goal_id spec" by (auto simp: spec_parent_def split: option.split)
  then show "spec_parent spec = Some p \<Longrightarrow> parse_uuid env p = Some p" using * by simp
qed

definition fresh_goal :: "gstore \<Rightarrow> goal \<Rightarrow> bool" where
  "fresh_goal s g =
     (goal_at s (goal_id g) = None \<and> status g = Queued \<and> paused_by_parent g = None \<and> tokens_used g = 0 \<and>
      (\<forall>p. parent_goal_id g = Some p \<longrightarrow> kind g = Short \<and> p \<noteq> [] \<and>
         (\<exists>q. goal_at s p = Some q \<and> kind (g_doc q) = Long \<and> status (g_doc q) \<notin> INACTIVE)))"

lemma insert_keeps:
  assumes s: "keeps env X s" and g: "fresh_goal s g" and id: "parse_uuid env (goal_id g) = Some (goal_id g)"
    and t: "insert_goal now g s = Inr t"
  shows "keeps env X t"
proof -
  note ok = keeps_rows [OF s]
  define r where "r = \<lparr>g_doc = g, g_status = status g, g_ready = now, g_priority = priority g, g_lease = None\<rparr>"
  have t': "t = s\<lparr>goals_tbl := goals_tbl s @ [(goal_id g, r)]\<rparr>"
    using t by (auto simp: insert_goal_def r_def split: if_splits)
  have at: "goal_at t k = (if k = goal_id g then Some r else goal_at s k)" for k
    using g by (auto simp: t' goal_at_new fresh_goal_def split: option.splits)
  have keep: "goal_at t k = Some q" if "goal_at s k = Some q" for k q
    using that g by (auto simp: at fresh_goal_def)
  have "goal_at s (goal_id g) = None" using g by (simp add: fresh_goal_def)
  then have "dict_ok (goals_tbl t)" using ok
    by (auto simp: t' rows_ok_def dict_ok_def goal_at_def map_of_eq_None_iff)
  moreover have "row_ok env t k q" if q: "goal_at t k = Some q" for k q
  proof (cases "k = goal_id g")
    case True
    then have "q = r" using q at by simp
    moreover have "\<exists>q. goal_at t p = Some q \<and> kind (g_doc q) = Long \<and> parent_goal_id (g_doc q) = None"
      if p: "parent_goal_id g = Some p" for p
    proof -
      obtain q where q: "goal_at s p = Some q" "kind (g_doc q) = Long"
        using g p by (auto simp: fresh_goal_def)
      then have "parent_goal_id (g_doc q) = None"
        using rows_okD [OF ok q(1)] by (cases "parent_goal_id (g_doc q)") (auto simp: row_ok_def)
      then show ?thesis using q keep by blast
    qed
    ultimately show ?thesis using g id True by (auto simp: row_ok_def r_def fresh_goal_def)
  next
    case False
    then have "goal_at s k = Some q" using q at by simp
    then show ?thesis using row_ok_mono [OF rows_okD [OF ok]] keep by blast
  qed
  moreover have "children_done t p" if q: "goal_at t p = Some q" "closed_family (g_doc q)" "p \<notin> X" for p q
  proof -
    have "p \<noteq> goal_id g" using q g at by (auto simp: r_def fresh_goal_def closed_family_def TERMINAL_def)
    then have p: "goal_at s p = Some q" using q at by simp
    then have "children_done s p" using s q(2,3) by (auto simp: keeps_def settled_but_def)
    moreover have "parent_goal_id g \<noteq> Some p"
      using g p q(2) by (auto simp: fresh_goal_def closed_family_def INACTIVE_def)
    ultimately show ?thesis by (auto simp: children_done_def at r_def)
  qed
  ultimately show ?thesis by (simp add: keeps_def rows_ok_def settled_but_def)
qed

lemma goal_with_key_row:
  assumes "rows_ok env s" "goal_with_key k s = Some g"
  shows "\<exists>r. goal_at s (goal_id g) = Some r \<and> g_doc r = g" "request_key g = Some k"
proof -
  from assms(2) have "g \<in> set (docs (\<lambda>_. True) s) \<and> request_key g = Some k"
    by (auto simp: goal_with_key_def docs_def find_Some_iff)
  then show "\<exists>r. goal_at s (goal_id g) = Some r \<and> g_doc r = g" "request_key g = Some k"
    using docs_mem [OF assms(1)] by auto
qed

text \<open>Either the goal was there, or it is a fresh one.\<close>

lemma create_in_cases:
  assumes s: "keeps env X s" and c: "canonical env" and raw: "CreateGoal (parse_uuid env) raw = Inr spec"
    and t: "create_in env clk new spec actor s = Inr (g, t)"
  shows "(t = s \<and> (\<exists>r k. goal_at s (goal_id g) = Some r \<and> g_doc r = g \<and> request_key g = Some k)) \<or>
    (goal_id g = new \<and> fresh_goal s g \<and>
     (\<exists>t'. insert_goal (db_now clk) g s = Inr t' \<and> t = goal_journal (db_now clk) g Created actor t'))"
proof -
  note ok = keeps_rows [OF s]
  from t obtain parent where parent: "(case spec_parent spec of None \<Rightarrow> Inr None
       | Some p \<Rightarrow> map_sum id Some (goal_locked env p s)) = Inr parent"
    and rest: "(let key = effective_key env spec parent in
          case (case key of Some (c # cs) \<Rightarrow> goal_with_key (c # cs) s | _ \<Rightarrow> None) of
            Some g \<Rightarrow> Inr (g, s)
          | None \<Rightarrow>
              (case parent of
                 None \<Rightarrow> insert_new clk new key spec actor s
               | Some p \<Rightarrow>
                   guard (kind p = Long \<and> status p \<notin> INACTIVE \<and> cg_kind spec = Short) ValueError
                     (insert_new clk new key spec actor s))) = Inr (g, t)"
    unfolding create_in_def bind_result_Inr by blast
  let ?old = "case effective_key env spec parent of Some (c # cs) \<Rightarrow> goal_with_key (c # cs) s | _ \<Rightarrow> None"
  show ?thesis
  proof (cases ?old)
    case (Some h)
    then have "t = s" "g = h" using rest by (simp_all add: Let_def)
    moreover obtain k where "goal_with_key k s = Some h" using Some by (auto split: option.splits list.splits)
    ultimately show ?thesis using goal_with_key_row [OF ok] by blast
  next
    case None
    define h where "h = (new_goal new (py_now clk) spec actor)\<lparr>request_key := effective_key env spec parent\<rparr>"
    have ins: "insert_new clk new (effective_key env spec parent) spec actor s = Inr (g, t)"
      and par: "parent = None \<or> (\<exists>p. parent = Some p \<and> kind p = Long \<and> status p \<notin> INACTIVE \<and> cg_kind spec = Short)"
      using rest None by (auto simp: Let_def split: option.splits)
    from ins obtain t' where t': "insert_goal (db_now clk) h s = Inr t'" "g = h"
      "t = goal_journal (db_now clk) h Created actor t'"
      by (auto simp: insert_new_def Let_def h_def)
    have h: "goal_id h = new" "status h = Queued" "paused_by_parent h = None" "tokens_used h = 0"
      "parent_goal_id h = cg_parent_goal_id spec" "kind h = cg_kind spec"
      by (simp_all add: h_def new_goal_def)
    have "goal_at s new = None" using t'(1) h(1) by (auto simp: insert_goal_def split: if_splits)
    moreover have "kind h = Short \<and> p \<noteq> [] \<and> (\<exists>q. goal_at s p = Some q \<and> kind (g_doc q) = Long \<and> status (g_doc q) \<notin> INACTIVE)"
      if p: "parent_goal_id h = Some p" for p
    proof -
      have sp: "spec_parent spec = Some p" using p h(5) spec_parent_canonical(1) [OF c raw] by simp
      then have cp: "parse_uuid env p = Some p" using spec_parent_canonical(2) [OF c raw] by blast
      then have "p \<noteq> []" using c by (auto simp: canonical_def)
      moreover obtain q where "parent = Some (g_doc q)" "goal_at s p = Some q"
        using parent sp cp by (auto simp: goal_locked_Inr)
      ultimately show ?thesis using par h(6) by auto
    qed
    ultimately have "fresh_goal s h" using h by (simp add: fresh_goal_def)
    then show ?thesis using t' h(1) by blast
  qed
qed

lemma create_goal_cmd_cases:
  assumes "keeps env X s" "canonical env" "create_goal_cmd env clk new raw actor s = Inr (g, t)"
  obtains "t = s" "\<exists>r k. goal_at s (goal_id g) = Some r \<and> g_doc r = g \<and> request_key g = Some k"
  | t' where "goal_id g = new" "fresh_goal s g" "insert_goal (db_now clk) g s = Inr t'"
      "t = goal_journal (db_now clk) g Created actor t'"
  using assms create_in_cases [OF assms(1,2)] unfolding create_goal_cmd_def bind_result_Inr by blast

lemma insert_row:
  assumes "insert_goal now g s = Inr t"
  shows "goal_at t (goal_id g) = Some \<lparr>g_doc = g, g_status = status g, g_ready = now, g_priority = priority g, g_lease = None\<rparr>"
    "k \<noteq> goal_id g \<Longrightarrow> goal_at t k = goal_at s k" "others t = others s" "goal_at s (goal_id g) = None"
  using assms by (auto simp: insert_goal_def goal_at_new others_def split: if_splits option.splits)

lemma create_goal_cmd_keeps:
  assumes "keeps env X s" "canonical env" "parse_uuid env new = Some new"
    and "create_goal_cmd env clk new raw actor s = Inr (g, t)"
  shows "keeps env X t" "\<exists>r. goal_at t (goal_id g) = Some r \<and> g_doc r = g"
  using assms(1,2,4)
  by (rule create_goal_cmd_cases; use assms insert_keeps insert_row(1) in force)+

lemma adopt_keeps:
  assumes "keeps env X s" "canonical env" "parse_uuid env new = Some new"
    and t: "adopt env clk new tasks task actor s = Inr (g, t)"
  shows "\<exists>g0 t0. create_goal_cmd env clk new (legacy_spec task (the (tasks task))) actor s = Inr (g0, t0) \<and>
    keeps env X t \<and> quiet t0 t"
proof -
  obtain lt where lt: "tasks task = Some lt" using t by (auto simp: adopt_def split: option.splits)
  obtain g0 t0 where c: "create_goal_cmd env clk new (legacy_spec task lt) actor s = Inr (g0, t0)"
    and tt: "t = t0 \<or> t = goal_journal (db_now clk) (g0\<lparr>legacy_task_id := Some task\<rparr>) Adopted actor
      (save (g0\<lparr>legacy_task_id := Some task\<rparr>) t0)"
  proof -
    from t lt obtain a b where ab: "create_goal_cmd env clk new (legacy_spec task lt) actor s = Inr (a, b)"
      and "(case legacy_task_id a of Some (c # cs) \<Rightarrow> Inr (a, b)
            | _ \<Rightarrow> (let g' = a\<lparr>legacy_task_id := Some task\<rparr> in
                Inr (g', goal_journal (db_now clk) g' Adopted actor (save g' b)))) = (Inr (g, t) :: (goal \<times> gstore) result)"
      by (auto simp: adopt_def)
    then have "t = b \<or> t = goal_journal (db_now clk) (a\<lparr>legacy_task_id := Some task\<rparr>) Adopted actor
      (save (a\<lparr>legacy_task_id := Some task\<rparr>) b)"
      by (cases "legacy_task_id a"; cases "the (legacy_task_id a)") (auto simp: Let_def)
    with ab that show ?thesis by blast
  qed
  note k = create_goal_cmd_keeps [OF assms(1-3) c]
  obtain r where r: "goal_at t0 (goal_id g0) = Some r" "g_doc r = g0" using k(2) by blast
  have b: "benign g0 (g0\<lparr>legacy_task_id := Some task\<rparr>)"
    by (simp add: benign_def same_goal_def closed_family_def)
  have "keeps env X t \<and> quiet t0 t"
    using tt k(1) write_once [OF k(1) r b] by auto
  then show ?thesis using c lt by auto
qed

end
