(* ===== verification/Goal_Accounts.thy ===== *)
theory Goal_Accounts
  imports Goal_Family
begin

text \<open>
  The books of the goal store: one lease at a time, held by the one running attempt; every goal
  has used what the closed attempts of itself and its children cost; a running attempt is
  charged at least what its requests reserved.
\<close>

section \<open>The books\<close>

definition holder :: "gstore \<Rightarrow> string \<Rightarrow> string option" where
  "holder s k = map_option fst (Option.bind (goal_at s k) g_lease)"

definition par_at :: "gstore \<Rightarrow> string \<Rightarrow> string option" where
  "par_at s k = Option.bind (goal_at s k) (\<lambda>r. parent_goal_id (g_doc r))"

definition used_at :: "gstore \<Rightarrow> string \<Rightarrow> int option" where
  "used_at s k = map_option (\<lambda>r. tokens_used (g_doc r)) (goal_at s k)"

definition lease_ok :: "gstore \<Rightarrow> bool" where
  "lease_ok s =
     (dict_ok (attempts_tbl s) \<and>
      (\<forall>k a. holder s k = Some a \<longrightarrow> (\<exists>w. running_usage a s = Some w \<and> at_goal w = k)) \<and>
      (\<forall>a w. running_usage a s = Some w \<longrightarrow> holder s (at_goal w) = Some a) \<and>
      (\<forall>j k. holder s j \<noteq> None \<longrightarrow> holder s k \<noteq> None \<longrightarrow> j = k) \<and>
      (\<forall>a w. dict_get (attempts_tbl s) a = Some w \<longrightarrow> used_at s (at_goal w) \<noteq> None))"

text \<open>What a closed attempt costs the goal \<open>k\<close>: its own attempts and those of its children count.\<close>

definition counts :: "(string \<Rightarrow> string option) \<Rightarrow> string \<Rightarrow> attempt_row \<Rightarrow> int" where
  "counts par k w =
     (if at_status w \<noteq> AttemptRunning \<and> (at_goal w = k \<or> par (at_goal w) = Some k)
      then max 0 (at_tokens w) else 0)"

definition closed_tokens :: "gstore \<Rightarrow> string \<Rightarrow> int" where
  "closed_tokens s k = sum_list (map (counts (par_at s) k \<circ> snd) (attempts_tbl s))"

definition tokens_ok :: "gstore \<Rightarrow> bool" where
  "tokens_ok s = (\<forall>k n. used_at s k = Some n \<longrightarrow> n = closed_tokens s k)"

definition charge_of :: "reservation \<Rightarrow> int" where
  "charge_of r = (case rv_actual r of None \<Rightarrow> rv_reserved r | Some n \<Rightarrow> n)"

definition reserved_total :: "string \<Rightarrow> (string \<times> string, reservation) dict \<Rightarrow> int" where
  "reserved_total a rs = sum_list (map (\<lambda>(key, r). if fst key = a then charge_of r else 0) rs)"

definition reservation_ok :: "reservation \<Rightarrow> bool" where
  "reservation_ok r = (0 < rv_reserved r \<and> (\<forall>n. rv_actual r = Some n \<longrightarrow> 0 \<le> n))"

definition ledger_ok :: "gstore \<Rightarrow> bool" where
  "ledger_ok s =
     (dict_ok (reservations_tbl s) \<and>
      (\<forall>a c r. dict_get (reservations_tbl s) (a, c) = Some r \<longrightarrow>
         reservation_ok r \<and> dict_get (attempts_tbl s) a \<noteq> None) \<and>
      (\<forall>a w. running_usage a s = Some w \<longrightarrow>
         reserved_total a (reservations_tbl s) \<le> at_tokens w \<and> 0 \<le> at_tokens w))"

definition books :: "gstore \<Rightarrow> bool" where
  "books s = (lease_ok s \<and> tokens_ok s \<and> ledger_ok s)"

definition pursuit_ok :: "('a pursuit_env_scheme) \<Rightarrow> string set \<Rightarrow> gstore \<Rightarrow> bool" where
  "pursuit_ok env X s = (keeps env X s \<and> books s)"

lemma books_cong:
  assumes "books s" "attempts_tbl t = attempts_tbl s" "reservations_tbl t = reservations_tbl s"
    "holder t = holder s" "par_at t = par_at s" "used_at t = used_at s"
  shows "books t"
proof -
  have "running_usage a t = running_usage a s" "closed_tokens t k = closed_tokens s k" for a k
    using assms by (simp_all add: running_usage_def closed_tokens_def)
  then show ?thesis using assms unfolding books_def lease_ok_def tokens_ok_def ledger_ok_def by simp
qed

lemma core_parts:
  assumes "core t = core s"
  shows "holder t = holder s" "par_at t = par_at s" "used_at t = used_at s"
proof -
  have c: "core t k = core s k" for k using assms by simp
  have "holder t k = holder s k \<and> par_at t k = par_at s k \<and> used_at t k = used_at s k" for k
    using c [of k] by (cases "goal_at t k"; cases "goal_at s k") (auto simp: core_def holder_def par_at_def used_at_def)
  then show "holder t = holder s" "par_at t = par_at s" "used_at t = used_at s" by (simp_all add: fun_eq_iff)
qed

lemma quiet_books: "quiet s t \<Longrightarrow> books s \<Longrightarrow> books t"
  using books_cong [of s t] core_parts [of t s] by (simp add: quiet_def others_def)

lemma quiet_ok: "quiet s t \<Longrightarrow> keeps env X t \<Longrightarrow> pursuit_ok env X s \<Longrightarrow> pursuit_ok env X t"
  by (simp add: pursuit_ok_def quiet_books)

lemma empty_ok: "pursuit_ok env X empty_gstore"
  by (simp add: pursuit_ok_def keeps_def rows_ok_def settled_but_def books_def lease_ok_def tokens_ok_def
      ledger_ok_def empty_gstore_def goal_at_def holder_def used_at_def running_usage_def)

section \<open>Charging an attempt while it runs\<close>

lemma running_put:
  "running_usage a (put_attempt i w s) =
     (if a = i then (if at_status w = AttemptRunning then Some w else None) else running_usage a s)"
  by (simp add: running_usage_def put_attempt_def)

lemma running_get: "running_usage a s = Some w \<Longrightarrow> dict_get (attempts_tbl s) a = Some w \<and> at_status w = AttemptRunning"
  by (auto simp: running_usage_def split: option.splits if_splits)

lemma counts_put:
  fixes f :: "attempt_row \<Rightarrow> int"
  assumes "dict_ok d"
  shows "sum_list (map (f \<circ> snd) (dict_set a w d)) =
    sum_list (map (f \<circ> snd) d) + f w - (case dict_get d a of None \<Rightarrow> 0 | Some v \<Rightarrow> f v)"
  by (rule sum_list_dict_set [OF assms])

lemma retoken_books:
  assumes s: "books s" and w: "running_usage a s = Some w"
    and t: "attempts_tbl t = dict_set a (w\<lparr>at_tokens := n, at_cost := c\<rparr>) (attempts_tbl s)"
    and same: "holder t = holder s" "par_at t = par_at s" "used_at t = used_at s"
    and rs: "dict_ok (reservations_tbl t)"
      "\<And>b d r. dict_get (reservations_tbl t) (b, d) = Some r \<Longrightarrow>
        b = a \<and> reservation_ok r \<or> dict_get (reservations_tbl s) (b, d) = Some r"
      "\<And>b. b \<noteq> a \<Longrightarrow> reserved_total b (reservations_tbl t) = reserved_total b (reservations_tbl s)"
    and n: "reserved_total a (reservations_tbl t) \<le> n" "0 \<le> n"
  shows "books t"
proof -
  note g = running_get [OF w]
  have run: "running_usage b t = (if b = a then Some (w\<lparr>at_tokens := n, at_cost := c\<rparr>) else running_usage b s)" for b
    using g by (auto simp: running_usage_def t)
  have lease: "lease_ok s" "tokens_ok s" "ledger_ok s" using s by (simp_all add: books_def)
  have d: "dict_ok (attempts_tbl s)" using lease(1) by (simp add: lease_ok_def)
  have "lease_ok t"
    using lease(1) w g unfolding lease_ok_def run same by (auto simp: t split: if_splits)
  moreover have "closed_tokens t k = closed_tokens s k" for k
    unfolding closed_tokens_def t counts_put [OF d] same using g by (simp add: counts_def)
  then have "tokens_ok t" using lease(2) by (simp add: tokens_ok_def same)
  moreover have "ledger_ok t"
    unfolding ledger_ok_def run
  proof (intro conjI allI impI)
    fix b d r assume r: "dict_get (reservations_tbl t) (b, d) = Some r"
    show "reservation_ok r" "dict_get (attempts_tbl t) b \<noteq> None"
      using rs(2) [OF r] lease(3) by (auto simp: ledger_ok_def t)
  next
    fix b v assume v: "(if b = a then Some (w\<lparr>at_tokens := n, at_cost := c\<rparr>) else running_usage b s) = Some v"
    show "reserved_total b (reservations_tbl t) \<le> at_tokens v" "0 \<le> at_tokens v"
      using v n rs(3) [of b] lease(3) by (auto simp: ledger_ok_def split: if_splits)
  qed (rule rs(1))
  ultimately show ?thesis by (simp add: books_def)
qed

section \<open>Closing an attempt\<close>

lemma close_books:
  assumes s: "books s" and h: "holder s k = Some a"
    and t: "attempts_tbl t = dict_set a w' (attempts_tbl s)" "reservations_tbl t = reservations_tbl s"
    and w': "at_goal w' = k" "at_status w' \<noteq> AttemptRunning"
    and hold: "\<And>j. holder t j = (if j = k then None else holder s j)"
    and par: "par_at t = par_at s"
    and used: "\<And>j. used_at t j = map_option (\<lambda>m. m + (if j = k \<or> par_at s k = Some j
        then max 0 (at_tokens w') else 0)) (used_at s j)"
  shows "books t"
proof -
  have lease: "lease_ok s" "tokens_ok s" "ledger_ok s" using s by (simp_all add: books_def)
  have d: "dict_ok (attempts_tbl s)" using lease(1) by (simp add: lease_ok_def)
  obtain w where w: "running_usage a s = Some w" "at_goal w = k"
    using lease(1) h unfolding lease_ok_def by blast
  note g = running_get [OF w(1)]
  have run: "running_usage b t = (if b = a then None else running_usage b s)" for b
    using w' by (auto simp: running_usage_def t)
  have known: "used_at t j = None \<longleftrightarrow> used_at s j = None" for j by (simp add: used)
  have "lease_ok t"
    unfolding lease_ok_def
  proof (intro conjI allI impI)
    show "dict_ok (attempts_tbl t)" using d by (simp add: t)
  next
    fix j b assume "holder t j = Some b"
    then have j: "j \<noteq> k" "holder s j = Some b" by (auto simp: hold split: if_splits)
    then have "\<exists>v. running_usage b s = Some v \<and> at_goal v = j" using lease(1) by (simp add: lease_ok_def)
    moreover have "b \<noteq> a" using calculation j w by auto
    ultimately show "\<exists>v. running_usage b t = Some v \<and> at_goal v = j" by (simp add: run)
  next
    fix b v assume "running_usage b t = Some v"
    then have b: "b \<noteq> a" "running_usage b s = Some v" by (auto simp: run split: if_splits)
    then have "holder s (at_goal v) = Some b" using lease(1) by (simp add: lease_ok_def)
    then show "holder t (at_goal v) = Some b" using b h by (auto simp: hold)
  next
    fix i j assume "holder t i \<noteq> None" "holder t j \<noteq> None"
    then show "i = j" using lease(1) by (auto simp: lease_ok_def hold split: if_splits)
  next
    fix b v assume "dict_get (attempts_tbl t) b = Some v"
    then have "at_goal v = k \<or> dict_get (attempts_tbl s) b = Some v" using w' by (auto simp: t split: if_splits)
    moreover have "used_at s k \<noteq> None" using lease(1) g w(2) by (auto simp: lease_ok_def)
    ultimately show "used_at t (at_goal v) \<noteq> None" using lease(1) by (auto simp: known lease_ok_def)
  qed
  moreover have "closed_tokens t j = closed_tokens s j + (if j = k \<or> par_at s k = Some j then max 0 (at_tokens w') else 0)" for j
    unfolding closed_tokens_def t counts_put [OF d] par using g w w' by (simp add: counts_def)
  then have "tokens_ok t" using lease(2) by (auto simp: tokens_ok_def used)
  moreover have "ledger_ok t" using lease(3) by (auto simp: ledger_ok_def run t split: if_splits)
  ultimately show ?thesis by (simp add: books_def)
qed

lemma charged_benign:
  "benign q ((charge n c q)\<lparr>version := v\<rparr>)" "benign q (charge n c q)"
  "tokens_used (charge n c q) = tokens_used q + n"
  by (simp_all add: benign_def charge_def same_goal_def closed_family_def)

lemma charge_parent_frame:
  assumes s: "keeps env X s" and r: "goal_at s k = Some r"
    and t: "charge_parent env n c (g_doc r) s = Inr t"
  shows "keeps env X t" "goal_at t k = Some r" "holder t = holder s" "par_at t = par_at s" "others t = others s"
    "used_at t j = map_option (\<lambda>m. m + (if par_at s k = Some j then n else 0)) (used_at s j)"
proof -
  note ok = keeps_rows [OF s]
  have po: "parent_of (g_doc r) = parent_goal_id (g_doc r)" by (rule parent_of_row [OF ok r])
  have par: "par_at s k = parent_goal_id (g_doc r)" using r by (simp add: par_at_def)
  have main: "keeps env X t \<and> goal_at t k = Some r \<and> holder t = holder s \<and> par_at t = par_at s \<and>
        others t = others s \<and>
        (\<forall>j. used_at t j = map_option (\<lambda>m. m + (if par_at s k = Some j then n else 0)) (used_at s j))"
  proof (cases "parent_goal_id (g_doc r)")
    case None
    then have "t = s" using t po by (simp add: charge_parent_def)
    then show ?thesis using s r par None by (simp add: option.map_ident)
  next
    case (Some p)
    obtain q where q: "goal_at s p = Some q" "p \<noteq> k" using parent_row [OF ok r Some] by metis
    have lock: "goal_locked env p s = Inr (g_doc q)" by (rule locked_known [OF ok q(1)])
    have id: "goal_id (g_doc q) = p" using rows_ok_keys [OF ok q(1)] by simp
    define h where "h = (charge n c (g_doc q))\<lparr>version := version (g_doc q) + 1\<rparr>"
    have t': "t = save h s" using t po Some lock by (simp add: charge_parent_def h_def)
    have b: "benign (g_doc q) h" unfolding h_def by (rule charged_benign)
    have hid: "goal_id h = p" using b id by (simp add: benign_def same_goal_def)
    have "keeps env X t" unfolding t' by (rule save_keeps [OF s, of h q]) (use q hid b in simp_all)
    moreover have "goal_at t j = (if j = p then Some (row_of h q) else goal_at s j)" for j
      using q hid by (simp add: t')
    moreover have "tokens_used h = tokens_used (g_doc q) + n" "parent_goal_id h = parent_goal_id (g_doc q)"
      using b by (simp_all add: h_def charge_def)
    moreover have "others t = others s" by (simp add: t')
    ultimately show ?thesis using q r par Some
      by (auto simp: holder_def par_at_def used_at_def fun_eq_iff option.map_ident split: option.split)
  qed
  then show "keeps env X t" "goal_at t k = Some r" "holder t = holder s" "par_at t = par_at s" "others t = others s"
    "used_at t j = map_option (\<lambda>m. m + (if par_at s k = Some j then n else 0)) (used_at s j)"
    by blast+
qed

text \<open>What a goal has used and what it has cost; a charge to the parent changes nothing else of it.\<close>

definition spent_at :: "gstore \<Rightarrow> string \<Rightarrow> (int \<times> usd) option" where
  "spent_at s k = map_option (\<lambda>r. spent (g_doc r)) (goal_at s k)"

lemma spent_at_save:
  "goal_at s (goal_id g) = Some r \<Longrightarrow> spent_at (save g s) j = (if j = goal_id g then Some (spent g) else spent_at s j)"
  by (simp add: spent_at_def)

lemma spent_at_frames [simp]:
  "spent_at (set_lease k l s) = spent_at s" "spent_at (put_attempt i w s) = spent_at s"
  "spent_at (goal_journal now g a v s) = spent_at s"
proof -
  have "spent_at (set_lease k l s) j = spent_at s j" for j
    by (cases "goal_at s k") (auto simp: spent_at_def)
  then show "spent_at (set_lease k l s) = spent_at s" by blast
  show "spent_at (put_attempt i w s) = spent_at s" "spent_at (goal_journal now g a v s) = spent_at s"
    by (simp_all add: spent_at_def fun_eq_iff)
qed

lemma quiet_spent: "quiet s t \<Longrightarrow> spent_at t = spent_at s"
proof
  fix k assume "quiet s t"
  then have "core t k = core s k" by (simp add: quiet_def)
  then show "spent_at t k = spent_at s k"
    by (cases "goal_at t k"; cases "goal_at s k") (auto simp: core_def spent_at_def)
qed

definition billed :: "int \<Rightarrow> usd \<Rightarrow> int \<times> usd \<Rightarrow> int \<times> usd" where
  "billed n c m = (fst m + n, usd_add (snd m) c)"

lemma charge_parent_spent:
  assumes ok: "rows_ok env s" and r: "goal_at s k = Some r" and t: "charge_parent env n c (g_doc r) s = Inr t"
  shows "spent_at t j = (if par_at s k = Some j then map_option (billed n c) (spent_at s j) else spent_at s j)"
proof (cases "parent_goal_id (g_doc r)")
  case None
  then show ?thesis using t parent_of_row [OF ok r] r by (simp add: charge_parent_def par_at_def)
next
  case (Some p)
  obtain q where q: "goal_at s p = Some q" using parent_row [OF ok r Some] by metis
  have id: "goal_id (g_doc q) = p" using rows_ok_keys [OF ok q] by simp
  have "t = save ((charge n c (g_doc q))\<lparr>version := version (g_doc q) + 1\<rparr>) s"
    using t Some parent_of_row [OF ok r] locked_known [OF ok q] by (simp add: charge_parent_def)
  then show ?thesis using r q id Some by (auto simp: spent_at_def par_at_def charge_def billed_def)
qed

lemma save_parts:
  assumes "goal_at s (goal_id g) = Some r" "same_goal (g_doc r) g"
  shows "holder (save g s) = holder s" "par_at (save g s) = par_at s"
    "used_at (save g s) j = (if j = goal_id g then Some (tokens_used g) else used_at s j)"
  using assms by (auto simp: holder_def par_at_def used_at_def fun_eq_iff same_goal_def)

lemma lease_parts [simp]:
  "holder (set_lease k l s) j = (if j = k \<and> goal_at s k \<noteq> None then map_option fst l else holder s j)"
  "par_at (set_lease k l s) = par_at s" "used_at (set_lease k l s) = used_at s"
proof -
  show "holder (set_lease k l s) j = (if j = k \<and> goal_at s k \<noteq> None then map_option fst l else holder s j)"
    by (cases "goal_at s k") (auto simp: holder_def)
  have "par_at (set_lease k l s) i = par_at s i \<and> used_at (set_lease k l s) i = used_at s i" for i
    by (cases "goal_at s k") (auto simp: par_at_def used_at_def)
  then show "par_at (set_lease k l s) = par_at s" "used_at (set_lease k l s) = used_at s" by auto
qed

lemma put_parts [simp]:
  "holder (put_attempt i w s) = holder s" "par_at (put_attempt i w s) = par_at s" "used_at (put_attempt i w s) = used_at s"
  "holder (goal_journal now g a v s) = holder s" "par_at (goal_journal now g a v s) = par_at s"
  "used_at (goal_journal now g a v s) = used_at s"
  by (simp_all add: holder_def par_at_def used_at_def fun_eq_iff)

lemma close_chain:
  assumes s: "pursuit_ok env X s" and r: "goal_at s k = Some r" and h: "holder s k = Some a"
    and s1: "charge_parent env n c (g_doc r) s = Inr s1"
    and s2: "keeps env X s2" "quiet s1 s2" "goal_at s2 k = Some r"
    and g: "benign (g_doc r) g" "tokens_used g = tokens_used (g_doc r) + n"
    and w: "at_goal w = k" "at_status w \<noteq> AttemptRunning" "max 0 (at_tokens w) = n"
    and t: "t = goal_journal now g act who (put_attempt a w (set_lease k None (save g s2)))"
  shows "pursuit_ok env X t"
proof -
  have ks: "keeps env X s" and bs: "books s" using s by (simp_all add: pursuit_ok_def)
  note c = charge_parent_frame [OF ks r s1]
  have q: "core s2 = core s1" "others s2 = others s1" using s2(2) by (simp_all add: quiet_def)
  note p2 = core_parts [OF q(1)]
  have id: "goal_id g = k" using g(1) rows_ok_keys [OF keeps_rows [OF ks] r] by (simp add: benign_def same_goal_def)
  have r2: "goal_at s2 (goal_id g) = Some r" using s2(3) id by simp
  note sp = save_parts [OF r2 benign_same [OF g(1)]]
  have kt: "keeps env X t" unfolding t by (simp add: save_keeps [OF s2(1) r2 g(1)])
  have parne: "par_at s k \<noteq> Some k" using parent_row [OF keeps_rows [OF ks] r] r by (auto simp: par_at_def)
  have "books t"
  proof (rule close_books [OF bs h, of t w])
    have "others (set_lease k None (save g s2)) = others s" using q(2) c(5) by simp
    then show "attempts_tbl t = dict_set a w (attempts_tbl s)" "reservations_tbl t = reservations_tbl s"
      by (simp_all add: t goal_journal_def put_attempt_def others_def)
    show "holder t j = (if j = k then None else holder s j)" for j
      unfolding t using sp p2 c r2 id by simp
    show "par_at t = par_at s" unfolding t using sp p2 c by simp
    show "used_at t j = map_option (\<lambda>m. m + (if j = k \<or> par_at s k = Some j then max 0 (at_tokens w) else 0)) (used_at s j)" for j
      unfolding t using sp(3) p2 c(6) id g(2) r w(3) parne
      by (auto simp: used_at_def option.map_ident)
  qed (use w in simp_all)
  then show ?thesis using kt by (simp add: pursuit_ok_def)
qed

section \<open>Recovery and waking\<close>

lemma holder_row: "holder s k = Some a \<longleftrightarrow> (\<exists>r u. goal_at s k = Some r \<and> g_lease r = Some (a, u))"
  by (cases "goal_at s k") (auto simp: holder_def)

lemma running_of_holder:
  "books s \<Longrightarrow> holder s k = Some a \<Longrightarrow> \<exists>w. running_usage a s = Some w \<and> at_goal w = k"
  unfolding books_def lease_ok_def by blast

lemma recovered_benign:
  assumes "benign q g" "status g = status q"
  shows "benign q (recovered_doc now g)" "tokens_used (recovered_doc now g) = tokens_used g"
  using assms
  by (auto simp: recovered_doc_def Let_def benign_def same_goal_def closed_family_def INACTIVE_def TERMINAL_def)

lemma recover_one_ok:
  assumes s: "pursuit_ok env X s" and r: "goal_at s k = Some r" "g_lease r = Some (a, u)"
    and t: "recover_one env clk (g_doc r, a) s = Inr t"
  shows "pursuit_ok env X t"
proof -
  have ks: "keeps env X s" and bs: "books s" using s by (simp_all add: pursuit_ok_def)
  have h: "holder s k = Some a" using r by (simp add: holder_row)
  obtain w where w: "running_usage a s = Some w" "at_goal w = k" using running_of_holder [OF bs h] by blast
  have nn: "0 \<le> at_tokens w" using bs w by (auto simp: books_def ledger_ok_def)
  define g where "g = recovered_doc (py_now clk) (charge (at_tokens w) (at_cost w) (g_doc r))"
  from t w obtain s1 where s1: "charge_parent env (at_tokens w) (at_cost w) (g_doc r) s = Inr s1"
    and t': "t = goal_journal (db_now clk) g Recovered ''engine''
      (interrupt_attempt a (set_lease (goal_id g) None (save g s1)))"
    by (auto simp: recover_one_def g_def Let_def)
  note c = charge_parent_frame [OF ks r(1) s1]
  have g: "benign (g_doc r) g" "tokens_used g = tokens_used (g_doc r) + at_tokens w"
    using recovered_benign [of "g_doc r" "charge (at_tokens w) (at_cost w) (g_doc r)" "py_now clk"]
      charged_benign(2) by (simp_all add: g_def charge_def)
  have id: "goal_id g = k" using g(1) rows_ok_keys [OF keeps_rows [OF ks] r(1)] by (simp add: benign_def same_goal_def)
  have "running_usage a (set_lease k None (save g s1)) = Some w"
    using w c(5) others_frames(2) [of g s1] others_frames(3) [of k None "save g s1"]
    by (simp add: running_usage_def others_def)
  then have "t = goal_journal (db_now clk) g Recovered ''engine''
      (put_attempt a (w\<lparr>at_status := AttemptInterrupted\<rparr>) (set_lease k None (save g s1)))"
    unfolding t' id by (simp add: interrupt_attempt_def)
  then show ?thesis
    by (rule close_chain [OF s r(1) h s1 c(1) quiet_refl c(2) g, rotated 3]) (use w nn in simp_all)
qed

lemma lapsed_row:
  assumes s: "rows_ok env s" and x: "x \<in> set (lapsed_rows now s)"
  shows "\<exists>k r a u. goal_at s k = Some r \<and> g_lease r = Some (a, u) \<and> x = (g_doc r, a) \<and> u < now"
proof -
  from x obtain r where r: "r \<in> set (dict_values (goals_tbl s))" "lapsed now r" "x = (g_doc r, fst (the (g_lease r)))"
    by (auto simp: lapsed_rows_def)
  then obtain a u where l: "g_lease r = Some (a, u)" "u < now" by (auto simp: lapsed_def split: option.splits)
  from r(1) obtain k where "(k, r) \<in> set (goals_tbl s)" by auto
  then have "goal_at s k = Some r" using s by (simp add: rows_ok_def dict_ok_def goal_at_def)
  then show ?thesis using r l by auto
qed

lemma lapsed_rows_short:
  assumes s: "pursuit_ok env X s"
  shows "length (lapsed_rows now s) \<le> 1"
proof -
  have ok: "rows_ok env s" and b: "lease_ok s" using s by (simp_all add: pursuit_ok_def keeps_def books_def)
  have d: "distinct (map fst (filter (lapsed now \<circ> snd) (goals_tbl s)))"
    using ok by (simp add: rows_ok_def dict_ok_def distinct_map_filter)
  have len: "length (lapsed_rows now s) = length (map fst (filter (lapsed now \<circ> snd) (goals_tbl s)))"
    by (simp add: lapsed_rows_def filter_map comp_def)
  have one: "k = j" if "k \<in> fst ` set (filter (lapsed now \<circ> snd) (goals_tbl s))"
    "j \<in> fst ` set (filter (lapsed now \<circ> snd) (goals_tbl s))" for k j
  proof -
    have *: "holder s i \<noteq> None" if i: "i \<in> fst ` set (filter (lapsed now \<circ> snd) (goals_tbl s))" for i
    proof -
      from i obtain r where "(i, r) \<in> set (goals_tbl s)" "lapsed now r" by auto
      then have "goal_at s i = Some r" "g_lease r \<noteq> None" using ok
        by (auto simp: rows_ok_def dict_ok_def goal_at_def lapsed_def split: option.splits)
      then show ?thesis by (auto simp: holder_def)
    qed
    show ?thesis using b * [OF that(1)] * [OF that(2)] unfolding lease_ok_def by blast
  qed
  have "card (set (map fst (filter (lapsed now \<circ> snd) (goals_tbl s)))) \<le> Suc 0"
    by (rule card_le_Suc0_iff_eq [THEN iffD2]) (use one in auto)
  then show ?thesis using distinct_card [OF d] len by simp
qed

lemma recover_all_ok:
  assumes s: "pursuit_ok env X s" and t: "fold_result (recover_one env clk) (lapsed_rows now s) s = Inr t"
  shows "pursuit_ok env X t"
proof -
  have ok: "rows_ok env s" using s by (simp add: pursuit_ok_def keeps_def)
  have len: "length (lapsed_rows now s) \<le> 1" by (rule lapsed_rows_short [OF s])
  show ?thesis
  proof (cases "lapsed_rows now s")
    case Nil
    then show ?thesis using s t by simp
  next
    case (Cons x xs)
    then have x: "lapsed_rows now s = [x]" using len by simp
    then obtain k r a u where "goal_at s k = Some r" "g_lease r = Some (a, u)" "x = (g_doc r, a)"
      using lapsed_row [OF ok, of x now] by auto
    then show ?thesis using t x recover_one_ok [OF s] by auto
  qed
qed

lemma wake_one_keeps:
  assumes s: "keeps env X s" and r: "goal_at s (goal_id c) = Some r" "g_doc r = c" and c: "status c \<notin> INACTIVE"
    and t: "wake_one env clk es c s = Inr t"
  shows "keeps env X t \<and> quiet s t \<and> (\<forall>k. k \<noteq> goal_id c \<longrightarrow> goal_at t k = goal_at s k)"
proof -
  have "t = s \<or> (\<exists>n e. t = goal_journal (db_now clk) (requeued n e c) history_action.Wake ''engine'' (save (requeued n e c) s))"
    using t by (auto simp: wake_one_def Let_def split: option.splits)
  then show ?thesis
  proof
    assume "\<exists>n e. t = goal_journal (db_now clk) (requeued n e c) history_action.Wake ''engine'' (save (requeued n e c) s)"
    then obtain n e where "t = goal_journal (db_now clk) (requeued n e c) history_action.Wake ''engine'' (save (requeued n e c) s)"
      by blast
    then show ?thesis using write_once [OF s r requeued_benign [OF c, of n e]] by simp
  qed (use s in simp)
qed

lemma wake_loop_keeps:
  assumes "keeps env X s" "distinct (map goal_id cs)"
    and "\<And>c. c \<in> set cs \<Longrightarrow> \<exists>r. goal_at s (goal_id c) = Some r \<and> g_doc r = c"
    and "\<And>c. c \<in> set cs \<Longrightarrow> status c \<notin> INACTIVE"
    and "fold_result (wake_one env clk es) cs s = Inr t"
  shows "keeps env X t \<and> quiet s t"
  using assms
proof (induction cs arbitrary: s)
  case (Cons c cs)
  obtain s1 where s1: "wake_one env clk es c s = Inr s1" "fold_result (wake_one env clk es) cs s1 = Inr t"
    using Cons.prems(5) by auto
  obtain r where r: "goal_at s (goal_id c) = Some r" "g_doc r = c" using Cons.prems(3) [of c] by auto
  have "status c \<notin> INACTIVE" using Cons.prems(4) by simp
  note k = wake_one_keeps [OF Cons.prems(1) r this s1(1)]
  have ids: "goal_id d \<noteq> goal_id c" if "d \<in> set cs" for d
    using that Cons.prems(2) by (metis distinct.simps(2) image_eqI list.simps(9) set_map)
  have rows: "\<exists>r. goal_at s1 (goal_id d) = Some r \<and> g_doc r = d" if "d \<in> set cs" for d
    using Cons.prems(3) [of d] that k ids [OF that] by simp
  have "keeps env X t \<and> quiet s1 t"
    by (rule Cons.IH) (use k rows Cons.prems(2,4) s1(2) in simp_all)
  then show ?case using k quiet_trans by blast
qed simp

lemma quiet_retire [simp]: "quiet s (retire_events now P t) \<longleftrightarrow> quiet s t"
  by (simp add: quiet_def)

lemma wake_all_keeps:
  assumes s: "keeps env X s" and t: "wake_all env clk s = Inr t"
  shows "keeps env X t \<and> quiet s t"
proof (cases "docs (\<lambda>r. g_status r = Waiting) s = []")
  case True
  then show ?thesis using t s by (auto simp: wake_all_def)
next
  case False
  note ok = keeps_rows [OF s]
  let ?cs = "docs (\<lambda>r. g_status r = Waiting) s"
  obtain u where u: "fold_result (wake_one env clk (pending_events s)) ?cs s = Inr u"
    and t': "t = retire_events (db_now clk) (\<lambda>i. i \<in> fst ` set (pending_events s)) u"
    using t False by (auto simp: wake_all_def Let_def)
  have "status c \<notin> INACTIVE" if "c \<in> set ?cs" for c
  proof -
    from that obtain r where "goal_at s (goal_id c) = Some r" "g_doc r = c" "g_status r = Waiting"
      using docs_mem [OF ok] by auto
    then show ?thesis using rows_ok_keys [OF ok] by (auto simp: INACTIVE_def TERMINAL_def)
  qed
  then have "keeps env X u \<and> quiet s u"
    by (intro wake_loop_keeps [OF s docs_distinct [OF ok] docs_rows [OF ok] _ u])
  then show ?thesis by (simp add: t')
qed

lemma reconcile_ok:
  assumes s: "pursuit_ok env X s" and t: "reconcile env clk s = Inr t"
  shows "pursuit_ok env X t"
proof -
  obtain u where u: "fold_result (recover_one env clk) (lapsed_rows (db_now clk) s) s = Inr u" "wake_all env clk u = Inr t"
    using t by (auto simp: reconcile_def)
  have "pursuit_ok env X u" by (rule recover_all_ok [OF s u(1)])
  then show ?thesis using wake_all_keeps [OF _ u(2)] quiet_ok by (metis pursuit_ok_def)
qed

section \<open>Claiming\<close>

lemma reserved_none: "\<forall>x \<in> set rs. fst (fst x) \<noteq> a \<Longrightarrow> reserved_total a rs = 0"
  by (induction rs) (auto simp: reserved_total_def)

lemma foremost_mem: "foremost env rs = Some r \<Longrightarrow> r \<in> set rs"
  by (induction rs arbitrary: r) (auto split: option.splits if_splits)

lemma foremost_None [simp]: "foremost env rs = None \<longleftrightarrow> rs = []"
  by (cases rs) (auto split: option.splits)

lemma next_ready_row:
  assumes s: "rows_ok env s" and r: "next_ready env now s = Some r"
  shows "goal_at s (goal_id (g_doc r)) = Some r" "claimable now s r" "status (g_doc r) \<in> {Queued, Waiting}"
proof -
  have m: "r \<in> set (filter (claimable now s) (dict_values (goals_tbl s)))"
    using r foremost_mem unfolding next_ready_def by blast
  then show c: "claimable now s r" by simp
  from m obtain k where "(k, r) \<in> set (goals_tbl s)" by auto
  then have k: "goal_at s k = Some r" using s by (simp add: rows_ok_def dict_ok_def goal_at_def)
  then show "goal_at s (goal_id (g_doc r)) = Some r" using rows_ok_keys [OF s] by simp
  show "status (g_doc r) \<in> {Queued, Waiting}" using c rows_ok_keys [OF s k] by (simp add: claimable_def)
qed

lemma block_at_keeps:
  assumes s: "keeps env X s" and r: "next_ready env now s = Some r"
  shows "keeps env X (block_at env clk c (g_doc r) s)" "quiet s (block_at env clk c (g_doc r) s)"
proof -
  note n = next_ready_row [OF keeps_rows [OF s] r]
  have b: "benign (g_doc r) (g_doc r\<lparr>status := Blocked, blocker := x, version := v\<rparr>)" for x v
    using n(3) by (auto simp: benign_def same_goal_def closed_family_def TERMINAL_def)
  show "keeps env X (block_at env clk c (g_doc r) s)" "quiet s (block_at env clk c (g_doc r) s)"
    using write_once [OF s n(1) refl b] by (simp_all add: block_at_def Let_def)
qed

text \<open>
  What the sweep returns is ready, below every ceiling when it was looked at, and its row is the
  one it was read from.
\<close>

lemma sweep_ok:
  assumes "keeps env X s" "sweep env clk n i s = (res, t)"
  shows "keeps env X t \<and> quiet s t \<and>
    (\<forall>g. res = Some g \<longrightarrow> (\<exists>j r. j < i + n \<and> next_ready env (db_tick clk j) t = Some r \<and> g_doc r = g \<and>
       exceeded (py_tick clk j) g = None))"
  using assms
proof (induction n arbitrary: i s)
  case 0
  then show ?case by auto
next
  case (Suc n)
  show ?case
  proof (cases "next_ready env (db_tick clk i) s")
    case None
    then show ?thesis using Suc.prems by auto
  next
    case (Some r)
    show ?thesis
    proof (cases "exceeded (py_tick clk i) (g_doc r)")
      case None
      then show ?thesis using Suc.prems Some by (intro conjI allI impI exI [of _ i] exI [of _ r]) auto
    next
      case (Some c)
      with \<open>next_ready env (db_tick clk i) s = Some r\<close> have
        st: "sweep env clk n (Suc i) (block_at env clk c (g_doc r) s) = (res, t)"
        using Suc.prems(2) by simp
      note b = block_at_keeps [OF Suc.prems(1) \<open>next_ready env (db_tick clk i) s = Some r\<close>, of clk c]
      show ?thesis using Suc.IH [OF b(1) st] quiet_trans [OF b(2)] by auto
    qed
  qed
qed

lemma no_holder:
  assumes "rows_ok env s" "docs (\<lambda>r. g_lease r \<noteq> None) s = []"
  shows "holder s k = None"
proof (rule ccontr)
  assume "holder s k \<noteq> None"
  then obtain r a u where r: "goal_at s k = Some r" "g_lease r = Some (a, u)" by (auto simp: holder_row)
  then have "g_doc r \<in> set (docs (\<lambda>r. g_lease r \<noteq> None) s)"
    using docs_mem [OF assms(1)] rows_ok_keys [OF assms(1) r(1)] by auto
  then show False using assms(2) by simp
qed

lemma dispatch_books:
  assumes s: "books s" and free: "\<And>k. holder s k = None" and k: "used_at s k \<noteq> None"
    and a: "dict_get (attempts_tbl s) a = None"
    and t: "attempts_tbl t = dict_set a (new_attempt k) (attempts_tbl s)" "reservations_tbl t = reservations_tbl s"
    and hold: "\<And>j. holder t j = (if j = k then Some a else None)"
    and same: "par_at t = par_at s" "used_at t = used_at s"
  shows "books t"
proof -
  have b: "lease_ok s" "tokens_ok s" "ledger_ok s" using s by (simp_all add: books_def)
  have d: "dict_ok (attempts_tbl s)" using b(1) by (simp add: lease_ok_def)
  have none: "running_usage j s = None" for j
    using b(1) free unfolding lease_ok_def by (metis option.distinct(1) option.exhaust)
  have run: "running_usage j t = (if j = a then Some (new_attempt k) else None)" for j
    using none [of j] by (simp add: running_usage_def t new_attempt_def)
  have "lease_ok t"
    using b(1) k unfolding lease_ok_def run same hold
    by (auto simp: t new_attempt_def split: if_splits)
  moreover have "closed_tokens t j = closed_tokens s j" for j
    unfolding closed_tokens_def t counts_put [OF d] same using a by (simp add: counts_def new_attempt_def)
  then have "tokens_ok t" using b(2) by (simp add: tokens_ok_def same)
  moreover have "ledger_ok t"
    unfolding ledger_ok_def run
  proof (intro conjI allI impI)
    show "dict_ok (reservations_tbl t)" using b(3) by (simp add: ledger_ok_def t)
  next
    fix i c r assume "dict_get (reservations_tbl t) (i, c) = Some r"
    then show "reservation_ok r" "dict_get (attempts_tbl t) i \<noteq> None"
      using b(3) by (auto simp: ledger_ok_def t)
  next
    fix i v assume "(if i = a then Some (new_attempt k) else None) = Some v"
    then have v: "i = a" "v = new_attempt k" by (auto split: if_splits)
    have "\<forall>x \<in> set (reservations_tbl s). fst (fst x) \<noteq> a"
    proof
      fix x assume x: "x \<in> set (reservations_tbl s)"
      obtain i c r where xi: "x = ((i, c), r)" by (metis surj_pair)
      have "dict_get (reservations_tbl s) (i, c) = Some r"
        using x xi b(3) by (simp add: ledger_ok_def dict_ok_def)
      then have "dict_get (attempts_tbl s) i \<noteq> None" using b(3) unfolding ledger_ok_def by blast
      then show "fst (fst x) \<noteq> a" using a xi by auto
    qed
    then have "reserved_total a (reservations_tbl s) = 0"
      by (rule reserved_none)
    then show "reserved_total i (reservations_tbl t) \<le> at_tokens v" "0 \<le> at_tokens v"
      using v by (simp_all add: t new_attempt_def)
  qed
  ultimately show ?thesis by (simp add: books_def)
qed

lemma dispatch_ok:
  assumes s: "pursuit_ok env X s" and free: "\<And>k. holder s k = None"
    and r: "next_ready env now s = Some r" and t: "dispatch clk a (g_doc r) s = Inr (g, t)"
  shows "pursuit_ok env X t" "g = dispatched (g_doc r)" "dict_get (attempts_tbl s) a = None"
    "goal_at t (goal_id g) = Some ((row_of g r)\<lparr>g_lease := Some (a, db_now clk + LEASE)\<rparr>)"
    "goal_id g = goal_id (g_doc r)" "dict_get (attempts_tbl t) a = Some (new_attempt (goal_id g))"
proof -
  have ks: "keeps env X s" and bs: "books s" using s by (simp_all add: pursuit_ok_def)
  note n = next_ready_row [OF keeps_rows [OF ks] r]
  let ?g = "dispatched (g_doc r)"
  have b: "benign (g_doc r) ?g" "spent ?g = spent (g_doc r)"
    using n(3) by (auto simp: dispatched_def benign_def same_goal_def closed_family_def TERMINAL_def)
  have id: "goal_id ?g = goal_id (g_doc r)" by (simp add: dispatched_def)
  define s1 where "s1 = set_lease (goal_id ?g) (Some (a, db_now clk + LEASE)) (save ?g s)"
  have oth: "others s1 = others s" by (simp add: s1_def)
  then have at1: "attempts_tbl s1 = attempts_tbl s" "reservations_tbl s1 = reservations_tbl s"
    by (simp_all add: others_def)
  have ga: "g = ?g" "dict_get (attempts_tbl s) a = None" "t = goal_journal (db_now clk) ?g Dispatch ''engine''
      (put_attempt a (new_attempt (goal_id ?g)) s1)"
    using t at1 unfolding dispatch_def s1_def by (auto simp: Let_def split: if_splits)
  note w = write_once [OF ks n(1) refl b]
  have k1: "keeps env X s1" using w(1) by (simp add: s1_def)
  have hold: "holder t j = (if j = goal_id (g_doc r) then Some a else None)" for j
    using free n(1) id save_parts(1) [of s ?g r] b(1) by (simp add: ga s1_def benign_same)
  have "books t"
  proof (rule dispatch_books [OF bs free _ ga(2) _ _ hold])
    show "used_at s (goal_id (g_doc r)) \<noteq> None" using n(1) by (simp add: used_at_def)
    show "attempts_tbl t = dict_set a (new_attempt (goal_id (g_doc r))) (attempts_tbl s)"
      "reservations_tbl t = reservations_tbl s"
      using at1 id by (simp_all add: ga(3) goal_journal_def put_attempt_def)
    have "par_at (save ?g s) = par_at s" "used_at (save ?g s) = used_at s"
      using core_parts [of "save ?g s" s] w(2) by (simp_all add: quiet_def)
    then show "par_at t = par_at s" "used_at t = used_at s" by (simp_all add: ga(3) s1_def)
  qed
  then show "pursuit_ok env X t" using k1 by (simp add: pursuit_ok_def ga(3))
  show "g = ?g" "dict_get (attempts_tbl s) a = None" "goal_id g = goal_id (g_doc r)" using ga id by simp_all
  show "goal_at t (goal_id g) = Some ((row_of g r)\<lparr>g_lease := Some (a, db_now clk + LEASE)\<rparr>)"
    using n(1) id by (simp add: ga s1_def)
  show "dict_get (attempts_tbl t) a = Some (new_attempt (goal_id g))"
    by (simp add: ga goal_journal_def put_attempt_def)
qed

text \<open>A claim either dispatches one goal or only recovers, wakes and blocks.\<close>

lemma claim_cases:
  assumes s: "pursuit_ok env X s" and t: "claim env clk a s = Inr (res, t)"
  shows "pursuit_ok env X t \<and> (case res of None \<Rightarrow> True
     | Some g \<Rightarrow> store_enabled s \<and> (\<exists>s1 s2 j r. reconcile env clk s = Inr s1 \<and> pursuit_ok env X s2 \<and> (\<forall>k. holder s2 k = None) \<and>
         sweep env clk MAX_CEILING_SWEEP 0 s1 = (Some (g_doc r), s2) \<and> j < MAX_CEILING_SWEEP \<and>
         next_ready env (db_tick clk j) s2 = Some r \<and> exceeded (py_tick clk j) (g_doc r) = None \<and>
         dispatch clk a (g_doc r) s2 = Inr (g, t)))"
proof (cases "store_enabled s")
  case False
  then show ?thesis using s t by (auto simp: claim_def)
next
  case True
  then obtain s1 where s1: "reconcile env clk s = Inr s1" and
    rest: "(if docs (\<lambda>r. g_lease r \<noteq> None) s1 \<noteq> [] then Inr (None, s1)
        else (case sweep env clk MAX_CEILING_SWEEP 0 s1 of
            (None, s2) \<Rightarrow> Inr (None, s2)
          | (Some g, s2) \<Rightarrow> map_sum id (\<lambda>(g', s3). (Some g', s3)) (dispatch clk a g s2))) = Inr (res, t)"
    using t by (auto simp: claim_def)
  note p1 = reconcile_ok [OF s s1]
  then have k1: "keeps env X s1" by (simp add: pursuit_ok_def)
  show ?thesis
  proof (cases "docs (\<lambda>r. g_lease r \<noteq> None) s1 = []")
    case False
    then show ?thesis using rest p1 by auto
  next
    case True
    obtain o2 s2 where s2: "sweep env clk MAX_CEILING_SWEEP 0 s1 = (o2, s2)" by (metis surj_pair)
    note sw = sweep_ok [OF k1 s2]
    have p2: "pursuit_ok env X s2" using quiet_ok sw p1 by blast
    have free: "holder s2 k = None" for k
      using no_holder [OF keeps_rows [OF k1] True] core_parts(1) [of s2 s1] sw by (simp add: quiet_def)
    show ?thesis
    proof (cases o2)
      case None
      then show ?thesis using rest True s2 p2 by auto
    next
      case (Some g0)
      with sw obtain j r where jr: "j < MAX_CEILING_SWEEP" "next_ready env (db_tick clk j) s2 = Some r" "g_doc r = g0"
        "exceeded (py_tick clk j) g0 = None" by auto
      from rest True s2 Some obtain g where d: "dispatch clk a (g_doc r) s2 = Inr (g, t)" "res = Some g"
        using jr(3) by auto
      have "pursuit_ok env X t" by (rule dispatch_ok(1) [OF p2 free jr(2) d(1)])
      then show ?thesis using d jr p2 free s1 s2 Some \<open>store_enabled s\<close> by auto
    qed
  qed
qed

section \<open>Heartbeats and spending\<close>

lemma put_more_books:
  assumes s: "books s" and w: "running_usage a s = Some w" and m: "at_tokens w \<le> m"
  shows "books (put_attempt a (w\<lparr>at_tokens := m, at_cost := c\<rparr>) s)"
proof (rule retoken_books [OF s w, where n = m and c = c])
  have l: "ledger_ok s" using s by (simp add: books_def)
  then show "dict_ok (reservations_tbl (put_attempt a (w\<lparr>at_tokens := m, at_cost := c\<rparr>) s))"
    by (simp add: put_attempt_def ledger_ok_def)
  have "reserved_total a (reservations_tbl s) \<le> at_tokens w" "0 \<le> at_tokens w"
    using l w by (simp_all add: ledger_ok_def)
  then show "reserved_total a (reservations_tbl (put_attempt a (w\<lparr>at_tokens := m, at_cost := c\<rparr>) s)) \<le> m" "0 \<le> m"
    using m by (simp_all add: put_attempt_def)
qed (simp_all, simp_all add: put_attempt_def)

lemma raise_usage_books:
  assumes s: "books s"
  shows "books (raise_usage a n c s)"
  using put_more_books [OF s] s by (auto simp: raise_usage_def split: option.split)

lemma raise_usage_keeps [simp]: "keeps env X s \<Longrightarrow> keeps env X (raise_usage a n c s)"
  by (simp add: raise_usage_def split: option.split)

lemma renew_books:
  assumes s: "books s" and h: "holder s k = Some a"
  shows "books (set_lease k (Some (a, u)) s)"
proof (rule books_cong [OF s])
  have o: "others (set_lease k (Some (a, u)) s) = others s" by simp
  then show "attempts_tbl (set_lease k (Some (a, u)) s) = attempts_tbl s"
    "reservations_tbl (set_lease k (Some (a, u)) s) = reservations_tbl s" by (simp_all add: others_def)
  show "holder (set_lease k (Some (a, u)) s) = holder s" using h by (auto simp: fun_eq_iff)
qed simp_all

lemma holds_holder: "goal_at s k = Some r \<Longrightarrow> holds a r \<longleftrightarrow> holder s k = Some a"
  by (auto simp: holds_def holder_def split: option.splits)

lemma heartbeat_ok:
  assumes s: "pursuit_ok env X s" and t: "heartbeat clk k a tokens cost s = (b, t)"
  shows "pursuit_ok env X t"
proof (cases "t = s")
  case False
  from t False obtain r where r: "goal_at s k = Some r" "holds a r"
    and t': "t = (case tokens of None \<Rightarrow> set_lease k (Some (a, db_now clk + LEASE)) s
      | Some n \<Rightarrow> raise_usage a n (case cost of None \<Rightarrow> Usd 0 | Some c \<Rightarrow> c) (set_lease k (Some (a, db_now clk + LEASE)) s))"
    by (auto simp: heartbeat_def Let_def split: option.splits if_splits)
  have h: "holder s k = Some a" using r holds_holder by blast
  have "books (set_lease k (Some (a, db_now clk + LEASE)) s)"
    using s h renew_books by (simp add: pursuit_ok_def)
  then have "books t" using raise_usage_books by (simp add: t' split: option.split)
  moreover have "keeps env X (set_lease k (Some (a, db_now clk + LEASE)) s)" using s by (simp add: pursuit_ok_def)
  then have "keeps env X t" by (simp add: t' split: option.split)
  ultimately show ?thesis by (simp add: pursuit_ok_def)
qed (use s in simp)

lemma usage_ok:
  assumes s: "pursuit_ok env X s" and t: "reserve_provider_usage env clk k a n s = Inr t"
  shows "pursuit_ok env X t"
proof -
  from t obtain w where w: "running_usage a s = Some w" and
    t': "t = put_attempt a (w\<lparr>at_tokens := max (at_tokens w) n\<rparr>) s"
    by (auto simp: reserve_provider_usage_def split: option.splits)
  have "w\<lparr>at_tokens := max (at_tokens w) n\<rparr> = w\<lparr>at_tokens := max (at_tokens w) n, at_cost := at_cost w\<rparr>" by simp
  then have "books t" using put_more_books [OF _ w, of "max (at_tokens w) n" "at_cost w"] s
    by (simp add: t' pursuit_ok_def)
  then show ?thesis using s by (simp add: pursuit_ok_def t')
qed

lemma reserved_set:
  assumes "dict_ok rs"
  shows "reserved_total a (dict_set key r rs) = reserved_total a rs +
    (if fst key = a then charge_of r - (case dict_get rs key of None \<Rightarrow> 0 | Some q \<Rightarrow> charge_of q) else 0)"
  using assms
  by (induction rs) (auto simp: reserved_total_def dict_ok_def split: option.splits)

lemma attempt_join_Inr:
  "attempt_join k a s = Inr (w, r) \<longleftrightarrow>
     dict_get (attempts_tbl s) a = Some w \<and> goal_at s k = Some r \<and> at_goal w = k \<and> pursuit_on s \<noteq> None"
  by (auto simp: attempt_join_def split: option.splits)

lemma authorized_Inr:
  assumes "authorized_attempt env clk k a s = Inr (w, g)"
  obtains r where "running_usage a s = Some w" "goal_at s k = Some r" "g = g_doc r" "at_goal w = k"
    "live_lease (db_now clk) a r" "store_enabled s" "status g \<in> {Running, Queued}"
  using assms by (auto simp: authorized_attempt_def attempt_join_Inr running_usage_def)

lemma durable_reserve_Inr:
  assumes "durable_reserve env clk k a s call n = Inr t"
  obtains w r fam where "running_usage a s = Some w" "goal_at s k = Some r" "at_goal w = k" "0 < n" "call \<noteq> []"
    "live_lease (db_now clk) a r" "store_enabled s" "status (g_doc r) \<in> {Running, Queued}"
    "call \<notin> fst ` set (reservations_of a s)" "\<not> list_ex (\<lambda>(_, r). overran r) (reservations_of a s)"
    "family_docs env (g_doc r) s = Inr fam" "list_all (affords (at_tokens w + n)) fam"
    "t = put_attempt a (w\<lparr>at_tokens := at_tokens w + n\<rparr>)
       (s\<lparr>reservations_tbl := dict_set (a, call) \<lparr>rv_reserved = n, rv_actual = None\<rparr> (reservations_tbl s)\<rparr>)"
proof -
  from assms obtain w g fam where x: "authorized_attempt env clk k a s = Inr (w, g)" "0 < n" "call \<noteq> []"
    "call \<notin> fst ` set (reservations_of a s)" "\<not> list_ex (\<lambda>(_, r). overran r) (reservations_of a s)"
    "family_docs env g s = Inr fam" "list_all (affords (at_tokens w + n)) fam"
    "t = put_attempt a (w\<lparr>at_tokens := at_tokens w + n\<rparr>)
       (s\<lparr>reservations_tbl := dict_set (a, call) \<lparr>rv_reserved = n, rv_actual = None\<rparr> (reservations_tbl s)\<rparr>)"
    unfolding durable_reserve_def by auto
  show ?thesis using x by (elim authorized_Inr) (rule that, auto)
qed

lemma not_reserved:
  "call \<notin> fst ` set (reservations_of a s) \<Longrightarrow> dict_get (reservations_tbl s) (a, call) = None"
proof (rule ccontr)
  assume c: "call \<notin> fst ` set (reservations_of a s)" and "dict_get (reservations_tbl s) (a, call) \<noteq> None"
  then obtain r where "((a, call), r) \<in> set (reservations_tbl s)" by (auto dest: map_of_SomeD)
  then have "(call, r) \<in> set (reservations_of a s)" by (force simp: reservations_of_def)
  then show False using c by force
qed

lemma reserve_ok:
  assumes s: "pursuit_ok env X s" and t: "durable_reserve env clk k a s call n = Inr t"
  shows "pursuit_ok env X t"
proof -
  have l: "ledger_ok s" and b: "books s" using s by (simp_all add: books_def pursuit_ok_def)
  from t obtain w r fam where w: "running_usage a s = Some w" "0 < n" "call \<notin> fst ` set (reservations_of a s)"
    and t': "t = put_attempt a (w\<lparr>at_tokens := at_tokens w + n\<rparr>)
       (s\<lparr>reservations_tbl := dict_set (a, call) \<lparr>rv_reserved = n, rv_actual = None\<rparr> (reservations_tbl s)\<rparr>)"
    by (elim durable_reserve_Inr) blast
  have d: "dict_ok (reservations_tbl s)" using l by (simp add: ledger_ok_def)
  have new: "dict_get (reservations_tbl s) (a, call) = None" by (rule not_reserved [OF w(3)])
  have "books t"
  proof (rule retoken_books [OF b w(1), where n = "at_tokens w + n" and c = "at_cost w"])
    show "attempts_tbl t = dict_set a (w\<lparr>at_tokens := at_tokens w + n, at_cost := at_cost w\<rparr>) (attempts_tbl s)"
      by (simp add: t' put_attempt_def)
    show "holder t = holder s" "par_at t = par_at s" "used_at t = used_at s"
      by (simp_all add: t' holder_def par_at_def used_at_def fun_eq_iff)
    show "dict_ok (reservations_tbl t)" using d by (simp add: t' put_attempt_def)
    show "b = a \<and> reservation_ok q \<or> dict_get (reservations_tbl s) (b, c) = Some q"
      if "dict_get (reservations_tbl t) (b, c) = Some q" for b c q
      using that w(2) by (auto simp: t' put_attempt_def reservation_ok_def split: if_splits)
    show "reserved_total b (reservations_tbl t) = reserved_total b (reservations_tbl s)" if "b \<noteq> a" for b
      using that by (simp add: t' put_attempt_def reserved_set [OF d])
    show "reserved_total a (reservations_tbl t) \<le> at_tokens w + n" "0 \<le> at_tokens w + n"
      using w l new by (auto simp: t' put_attempt_def reserved_set [OF d] charge_of_def ledger_ok_def)
  qed
  moreover have "keeps env X t"
    by (rule keeps_same_rows [of env X s]) (use s in \<open>simp_all add: pursuit_ok_def t'\<close>)
  ultimately show ?thesis by (simp add: pursuit_ok_def)
qed

lemma durable_settle_Inr:
  assumes "durable_settle clk k a s call actual = Inr (over, t)"
  obtains "t = s" "\<not> over"
  | w row r n where "running_usage a s = Some w" "goal_at s k = Some row" "holds a row" "at_goal w = k"
    "dict_get (reservations_tbl s) (a, call) = Some r" "rv_actual r = None" "actual = Some n" "0 \<le> n"
    "over \<longleftrightarrow> n > rv_reserved r"
    "t = put_attempt a (w\<lparr>at_tokens := at_tokens w + (n - rv_reserved r)\<rparr>)
       (s\<lparr>reservations_tbl := dict_set (a, call) (r\<lparr>rv_actual := Some n\<rparr>) (reservations_tbl s)\<rparr>)"
proof -
  from assms obtain w row where j: "attempt_join k a s = Inr (w, row)" and nn: "case actual of None \<Rightarrow> True | Some n \<Rightarrow> 0 \<le> n"
    and rest: "(case dict_get (reservations_tbl s) (a, call) of
           None \<Rightarrow> Inl ValueError
         | Some r \<Rightarrow>
             (case actual of
                None \<Rightarrow> Inr (False, s)
              | Some n \<Rightarrow>
                  (case rv_actual r of
                     Some m \<Rightarrow> guard (m = n) ValueError (Inr (False, s))
                   | None \<Rightarrow>
                       guard (at_status w = AttemptRunning \<and> holds a row) ValueError
                         (Inr (n > rv_reserved r,
                            put_attempt a (w\<lparr>at_tokens := at_tokens w + (n - rv_reserved r)\<rparr>)
                              (s\<lparr>reservations_tbl := dict_set (a, call) (r\<lparr>rv_actual := Some n\<rparr>)
                                 (reservations_tbl s)\<rparr>)))))) = Inr (over, t)"
    unfolding durable_settle_def by auto
  from rest obtain r where r: "dict_get (reservations_tbl s) (a, call) = Some r" by (auto split: option.splits)
  show ?thesis
  proof (cases actual)
    case None
    then show ?thesis using rest r that(1) by simp
  next
    case (Some n)
    show ?thesis
    proof (cases "rv_actual r")
      case None
      then show ?thesis
        using that(2) [of w row r n] rest r Some nn j by (auto simp: attempt_join_Inr running_usage_def)
    next
      case (Some m)
      then show ?thesis using that(1) rest r \<open>actual = Some n\<close> by simp
    qed
  qed
qed

lemma reserved_part:
  assumes "dict_ok rs" "dict_get rs (a, c) = Some r" "\<And>x. x \<in> set rs \<Longrightarrow> reservation_ok (snd x)"
  shows "charge_of r \<le> reserved_total a rs"
proof -
  have nn: "0 \<le> charge_of q" if "reservation_ok q" for q
    using that by (auto simp: charge_of_def reservation_ok_def split: option.split)
  have pos: "0 \<le> reserved_total a xs" if "\<And>x. x \<in> set xs \<Longrightarrow> reservation_ok (snd x)" for xs
    unfolding reserved_total_def by (rule sum_list_nonneg) (use that nn in \<open>auto split: prod.splits\<close>)
  show ?thesis using assms
  proof (induction rs)
    case (Cons x rs)
    obtain i q where x: "x = (i, q)" by (cases x)
    have q: "0 \<le> charge_of q" using Cons.prems(3) [of x] nn x by simp
    have rest: "0 \<le> reserved_total a rs" using pos Cons.prems(3) by simp
    show ?case
    proof (cases "i = (a, c)")
      case True
      then show ?thesis using Cons.prems(2) x rest by (simp add: reserved_total_def)
    next
      case False
      then have "charge_of r \<le> reserved_total a rs" using Cons x by (simp add: dict_ok_def)
      then show ?thesis using q x by (simp add: reserved_total_def)
    qed
  qed simp
qed

lemma settle_ok:
  assumes s: "pursuit_ok env X s" and t: "durable_settle clk k a s call actual = Inr (over, t)"
  shows "pursuit_ok env X t"
  using t
proof (cases rule: durable_settle_Inr)
  case 1
  then show ?thesis using s by simp
next
  case (2 w row r n)
  have l: "ledger_ok s" and b: "books s" using s by (simp_all add: books_def pursuit_ok_def)
  have d: "dict_ok (reservations_tbl s)" using l by (simp add: ledger_ok_def)
  have all: "reservation_ok (snd x)" if "x \<in> set (reservations_tbl s)" for x
  proof -
    obtain i c q where x: "x = ((i, c), q)" by (metis surj_pair)
    then have "dict_get (reservations_tbl s) (i, c) = Some q" using that d by (simp add: dict_ok_def)
    then show ?thesis using l x unfolding ledger_ok_def by (metis snd_conv)
  qed
  have c: "charge_of r = rv_reserved r" using 2 by (simp add: charge_of_def)
  have rr: "reservation_ok r" using l 2(5) unfolding ledger_ok_def by blast
  have part: "rv_reserved r \<le> reserved_total a (reservations_tbl s)"
    using reserved_part [OF d 2(5) all] c by simp
  have tot: "reserved_total a (reservations_tbl s) \<le> at_tokens w" using l 2(1) by (simp add: ledger_ok_def)
  have "books t"
  proof (rule retoken_books [OF b 2(1), where n = "at_tokens w + (n - rv_reserved r)" and c = "at_cost w"])
    show "attempts_tbl t = dict_set a (w\<lparr>at_tokens := at_tokens w + (n - rv_reserved r), at_cost := at_cost w\<rparr>) (attempts_tbl s)"
      by (simp add: 2 put_attempt_def)
    show "holder t = holder s" "par_at t = par_at s" "used_at t = used_at s"
      by (simp_all add: 2 holder_def par_at_def used_at_def fun_eq_iff)
    show "dict_ok (reservations_tbl t)" using d by (simp add: 2 put_attempt_def)
    show "b = a \<and> reservation_ok q \<or> dict_get (reservations_tbl s) (b, e) = Some q"
      if "dict_get (reservations_tbl t) (b, e) = Some q" for b e q
      using that 2 rr by (auto simp: put_attempt_def reservation_ok_def split: if_splits)
    show "reserved_total b (reservations_tbl t) = reserved_total b (reservations_tbl s)" if "b \<noteq> a" for b
      using that by (simp add: 2 put_attempt_def reserved_set [OF d])
    show "reserved_total a (reservations_tbl t) \<le> at_tokens w + (n - rv_reserved r)" "0 \<le> at_tokens w + (n - rv_reserved r)"
      using tot part 2(5,8) c by (simp_all add: 2(10) put_attempt_def reserved_set [OF d] charge_of_def)
  qed
  moreover have "keeps env X t"
    by (rule keeps_same_rows [of env X s]) (use s in \<open>simp_all add: pursuit_ok_def 2\<close>)
  ultimately show ?thesis by (simp add: pursuit_ok_def)
qed

section \<open>The end of a run\<close>

text \<open>What \<open>settle_run\<close> may touch.\<close>

definition run_frame :: "goal \<Rightarrow> goal \<Rightarrow> bool" where
  "run_frame g h =
     (goal_id h = goal_id g \<and> parent_goal_id h = parent_goal_id g \<and> mode h = mode g \<and> request_key h = request_key g \<and>
      kind h = kind g \<and> paused_by_parent h = paused_by_parent g \<and> tokens_used h = tokens_used g \<and>
      cost_usd h = cost_usd g \<and> attempts h = attempts g \<and> recovery_required h = recovery_required g)"

lemma failure_frame: "run_frame g (after_failure now e g)" "status (after_failure now e g) \<in> {status g, Blocked}"
  by (simp_all add: after_failure_def Let_def run_frame_def)

lemma success_frame: "run_frame g (after_success g)" "status (after_success g) \<in> {status g, Blocked}"
  by (simp_all add: after_success_def Let_def run_frame_def)

lemma settle_run_frame:
  "run_frame g (settle_run env clk e g)"
  "status (settle_run env clk e g) = status g \<or>
   status g = Running \<and> status (settle_run env clk e g) \<in> {Queued, Blocked}"
proof -
  let ?g1 = "g\<lparr>status := Queued, ready_at := py_now clk\<rparr>"
  let ?g2 = "if re_error e \<noteq> [] then after_failure (py_now clk) (re_error e) ?g1 else after_success ?g1"
  have f: "run_frame ?g1 ?g2" "status ?g2 \<in> {Queued, Blocked}"
    using failure_frame [where g = ?g1 and now = "py_now clk" and e = "re_error e"] success_frame [where g = ?g1] by auto
  show "run_frame g (settle_run env clk e g)"
    using f(1) by (auto simp: settle_run_def Let_def run_frame_def split: option.split)
  show "status (settle_run env clk e g) = status g \<or>
   status g = Running \<and> status (settle_run env clk e g) \<in> {Queued, Blocked}"
    using f(2) by (auto simp: settle_run_def Let_def split: option.split)
qed

lemma finished_doc_frame:
  "benign g (finished_doc env clk e g)"
  "tokens_used (finished_doc env clk e g) = tokens_used g + max 0 (re_tokens e)"
  "status (finished_doc env clk e g) = status g \<or>
   status g = Running \<and> status (finished_doc env clk e g) \<in> {Queued, Blocked}"
proof -
  define h where "h = (let g1 = charge (max 0 (re_tokens e)) (usd_max (Usd 0) (re_cost e)) g;
          g2 = (if re_interrupted e then g1\<lparr>recovery_required := True\<rparr> else g1)
      in if re_checkpoint e \<noteq> [] then g2\<lparr>last_output :=
                  Some (drop (length (re_checkpoint e) - 20000) (re_checkpoint e))\<rparr> else g2)"
  have h: "status h = status g" "goal_id h = goal_id g" "parent_goal_id h = parent_goal_id g" "mode h = mode g"
    "request_key h = request_key g" "kind h = kind g" "paused_by_parent h = paused_by_parent g"
    "tokens_used h = tokens_used g + max 0 (re_tokens e)"
    by (simp_all add: h_def Let_def charge_def)
  have f: "finished_doc env clk e g = (settle_run env clk e h)\<lparr>version := version (settle_run env clk e h) + 1, updated_at := py_now clk\<rparr>"
    by (simp add: finished_doc_def h_def Let_def)
  note sf = settle_run_frame [where g = h and env = env and clk = clk and e = e]
  show st: "status (finished_doc env clk e g) = status g \<or>
   status g = Running \<and> status (finished_doc env clk e g) \<in> {Queued, Blocked}"
    using sf(2) h(1) by (simp add: f)
  show "tokens_used (finished_doc env clk e g) = tokens_used g + max 0 (re_tokens e)"
    using sf(1) h(8) by (simp add: f run_frame_def)
  have "same_goal g (finished_doc env clk e g)" "mode (finished_doc env clk e g) = mode g"
    using sf(1) h by (simp_all add: f run_frame_def same_goal_def)
  then show "benign g (finished_doc env clk e g)"
    using st by (auto simp: benign_def closed_family_def TERMINAL_def)
qed

lemma wake_parent_keeps:
  assumes s: "keeps env X s" and r: "goal_at s k = Some r" and g: "parent_goal_id g = parent_goal_id (g_doc r)"
    and t: "wake_parent env clk g s = Inr t"
  shows "keeps env X t \<and> quiet s t \<and> goal_at t k = Some r"
proof (cases "t = s")
  case False
  note ok = keeps_rows [OF s]
  from t False obtain p q where p: "parent_of g = Some p" "goal_locked env p s = Inr q" "status q \<notin> INACTIVE"
    "t = save (requeued (py_now clk) (blocked_child_text g) q) s"
    by (auto simp: wake_parent_def split: option.splits if_splits)
  obtain rq where rq: "goal_at s (goal_id q) = Some rq" "g_doc rq = q" "parse_uuid env p = Some (goal_id q)"
    using locked_row [OF ok p(2)] by metis
  have "parent_of g = parent_of (g_doc r)" using g by (simp add: parent_of_def)
  then have pr: "parent_goal_id (g_doc r) = Some p" using p(1) parent_of_row [OF ok r] by simp
  obtain z where "goal_at s p = Some z" "p \<noteq> k" using parent_row [OF ok r pr] by metis
  then have "goal_id q = p" using rq(3) rows_ok_keys(2) [OF ok] by auto
  then show ?thesis
    using write_once [OF s rq(1,2) requeued_benign [OF p(3)]] p(4) r \<open>p \<noteq> k\<close> by simp
qed (use s r in simp)

lemma finish_row:
  assumes r: "goal_at s k = Some r" "holds a r" and t: "finish env clk k a e s = Inr t"
  shows "\<exists>s1 s2. charge_parent env (max 0 (re_tokens e)) (usd_max (Usd 0) (re_cost e)) (g_doc r) s = Inr s1 \<and>
    (if status (g_doc r) \<noteq> Blocked \<and> status (finished_doc env clk e (g_doc r)) = Blocked
     then wake_parent env clk (finished_doc env clk e (g_doc r)) s1 else Inr s1) = Inr s2 \<and>
    t = goal_journal (db_now clk) (finished_doc env clk e (g_doc r)) RunFinished ''engine''
      (close_attempt a e (set_lease k None (save (finished_doc env clk e (g_doc r)) s2)))"
  using t r by (auto simp: finish_def Let_def)

lemma finish_ok:
  assumes s: "pursuit_ok env X s" and t: "finish env clk k a e s = Inr t"
  shows "pursuit_ok env X t"
proof (cases "t = s")
  case False
  from t False obtain r where r: "goal_at s k = Some r" "holds a r"
    by (auto simp: finish_def split: option.splits if_splits)
  have ks: "keeps env X s" and bs: "books s" using s by (simp_all add: pursuit_ok_def)
  have h: "holder s k = Some a" using r holds_holder by blast
  let ?g = "finished_doc env clk e (g_doc r)"
  obtain s1 s2 where s1: "charge_parent env (max 0 (re_tokens e)) (usd_max (Usd 0) (re_cost e)) (g_doc r) s = Inr s1"
    and s2: "(if status (g_doc r) \<noteq> Blocked \<and> status ?g = Blocked then wake_parent env clk ?g s1 else Inr s1) = Inr s2"
    and t': "t = goal_journal (db_now clk) ?g RunFinished ''engine''
      (close_attempt a e (set_lease k None (save ?g s2)))"
    using finish_row [OF r t] by blast
  note c = charge_parent_frame [OF ks r(1) s1]
  note f = finished_doc_frame [where g = "g_doc r" and env = env and clk = clk and e = e]
  have par: "parent_goal_id ?g = parent_goal_id (g_doc r)" using f(1) by (simp add: benign_def same_goal_def)
  have m: "keeps env X s2 \<and> quiet s1 s2 \<and> goal_at s2 k = Some r"
    using s2 c(1,2) wake_parent_keeps [OF c(1,2) par] by (auto split: if_splits)
  obtain w where w: "running_usage a s = Some w" "at_goal w = k" using running_of_holder [OF bs h] by blast
  have "others (set_lease k None (save ?g s2)) = others s" using m c(5) by (simp add: quiet_def)
  then have "dict_get (attempts_tbl (set_lease k None (save ?g s2))) a = Some w"
    using running_get [OF w(1)] by (simp add: others_def)
  then have tt: "t = goal_journal (db_now clk) ?g RunFinished ''engine''
      (put_attempt a (w\<lparr>at_status := (if re_error e \<noteq> [] then AttemptFailed else AttemptFinished),
             at_run := re_run e, at_tokens := re_tokens e, at_cost := re_cost e\<rparr>) (set_lease k None (save ?g s2)))"
    unfolding t' by (simp add: close_attempt_def)
  show ?thesis
    by (rule close_chain [OF s r(1) h s1 _ _ _ f(1,2) _ _ _ tt]) (use m w in simp_all)
qed (use s in simp)

section \<open>A new goal\<close>

lemma insert_ok:
  assumes s: "pursuit_ok env X s" and g: "fresh_goal s g" and id: "parse_uuid env (goal_id g) = Some (goal_id g)"
    and t: "insert_goal now g s = Inr t"
  shows "pursuit_ok env X t"
proof -
  have ks: "keeps env X s" and b: "lease_ok s" "tokens_ok s" "ledger_ok s"
    using s by (simp_all add: pursuit_ok_def books_def)
  note i = insert_row [OF t]
  have eq: "attempts_tbl t = attempts_tbl s" "reservations_tbl t = reservations_tbl s" using i(3) by (simp_all add: others_def)
  have new: "goal_at s (goal_id g) = None" by (rule i(4))
  have hold: "holder t = holder s"
  proof
    show "holder t k = holder s k" for k
      using i(1) i(2) [of k] new by (cases "k = goal_id g") (simp_all add: holder_def)
  qed
  have used: "used_at t k = (if k = goal_id g then Some 0 else used_at s k)" for k
    using i(1,2) g by (simp add: used_at_def fresh_goal_def)
  have par: "par_at t k = (if k = goal_id g then parent_goal_id g else par_at s k)" for k
    using i(1,2) by (simp add: par_at_def)
  have known: "used_at s (at_goal w) \<noteq> None" if "dict_get (attempts_tbl s) a = Some w" for a w
    using b(1) that unfolding lease_ok_def by blast
  have mem: "used_at s (at_goal w) \<noteq> None" if "(a, w) \<in> set (attempts_tbl s)" for a w
    using known [of a w] that b(1) by (simp add: lease_ok_def dict_ok_def)
  have old: "at_goal w \<noteq> goal_id g" "par_at s (at_goal w) \<noteq> Some (goal_id g)" if "(a, w) \<in> set (attempts_tbl s)" for a w
  proof -
    show "at_goal w \<noteq> goal_id g" using mem [OF that] new by (auto simp: used_at_def)
    show "par_at s (at_goal w) \<noteq> Some (goal_id g)"
    proof
      assume "par_at s (at_goal w) = Some (goal_id g)"
      then obtain r where "goal_at s (at_goal w) = Some r" "parent_goal_id (g_doc r) = Some (goal_id g)"
        by (cases "goal_at s (at_goal w)") (auto simp: par_at_def)
      then show False using parent_row [OF keeps_rows [OF ks]] new by (metis option.distinct(1))
    qed
  qed
  have cnt: "counts (par_at t) k w = (if k = goal_id g then 0 else counts (par_at s) k w)"
    if "(a, w) \<in> set (attempts_tbl s)" for a w k
    using old [OF that] by (simp add: counts_def par)
  have closed: "closed_tokens t k = (if k = goal_id g then 0 else closed_tokens s k)" for k
  proof -
    have m: "map (counts (par_at t) k \<circ> snd) (attempts_tbl s) =
        map (\<lambda>x. if k = goal_id g then 0 else counts (par_at s) k (snd x)) (attempts_tbl s)"
      using cnt by (auto intro!: map_cong)
    show ?thesis unfolding closed_tokens_def eq m by (cases "k = goal_id g") (simp_all add: comp_def)
  qed
  have run: "running_usage a t = running_usage a s" for a by (simp add: running_usage_def eq)
  have "lease_ok t" using b(1) known unfolding lease_ok_def hold run eq used by auto
  moreover have "tokens_ok t" using b(2) by (auto simp: tokens_ok_def used closed)
  moreover have "ledger_ok t" using b(3) by (simp add: ledger_ok_def run eq)
  ultimately show ?thesis using insert_keeps [OF ks g id t] by (simp add: pursuit_ok_def books_def)
qed

lemma create_goal_cmd_ok:
  assumes s: "pursuit_ok env X s" and c: "canonical env" "parse_uuid env new = Some new"
    and t: "create_goal_cmd env clk new raw actor s = Inr (g, t)"
  shows "pursuit_ok env X t"
proof -
  have ks: "keeps env X s" using s by (simp add: pursuit_ok_def)
  from create_goal_cmd_cases [OF ks c(1) t] show ?thesis
  proof cases
    case 1
    then show ?thesis using s by simp
  next
    case (2 t')
    have "pursuit_ok env X t'" by (rule insert_ok [OF s 2(2) _ 2(3)]) (use 2(1) c(2) in simp)
    then show ?thesis using quiet_ok [of t' t env X] by (simp add: 2(4) pursuit_ok_def)
  qed
qed

end
