(* ===== verification/Goal_Pursuit.thy ===== *)
theory Goal_Pursuit
  imports Goal_Accounts
begin

text \<open>
  The goal store as a machine: every transaction that can reach its tables is a command, and a
  tenant's history is any sequence of them, by the agent, the operator, the controller and
  stale workers. Here are its invariants over all histories and the properties of the store.
\<close>

section \<open>Commands\<close>

text \<open>\<open>PEffects\<close> is whatever another component does to the effect ledger.\<close>

datatype pursuit_cmd =
    PEnable bool
  | PCreate clocks string create_goal string
  | PUpdate clocks "(string \<times> string) option" "string option" bool string string goal_update
  | PAdopt clocks string "string \<Rightarrow> legacy_task option" string string
  | PEvent int string string json_obj
  | PPrune int
  | PClaim clocks string
  | PBeat clocks string string "int option" "usd option"
  | PFinish clocks string string run_end
  | PUsage clocks string string int
  | PReserve clocks string string string int
  | PSettle clocks string string string "int option"
  | PEffects effects

fun pursuit_step :: "('a pursuit_env_scheme) \<Rightarrow> gstore \<Rightarrow> pursuit_cmd \<Rightarrow> gstore result" where
  "pursuit_step env s (PEnable v) = Inr (set_enabled v s)"
| "pursuit_step env s (PCreate clk new raw actor) = map_sum id snd (create_goal_cmd env clk new raw actor s)"
| "pursuit_step env s (PUpdate clk bound excluded operator actor gid u) =
     map_sum id snd (update_goal env clk bound excluded operator actor gid u s)"
| "pursuit_step env s (PAdopt clk new tasks task actor) = map_sum id snd (adopt env clk new tasks task actor s)"
| "pursuit_step env s (PEvent created ident typ payload) = Inr (ingest_event created ident typ payload s)"
| "pursuit_step env s (PPrune now) = Inr (prune now s)"
| "pursuit_step env s (PClaim clk a) = map_sum id snd (claim env clk a s)"
| "pursuit_step env s (PBeat clk k a tokens cost) = Inr (snd (heartbeat clk k a tokens cost s))"
| "pursuit_step env s (PFinish clk k a e) = finish env clk k a e s"
| "pursuit_step env s (PUsage clk k a n) = reserve_provider_usage env clk k a n s"
| "pursuit_step env s (PReserve clk k a call n) = durable_reserve env clk k a s call n"
| "pursuit_step env s (PSettle clk k a call v) = map_sum id snd (durable_settle clk k a s call v)"
| "pursuit_step env s (PEffects ef) = Inr (s\<lparr>ledger := ef\<rparr>)"

text \<open>
  New ids are canonical (\<open>str(uuid4())\<close>). An update may spell its goal's id in any way Python's
  \<open>UUID\<close> reads, but the queries for the children compare texts: the goals that some update of a
  history named by another spelling are its \<open>misnamed\<close> ones.
\<close>

fun canonical_cmd :: "('a pursuit_env_scheme) \<Rightarrow> pursuit_cmd \<Rightarrow> bool" where
  "canonical_cmd env (PCreate clk new raw actor) = (parse_uuid env new = Some new)"
| "canonical_cmd env (PAdopt clk new tasks task actor) = (parse_uuid env new = Some new)"
| "canonical_cmd env c = True"

fun misnames :: "('a pursuit_env_scheme) \<Rightarrow> pursuit_cmd \<Rightarrow> string set" where
  "misnames env (PUpdate clk bound excluded operator actor gid u) =
     (case parse_uuid env gid of None \<Rightarrow> {} | Some k \<Rightarrow> if k = gid then {} else {k})"
| "misnames env c = {}"

definition misnamed :: "('a pursuit_env_scheme) \<Rightarrow> pursuit_cmd list \<Rightarrow> string set" where
  "misnamed env cs = (\<Union>c \<in> set cs. misnames env c)"

lemma misnamedD:
  assumes "p \<in> misnamed env cs"
  shows "\<exists>clk bound excluded operator actor gid u.
    PUpdate clk bound excluded operator actor gid u \<in> set cs \<and> parse_uuid env gid = Some p \<and> gid \<noteq> p"
proof -
  from assms obtain c where c: "c \<in> set cs" "p \<in> misnames env c" by (auto simp: misnamed_def)
  from c(2) have "\<exists>clk bound excluded operator actor gid u.
      c = PUpdate clk bound excluded operator actor gid u \<and> parse_uuid env gid = Some p \<and> gid \<noteq> p"
    by (cases c) (auto split: option.splits if_splits)
  with c(1) show ?thesis by blast
qed

text \<open>A closed attempt is never written again, and no goal disappears.\<close>

definition grows :: "gstore \<Rightarrow> gstore \<Rightarrow> bool" where
  "grows s t =
     ((\<forall>a w. dict_get (attempts_tbl s) a = Some w \<longrightarrow> at_status w \<noteq> AttemptRunning \<longrightarrow>
         dict_get (attempts_tbl t) a = Some w) \<and>
      (\<forall>k. used_at s k \<noteq> None \<longrightarrow> used_at t k \<noteq> None))"

lemma grows_refl [simp]: "grows s s"
  by (simp add: grows_def)

lemma grows_trans: "grows s t \<Longrightarrow> grows t u \<Longrightarrow> grows s u"
  by (auto simp: grows_def)

lemma quiet_grows: "quiet s t \<Longrightarrow> grows s t"
  using core_parts(3) [of t s] by (simp add: quiet_def others_def grows_def)

lemma put_grows:
  assumes "attempts_tbl t = dict_set a w' (attempts_tbl s)"
    and "\<And>w. dict_get (attempts_tbl s) a = Some w \<Longrightarrow> at_status w = AttemptRunning"
    and "\<And>k. used_at s k \<noteq> None \<Longrightarrow> used_at t k \<noteq> None"
  shows "grows s t"
  using assms by (auto simp: grows_def)

section \<open>Every step\<close>

definition step_good :: "('a pursuit_env_scheme) \<Rightarrow> string set \<Rightarrow> gstore \<Rightarrow> gstore \<Rightarrow> bool" where
  "step_good env X s t = (pursuit_ok env X t \<and> grows s t)"

lemma same_tables_good:
  assumes "pursuit_ok env X s" "goals_tbl t = goals_tbl s" "attempts_tbl t = attempts_tbl s"
    "reservations_tbl t = reservations_tbl s"
  shows "step_good env X s t"
proof -
  have at: "goal_at t k = goal_at s k" for k using assms(2) by (simp add: goal_at_def)
  have "books t" by (rule books_cong [of s])
      (use assms in \<open>simp_all add: pursuit_ok_def holder_def par_at_def used_at_def fun_eq_iff at\<close>)
  moreover have "keeps env X t" by (rule keeps_same_rows [of env X s]) (use assms in \<open>simp_all add: pursuit_ok_def\<close>)
  moreover have "grows s t" using assms(3) by (simp add: grows_def used_at_def at)
  ultimately show ?thesis by (simp add: step_good_def pursuit_ok_def)
qed

lemma quiet_good: "pursuit_ok env X s \<Longrightarrow> keeps env X t \<Longrightarrow> quiet s t \<Longrightarrow> step_good env X s t"
  by (simp add: step_good_def quiet_ok quiet_grows)

lemma create_good:
  assumes s: "pursuit_ok env X s" and c: "canonical env" "parse_uuid env new = Some new"
    and t: "create_goal_cmd env clk new raw actor s = Inr (g, t)"
  shows "step_good env X s t"
proof -
  have "grows s t"
  proof -
    from s have "keeps env X s" by (simp add: pursuit_ok_def)
    from create_goal_cmd_cases [OF this c(1) t] show ?thesis
    proof cases
      case (2 t')
      note i = insert_row [OF 2(3)]
      have "used_at t k \<noteq> None" if "used_at s k \<noteq> None" for k
        using that i(1,2,4) by (cases "k = goal_id g") (auto simp: used_at_def 2(4))
      then show ?thesis using i(3) by (simp add: grows_def others_def 2(4) goal_journal_def)
    qed simp
  qed
  then show ?thesis using create_goal_cmd_ok [OF s c t] by (simp add: step_good_def)
qed

lemma adopt_good:
  assumes s: "pursuit_ok env X s" and c: "canonical env" "parse_uuid env new = Some new"
    and t: "adopt env clk new tasks task actor s = Inr (g, t)"
  shows "step_good env X s t"
proof -
  have "keeps env X s" using s by (simp add: pursuit_ok_def)
  then obtain g0 t0 where a: "create_goal_cmd env clk new (legacy_spec task (the (tasks task))) actor s = Inr (g0, t0)"
    "keeps env X t" "quiet t0 t" using adopt_keeps [OF _ c t] by blast
  have "step_good env X s t0" by (rule create_good [OF s c a(1)])
  then show ?thesis using quiet_ok [OF a(3,2)] quiet_grows [OF a(3)] grows_trans
    by (metis step_good_def)
qed

lemma update_good:
  assumes s: "pursuit_ok env X s" and gid: "\<And>k. parse_uuid env gid = Some k \<Longrightarrow> k = gid \<or> k \<in> X"
    and t: "update_goal env clk bound excluded operator actor gid u s = Inr (g, t)"
  shows "step_good env X s t"
proof -
  have ks: "keeps env X s" using s by (simp add: pursuit_ok_def)
  obtain v where "update_in env clk bound excluded operator actor gid v s = Inr (g, t)"
    using t by (auto simp: update_goal_def)
  from update_in_keeps [OF ks gid this] show ?thesis using quiet_good [OF s] by blast
qed

text \<open>
  A run is closed and charged: its attempt is interrupted, and its goal and the goal's parent, and
  no other goal, are billed its tokens and its cost.
\<close>

definition charged_row :: "string \<Rightarrow> string option \<Rightarrow> attempt_row \<Rightarrow> (string \<Rightarrow> (int \<times> usd) option) \<Rightarrow> string \<Rightarrow> (int \<times> usd) option" where
  "charged_row k parent w f j =
     (if j = k \<or> parent = Some j then map_option (billed (at_tokens w) (at_cost w)) (f j) else f j)"

definition run_charged :: "string \<Rightarrow> string \<Rightarrow> gstore \<Rightarrow> gstore \<Rightarrow> bool" where
  "run_charged k a s t =
     (\<exists>w. dict_get (attempts_tbl s) a = Some w \<and> at_goal w = k \<and>
        dict_get (attempts_tbl t) a = Some (w\<lparr>at_status := AttemptInterrupted\<rparr>) \<and>
        (\<forall>j. spent_at t j = charged_row k (par_at s k) w (spent_at s) j))"

lemma run_charged_later:
  assumes "run_charged k a s t" "grows t u" "spent_at u = spent_at t"
  shows "run_charged k a s u"
proof -
  from assms(1) obtain w where w: "dict_get (attempts_tbl s) a = Some w" "at_goal w = k"
    "dict_get (attempts_tbl t) a = Some (w\<lparr>at_status := AttemptInterrupted\<rparr>)"
    "\<forall>j. spent_at t j = charged_row k (par_at s k) w (spent_at s) j" unfolding run_charged_def by blast
  have "dict_get (attempts_tbl u) a = Some (w\<lparr>at_status := AttemptInterrupted\<rparr>)"
    using assms(2) w(3) by (simp add: grows_def)
  then show ?thesis using w assms(3) unfolding run_charged_def by auto
qed

lemma recover_one_grows:
  assumes s: "pursuit_ok env X s" and r: "goal_at s k = Some r" "g_lease r = Some (a, u)"
    and t: "recover_one env clk (g_doc r, a) s = Inr t"
  shows "grows s t" "run_charged k a s t"
proof -
  have ks: "keeps env X s" and bs: "books s" using s by (simp_all add: pursuit_ok_def)
  have h: "holder s k = Some a" using r by (simp add: holder_row)
  obtain w where w: "running_usage a s = Some w" "at_goal w = k" using running_of_holder [OF bs h] by blast
  define g where "g = recovered_doc (py_now clk) (charge (at_tokens w) (at_cost w) (g_doc r))"
  from t w obtain s1 where s1: "charge_parent env (at_tokens w) (at_cost w) (g_doc r) s = Inr s1"
    and t': "t = goal_journal (db_now clk) g Recovered ''engine''
      (interrupt_attempt a (set_lease (goal_id g) None (save g s1)))"
    by (auto simp: recover_one_def g_def Let_def)
  note c = charge_parent_frame [OF ks r(1) s1]
  have id: "goal_id g = k"
    using rows_ok_keys [OF keeps_rows [OF ks] r(1)] by (simp add: g_def recovered_doc_def charge_def Let_def)
  define s3 where "s3 = set_lease k None (save g s1)"
  have at: "attempts_tbl s3 = attempts_tbl s" using c(5) by (simp add: s3_def flip: prod.inject)
      (metis fst_conv others_def others_frames(2,3))
  have run: "running_usage a s3 = Some w" using w(1) at by (simp add: running_usage_def)
  have tt: "t = goal_journal (db_now clk) g Recovered ''engine'' (put_attempt a (w\<lparr>at_status := AttemptInterrupted\<rparr>) s3)"
    unfolding t' id s3_def [symmetric] using run by (simp add: interrupt_attempt_def)
  have used: "used_at t j \<noteq> None" if "used_at s j \<noteq> None" for j
  proof -
    have "used_at s1 j \<noteq> None" using that c(6) by simp
    then have "goal_at s1 j \<noteq> None" by (simp add: used_at_def)
    then show ?thesis by (auto simp: tt s3_def used_at_def)
  qed
  show "grows s t"
    by (rule put_grows [where a = a, OF _ _ used]) (use running_get [OF w(1)] at in \<open>simp_all add: tt goal_journal_def put_attempt_def\<close>)
  have "spent g = billed (at_tokens w) (at_cost w) (spent (g_doc r))"
    by (simp add: g_def recovered_doc_def charge_def billed_def Let_def)
  moreover have "par_at s k \<noteq> Some k" using parent_row [OF keeps_rows [OF ks] r(1)] r(1) by (auto simp: par_at_def)
  moreover have "spent_at t j = (if j = k then Some (spent g) else spent_at s1 j)" for j
    using spent_at_save [of s1 g r j] c(2) id by (simp add: tt s3_def)
  ultimately have "spent_at t j = charged_row k (par_at s k) w (spent_at s) j" for j
    using charge_parent_spent [OF keeps_rows [OF ks] r(1) s1, of j] r(1) by (auto simp: charged_row_def spent_at_def)
  moreover have "dict_get (attempts_tbl t) a = Some (w\<lparr>at_status := AttemptInterrupted\<rparr>)"
    by (simp add: tt goal_journal_def put_attempt_def)
  ultimately show "run_charged k a s t" using running_get [OF w(1)] w(2) by (auto simp: run_charged_def)
qed

lemma recover_all_grows:
  assumes s: "pursuit_ok env X s" and t: "fold_result (recover_one env clk) (lapsed_rows now s) s = Inr t"
  shows "grows s t" "goal_at s k = Some r \<Longrightarrow> g_lease r = Some (a, u) \<Longrightarrow> u < now \<Longrightarrow> run_charged k a s t"
proof -
  have ok: "rows_ok env s" and lok: "lease_ok s" using s by (simp_all add: pursuit_ok_def keeps_def books_def)
  have len: "length (lapsed_rows now s) \<le> 1" by (rule lapsed_rows_short [OF s])
  have *: "grows s t \<and> (\<forall>x \<in> set (lapsed_rows now s). run_charged (goal_id (fst x)) (snd x) s t)"
  proof (cases "lapsed_rows now s")
    case Nil
    then show ?thesis using t by simp
  next
    case (Cons x xs)
    then have x: "lapsed_rows now s = [x]" using len by simp
    then obtain k r a u where "goal_at s k = Some r" "g_lease r = Some (a, u)" "x = (g_doc r, a)"
      using lapsed_row [OF ok, of x now] by auto
    then show ?thesis using t x recover_one_grows [OF s] rows_ok_keys(1) [OF ok] by auto
  qed
  then show "grows s t" by blast
  assume r: "goal_at s k = Some r" "g_lease r = Some (a, u)" "u < now"
  then have "(k, r) \<in> set (goals_tbl s)" using ok by (simp add: rows_ok_def dict_ok_def goal_at_def)
  then have "r \<in> set (dict_values (goals_tbl s))" by force
  then have "(g_doc r, a) \<in> set (lapsed_rows now s)"
    using r by (force simp: lapsed_rows_def lapsed_def)
  then show "run_charged k a s t" using * rows_ok_keys(1) [OF ok r(1)] by auto
qed

lemma reconcile_grows:
  assumes s: "pursuit_ok env X s" and t: "reconcile env clk s = Inr t"
  shows "grows s t" "goal_at s k = Some r \<Longrightarrow> g_lease r = Some (a, u) \<Longrightarrow> u < db_now clk \<Longrightarrow> run_charged k a s t"
proof -
  obtain v where v: "fold_result (recover_one env clk) (lapsed_rows (db_now clk) s) s = Inr v" "wake_all env clk v = Inr t"
    using t by (auto simp: reconcile_def)
  have "keeps env X v" using recover_all_ok [OF s v(1)] by (simp add: pursuit_ok_def)
  then have q: "quiet v t" using wake_all_keeps [OF _ v(2)] by blast
  note r = recover_all_grows [OF s v(1)]
  show "grows s t" using grows_trans [OF r(1) quiet_grows [OF q]] .
  show "goal_at s k = Some r \<Longrightarrow> g_lease r = Some (a, u) \<Longrightarrow> u < db_now clk \<Longrightarrow> run_charged k a s t" using run_charged_later [OF r(2) quiet_grows [OF q] quiet_spent [OF q]] .
qed

lemma claim_after_reconcile:
  assumes s: "pursuit_ok env X s" and en: "store_enabled s" and s1: "reconcile env clk s = Inr s1"
    and t: "claim env clk a s = Inr (res, t)"
  shows "grows s1 t \<and> spent_at t = spent_at s1"
proof -
  have rest: "(if docs (\<lambda>r. g_lease r \<noteq> None) s1 \<noteq> [] then Inr (None, s1)
      else (case sweep env clk MAX_CEILING_SWEEP 0 s1 of
          (None, s2) \<Rightarrow> Inr (None, s2)
        | (Some g, s2) \<Rightarrow> map_sum id (\<lambda>(g', s3). (Some g', s3)) (dispatch clk a g s2))) = Inr (res, t)"
    using t en s1 by (simp add: claim_def)
  show ?thesis
  proof (cases "docs (\<lambda>r. g_lease r \<noteq> None) s1 = []")
    case False
    then show ?thesis using rest by simp
  next
    case nolease: True
    obtain o2 s2 where s2: "sweep env clk MAX_CEILING_SWEEP 0 s1 = (o2, s2)" by (metis surj_pair)
    have "keeps env X s1" using reconcile_ok [OF s s1] by (simp add: pursuit_ok_def)
    note sw = sweep_ok [OF this s2]
    have g2: "grows s1 s2 \<and> spent_at s2 = spent_at s1" using quiet_grows quiet_spent sw by blast
    show ?thesis
    proof (cases o2)
      case None
      then show ?thesis using rest nolease s2 g2 by simp
    next
      case (Some g0)
      then obtain g where d: "dispatch clk a g0 s2 = Inr (g, t)" using rest nolease s2 by auto
      have "attempts_tbl (set_lease (goal_id (dispatched g0)) (Some (a, db_now clk + LEASE)) (save (dispatched g0) s2)) = attempts_tbl s2"
        by (metis fst_conv others_def others_frames(2,3))
      then have a: "dict_get (attempts_tbl s2) a = None" "attempts_tbl t = dict_set a (new_attempt (goal_id (dispatched g0))) (attempts_tbl s2)"
        using d by (auto simp: dispatch_def Let_def goal_journal_def put_attempt_def split: if_splits)
      have "used_at t k \<noteq> None" if "used_at s2 k \<noteq> None" for k
        using that d by (auto simp: dispatch_def Let_def used_at_def split: if_splits)
      then have "grows s2 t" using put_grows [OF a(2)] a(1) by simp
      moreover have "spent_at t = spent_at s2"
      proof -
        have ks2: "keeps env X s2" using sw by blast
        obtain jj rr where "next_ready env (db_tick clk jj) s2 = Some rr" "g_doc rr = g0" using sw Some by blast
        then have "goal_at s2 (goal_id (dispatched g0)) = Some rr" "g_doc rr = g0"
          using next_ready_row(1) [OF keeps_rows [OF ks2]] by (auto simp: dispatched_def)
        then show ?thesis using d spent_at_save [of s2 "dispatched g0" rr]
          by (auto simp: dispatch_def Let_def dispatched_def spent_at_def fun_eq_iff split: if_splits)
      qed
      ultimately show ?thesis using grows_trans g2 by metis
    qed
  qed
qed

lemma claim_good:
  assumes s: "pursuit_ok env X s" and t: "claim env clk a s = Inr (res, t)"
  shows "step_good env X s t"
proof -
  have "grows s t"
  proof (cases "store_enabled s")
    case False
    then show ?thesis using t by (simp add: claim_def)
  next
    case True
    then obtain s1 where s1: "reconcile env clk s = Inr s1" using t by (auto simp: claim_def)
    show ?thesis by (rule grows_trans [OF reconcile_grows(1) [OF s s1] claim_after_reconcile [OF s True s1 t, THEN conjunct1]])
  qed
  then show ?thesis using claim_cases [OF s t] by (simp add: step_good_def)
qed

lemma running_put_grows:
  assumes "running_usage a s = Some w" "attempts_tbl t = dict_set a w' (attempts_tbl s)" "goals_tbl t = goals_tbl s"
  shows "grows s t"
  by (rule put_grows [OF assms(2)]) (use running_get [OF assms(1)] assms(3) in \<open>auto simp: used_at_def goal_at_def\<close>)

lemma raise_usage_grows: "grows s (raise_usage a n c s)"
proof (cases "running_usage a s")
  case (Some w)
  show ?thesis unfolding raise_usage_def Some option.case
    by (rule running_put_grows [OF Some]) (simp_all add: put_attempt_def)
qed (simp add: raise_usage_def)

lemma set_lease_grows: "grows s (set_lease k l s)"
proof -
  have "attempts_tbl (set_lease k l s) = attempts_tbl s" by (metis fst_conv others_def others_frames(3))
  then show ?thesis by (simp add: grows_def)
qed

lemma beat_good:
  assumes s: "pursuit_ok env X s"
  shows "step_good env X s (snd (heartbeat clk k a tokens cost s))"
proof -
  obtain b t where t: "heartbeat clk k a tokens cost s = (b, t)" by (metis surj_pair)
  have "t = s \<or> (\<exists>l. t = set_lease k l s \<or> (\<exists>n c. t = raise_usage a n c (set_lease k l s)))"
    using t by (auto simp: heartbeat_def Let_def split: option.splits if_splits)
  then have "grows s t" using set_lease_grows raise_usage_grows grows_trans grows_refl by metis
  then show ?thesis using heartbeat_ok [OF s t] t by (simp add: step_good_def)
qed

lemma finish_good:
  assumes s: "pursuit_ok env X s" and t: "finish env clk k a e s = Inr t"
  shows "step_good env X s t"
proof -
  have "grows s t"
  proof (cases "t = s")
    case False
    from t False obtain r where r: "goal_at s k = Some r" "holds a r"
      by (auto simp: finish_def split: option.splits if_splits)
    have ks: "keeps env X s" and bs: "books s" using s by (simp_all add: pursuit_ok_def)
    have h: "holder s k = Some a" using r holds_holder by blast
    let ?g = "finished_doc env clk e (g_doc r)"
    obtain s1 s2 where s1: "charge_parent env (max 0 (re_tokens e)) (usd_max (Usd 0) (re_cost e)) (g_doc r) s = Inr s1"
      and s2: "(if status (g_doc r) \<noteq> Blocked \<and> status ?g = Blocked then wake_parent env clk ?g s1 else Inr s1) = Inr s2"
      and t': "t = goal_journal (db_now clk) ?g RunFinished ''engine''
        (close_attempt a e (set_lease k None (save ?g s2)))"
      using finish_row [OF r t] by blast
    note c = charge_parent_frame [OF ks r(1) s1]
    have par: "parent_goal_id ?g = parent_goal_id (g_doc r)"
      using finished_doc_frame(1) [of "g_doc r" env clk e] by (simp add: benign_def same_goal_def)
    have m: "quiet s1 s2" using s2 wake_parent_keeps [OF c(1,2) par] by (auto split: if_splits)
    obtain w where w: "running_usage a s = Some w" using running_of_holder [OF bs h] by blast
    define s3 where "s3 = set_lease k None (save ?g s2)"
    have "others s3 = others s" using m c(5) by (simp add: s3_def quiet_def)
    then have at: "attempts_tbl s3 = attempts_tbl s" by (simp add: others_def)
    have "used_at s3 j \<noteq> None" if "used_at s j \<noteq> None" for j
    proof -
      have "used_at s2 j \<noteq> None" using that c(6) core_parts(3) [of s2 s1] m by (simp add: quiet_def)
      then show ?thesis by (auto simp: s3_def used_at_def)
    qed
    moreover have "\<exists>w'. attempts_tbl t = dict_set a w' (attempts_tbl s) \<and> used_at t = used_at s3"
      using running_get [OF w] at unfolding t' s3_def [symmetric]
      by (auto simp: close_attempt_def goal_journal_def put_attempt_def used_at_def goal_at_def fun_eq_iff)
    ultimately show ?thesis using put_grows running_get [OF w] by (metis option.inject)
  qed simp
  then show ?thesis using finish_ok [OF s t] by (simp add: step_good_def)
qed

lemma spend_good:
  assumes s: "pursuit_ok env X s"
  shows "reserve_provider_usage env clk k a n s = Inr t \<Longrightarrow> step_good env X s t"
    "durable_reserve env clk k a s call n = Inr t \<Longrightarrow> step_good env X s t"
    "durable_settle clk k a s call v = Inr (over, t) \<Longrightarrow> step_good env X s t"
proof -
  assume t: "reserve_provider_usage env clk k a n s = Inr t"
  then obtain w where "running_usage a s = Some w" "t = put_attempt a (w\<lparr>at_tokens := max (at_tokens w) n\<rparr>) s"
    by (auto simp: reserve_provider_usage_def split: option.splits)
  then have "grows s t" by (auto intro: running_put_grows simp: put_attempt_def)
  then show "step_good env X s t" using usage_ok [OF s t] by (simp add: step_good_def)
next
  assume t: "durable_reserve env clk k a s call n = Inr t"
  then obtain w where "running_usage a s = Some w" "\<exists>w'. attempts_tbl t = dict_set a w' (attempts_tbl s)" "goals_tbl t = goals_tbl s"
    by (elim durable_reserve_Inr) (auto simp: put_attempt_def)
  then have "grows s t" using running_put_grows by blast
  then show "step_good env X s t" using reserve_ok [OF s t] by (simp add: step_good_def)
next
  assume t: "durable_settle clk k a s call v = Inr (over, t)"
  then have "t = s \<or> (\<exists>w w'. running_usage a s = Some w \<and> attempts_tbl t = dict_set a w' (attempts_tbl s) \<and> goals_tbl t = goals_tbl s)"
    by (elim durable_settle_Inr) (auto simp: put_attempt_def)
  then have "grows s t" using running_put_grows by auto
  then show "step_good env X s t" using settle_ok [OF s t] by (simp add: step_good_def)
qed

lemma pursuit_step_good:
  assumes c: "canonical env" "canonical_cmd env x" "misnames env x \<subseteq> X" and s: "pursuit_ok env X s" and t: "pursuit_step env s x = Inr t"
  shows "step_good env X s t"
proof (cases x)
  case (PEnable v)
  then show ?thesis using t by (intro same_tables_good [OF s]) (auto simp: set_enabled_def)
next
  case (PCreate clk new raw actor)
  then show ?thesis using t c create_good [OF s c(1)] by auto
next
  case (PUpdate clk bound excluded operator actor gid u)
  then have gid: "parse_uuid env gid = Some k \<Longrightarrow> k = gid \<or> k \<in> X" for k using c(3) by (auto split: if_splits)
  obtain g where "update_goal env clk bound excluded operator actor gid u s = Inr (g, t)" using t PUpdate by auto
  from update_good [OF s gid this] show ?thesis .
next
  case (PAdopt clk new tasks task actor)
  then show ?thesis using t c adopt_good [OF s c(1)] by auto
next
  case (PEvent created ident ty payload)
  then show ?thesis using t by (intro same_tables_good [OF s]) (auto simp: ingest_event_def)
next
  case (PPrune now)
  then show ?thesis using t by (intro same_tables_good [OF s]) (auto simp: prune_def)
next
  case (PClaim clk a)
  then show ?thesis using t claim_good [OF s] by auto
next
  case (PBeat clk k a tokens cost)
  then show ?thesis using t beat_good [OF s] by auto
next
  case (PFinish clk k a e)
  then show ?thesis using t finish_good [OF s] by auto
next
  case (PUsage clk k a n)
  then show ?thesis using t spend_good(1) [OF s] by auto
next
  case (PReserve clk k a call n)
  then show ?thesis using t spend_good(2) [OF s] by auto
next
  case (PSettle clk k a call v)
  then show ?thesis using t spend_good(3) [OF s] by auto
next
  case (PEffects ef)
  then show ?thesis using t by (intro same_tables_good [OF s]) auto
qed

interpretation pursuit_run: guarded_machine "pursuit_step env" "pursuit_ok env X" grows
  "\<lambda>c. canonical env \<and> canonical_cmd env c \<and> misnames env c \<subseteq> X"
  for env :: "'a pursuit_env_scheme" and X :: "string set"
  by unfold_locales (blast dest: pursuit_step_good [unfolded step_good_def] intro: grows_trans grows_refl)+

text \<open>The states some history of commands leads to.\<close>

definition history_state :: "('a pursuit_env_scheme) \<Rightarrow> pursuit_cmd list \<Rightarrow> gstore" where
  "history_state env cs = exec_all (pursuit_step env) empty_gstore cs"

lemma history_keeps:
  assumes "canonical env" "list_all (canonical_cmd env) cs" "misnamed env cs \<subseteq> X"
  shows "pursuit_ok env X (history_state env cs)"
  unfolding history_state_def
  by (rule pursuit_run.run_inv [OF empty_ok]) (use assms in \<open>auto simp: list_all_iff misnamed_def\<close>)

lemma history_ok:
  "canonical env \<Longrightarrow> list_all (canonical_cmd env) cs \<Longrightarrow> pursuit_ok env UNIV (history_state env cs)"
  by (rule history_keeps) simp_all

lemma history_grows:
  assumes "canonical env" "list_all (canonical_cmd env) cs" "pursuit_ok env UNIV s"
  shows "grows s (exec_all (pursuit_step env) s cs)"
  by (rule pursuit_run.run_rel [OF assms(3)]) (use assms in \<open>simp add: list_all_iff\<close>)

section \<open>Properties of every history\<close>

text \<open>
  C8: families of goals are one level deep, and a goal that is complete or canceled has no
  unfinished child, whatever creations, updates, pauses, runs and recoveries made the tables; only
  the family of a goal that some update named by another spelling of its id may differ.
\<close>

theorem goal_families_settled:
  assumes "canonical env" "list_all (canonical_cmd env) cs"
    and "goal_at (history_state env cs) k = Some r" "parent_goal_id (g_doc r) = Some p"
  shows "\<exists>q. goal_at (history_state env cs) p = Some q \<and> parent_goal_id (g_doc q) = None \<and>
    kind (g_doc r) = Short \<and> kind (g_doc q) = Long \<and>
    (status (g_doc q) \<in> {Complete, Canceled} \<longrightarrow> status (g_doc r) \<in> {Complete, Canceled} \<or>
       (\<exists>clk bound excluded operator actor gid u.
          PUpdate clk bound excluded operator actor gid u \<in> set cs \<and> parse_uuid env gid = Some p \<and> gid \<noteq> p))"
proof -
  have ok: "rows_ok env (history_state env cs)" and st: "settled_but (misnamed env cs) (history_state env cs)"
    using history_keeps [OF assms(1,2) subset_refl] by (simp_all add: pursuit_ok_def keeps_def)
  obtain q where q: "goal_at (history_state env cs) p = Some q" "kind (g_doc q) = Long"
    "parent_goal_id (g_doc q) = None" "kind (g_doc r) = Short"
    using parent_row [OF ok assms(3,4)] by metis
  have "status (g_doc r) \<in> TERMINAL" if "closed_family (g_doc q)" "p \<notin> misnamed env cs"
    using st q(1) that assms(3,4) by (auto simp: settled_but_def children_done_def)
  moreover have "status (g_doc q) \<in> {Complete, Canceled} \<Longrightarrow> closed_family (g_doc q)"
    by (auto simp: closed_family_def TERMINAL_def)
  ultimately show ?thesis using q misnamedD [of p env cs] unfolding TERMINAL_def by blast
qed

text \<open>
  C7: every token is charged exactly once. In every history a goal has used the sum of what its own
  closed attempts and those of its children were charged, nothing from a running attempt, and
  nothing twice.
\<close>

theorem tokens_charged_once:
  assumes "canonical env" "list_all (canonical_cmd env) cs" "goal_at (history_state env cs) k = Some r"
  shows "tokens_used (g_doc r) = sum_list (map (\<lambda>(a, w).
      if at_status w \<noteq> AttemptRunning \<and> (at_goal w = k \<or> par_at (history_state env cs) (at_goal w) = Some k)
      then max 0 (at_tokens w) else 0) (attempts_tbl (history_state env cs)))"
proof -
  have "tokens_ok (history_state env cs)" using history_ok [OF assms(1,2)] by (simp add: pursuit_ok_def books_def)
  moreover have "used_at (history_state env cs) k = Some (tokens_used (g_doc r))" using assms(3) by (simp add: used_at_def)
  moreover have eq: "(\<lambda>(a, w). if at_status w \<noteq> AttemptRunning \<and> (at_goal w = k \<or> par_at (history_state env cs) (at_goal w) = Some k)
      then max 0 (at_tokens w) else 0) = counts (par_at (history_state env cs)) k \<circ> snd"
    by (auto simp: counts_def fun_eq_iff)
  ultimately show ?thesis unfolding eq by (simp add: tokens_ok_def closed_tokens_def)
qed

text \<open>
  C9: at most one goal of a tenant is leased, and an attempt is running exactly when its goal is
  leased to it.
\<close>

theorem one_coordinator:
  assumes "canonical env" "list_all (canonical_cmd env) cs"
  shows "(holder (history_state env cs) j \<noteq> None \<and> holder (history_state env cs) k \<noteq> None \<longrightarrow> j = k) \<and>
    (holder (history_state env cs) k = Some a \<longleftrightarrow>
      (\<exists>w. running_usage a (history_state env cs) = Some w \<and> at_goal w = k))"
proof -
  have "lease_ok (history_state env cs)" using history_ok [OF assms] by (simp add: pursuit_ok_def books_def)
  then show ?thesis unfolding lease_ok_def by blast
qed

section \<open>Dispatch\<close>

lemma ahead_total: "\<not> ahead env a b \<Longrightarrow> \<not> ahead env b c \<Longrightarrow> \<not> ahead env a c"
  by (auto simp: ahead_def split: if_splits)

lemma ahead_asym: "ahead env a b \<Longrightarrow> \<not> ahead env b a"
  by (auto simp: ahead_def split: if_splits)

lemma foremost_first: "foremost env rs = Some r \<Longrightarrow> q \<in> set rs \<Longrightarrow> \<not> ahead env q r"
proof (induction rs arbitrary: r q)
  case (Cons x rs)
  show ?case
  proof (cases "foremost env rs")
    case None
    then show ?thesis using Cons.prems ahead_asym [of env x x] by auto
  next
    case (Some y)
    have IH: "\<not> ahead env z y" if "z \<in> set rs" for z using Cons.IH [OF Some that] .
    have irr: "\<not> ahead env z z" for z using ahead_asym by blast
    show ?thesis
    proof (cases "ahead env y x")
      case True
      then have "r = y" using Cons.prems Some by simp
      then show ?thesis using Cons.prems(2) IH ahead_asym [OF True] by auto
    next
      case False
      then have "r = x" using Cons.prems Some by simp
      then show ?thesis using Cons.prems(2) IH irr ahead_total [OF _ False] by auto
    qed
  qed
qed simp

text \<open>
  C10: what a claim dispatches is running under a fresh ninety-second lease with a new attempt, and
  it was rightly chosen: pursuit is enabled, it was queued or waiting and due, below all four
  ceilings, its parent is not inactive, no other goal is leased, and no goal left ready comes
  before it.
\<close>

theorem dispatch_sound:
  assumes "canonical env" "list_all (canonical_cmd env) cs"
    and "claim env clk a (history_state env cs) = Inr (Some g, t)"
  shows "store_enabled (history_state env cs) \<and> status g = Running \<and>
    dict_get (attempts_tbl t) a = Some (new_attempt (goal_id g)) \<and>
    (\<forall>k. holder t k = (if k = goal_id g then Some a else None)) \<and> \<not> inactive_parent t g \<and>
    (\<exists>j < MAX_CEILING_SWEEP. \<exists>r. g = dispatched (g_doc r) \<and> status (g_doc r) \<in> {Queued, Waiting} \<and>
       g_ready r \<le> db_tick clk j \<and> exceeded (py_tick clk j) (g_doc r) = None \<and>
       (\<forall>k q. k \<noteq> goal_id g \<longrightarrow> goal_at t k = Some q \<longrightarrow> claimable (db_tick clk j) t q \<longrightarrow> \<not> ahead env q r))"
proof -
  let ?s = "history_state env cs"
  have s: "pursuit_ok env UNIV ?s" by (rule history_ok [OF assms(1,2)])
  from claim_cases [OF s assms(3)] obtain s1 s2 j r where en: "store_enabled ?s" and
    p2: "pursuit_ok env UNIV s2" and free: "\<forall>k. holder s2 k = None" and j: "j < MAX_CEILING_SWEEP"
    "next_ready env (db_tick clk j) s2 = Some r" "exceeded (py_tick clk j) (g_doc r) = None"
    and d: "dispatch clk a (g_doc r) s2 = Inr (g, t)" and pt: "pursuit_ok env UNIV t" by auto
  have k2: "rows_ok env s2" using p2 by (simp add: pursuit_ok_def keeps_def)
  note n = next_ready_row [OF k2 j(2)]
  have fr: "\<And>k. holder s2 k = None" using free by blast
  note dd = dispatch_ok [OF p2 fr j(2) d]
  have upd: "goal_at t k = (if k = goal_id g then Some ((row_of g r)\<lparr>g_lease := Some (a, db_now clk + LEASE)\<rparr>) else goal_at s2 k)" for k
    using d dd(2,4,5) by (auto simp: dispatch_def Let_def split: if_splits)
  have st: "status g = Running" "parent_goal_id g = parent_goal_id (g_doc r)" using dd(2) by (simp_all add: dispatched_def)
  have act: "inactive_parent t h = inactive_parent s2 h" for h
  proof -
    have c1: "g_status r \<in> {Queued, Waiting}" using n(2) by (simp add: claimable_def)
    show ?thesis using n(1) c1 dd(5) st(1)
      by (auto simp: inactive_parent_def upd INACTIVE_def TERMINAL_def split: option.split)
  qed
  have cl: "\<not> inactive_parent s2 (g_doc r)" "g_ready r \<le> db_tick clk j" using n(2) by (simp_all add: claimable_def)
  have first: "\<not> ahead env q r" if q: "k \<noteq> goal_id g" "goal_at t k = Some q" "claimable (db_tick clk j) t q" for k q
  proof -
    have q2: "goal_at s2 k = Some q" using q upd by simp
    then have "(k, q) \<in> set (goals_tbl s2)" using k2 by (simp add: rows_ok_def dict_ok_def goal_at_def)
    then have "q \<in> set (dict_values (goals_tbl s2))" by force
    moreover have "claimable (db_tick clk j) s2 q" using q(3) act by (simp add: claimable_def)
    ultimately show ?thesis using foremost_first [of env _ r q] j(2) by (simp add: next_ready_def)
  qed
  have hold: "holder t k = (if k = goal_id g then Some a else None)" for k
    using fr [of k] by (simp add: holder_def upd)
  have "\<not> inactive_parent t g" using cl(1) act st(2) by (simp add: inactive_parent_def)
  then show ?thesis using en st dd(6) hold j(1,3) dd(2) n(3) cl(2) first by blast
qed

text \<open>The goals that were ready to be claimed in one state and are blocked in another.\<close>

definition ceiling_blocked :: "gstore \<Rightarrow> gstore \<Rightarrow> string set" where
  "ceiling_blocked s t =
     {k. (\<exists>r. goal_at s k = Some r \<and> status (g_doc r) \<in> {Queued, Waiting}) \<and>
         (\<exists>q. goal_at t k = Some q \<and> status (g_doc q) = Blocked)}"

lemma finite_goals: "finite {k. goal_at s k \<noteq> None}"
proof -
  have "{k. goal_at s k \<noteq> None} = dom (dict_get (goals_tbl s))" by (auto simp: goal_at_def)
  then show ?thesis by (simp add: finite_dom_map_of)
qed

lemma block_at_row:
  "goal_at (block_at env clk c g s) k =
     (if k = goal_id g then map_option (row_of (g\<lparr>status := Blocked, blocker := ceiling_text env c g, version := version g + 1\<rparr>)) (goal_at s k)
      else goal_at s k)"
  by (simp add: block_at_def Let_def)

lemma sweep_blocked:
  "goal_at s k = Some q \<Longrightarrow> status (g_doc q) = Blocked \<Longrightarrow> sweep env clk n i s = (res, t) \<Longrightarrow>
   \<exists>q'. goal_at t k = Some q' \<and> status (g_doc q') = Blocked"
proof (induction n arbitrary: i s q)
  case (Suc n)
  show ?case
  proof (cases "next_ready env (db_tick clk i) s")
    case None
    then show ?thesis using Suc.prems by simp
  next
    case (Some r)
    show ?thesis
    proof (cases "exceeded (py_tick clk i) (g_doc r)")
      case None
      then show ?thesis using Suc.prems Some by simp
    next
      case ex: (Some c)
      have "\<exists>q'. goal_at (block_at env clk c (g_doc r) s) k = Some q' \<and> status (g_doc q') = Blocked"
        using Suc.prems(1,2) by (auto simp: block_at_row)
      then show ?thesis using Suc.IH Suc.prems(3) Some ex by fastforce
    qed
  qed
qed simp

lemma sweep_idle:
  assumes "keeps env UNIV s" "sweep env clk n i s = (None, t)"
  shows "(\<exists>j < i + n. next_ready env (db_tick clk j) t = None) \<or> n \<le> card (ceiling_blocked s t)"
  using assms
proof (induction n arbitrary: i s)
  case (Suc n)
  show ?case
  proof (cases "next_ready env (db_tick clk i) s")
    case None
    then show ?thesis using Suc.prems by (intro disjI1 exI [of _ i]) auto
  next
    case (Some r)
    then obtain c where c: "exceeded (py_tick clk i) (g_doc r) = Some c"
      using Suc.prems(2) by (cases "exceeded (py_tick clk i) (g_doc r)") auto
    let ?m = "block_at env clk c (g_doc r) s" and ?k = "goal_id (g_doc r)"
    have st: "sweep env clk n (Suc i) ?m = (None, t)" using Suc.prems(2) Some c by simp
    note n = next_ready_row [OF keeps_rows [OF Suc.prems(1)] Some]
    have m: "\<exists>q. goal_at ?m ?k = Some q \<and> status (g_doc q) = Blocked" using n(1) by (simp add: block_at_row)
    then have "\<exists>q. goal_at t ?k = Some q \<and> status (g_doc q) = Blocked" using sweep_blocked [OF _ _ st] by blast
    then have k: "?k \<in> ceiling_blocked s t" using n(1,3) unfolding ceiling_blocked_def by blast
    have nk: "?k \<notin> ceiling_blocked ?m t" using m by (auto simp: ceiling_blocked_def)
    have sub: "insert ?k (ceiling_blocked ?m t) \<subseteq> ceiling_blocked s t"
      using k nk by (auto simp: ceiling_blocked_def block_at_row split: if_splits)
    have fin: "finite (ceiling_blocked s t)"
      by (rule finite_subset [OF _ finite_goals [of s]]) (auto simp: ceiling_blocked_def)
    have "(\<exists>j < Suc i + n. next_ready env (db_tick clk j) t = None) \<or> n \<le> card (ceiling_blocked ?m t)"
      by (rule Suc.IH [OF block_at_keeps(1) [OF Suc.prems(1) Some] st])
    moreover have "Suc n \<le> card (ceiling_blocked s t)" if "n \<le> card (ceiling_blocked ?m t)"
    proof -
      have "Suc (card (ceiling_blocked ?m t)) = card (insert ?k (ceiling_blocked ?m t))"
        using nk finite_subset [OF sub fin] by simp
      also have "\<dots> \<le> card (ceiling_blocked s t)" by (rule card_mono [OF fin sub])
      finally show ?thesis using that by simp
    qed
    ultimately show ?thesis by auto
  qed
qed simp

lemma docs_some:
  assumes "rows_ok env s" "docs P s \<noteq> []"
  shows "\<exists>k r. goal_at s k = Some r \<and> P r"
proof -
  obtain g gs where "docs P s = g # gs" using assms(2) by (cases "docs P s") auto
  then have "g \<in> set (docs P s)" by simp
  then show ?thesis unfolding docs_mem [OF assms(1)] by blast
qed

text \<open>
  C14: a claim never idles while work is ready. When pursuit is enabled and a claim dispatches
  nothing, a goal is leased, or no goal was ready at some reading of the clock after everything
  the claim did, or it found fifty goals at a ceiling and blocked them all.
\<close>

theorem claim_idle:
  assumes "canonical env" "list_all (canonical_cmd env) cs" "store_enabled (history_state env cs)"
    and "claim env clk a (history_state env cs) = Inr (None, t)"
  shows "(\<exists>k. holder t k \<noteq> None) \<or> (\<exists>j < 50. next_ready env (db_tick clk j) t = None) \<or>
    (\<exists>s1. reconcile env clk (history_state env cs) = Inr s1 \<and> 50 \<le> card (ceiling_blocked s1 t))"
proof -
  let ?s = "history_state env cs"
  have s: "pursuit_ok env UNIV ?s" by (rule history_ok [OF assms(1,2)])
  obtain s1 where s1: "reconcile env clk ?s = Inr s1" and
    rest: "(if docs (\<lambda>r. g_lease r \<noteq> None) s1 \<noteq> [] then Inr (None, s1)
        else (case sweep env clk MAX_CEILING_SWEEP 0 s1 of
            (None, s2) \<Rightarrow> Inr (None, s2)
          | (Some g, s2) \<Rightarrow> map_sum id (\<lambda>(g', s3). (Some g', s3)) (dispatch clk a g s2))) = (Inr (None, t) :: (goal option \<times> gstore) result)"
    using assms(3,4) by (auto simp: claim_def)
  have k1: "keeps env UNIV s1" using reconcile_ok [OF s s1] by (simp add: pursuit_ok_def)
  show ?thesis
  proof (cases "docs (\<lambda>r. g_lease r \<noteq> None) s1 = []")
    case False
    then have t: "t = s1" using rest by simp
    obtain k r where "goal_at s1 k = Some r" "g_lease r \<noteq> None"
      using docs_some [OF keeps_rows [OF k1] False] by blast
    then have "holder t k \<noteq> None" unfolding t by (simp add: holder_def)
    then show ?thesis by blast
  next
    case True
    have "sweep env clk MAX_CEILING_SWEEP 0 s1 = (None, t)"
      using rest True by (auto split: prod.splits option.splits)
    from sweep_idle [OF k1 this] s1 show ?thesis by (auto simp: MAX_CEILING_SWEEP_def)
  qed
qed

section \<open>Workers that lost their lease\<close>

lemma closed_not_held:
  assumes "books s" "dict_get (attempts_tbl s) a = Some w" "at_status w \<noteq> AttemptRunning"
  shows "holder s k \<noteq> Some a" "running_usage a s = None"
proof -
  show "running_usage a s = None" using assms(2,3) by (simp add: running_usage_def)
  then show "holder s k \<noteq> Some a" using running_of_holder [OF assms(1)] by fastforce
qed

text \<open>
  C11: a closed attempt stays closed. Whatever happens after an attempt finished, failed or was
  interrupted, its row never changes again, and its worker can do nothing: the heartbeat is
  refused, a late \<open>finish\<close> changes nothing, no provider request is admitted and no tool.
\<close>

theorem stale_worker_fenced:
  assumes "canonical env" "list_all (canonical_cmd env) (cs @ ds)"
    and "dict_get (attempts_tbl (history_state env cs)) a = Some w" "at_status w \<noteq> AttemptRunning"
  shows "dict_get (attempts_tbl (history_state env (cs @ ds))) a = Some w \<and>
    heartbeat clk k a n c (history_state env (cs @ ds)) = (False, history_state env (cs @ ds)) \<and>
    finish env clk k a e (history_state env (cs @ ds)) = Inr (history_state env (cs @ ds)) \<and>
    (\<exists>x. reserve_provider_usage env clk k a m (history_state env (cs @ ds)) = Inl x) \<and>
    (\<exists>x. durable_reserve env clk k a (history_state env (cs @ ds)) call m = Inl x) \<and>
    (\<exists>x. admit_tool k a name ro act hit (history_state env (cs @ ds)) = Inl x)"
proof -
  let ?s = "history_state env (cs @ ds)"
  have ok: "pursuit_ok env UNIV ?s" by (rule history_ok [OF assms(1,2)])
  have "?s = exec_all (pursuit_step env) (history_state env cs) ds"
    by (simp add: history_state_def exec_all_append)
  moreover have "pursuit_ok env UNIV (history_state env cs)" by (rule history_ok [OF assms(1)]) (use assms(2) in simp)
  ultimately have "grows (history_state env cs) ?s"
    using history_grows [OF assms(1), of ds] assms(2) by simp
  then have w: "dict_get (attempts_tbl ?s) a = Some w" using assms(3,4) by (simp add: grows_def)
  have b: "books ?s" using ok by (simp add: pursuit_ok_def)
  note h = closed_not_held [OF b w assms(4)]
  have held: "\<not> holds a r" "\<not> live_lease now a r" if "goal_at ?s k = Some r" for r now
  proof -
    show "\<not> holds a r" using holds_holder [OF that, of a] h(1) by simp
    then show "\<not> live_lease now a r" by (auto simp: holds_def live_lease_def split: option.splits)
  qed
  have "heartbeat clk k a n c ?s = (False, ?s)" "finish env clk k a e ?s = Inr ?s"
    using held by (auto simp: heartbeat_def finish_def split: option.split)
  moreover have "\<exists>x. reserve_provider_usage env clk k a m ?s = Inl x" "\<exists>x. admit_tool k a name ro act hit ?s = Inl x"
    using held by (auto simp: reserve_provider_usage_def admit_tool_def guard_def split: option.split)
  moreover have "\<exists>x. durable_reserve env clk k a ?s call m = Inl x"
    by (cases "durable_reserve env clk k a ?s call m") (use h(2) in \<open>auto elim: durable_reserve_Inr\<close>)
  ultimately show ?thesis using w by blast
qed


section \<open>Spending\<close>

lemma family_docs_rows:
  assumes s: "rows_ok env s" and r: "goal_at s k = Some r" and f: "family_docs env (g_doc r) s = Inr fam"
  shows "fam = (case parent_goal_id (g_doc r) of None \<Rightarrow> [g_doc r] | Some p \<Rightarrow> [g_doc r, g_doc (the (goal_at s p))])"
proof (cases "parent_goal_id (g_doc r)")
  case None
  then show ?thesis using f parent_of_row [OF s r] by (simp add: family_docs_def)
next
  case (Some p)
  obtain q where q: "goal_at s p = Some q" using parent_row [OF s r Some] by metis
  then show ?thesis using f parent_of_row [OF s r] Some locked_known [OF s q] by (simp add: family_docs_def)
qed

lemma goal_at_reserved:
  assumes "durable_reserve env clk k a s call n = Inr t"
  shows "goal_at t j = goal_at s j"
  using assms by (elim durable_reserve_Inr) (simp add: goal_at_def put_attempt_def)

text \<open>
  C12: an admitted provider request stays inside the family's token budgets. After a reservation what
  the goal has used plus everything reserved or charged for this attempt, whatever worker
  reserved it, is within the goal's budget and, for a child, within its parent's.
\<close>

theorem family_budget_holds:
  assumes "canonical env" "list_all (canonical_cmd env) cs"
    and "durable_reserve env clk k a (history_state env cs) call n = Inr t"
  shows "\<exists>r. goal_at t k = Some r \<and>
    tokens_used (g_doc r) + reserved_total a (reservations_tbl t) \<le> token_budget_of (g_doc r) \<and>
    (\<forall>p q. parent_goal_id (g_doc r) = Some p \<longrightarrow> goal_at t p = Some q \<longrightarrow>
       status (g_doc q) \<notin> INACTIVE \<and>
       tokens_used (g_doc q) + reserved_total a (reservations_tbl t) \<le> token_budget_of (g_doc q))"
proof -
  let ?s = "history_state env cs"
  have s: "pursuit_ok env UNIV ?s" by (rule history_ok [OF assms(1,2)])
  then have ok: "rows_ok env ?s" by (simp add: pursuit_ok_def keeps_def)
  from assms(3) obtain w r fam where w: "running_usage a ?s = Some w" "goal_at ?s k = Some r"
    "family_docs env (g_doc r) ?s = Inr fam" "list_all (affords (at_tokens w + n)) fam"
    and t: "t = put_attempt a (w\<lparr>at_tokens := at_tokens w + n\<rparr>)
       (?s\<lparr>reservations_tbl := dict_set (a, call) \<lparr>rv_reserved = n, rv_actual = None\<rparr> (reservations_tbl ?s)\<rparr>)"
    by (elim durable_reserve_Inr) blast
  have "ledger_ok t" using reserve_ok [OF s assms(3)] by (simp add: pursuit_ok_def books_def)
  moreover have "running_usage a t = Some (w\<lparr>at_tokens := at_tokens w + n\<rparr>)"
    using running_get [OF w(1)] by (simp add: t running_put)
  ultimately have le: "reserved_total a (reservations_tbl t) \<le> at_tokens w + n" by (fastforce simp: ledger_ok_def)
  note fam = family_docs_rows [OF ok w(2,3)]
  have "goal_at t j = goal_at ?s j" for j by (rule goal_at_reserved [OF assms(3)])
  then show ?thesis using w(2,4) le fam by (auto simp: affords_def split: option.splits)
qed

text \<open>The durable budget keeps the contract of \<open>provider_budget\<close>, over every worker's clock.\<close>

definition attempt_charge :: "string \<Rightarrow> gstore \<Rightarrow> int" where
  "attempt_charge a s = (case running_usage a s of None \<Rightarrow> 0 | Some w \<Rightarrow> at_tokens w)"

definition family_room :: "('a pursuit_env_scheme) \<Rightarrow> string \<Rightarrow> gstore \<Rightarrow> int" where
  "family_room env k s =
     (case goal_at s k of
        None \<Rightarrow> 0
      | Some r \<Rightarrow> (case parent_goal_id (g_doc r) of
            None \<Rightarrow> token_budget_of (g_doc r) - tokens_used (g_doc r)
          | Some p \<Rightarrow> min (token_budget_of (g_doc r) - tokens_used (g_doc r))
              (case goal_at s p of None \<Rightarrow> 0 | Some q \<Rightarrow> token_budget_of (g_doc q) - tokens_used (g_doc q))))"

definition reserved_calls :: "string \<Rightarrow> gstore \<Rightarrow> string set" where
  "reserved_calls a s = {c. dict_get (reservations_tbl s) (a, c) \<noteq> None}"

definition attempt_overran :: "string \<Rightarrow> gstore \<Rightarrow> bool" where
  "attempt_overran a s = (\<exists>c r. dict_get (reservations_tbl s) (a, c) = Some r \<and> overran r)"

lemma reservations_mem:
  assumes "dict_ok (reservations_tbl s)"
  shows "(c, r) \<in> set (reservations_of a s) \<longleftrightarrow> dict_get (reservations_tbl s) (a, c) = Some r"
proof -
  have "(c, r) \<in> set (reservations_of a s) \<longleftrightarrow> ((a, c), r) \<in> set (reservations_tbl s)"
    unfolding reservations_of_def by force
  then show ?thesis using assms by (simp add: dict_ok_def)
qed

lemma reservations_calls:
  assumes "dict_ok (reservations_tbl s)"
  shows "fst ` set (reservations_of a s) = reserved_calls a s"
    "list_ex (\<lambda>(_, r). overran r) (reservations_of a s) \<longleftrightarrow> attempt_overran a s"
proof -
  have *: "x \<in> set (reservations_of a s) \<longleftrightarrow> dict_get (reservations_tbl s) (a, fst x) = Some (snd x)" for x
    using reservations_mem [OF assms, of "fst x" "snd x" a] by simp
  show "fst ` set (reservations_of a s) = reserved_calls a s"
    unfolding reserved_calls_def by (auto simp: image_iff Bex_def *)
  show "list_ex (\<lambda>(_, r). overran r) (reservations_of a s) \<longleftrightarrow> attempt_overran a s"
    unfolding attempt_overran_def list_ex_iff Bex_def by (simp add: *)
qed

lemma room_same:
  assumes "goal_at t = goal_at s"
  shows "family_room env k t = family_room env k s"
  unfolding family_room_def assms ..

lemma durable_reserve_law:
  assumes s: "pursuit_ok env UNIV s" and t: "durable_reserve env clk k a s c n = Inr t"
  shows "pursuit_ok env UNIV t \<and> c \<notin> reserved_calls a s \<and> reserved_calls a t = insert c (reserved_calls a s) \<and>
    attempt_charge a t = attempt_charge a s + n \<and> attempt_charge a t \<le> family_room env k t \<and>
    family_room env k t = family_room env k s \<and> \<not> attempt_overran a s \<and> \<not> attempt_overran a t"
proof -
  have ok: "rows_ok env s" and d: "dict_ok (reservations_tbl s)"
    using s by (simp_all add: pursuit_ok_def keeps_def books_def ledger_ok_def)
  from t obtain w r fam where w: "running_usage a s = Some w" "goal_at s k = Some r"
    "c \<notin> fst ` set (reservations_of a s)" "\<not> list_ex (\<lambda>(_, r). overran r) (reservations_of a s)"
    "family_docs env (g_doc r) s = Inr fam" "list_all (affords (at_tokens w + n)) fam"
    and t': "t = put_attempt a (w\<lparr>at_tokens := at_tokens w + n\<rparr>)
       (s\<lparr>reservations_tbl := dict_set (a, c) \<lparr>rv_reserved = n, rv_actual = None\<rparr> (reservations_tbl s)\<rparr>)"
    by (elim durable_reserve_Inr) blast
  have rt: "reservations_tbl t = dict_set (a, c) \<lparr>rv_reserved = n, rv_actual = None\<rparr> (reservations_tbl s)"
    by (simp add: t' put_attempt_def)
  have ch: "attempt_charge a s = at_tokens w" "attempt_charge a t = at_tokens w + n"
    using w(1) running_get [OF w(1)] by (simp_all add: attempt_charge_def t' running_put)
  have nc: "c \<notin> reserved_calls a s" "\<not> attempt_overran a s" using w(3,4) reservations_calls [OF d] by auto
  have "reserved_calls a t = insert c (reserved_calls a s)" by (auto simp: reserved_calls_def rt)
  moreover have "\<not> attempt_overran a t"
    using nc(2) by (auto simp: attempt_overran_def rt overran_def split: if_splits)
  moreover have "attempt_charge a t \<le> family_room env k s"
    using w(2,6) family_docs_rows [OF ok w(2,5)] ch(2) parent_row [OF ok w(2)]
    by (fastforce simp: family_room_def affords_def split: option.splits)
  moreover have "family_room env k t = family_room env k s" by (rule room_same) (rule ext, rule goal_at_reserved [OF t])
  ultimately show ?thesis using reserve_ok [OF s t] nc ch by simp
qed

lemma durable_settle_law:
  assumes s: "pursuit_ok env UNIV s" and t: "durable_settle clk k a s c v = Inr (over, t)"
  shows "pursuit_ok env UNIV t \<and> reserved_calls a t = reserved_calls a s \<and> family_room env k t = family_room env k s \<and>
    (attempt_overran a t \<longleftrightarrow> attempt_overran a s \<or> over) \<and> (\<not> over \<longrightarrow> attempt_charge a t \<le> attempt_charge a s)"
  using t
proof (cases rule: durable_settle_Inr)
  case 1
  then show ?thesis using s by simp
next
  case (2 w row r n)
  have rt: "reservations_tbl t = dict_set (a, c) (r\<lparr>rv_actual := Some n\<rparr>) (reservations_tbl s)"
    by (simp add: 2 put_attempt_def)
  have "goal_at t = goal_at s" by (simp add: 2 goal_at_def put_attempt_def fun_eq_iff)
  then have "family_room env k t = family_room env k s" by (rule room_same)
  moreover have "reserved_calls a t = reserved_calls a s" using 2(5) by (auto simp: reserved_calls_def rt)
  moreover have "attempt_overran a t \<longleftrightarrow> attempt_overran a s \<or> over"
  proof -
    let ?rest = "\<exists>e q. e \<noteq> c \<and> dict_get (reservations_tbl s) (a, e) = Some q \<and> overran q"
    have "attempt_overran a t \<longleftrightarrow> overran (r\<lparr>rv_actual := Some n\<rparr>) \<or> ?rest"
      by (auto simp: attempt_overran_def rt split: if_splits)
    moreover have "attempt_overran a s \<longleftrightarrow> overran r \<or> ?rest"
      using 2(5) unfolding attempt_overran_def by (metis option.inject)
    moreover have "\<not> overran r" "overran (r\<lparr>rv_actual := Some n\<rparr>) \<longleftrightarrow> over" using 2(6,9) by (simp_all add: overran_def)
    ultimately show ?thesis by blast
  qed
  moreover have "attempt_charge a s = at_tokens w" "attempt_charge a t = at_tokens w + (n - rv_reserved r)"
    using 2(1) running_get [OF 2(1)] by (simp_all add: attempt_charge_def 2(10) running_put)
  ultimately show ?thesis using settle_ok [OF s t] 2(9) by auto
qed

interpretation durable: provider_budget "\<lambda>clk. durable_reserve env clk k a" "\<lambda>clk. durable_settle clk k a"
  "attempt_charge a" "family_room env k" "reserved_calls a" "attempt_overran a" "pursuit_ok env UNIV"
  for env :: "'a pursuit_env_scheme" and k a
  by unfold_locales (rule durable_reserve_law durable_settle_law; assumption)+

text \<open>
  C13: an overrun is final. Once a request of an attempt was settled above what was reserved for it,
  no request of that attempt is admitted, whatever is reserved or settled in between and
  whichever process asks.
\<close>

theorem durable_overrun_final:
  assumes "canonical env" "list_all (canonical_cmd env) cs"
    and "durable_settle clk k a (history_state env cs) c v = Inr (True, t)"
  shows "\<exists>e. durable_reserve env clk' k a
    (exec_all (budget_step (\<lambda>clk. durable_reserve env clk k a) (\<lambda>clk. durable_settle clk k a)) t ops) d m = Inl e"
  by (rule durable.overrun_final [OF history_ok [OF assms(1,2)] assms(3)])

section \<open>Pausing and resuming a family\<close>

lemma resume_children_row:
  assumes s: "rows_ok env s" and r: "goal_at s k = Some r" "paused_by_parent (g_doc r) = Some gid"
    "status (g_doc r) = Paused"
  shows "goal_at (resume_children clk gid actor s) k = Some (row_of (restored (g_doc r)) r)"
proof -
  let ?cs = "docs (\<lambda>r. paused_by_parent (g_doc r) = Some gid) s"
  have id: "goal_id (g_doc r) = k" using rows_ok_keys [OF s r(1)] by simp
  have ids: "goal_id (restored d) = goal_id d" for d by (simp add: restored_def)
  have mem: "g_doc r \<in> set ?cs" using docs_mem [OF s] r id by auto
  have "goal_at (resume_children clk gid actor s) (goal_id (g_doc r)) =
      map_option (row_of (restored (g_doc r))) (goal_at s (goal_id (g_doc r)))"
    unfolding resume_children_def
    by (rule write_loop_row [where f = restored and Q = "\<lambda>c. status c = Paused", OF docs_distinct [OF s] mem r(3) ids])
  then show ?thesis using r id by simp
qed

lemma after_transition_some:
  assumes "after_transition env bound gid u prior g s = Inr d" "gu_action u \<noteq> Block"
  shows "d \<noteq> None"
proof (cases bound)
  case None
  then show ?thesis using assms by (auto simp: after_transition_def)
next
  case (Some x)
  obtain bg attempt where "x = (bg, attempt)" by (cases x)
  then show ?thesis using assms Some by (auto simp: after_transition_def)
qed

text \<open>What an update that pauses or resumes a goal without a parent does to the other rows.\<close>

lemma family_update:
  assumes s: "keeps env UNIV s" and gid: "parse_uuid env gid = Some gid" and r0: "goal_at s gid = Some r0"
    and top: "parent_goal_id (g_doc r0) = None" and a: "gu_action u \<in> {Pause, Resume}"
    and t: "update_in env clk bound excluded operator actor gid u s = Inr (g, t)"
  shows "\<exists>s3. rows_ok env s3 \<and> (\<forall>j. j \<noteq> gid \<longrightarrow> goal_at s3 j = goal_at s j) \<and>
    t = (if gu_action u = Resume then resume_children clk gid actor s3 else stop_children clk Pause Paused gid actor s3)"
proof -
  note ok = keeps_rows [OF s]
  from t gid r0 obtain s1 g0 d where s1: "before_transition clk excluded operator actor gid (goal_id (g_doc r0)) u s = Inr s1"
    and g0: "transition (py_now clk) operator u (g_doc r0) = Inr g0"
    and d: "after_transition env bound gid u (g_doc r0) g0 s1 = Inr d"
    and rest: "(case d of None \<Rightarrow> Inr (g_doc r0, s1)
       | Some g1 \<Rightarrow> bind_result (edit_links env (goal_id (g_doc r0)) u s1) (\<lambda>s2.
           map_sum id (Pair g1) (commit_update env clk actor gid u (g_doc r0) g1 s2))) = Inr (g, t)"
    by (auto simp: update_in_def goal_locked_Inr)
  have "d \<noteq> None" using after_transition_some [OF d] a by auto
  then obtain g1 where g1: "d = Some g1" by blast
  have al: "alike g0 g1" using after_transition_alike d g1 by blast
  from rest g1 obtain s2 where s2: "edit_links env (goal_id (g_doc r0)) u s1 = Inr s2"
    and c: "commit_update env clk actor gid u (g_doc r0) g1 s2 = Inr t" by auto
  have eq: "goals_tbl s2 = goals_tbl s" using before_transition_frame(1) [OF s1] edit_links_frame(1) [OF s2] by simp
  have k2: "keeps env UNIV s2" by (rule keeps_same_rows [OF s eq])
  have at2: "goal_at s2 j = goal_at s j" for j by (rule goal_at_tables [OF eq])
  have same: "same_goal (g_doc r0) g1" using transition_same [OF g0] al same_goal_trans_alike by blast
  have idg: "goal_id g1 = gid" using same rows_ok_keys [OF ok r0] by (simp add: same_goal_def)
  have par: "parent_of g1 = None" using same top by (simp add: same_goal_def parent_of_def)
  define s3 where "s3 = (if kind (g_doc r0) \<noteq> kind g1
     then goal_journal (db_now clk) g1 Promoted ''engine'' (goal_journal (db_now clk) g1 (Did (gu_action u)) actor (save g1 s2))
     else goal_journal (db_now clk) g1 (Did (gu_action u)) actor (save g1 s2))"
  have "rows_ok env (save g1 s2)" by (rule save_goal_rows [OF keeps_rows [OF k2] _ same]) (simp add: idg at2 r0)
  then have "rows_ok env s3" by (simp add: s3_def rows_ok_def row_ok_def)
  moreover have "goal_at s3 j = goal_at s j" if "j \<noteq> gid" for j using that by (simp add: s3_def idg at2)
  moreover have "tell_parent env clk (gu_note u) g1 s3 = Inr s3" by (simp add: tell_parent_def par)
  then have "t = (if gu_action u = Resume then resume_children clk gid actor s3
       else stop_children clk (gu_action u) (status g1) gid actor s3)"
    using c a by (auto simp: commit_update_def s3_def Let_def split: if_splits)
  moreover have "gu_action u = Pause \<Longrightarrow> status g1 = Paused"
    using transition_status(1) [OF g0] al by (simp add: alike_def)
  ultimately show ?thesis using a by auto
qed

lemma GoalUpdate_action: "GoalUpdate uuid raw = Inr u \<Longrightarrow> gu_action u = gu_action raw"
  by (auto simp: GoalUpdate_def)

text \<open>
  C16: pausing a family and resuming it loses nothing. Every child that was at work when its parent was
  paused is paused with it and gets its own status back when the parent is resumed; a child that
  was running is queued again.
\<close>

theorem pause_resume_roundtrip:
  assumes "canonical env" "list_all (canonical_cmd env) cs" "parse_uuid env gid = Some gid"
    and "goal_at (history_state env cs) k = Some r" "parent_goal_id (g_doc r) = Some gid"
    and "status (g_doc r) \<notin> {Paused, Complete, Canceled}"
    and "update_goal env clk b x o1 who gid u (history_state env cs) = Inr (g, s1)" "gu_action u = Pause"
    and "update_goal env clk' b' x' o2 who' gid u' s1 = Inr (g', s2)" "gu_action u' = Resume"
  shows "\<exists>r1 r2. goal_at s1 k = Some r1 \<and> status (g_doc r1) = Paused \<and> goal_at s2 k = Some r2 \<and>
    status (g_doc r2) = (if status (g_doc r) = Running then Queued else status (g_doc r)) \<and>
    paused_by_parent (g_doc r2) = None"
proof -
  let ?s = "history_state env cs"
  have ks: "keeps env UNIV ?s" using history_ok [OF assms(1,2)] by (simp add: pursuit_ok_def)
  note ok = keeps_rows [OF ks]
  obtain q where q: "goal_at ?s gid = Some q" "parent_goal_id (g_doc q) = None" "gid \<noteq> k"
    using parent_row [OF ok assms(4,5)] by metis
  obtain v where v: "update_in env clk b x o1 who gid v ?s = Inr (g, s1)" "gu_action v = Pause"
    using assms(7,8) GoalUpdate_action by (fastforce simp: update_goal_def)
  obtain v' where v': "update_in env clk' b' x' o2 who' gid v' s1 = Inr (g', s2)" "gu_action v' = Resume"
    using assms(9,10) GoalUpdate_action by (fastforce simp: update_goal_def)
  have k1: "keeps env UNIV s1" "quiet ?s s1" using update_in_keeps [OF ks _ v(1)] by auto
  obtain s3 where s3: "rows_ok env s3" "goal_at s3 k = Some r" "s1 = stop_children clk Pause Paused gid who s3"
    using family_update [OF ks assms(3) q(1,2) _ v(1)] v(2) assms(4) q(3) by auto
  define c where "c = stopped Pause Paused gid (g_doc r)"
  have c1: "goal_at s1 k = Some (row_of c r)"
    using stop_children_row [OF s3(1,2) assms(5), of clk Pause Paused who] assms(6)
    by (simp add: s3(3) c_def TERMINAL_def)
  have c: "status c = Paused" "paused_by_parent c = Some gid" "before_parent_pause c = Some (status (g_doc r))"
    using assms(6) by (simp_all add: c_def stopped_def)
  obtain q1 where q1: "goal_at s1 gid = Some q1" "parent_goal_id (g_doc q1) = None"
    using k1(2) q(1,2) by (cases "goal_at s1 gid") (auto simp: quiet_def core_def dest: fun_cong [where x = gid])
  obtain s4 where s4: "rows_ok env s4" "goal_at s4 k = Some (row_of c r)" "s2 = resume_children clk' gid who' s4"
    using family_update [OF k1(1) assms(3) q1 _ v'(1)] v'(2) c1 q(3) by auto
  have "goal_at s2 k = Some (row_of (restored c) (row_of c r))"
    using resume_children_row [OF s4(1,2), of gid] c s4(3) by simp
  then show ?thesis using c1 c by (auto simp: restored_def)
qed

section \<open>A concrete history\<close>

text \<open>A long goal with one child: the child is dispatched first, reserves, runs and finishes.\<close>

definition sample_clocks :: "int \<Rightarrow> clocks" where
  "sample_clocks n = \<lparr>db_now = n, py_now = n, db_tick = (\<lambda>_. n), py_tick = (\<lambda>_. n)\<rparr>"

definition sample_penv :: pursuit_env where
  "sample_penv = \<lparr>json_loads = (\<lambda>_. None), json_dumps = (\<lambda>_. []), sha256_hex = (\<lambda>_. []), uuid5_url = (\<lambda>_. []),
     parse_uuid = (\<lambda>t. if t = [] then None else Some t), task_live = (\<lambda>_. True), iso_text = (\<lambda>_. []),
     json_repr = (\<lambda>_. []), two_decimals = (\<lambda>_. []), tie_rank = (\<lambda>_. 0)\<rparr>"

lemma sample_canonical: "canonical sample_penv"
  by (auto simp: canonical_def sample_penv_def)

definition parent_spec :: create_goal where
  "parent_spec = sample_spec\<lparr>cg_kind := Long\<rparr>"

definition child_spec :: create_goal where
  "child_spec = sample_spec\<lparr>cg_parent_goal_id := Some ''p'', cg_priority := 1\<rparr>"

definition sample_end :: run_end where
  "sample_end = \<lparr>re_run = None, re_tokens = 80, re_cost = Usd 0, re_error = [], re_exhausted = False,
     re_checkpoint = [], re_interrupted = False\<rparr>"

definition started :: "pursuit_cmd list" where
  "started = [PEnable True, PCreate (sample_clocks 0) ''p'' parent_spec ''op'',
     PCreate (sample_clocks 0) ''k'' child_spec ''main'']"

definition claimed :: "pursuit_cmd list" where
  "claimed = started @ [PClaim (sample_clocks 1) ''a'']"

definition reserved :: "pursuit_cmd list" where
  "reserved = claimed @ [PReserve (sample_clocks 2) ''k'' ''a'' ''x'' 70]"

definition finished :: "pursuit_cmd list" where
  "finished = reserved @ [PFinish (sample_clocks 3) ''k'' ''a'' sample_end]"

definition canceled :: "pursuit_cmd list" where
  "canceled = started @ [PUpdate (sample_clocks 1) None None True ''op'' ''p'' (sample_update Cancel 1)]"

definition paused :: "pursuit_cmd list" where
  "paused = started @ [PUpdate (sample_clocks 1) None None True ''op'' ''p'' (sample_update Pause 1)]"

lemma sample_cmds:
  "list_all (canonical_cmd sample_penv) started" "list_all (canonical_cmd sample_penv) claimed"
  "list_all (canonical_cmd sample_penv) reserved" "list_all (canonical_cmd sample_penv) finished"
  "list_all (canonical_cmd sample_penv) canceled"
  by code_simp+

lemma not_isl: "\<not> isl r \<Longrightarrow> \<exists>x. r = Inr x"
  by (cases r) auto

theorem goal_families_settled_witness:
  "\<exists>r. goal_at (history_state sample_penv canceled) ''k'' = Some r \<and> status (g_doc r) \<in> {Complete, Canceled}"
proof -
  let ?s = "history_state sample_penv canceled"
  have "map_option (\<lambda>r. parent_goal_id (g_doc r)) (goal_at ?s ''k'') = Some (Some ''p'')" by code_simp
  then obtain r where r: "goal_at ?s ''k'' = Some r" "parent_goal_id (g_doc r) = Some ''p''" by auto
  have "map_option (\<lambda>r. status (g_doc r)) (goal_at ?s ''p'') = Some Canceled" by code_simp
  moreover have "parse_uuid sample_penv gid = Some ''p'' \<Longrightarrow> gid = ''p''" for gid
    by (simp add: sample_penv_def split: if_splits)
  ultimately show ?thesis using goal_families_settled [OF sample_canonical sample_cmds(5) r] r by auto
qed

text \<open>
  The exemption is needed: where \<open>P\<close> is another spelling of \<open>p\<close>, canceling \<open>P\<close> cancels the
  parent and misses its child, which stays queued.
\<close>

lemma misspelled_cancel:
  "let env = sample_penv\<lparr>parse_uuid := (\<lambda>t. if t = [] then None else if t = ''P'' then Some ''p'' else Some t)\<rparr>;
       s = history_state env (started @ [PUpdate (sample_clocks 1) None None True ''op'' ''P'' (sample_update Cancel 1)])
   in map_option (\<lambda>r. status (g_doc r)) (goal_at s ''p'') = Some Canceled \<and>
      map_option (\<lambda>r. status (g_doc r)) (goal_at s ''k'') = Some Queued"
  by code_simp

theorem tokens_charged_once_witness:
  "\<exists>r. goal_at (history_state sample_penv finished) ''p'' = Some r \<and> tokens_used (g_doc r) = 80 \<and>
    sum_list (map (\<lambda>(a, w). if at_status w \<noteq> AttemptRunning \<and> (at_goal w = ''p'' \<or>
        par_at (history_state sample_penv finished) (at_goal w) = Some ''p'') then max 0 (at_tokens w) else 0)
      (attempts_tbl (history_state sample_penv finished))) = 80"
proof -
  have "map_option (\<lambda>r. tokens_used (g_doc r)) (goal_at (history_state sample_penv finished) ''p'') = Some 80" by code_simp
  then obtain r where r: "goal_at (history_state sample_penv finished) ''p'' = Some r" "tokens_used (g_doc r) = 80" by auto
  from tokens_charged_once [OF sample_canonical sample_cmds(4) r(1)] r show ?thesis by auto
qed

theorem one_coordinator_witness:
  "\<exists>w. running_usage ''a'' (history_state sample_penv claimed) = Some w \<and> at_goal w = ''k''"
proof -
  have "holder (history_state sample_penv claimed) ''k'' = Some ''a''" by code_simp
  then show ?thesis using one_coordinator [OF sample_canonical sample_cmds(2), of "''k''" "''k''" "''a''"] by blast
qed

theorem dispatch_sound_witness:
  "\<exists>g t. claim sample_penv (sample_clocks 1) ''a'' (history_state sample_penv started) = Inr (Some g, t) \<and>
     goal_id g = ''k'' \<and> status g = Running"
proof -
  let ?c = "claim sample_penv (sample_clocks 1) ''a'' (history_state sample_penv started)"
  have "(case ?c of Inr (Some g, t) \<Rightarrow> goal_id g = ''k'' | _ \<Rightarrow> False)" by code_simp
  then obtain g t where c: "?c = Inr (Some g, t)" "goal_id g = ''k''"
    by (auto split: sum.splits option.splits)
  from dispatch_sound [OF sample_canonical sample_cmds(1) c(1)] c show ?thesis by blast
qed

theorem claim_idle_witness:
  "\<exists>t. claim sample_penv (sample_clocks 1) ''b'' (history_state sample_penv claimed) = Inr (None, t) \<and>
     ((\<exists>k. holder t k \<noteq> None) \<or> (\<exists>j < 50. next_ready sample_penv (db_tick (sample_clocks 1) j) t = None) \<or>
      (\<exists>s1. reconcile sample_penv (sample_clocks 1) (history_state sample_penv claimed) = Inr s1 \<and>
         50 \<le> card (ceiling_blocked s1 t)))"
proof -
  let ?c = "claim sample_penv (sample_clocks 1) ''b'' (history_state sample_penv claimed)"
  have "(case ?c of Inr (None, t) \<Rightarrow> True | _ \<Rightarrow> False)" by code_simp
  then obtain t where c: "?c = Inr (None, t)" by (auto split: sum.splits option.splits)
  have "store_enabled (history_state sample_penv claimed)" by code_simp
  from claim_idle [OF sample_canonical sample_cmds(2) this c] c show ?thesis by blast
qed

theorem stale_worker_fenced_witness:
  "\<exists>w. dict_get (attempts_tbl (history_state sample_penv (finished @ [PClaim (sample_clocks 4) ''b'']))) ''a'' = Some w \<and>
     at_tokens w = 80 \<and>
     finish sample_penv (sample_clocks 5) ''k'' ''a'' sample_end (history_state sample_penv (finished @ [PClaim (sample_clocks 4) ''b''])) =
       Inr (history_state sample_penv (finished @ [PClaim (sample_clocks 4) ''b'']))"
proof -
  have "map_option (\<lambda>w. (at_status w, at_tokens w)) (dict_get (attempts_tbl (history_state sample_penv finished)) ''a'') =
      Some (AttemptFinished, 80)" by code_simp
  then obtain w where w: "dict_get (attempts_tbl (history_state sample_penv finished)) ''a'' = Some w"
    "at_status w \<noteq> AttemptRunning" "at_tokens w = 80" by auto
  have "list_all (canonical_cmd sample_penv) (finished @ [PClaim (sample_clocks 4) ''b''])" using sample_cmds(4) by simp
  from stale_worker_fenced [OF sample_canonical this w(1,2)] w(3) show ?thesis by blast
qed


theorem family_budget_holds_witness:
  "\<exists>t r. durable_reserve sample_penv (sample_clocks 2) ''k'' ''a'' (history_state sample_penv claimed) ''x'' 70 = Inr t \<and>
     goal_at t ''k'' = Some r \<and>
     tokens_used (g_doc r) + reserved_total ''a'' (reservations_tbl t) \<le> token_budget_of (g_doc r)"
proof -
  let ?c = "durable_reserve sample_penv (sample_clocks 2) ''k'' ''a'' (history_state sample_penv claimed) ''x'' 70"
  have "\<not> isl ?c" by code_simp
  then obtain t where c: "?c = Inr t" using not_isl by blast
  from family_budget_holds [OF sample_canonical sample_cmds(2) c] c show ?thesis by blast
qed

theorem durable_overrun_final_witness:
  "\<exists>t e. durable_settle (sample_clocks 3) ''k'' ''a'' (history_state sample_penv reserved) ''x'' (Some 75) = Inr (True, t) \<and>
     durable_reserve sample_penv (sample_clocks 4) ''k'' ''a'' t ''y'' 1 = Inl e"
proof -
  let ?c = "durable_settle (sample_clocks 3) ''k'' ''a'' (history_state sample_penv reserved) ''x'' (Some 75)"
  have "(case ?c of Inr (b, t) \<Rightarrow> b | _ \<Rightarrow> False)" by code_simp
  then obtain t where c: "?c = Inr (True, t)" by (auto split: sum.splits)
  from durable_overrun_final [OF sample_canonical sample_cmds(3) c, where ops = "[]"] c show ?thesis by auto
qed

text \<open>An operator's resume of a goal without a parent succeeds below its ceilings.\<close>

lemma resume_top:
  assumes "goal_at s gid = Some r" "parse_uuid env gid = Some gid" "parent_goal_id (g_doc r) = None"
    and "status (g_doc r) \<notin> TERMINAL" "exceeded (py_now clk) (g_doc r) = None"
    and u: "u = sample_update Resume (version (g_doc r))" "1 \<le> version (g_doc r)"
  shows "\<not> isl (update_goal env clk None None True actor gid u s)"
proof -
  have raw: "GoalUpdate (parse_uuid env) u = Inr u"
    using u(2) by (simp add: GoalUpdate_def u(1) sample_update_def len_between_def opt_all_def)
  have "raise_ceilings (py_now clk) u (g_doc r) = g_doc r" by (simp add: raise_ceilings_def u(1) sample_update_def)
  then obtain h where h: "transition (py_now clk) True u (g_doc r) = Inr h" "parent_goal_id h = None"
    using assms(3-5) by (auto simp: transition_def transition_guard_def do_resume_def u(1) sample_update_def
        finish_transition_def Let_def)
  have p: "parent_of h = None" using h(2) by (simp add: parent_of_def)
  have act: "gu_action u = Resume" "gu_task_id u = None" by (simp_all add: u(1) sample_update_def)
  have "\<exists>x. update_in env clk None None True actor gid u s = Inr x"
    using assms(1,2) h(1) p act
    by (simp add: update_in_def goal_locked_def before_transition_def after_transition_def edit_links_def
        commit_update_def tell_parent_def Let_def)
  then show ?thesis using raw by (auto simp: update_goal_def)
qed

theorem pause_resume_roundtrip_witness:
  "\<exists>g s1 g' s2 r2.
     update_goal sample_penv (sample_clocks 1) None None True ''op'' ''p'' (sample_update Pause 1)
       (history_state sample_penv started) = Inr (g, s1) \<and>
     update_goal sample_penv (sample_clocks 2) None None True ''op'' ''p'' (sample_update Resume 2) s1 = Inr (g', s2) \<and>
     goal_at s2 ''k'' = Some r2 \<and> status (g_doc r2) = Queued"
proof -
  let ?s = "history_state sample_penv started"
  let ?u = "update_goal sample_penv (sample_clocks 1) None None True ''op'' ''p'' (sample_update Pause 1) ?s"
  have c: "parse_uuid sample_penv ''p'' = Some ''p''" by (simp add: sample_penv_def)
  let ?v = "update_goal sample_penv (sample_clocks 2) None None True ''op'' ''p'' (sample_update Resume 2)"
  have "\<not> isl ?u" by code_simp
  then obtain g s1 where u: "?u = Inr (g, s1)" using not_isl by fastforce
  then have "history_state sample_penv paused = s1"
    by (simp add: history_state_def paused_def exec_all_append)
  moreover have "\<not> isl (?v (history_state sample_penv paused))"
  proof -
    have "map_option (\<lambda>r. (parent_goal_id (g_doc r), status (g_doc r), version (g_doc r), exceeded 2 (g_doc r)))
        (goal_at (history_state sample_penv paused) ''p'') = Some (None, Paused, 2, None)" by code_simp
    then obtain q where q: "goal_at (history_state sample_penv paused) ''p'' = Some q" "parent_goal_id (g_doc q) = None"
      "status (g_doc q) = Paused" "version (g_doc q) = 2" "exceeded 2 (g_doc q) = None" by auto
    have ex: "exceeded (py_now (sample_clocks 2)) (g_doc q) = None" using q(5) by (simp add: sample_clocks_def)
    show ?thesis
      by (rule resume_top [OF q(1) c q(2) _ ex]) (simp_all only: q(3,4) TERMINAL_def, simp_all)
  qed
  ultimately obtain g' s2 where v: "?v s1 = Inr (g', s2)" using not_isl by fastforce
  have "map_option (\<lambda>r. (parent_goal_id (g_doc r), status (g_doc r))) (goal_at ?s ''k'') = Some (Some ''p'', Queued)" by code_simp
  then obtain r where r: "goal_at ?s ''k'' = Some r" "parent_goal_id (g_doc r) = Some ''p''" "status (g_doc r) = Queued" by auto
  have a: "gu_action (sample_update Pause 1) = Pause" "gu_action (sample_update Resume 2) = Resume" by (simp_all add: sample_update_def)
  have st: "status (g_doc r) \<notin> {Paused, Complete, Canceled}" using r(3) by simp
  from pause_resume_roundtrip [OF sample_canonical sample_cmds(1) c r(1,2) st u(1) a(1) v a(2)]
  obtain r2 where "goal_at s2 ''k'' = Some r2" "status (g_doc r2) = (if status (g_doc r) = Running then Queued else status (g_doc r))"
    by blast
  then have "goal_at s2 ''k'' = Some r2" "status (g_doc r2) = Queued" using r(3) by simp_all
  then show ?thesis using u(1) v by blast
qed

end
