(* ===== verification/Spec2Isabelle.thy ===== *)
theory Spec2Isabelle
  imports Prelude Federation_Models Federation_Sync Permissions Federation_Connections
    Federation_Handshake Federation_Responder Goals Spend_Limits Treasury_Ledger Treasury_Policy
    Execution_Lanes Model_Breaker Effects Delegated_Freeze Delegated_Leases
    Local_Login Session_Standing Goal_Pursuit
begin

text \<open>
  A verification library for the core logic of Genus OS (the \<open>robothor\<close> package under
  \<open>src/robothor\<close>): an operating environment for agents that run on several instances, act for
  several tenants, spend money under a policy and pursue goals over days. The library models
  the parts that decide, count and remember; it leaves out what talks to the outside.

  \<^bold>\<open>Parts and theories.\<close>
  \<^item> \<open>Prelude\<close>: results of code that may raise (\<open>error + 'a\<close>), Python dictionaries as
    association lists, the string operations the code uses, JSON values, the record \<open>codec\<close> of
    library functions, and the locale \<open>guarded_machine\<close> with its rules for runs of commands.
  \<^item> \<open>Federation_Models\<close>, \<open>Federation_Sync\<close>, \<open>Federation_Connections\<close>,
    \<open>Federation_Handshake\<close>, \<open>Federation_Responder\<close> (\<open>federation/models.py\<close>, \<open>sync.py\<close>,
    \<open>connections.py\<close>, \<open>handshake.py\<close>, \<open>rls_gate.py\<close>, \<open>engine/federation_responder.py\<close>): the
    hybrid logical clock, the event journal, the connection state machine with its exports and
    its rows, pairing by a signed hello and ack, and the handler of inbound messages, which calls
    the handshake, the exports and the permission check before any op runs.
  \<^item> \<open>Permissions\<close> (\<open>engine/permissions.py\<close>): patterns, choice of the deciding rule, the rule
    cache with its generation counter, and the search for accessible tenants.
  \<^item> \<open>Goals\<close> (\<open>goals/model.py\<close>): creation, ceilings and the complete \<open>transition\<close> function.
  \<^item> \<open>Goal_Store\<close>, \<open>Goal_Dispatch\<close>, \<open>Provider_Budget\<close> (\<open>goals/store.py\<close>, \<open>effect_summary.py\<close>,
    \<open>evidence.py\<close>, \<open>provider_ledger.py\<close>, \<open>runtime.py\<close>, \<open>engine/runtime/budget.py\<close>): the tables of a
    tenant's goals as one record \<open>gstore\<close>. \<open>update_goal\<close> surrounds \<open>transition\<close> with what it does
    to parent, children, linked tasks and the effect ledger; \<open>claim\<close> recovers dead runs, wakes
    waiting goals, blocks those at a ceiling and leases the next one; \<open>finish\<close> settles a run and
    charges goal and parent; provider requests are reserved before they leave, durably or in
    memory, under one contract (locale \<open>provider_budget\<close>). Each transaction is a constructor of
    \<open>Goal_Pursuit.pursuit_cmd\<close>. \<open>Goal_Family\<close> proves what every command keeps of the rows and
    families, \<open>Goal_Accounts\<close> of leases, charges and reservations, and \<open>Goal_Pursuit\<close> states the
    properties of all histories.
  \<^item> \<open>Spend_Limits\<close>, \<open>Treasury_Ledger\<close>, \<open>Treasury_Policy\<close> (\<open>entity/spend_limits.py\<close>,
    \<open>audit.py\<close>, \<open>ledger.py\<close>, \<open>policy.py\<close>, \<open>payments.py\<close>, \<open>providers.py\<close>, \<open>authority.py\<close>):
    decimal money at 28 digits, the limit decision, the redacted hash-chained ledger, the
    decision engine over its idempotency store, and the authority boundary above it.
  \<^item> \<open>Execution_Lanes\<close> and \<open>Model_Breaker\<close> (\<open>engine/lanes.py\<close>, \<open>engine/model_breaker.py\<close>): the
    slots concurrent runs share, as atomic steps under the code's lock, and the circuit breaker.
  \<^item> \<open>Effects\<close> (\<open>engine/runtime/effects.py\<close> and the modules that write its table): the durable
    ledger of tool calls that may have an outside effect, as a table and its transactions.

  \<^item> \<open>Delegation_Models\<close>, \<open>Payments\<close>, \<open>Payment_Summary\<close>, \<open>Delegated_Store\<close>,
    \<open>Delegated_Journal\<close>, \<open>Delegated_Workflows\<close>, \<open>Delegated_Handoffs\<close> (\<open>autonomy/models.py\<close>,
    \<open>budget.py\<close>, \<open>payment_lifecycle.py\<close>, \<open>payment_groups.py\<close>, \<open>payment_hold.py\<close>, \<open>store.py\<close>,
    \<open>payment_journal.py\<close>, \<open>workflows/store.py\<close>, \<open>handoffs.py\<close>, \<open>handoff_recovery.py\<close>): spending an
    owner has delegated. A grant bounds it, a reservation holds room in the monthly budget,
    \<open>begin_submit\<close> is the gate before the shop is touched, the journal collects the payment
    evidence of an operation and puts a grant on hold when the evidence exceeds it, workflows
    own the browser, and handoffs ask the owner or a leased checker. The tables of one owner
    are one record; each transaction under the owner's advisory lock is one constructor of
    \<open>Delegated_Spending.command\<close>, and the runs of all of them together are treated in
    \<open>Delegated_Spending\<close>, \<open>Delegated_Budget\<close>, \<open>Delegated_Freeze\<close> and \<open>Delegated_Leases\<close>.

  \<^item> \<open>Totp\<close>, \<open>Attempt_Limits\<close>, \<open>Auth_Tokens\<close>, \<open>Accounts\<close>, \<open>Local_Login\<close>,
    \<open>Session_Standing\<close> (\<open>auth/totp.py\<close>, \<open>local_login.py\<close>, \<open>tokens.py\<close>, \<open>passwords.py\<close>,
    \<open>mfa_secrets.py\<close>, \<open>accounts.py\<close>, \<open>session_standing.py\<close>, \<open>crm/bridge/routers/auth.py\<close>): local
    sign-in. The limiters come first and refine one that forgets nothing; a request reads the
    account row, \<open>judge\<close> decides on that snapshot and \<open>settle\<close> writes, so overlapping requests are
    interleavings of \<open>login_tx\<close>; sessions are rotated with a grace window, and the standing of an
    account is cached with a bound on its age.

  \<^bold>\<open>How state and operations correspond.\<close> A Python object with attributes is a record, an enum a
  datatype with the enum's names, a dictionary an association list in insertion order, a SQL
  table the list of its rows. A method is a function from the old state to the new one and its
  value; an exception is \<open>Inl\<close> of its class. The text of messages and log lines is dropped.
  Every operation checks before it writes, so a caller that catches an exception goes on with
  the old state; a run of a component is \<open>exec_all\<close> over its commands. Concurrency is
  interleaving: each operation under a lock, or each database transaction, is one command.

  \<^bold>\<open>Parameters.\<close> Code that is not in the repository is an argument: the JSON codec, SHA-256 and
  \<open>uuid5\<close> (\<open>codec\<close>), Ed25519 signatures, the clock (integers of microseconds or milliseconds),
  fresh identifiers, the case normalisation of Pydantic, and for delegated spending the keyed
  hash of plans and the splitting of an address into its parts, for sign-in HMAC-SHA-1, argon2,
  AES-GCM and the JWT encoder, for pursuit the parsing of UUIDs, the texts of times and values, and
  the order the database gives to rows its sort key does not tell apart. Properties of hash chains are
  stated up to a collision of the very documents compared, a disjunct and not an assumption.

  \<^bold>\<open>What the lemmas show.\<close> Each theory proves the frame and invariant laws of its operations,
  discharges the locale of its runs on them, and ends with properties: what can be reached
  (lanes, connections, goals, cache, effects), what a decision means (permissions, spend
  limits, authority, pairing), what persists (ledger, decisions, recorded responses, ended
  operations, closed attempts), what is never exceeded (budgets, holds, leases), what is not left
  undone (ready goals, dead runs) and round trips (codes, pause and resume). Each property with
  hypotheses is applied once to a concrete state. Recursion is structural or has a measure; no fuel is used except the depth
  bound of the tenant search and of the redaction and the fifty rounds of the ceiling sweep, which
  the code has itself; the recursive family query is bounded by the number of goals.

  \<^bold>\<open>Not modelled.\<close> Network and model clients, tool handlers and schemas, the CRM and memory data
  layers, settings, command line, user interfaces and templates: input and output around
  services. The browser of delegated web work, the vault of its secrets and its retention jobs.
  Regular expressions of the secret redaction are a parameter. Of pursuit: the asynchronous
  controller around the runner, the copy of bus streams into the inbox, the read views of goals,
  the tools that create or probe linked tasks, and the operator's notifications.
\<close>

end
